(* ===== verification/Bridge_Prelude.thy ===== *)
theory Bridge_Prelude
  imports Main "HOL-Library.Word"
begin

text \<open>
  Shared vocabulary of the development: fixed-width integers, C strings held in
  character arrays, byte-order helpers, decimal and hexadecimal printing, and the
  control-flow values of C loops.  A \<^verbatim>\<open>char\<close> array of the source is modelled by
  the C string it holds, the bytes before the first NUL; \<open>c_str_strncpy_array\<close>
  justifies reading \<^verbatim>\<open>strncpy\<close> as truncation on that abstraction.
\<close>

unbundle bit_operations_syntax

section \<open>Types\<close>

type_synonym u8 = "8 word"
type_synonym u16 = "16 word"
type_synonym u32 = "32 word"
type_synonym u64 = "64 word"
type_synonym bytes = "u8 list"

text \<open>
  What a C computation does: \<open>None\<close> when it never returns, \<open>Some (Inl e)\<close> when it
  reaches undefined behaviour, \<open>Some (Inr x)\<close> when it returns \<open>x\<close>.
\<close>

datatype c_ub = Negative_memcpy | Buffer_overflow

type_synonym 'a run = "(c_ub + 'a) option"

text \<open>The body of a loop either falls through with new locals or leaves the function.\<close>

datatype ('a, 'r) ctl = Continue 'a | Return 'r

named_theorems wire_simps \<open>encoders and decoders unfolded on concrete prefixes\<close>

section \<open>C strings\<close>

definition c_str :: "bytes \<Rightarrow> bytes" where
  "c_str b = takeWhile (\<lambda>x. x \<noteq> 0) b"

definition is_cstr :: "bytes \<Rightarrow> bool" where
  "is_cstr s \<longleftrightarrow> 0 \<notin> set s"

text \<open>\<^verbatim>\<open>strncpy(dst, src, n)\<close> on the array itself: copies, then fills with zeros.\<close>

definition strncpy_array :: "bytes \<Rightarrow> bytes \<Rightarrow> nat \<Rightarrow> bytes" where
  "strncpy_array dst src n = take n (c_str src @ replicate n 0) @ drop n dst"

text \<open>Its effect on the string held by a zero-terminated array of \<open>n + 1\<close> bytes.\<close>

definition strncpy :: "nat \<Rightarrow> bytes \<Rightarrow> bytes" where
  "strncpy n src = take n (c_str src)"

text \<open>\<^verbatim>\<open>snprintf(out, n, ...)\<close>: the formatted string cut to \<open>n - 1\<close> bytes.\<close>

definition snprintf :: "nat \<Rightarrow> bytes \<Rightarrow> bytes" where
  "snprintf n s = take (n - 1) (c_str s)"

definition ascii :: "string \<Rightarrow> bytes" where
  "ascii s = map of_char s"

definition hex_digit :: "u8 \<Rightarrow> u8" where
  "hex_digit d = (if d < 10 then 48 + d else 87 + d)"

text \<open>\<^verbatim>\<open>%02x\<close> of a byte and \<^verbatim>\<open>%08x\<close> of a 32-bit value.\<close>

definition hex2 :: "u8 \<Rightarrow> bytes" where
  "hex2 b = [hex_digit (drop_bit 4 b), hex_digit (b AND 15)]"

definition hex8 :: "u32 \<Rightarrow> bytes" where
  "hex8 w = hex2 (ucast (drop_bit 24 w)) @ hex2 (ucast (drop_bit 16 w)) @
            hex2 (ucast (drop_bit 8 w)) @ hex2 (ucast w)"

text \<open>\<^verbatim>\<open>%u\<close>, \<^verbatim>\<open>%d\<close> and \<^verbatim>\<open>%02u\<close>.\<close>

fun dec_nat :: "nat \<Rightarrow> bytes" where
  "dec_nat n = (if n < 10 then [48 + of_nat n] else dec_nat (n div 10) @ [48 + of_nat (n mod 10)])"

declare dec_nat.simps [simp del]

definition dec_int :: "int \<Rightarrow> bytes" where
  "dec_int i = (if i < 0 then 45 # dec_nat (nat (- i)) else dec_nat (nat i))"

definition dec2 :: "nat \<Rightarrow> bytes" where
  "dec2 n = (if n < 10 then 48 # dec_nat n else dec_nat n)"

section \<open>Byte order\<close>

definition put_u16_be :: "u16 \<Rightarrow> bytes" where
  "put_u16_be w = [ucast (drop_bit 8 w), ucast (w AND 0xFF)]"

definition put_u32_le :: "u32 \<Rightarrow> bytes" where
  "put_u32_le w = [ucast w, ucast (drop_bit 8 w), ucast (drop_bit 16 w), ucast (drop_bit 24 w)]"

definition get_u32_le :: "bytes \<Rightarrow> u32" where
  "get_u32_le b = ucast (b ! 0) OR push_bit 8 (ucast (b ! 1)) OR
                  push_bit 16 (ucast (b ! 2)) OR push_bit 24 (ucast (b ! 3))"

definition put_u32_be :: "u32 \<Rightarrow> bytes" where
  "put_u32_be w = [ucast (drop_bit 24 w), ucast (drop_bit 16 w), ucast (drop_bit 8 w), ucast w]"

definition get_u32_be :: "bytes \<Rightarrow> u32" where
  "get_u32_be b = push_bit 24 (ucast (b ! 0)) OR push_bit 16 (ucast (b ! 1)) OR
                  push_bit 8 (ucast (b ! 2)) OR ucast (b ! 3)"

definition put_u64_be :: "u64 \<Rightarrow> bytes" where
  "put_u64_be w = map (\<lambda>i. ucast (drop_bit (i * 8) w)) [7, 6, 5, 4, 3, 2, 1, 0]"

section \<open>Configuration the components share\<close>

definition BRIDGE_NAME :: bytes where "BRIDGE_NAME = ascii ''BitBridge''"
definition BITCHAT_ANNOUNCE_INTERVAL_MS :: u32 where "BITCHAT_ANNOUNCE_INTERVAL_MS = 60000"

section \<open>Sequences of handlers\<close>

text \<open>Handlers run one after the other; each returns the new state and what it puts out.\<close>

fun run_all :: "('x \<Rightarrow> 'm \<Rightarrow> 'x \<times> 'o list) \<Rightarrow> 'x \<Rightarrow> 'm list \<Rightarrow> 'x \<times> 'o list" where
  "run_all f x [] = (x, [])"
| "run_all f x (m # ms) =
     (let (x, outs) = f x m; (x, outs') = run_all f x ms in (x, outs @ outs'))"

lemma run_all_invar:
  assumes "\<And>x m. I x \<Longrightarrow> I (fst (f x m))" and "I x"
  shows "I (fst (run_all f x ms))"
  using assms(2)
proof (induction ms arbitrary: x)
  case (Cons m ms)
  from Cons.IH [OF assms(1) [OF Cons.prems, of m]] show ?case by (simp add: split_beta)
qed simp

lemma run_all_keeps:
  assumes "\<And>x m. F (fst (f x m)) = F x"
  shows "F (fst (run_all f x ms)) = F x"
proof (induction ms arbitrary: x)
  case (Cons m ms)
  then show ?case using assms by (simp add: split_beta)
qed simp

lemma run_all_outs:
  assumes "\<And>x m. list_all P (snd (f x m))"
  shows "list_all P (snd (run_all f x ms))"
  by (induction ms arbitrary: x) (simp_all add: split_beta assms)

section \<open>Lemmas on C strings\<close>

lemma is_cstr_c_str [simp]: "is_cstr (c_str b)"
  unfolding is_cstr_def c_str_def using set_takeWhileD by fastforce

lemma c_str_is_cstr [simp]: "is_cstr s \<Longrightarrow> c_str s = s"
  unfolding is_cstr_def c_str_def by (induction s) auto

lemma is_cstr_take [simp]: "is_cstr s \<Longrightarrow> is_cstr (take n s)"
  unfolding is_cstr_def by (meson in_set_takeD)

lemma is_cstr_drop [simp]: "is_cstr s \<Longrightarrow> is_cstr (drop n s)"
  unfolding is_cstr_def by (meson in_set_dropD)

lemma is_cstr_append [simp]: "is_cstr (a @ b) \<longleftrightarrow> is_cstr a \<and> is_cstr b"
  unfolding is_cstr_def by auto

lemma is_cstr_Nil [simp]: "is_cstr []"
  unfolding is_cstr_def by simp

lemma is_cstr_Cons [simp]: "is_cstr (x # s) \<longleftrightarrow> x \<noteq> 0 \<and> is_cstr s"
  unfolding is_cstr_def by auto

lemma c_str_append: "is_cstr a \<Longrightarrow> c_str (a @ b) = a @ c_str b"
  unfolding is_cstr_def c_str_def by (induction a) auto

lemma c_str_zero [simp]: "c_str (0 # b) = []"
  unfolding c_str_def by simp

lemma c_str_replicate_zero [simp]: "c_str (replicate n 0 @ b) = (if n = 0 then c_str b else [])"
  unfolding c_str_def by (cases n) auto

lemma length_c_str: "length (c_str b) \<le> length b"
  unfolding c_str_def by (rule length_takeWhile_le)

lemma c_str_take: "c_str (take n b) = take n (c_str b)"
  unfolding c_str_def by (induction b arbitrary: n) (auto simp: take_Cons split: nat.splits)

lemma c_str_strncpy_array:
  assumes "length dst = n + 1" and "dst ! n = 0"
  shows "c_str (strncpy_array dst src n) = strncpy n src"
proof -
  have "drop n dst = [0]"
    using assms by (metis Cons_nth_drop_Suc Suc_eq_plus1 drop_all le_refl lessI)
  then show ?thesis
    unfolding strncpy_array_def strncpy_def
    by (cases "length (c_str src) < n") (simp_all add: c_str_append)
qed

lemma is_cstr_strncpy [simp]: "is_cstr (strncpy n s)"
  unfolding strncpy_def by simp

lemma length_strncpy [simp]: "length (strncpy n s) \<le> n"
  unfolding strncpy_def by simp

lemma is_cstr_snprintf [simp]: "is_cstr (snprintf n s)"
  unfolding snprintf_def by simp

lemma length_snprintf: "0 < n \<Longrightarrow> length (snprintf n s) < n"
  unfolding snprintf_def by simp

section \<open>Lemmas on byte order\<close>

lemma ucast_u8_u32_u8 [simp]: "ucast (ucast (x :: u8) :: u32) = x"
  by (rule bit_word_eqI) (simp add: bit_simps)

lemma length_put [simp]:
  "length (put_u16_be x) = 2" "length (put_u32_le w) = 4" "length (put_u32_be w) = 4"
  "length (put_u64_be d) = 8"
  by (simp_all add: put_u16_be_def put_u32_le_def put_u32_be_def put_u64_be_def)

lemma u32_of_bytes:
  fixes w :: u32
  shows "ucast (ucast w :: u8) OR push_bit 8 (ucast (ucast (drop_bit 8 w) :: u8)) OR
   push_bit 16 (ucast (ucast (drop_bit 16 w) :: u8)) OR
   push_bit 24 (ucast (ucast (drop_bit 24 w) :: u8)) = w"
proof (rule bit_word_eqI)
  fix n assume "n < LENGTH(32)"
  then consider "n < 8" | "8 \<le> n \<and> n < 16" | "16 \<le> n \<and> n < 24" | "24 \<le> n \<and> n < 32"
    by force
  then show "bit (ucast (ucast w :: u8) OR push_bit 8 (ucast (ucast (drop_bit 8 w) :: u8)) OR
     push_bit 16 (ucast (ucast (drop_bit 16 w) :: u8)) OR
     push_bit 24 (ucast (ucast (drop_bit 24 w) :: u8)) :: u32) n = bit w n"
    by cases (auto simp: bit_simps)
qed

lemma get_put_u32_le [simp]: "get_u32_le (put_u32_le w @ rest) = w"
  unfolding get_u32_le_def put_u32_le_def by (simp add: u32_of_bytes)

lemma get_put_u32_be [simp]: "get_u32_be (put_u32_be w @ rest) = w"
  unfolding get_u32_be_def put_u32_be_def using u32_of_bytes [of w] by (simp add: ac_simps)

section \<open>Modular counters\<close>

lemma add_mod_inj_le:
  assumes "(c + i) mod m = (c + j) mod m" and "i \<le> j" and "j < (m :: nat)"
  shows "i = j"
proof -
  have "m dvd (c + j) - (c + i)"
    using assms(1,2) mod_eq_dvd_iff_nat [of "c + i" "c + j" m] by auto
  then have "m dvd j - i" by simp
  then have "j - i = 0"
    using assms(3) by (metis dvd_imp_le less_imp_diff_less neq0_conv not_less)
  with assms(2) show ?thesis by simp
qed

lemma add_mod_inj:
  assumes "(c + i) mod m = (c + j) mod m" and "i < m" and "j < (m :: nat)"
  shows "i = j"
  using add_mod_inj_le [of c i m j] add_mod_inj_le [of c j m i] assms
  by (cases "i \<le> j") simp_all

end
