(* ===== verification/Mesh_Proto.thy ===== *)
theory Mesh_Proto
  imports Bridge_Prelude
begin

text \<open>
  The hand-rolled protobuf encoder and decoder of \<^verbatim>\<open>src/meshtastic/mesh_proto.h\<close>.
  Encoders return the bytes they write; decoders take the bytes from a pointer on and
  the C length beside it, which can be negative: \<^verbatim>\<open>decode_field\<close> casts a 32-bit
  wire length to \<^verbatim>\<open>int\<close>.  The field loops are \<open>partial_function (option)\<close>, so a
  loop that never ends is \<open>None\<close>.  Text that \<^verbatim>\<open>printf\<close> makes of floating-point
  values is a parameter (\<open>float_fmt\<close>).
\<close>

section \<open>Constants of config.h\<close>

definition MESH_DATA_MAX :: nat where "MESH_DATA_MAX = 233"
definition MESH_MAX_PAYLOAD :: nat where "MESH_MAX_PAYLOAD = 512"
definition MESH_BROADCAST :: u32 where "MESH_BROADCAST = 0xFFFFFFFF"
definition PORTNUM_TEXT_MESSAGE_APP :: u32 where "PORTNUM_TEXT_MESSAGE_APP = 1"
definition PORTNUM_POSITION_APP :: u32 where "PORTNUM_POSITION_APP = 3"
definition PORTNUM_NODEINFO_APP :: u32 where "PORTNUM_NODEINFO_APP = 4"
definition PORTNUM_TELEMETRY_APP :: u32 where "PORTNUM_TELEMETRY_APP = 67"

lemmas proto_consts = MESH_DATA_MAX_def MESH_MAX_PAYLOAD_def MESH_BROADCAST_def
  PORTNUM_TEXT_MESSAGE_APP_def PORTNUM_POSITION_APP_def PORTNUM_NODEINFO_APP_def
  PORTNUM_TELEMETRY_APP_def

section \<open>Encoders\<close>

function encode_varint :: "u32 \<Rightarrow> bytes" where
  "encode_varint v =
     (if v > 0x7F then (ucast (v AND 0x7F) OR 0x80) # encode_varint (drop_bit 7 v)
      else [ucast (v AND 0x7F)])"
  by pat_completeness auto
termination
proof (relation "measure unat")
  fix v :: u32
  assume v: "v > 0x7F"
  have "unat (drop_bit 7 v) = unat v div 128"
    by (simp add: drop_bit_eq_div unat_div_distrib)
  moreover have "unat v > 127"
    using v by (simp add: word_less_nat_alt)
  ultimately show "(drop_bit 7 v, v) \<in> measure unat"
    by simp
qed simp

declare encode_varint.simps [simp del]

definition encode_tag :: "u32 \<Rightarrow> u8 \<Rightarrow> bytes" where
  "encode_tag field_num wire_type = encode_varint (push_bit 3 field_num OR ucast wire_type)"

definition encode_fixed32 :: "u32 \<Rightarrow> u32 \<Rightarrow> bytes" where
  "encode_fixed32 field_num value = encode_tag field_num 5 @ put_u32_le value"

definition encode_varint_field :: "u32 \<Rightarrow> u32 \<Rightarrow> bytes" where
  "encode_varint_field field_num value = encode_tag field_num 0 @ encode_varint value"

definition encode_bytes_field :: "u32 \<Rightarrow> bytes \<Rightarrow> bytes" where
  "encode_bytes_field field_num data =
     encode_tag field_num 2 @ encode_varint (of_nat (length data)) @ data"

definition encode_data :: "u32 \<Rightarrow> bytes \<Rightarrow> bytes" where
  "encode_data portnum payload = encode_varint_field 1 portnum @ encode_bytes_field 2 payload"

definition encode_mesh_packet :: "u32 \<Rightarrow> u32 \<Rightarrow> u32 \<Rightarrow> u8 \<Rightarrow> u8 \<Rightarrow> bytes \<Rightarrow> bytes" where
  "encode_mesh_packet from to pkt_id channel hop_limit data_buf =
     (if from \<noteq> 0 then encode_fixed32 1 from else []) @
     encode_fixed32 2 to @
     (if channel \<noteq> 0 then encode_varint_field 3 (ucast channel) else []) @
     encode_tag 4 2 @ encode_varint (of_nat (length data_buf)) @ data_buf @
     encode_fixed32 6 pkt_id @
     encode_varint_field 9 (ucast hop_limit)"

text \<open>The overload without \<^verbatim>\<open>from\<close>.\<close>

definition encode_mesh_packet_nofrom :: "u32 \<Rightarrow> u32 \<Rightarrow> u8 \<Rightarrow> u8 \<Rightarrow> bytes \<Rightarrow> bytes" where
  "encode_mesh_packet_nofrom to pkt_id channel hop_limit data_buf =
     encode_mesh_packet 0 to pkt_id channel hop_limit data_buf"

text \<open>Strings of \<^verbatim>\<open>encode_user\<close>: \<open>None\<close> is the null pointer.\<close>

definition encode_string_field :: "u32 \<Rightarrow> bytes option \<Rightarrow> bytes" where
  "encode_string_field field_num s =
     (case s of None \<Rightarrow> []
      | Some str \<Rightarrow> if c_str str \<noteq> [] then encode_bytes_field field_num (c_str str) else [])"

definition encode_user ::
    "bytes option \<Rightarrow> bytes option \<Rightarrow> bytes option \<Rightarrow> u32 \<Rightarrow> u32 \<Rightarrow> bytes" where
  "encode_user user_id long_name short_name hw_model role =
     encode_string_field 1 user_id @ encode_string_field 2 long_name @
     encode_string_field 3 short_name @
     encode_varint_field 5 hw_model @ encode_varint_field 7 role"

definition encode_to_radio_packet :: "bytes \<Rightarrow> bytes" where
  "encode_to_radio_packet mesh_packet =
     encode_tag 1 2 @ encode_varint (of_nat (length mesh_packet)) @ mesh_packet"

definition encode_to_radio_want_config :: "u32 \<Rightarrow> bytes" where
  "encode_to_radio_want_config config_id = encode_varint_field 3 config_id"

definition encode_to_radio_heartbeat :: bytes where
  "encode_to_radio_heartbeat = encode_tag 7 2 @ [0]"

section \<open>Decoders\<close>

text \<open>
  \<^verbatim>\<open>decode_varint\<close>: the number of bytes read, or -1, and the value accumulated so far.
  The list is the memory from \<^verbatim>\<open>buf + i\<close> on; its end stands for the end of the
  buffer, which no caller lets the loop pass (\<open>len\<close> never exceeds it).
\<close>

fun decode_varint_loop :: "nat \<Rightarrow> u32 \<Rightarrow> int \<Rightarrow> bytes \<Rightarrow> int \<times> u32" where
  "decode_varint_loop i value len [] = (-1, value)"
| "decode_varint_loop i value len (b # buf) =
     (if int i < len \<and> i < 5 then
        let value' = value OR push_bit (7 * i) (ucast (b AND 0x7F)) in
        if b AND 0x80 = 0 then (int i + 1, value')
        else decode_varint_loop (Suc i) value' len buf
      else (-1, value))"

definition decode_varint :: "bytes \<Rightarrow> int \<Rightarrow> int \<times> u32" where
  "decode_varint buf len = decode_varint_loop 0 0 len buf"

datatype pf_value =
    Varint_val u32
  | Bytes_val bytes int  \<comment> \<open>the memory from the data pointer on, and the C length\<close>
  | Fixed32_val u32
  | No_val

record proto_field =
  field_num :: u32
  wire_type :: u8
  field_value :: pf_value

definition no_field :: proto_field where
  "no_field = \<lparr>field_num = 0, wire_type = 0, field_value = No_val\<rparr>"

definition decode_field :: "bytes \<Rightarrow> int \<Rightarrow> int \<times> proto_field" where
  "decode_field buf buf_len =
     (if buf_len \<le> 0 then (-1, no_field) else
      let (pos, tag) = decode_varint buf buf_len in
      if pos < 0 then (-1, no_field) else
      let fnum = drop_bit 3 tag; wt = ucast (tag AND 7);
          f = (\<lambda>v. \<lparr>field_num = fnum, wire_type = wt, field_value = v\<rparr>);
          rest = drop (nat pos) buf in
      if wt = 0 then
        let (n, v) = decode_varint rest (buf_len - pos) in
        if n < 0 then (-1, f No_val) else (pos + n, f (Varint_val v))
      else if wt = 2 then
        let (n, len) = decode_varint rest (buf_len - pos) in
        if n < 0 \<or> pos + n + sint len > buf_len then (-1, f No_val)
        else (pos + n + sint len, f (Bytes_val (drop (nat n) rest) (sint len)))
      else if wt = 5 then
        if pos + 4 > buf_len then (-1, f No_val)
        else (pos + 4, f (Fixed32_val (get_u32_le rest)))
      else if wt = 1 then
        if pos + 8 > buf_len then (-1, f No_val) else (pos + 8, f No_val)
      else (-1, f No_val))"

text \<open>
  The loop every parser of the file is written with:
  \<^verbatim>\<open>while (pos < len) { consumed = decode_field(buf + pos, len - pos, &f); if (consumed < 0) break; pos += consumed; body }\<close>.
  The model passes the pointer \<^verbatim>\<open>buf + pos\<close> and what is left, \<^verbatim>\<open>len - pos\<close>.
\<close>

partial_function (option) field_loop ::
    "(proto_field \<Rightarrow> 'a \<Rightarrow> ('a, 'r) ctl) \<Rightarrow> bytes \<Rightarrow> int \<Rightarrow> 'a \<Rightarrow> ('a, 'r) ctl option" where
  "field_loop body buf len acc =
     (if 0 < len then
        (let (consumed, f) = decode_field buf len in
         if consumed < 0 then Some (Continue acc)
         else (case body f acc of
                 Return r \<Rightarrow> Some (Return r)
               | Continue acc' \<Rightarrow> field_loop body (drop (nat consumed) buf) (len - consumed) acc'))
      else Some (Continue acc))"

text \<open>The typed reads of the union; the parsers check the wire type first.\<close>

definition varint_val :: "proto_field \<Rightarrow> u32" where
  "varint_val f = (case field_value f of Varint_val v \<Rightarrow> v | _ \<Rightarrow> 0)"

definition fixed32_val :: "proto_field \<Rightarrow> u32" where
  "fixed32_val f = (case field_value f of Fixed32_val v \<Rightarrow> v | _ \<Rightarrow> 0)"

definition bytes_val :: "proto_field \<Rightarrow> bytes \<times> int" where
  "bytes_val f = (case field_value f of Bytes_val d n \<Rightarrow> (d, n) | _ \<Rightarrow> ([], 0))"

definition run_bind :: "'a run \<Rightarrow> ('a \<Rightarrow> 'b run) \<Rightarrow> 'b run" where
  "run_bind m k = (case m of None \<Rightarrow> None | Some (Inl e) \<Rightarrow> Some (Inl e) | Some (Inr a) \<Rightarrow> k a)"

definition scan_fields ::
    "(proto_field \<Rightarrow> 'a \<Rightarrow> ('a, c_ub) ctl) \<Rightarrow> bytes \<Rightarrow> int \<Rightarrow> 'a \<Rightarrow> 'a run" where
  "scan_fields body buf len acc =
     (case field_loop body buf len acc of
        None \<Rightarrow> None
      | Some (Return e) \<Rightarrow> Some (Inl e)
      | Some (Continue a) \<Rightarrow> Some (Inr a))"

section \<open>Position and telemetry summaries\<close>

text \<open>
  The text \<^verbatim>\<open>printf\<close> makes of floating-point values: \<^verbatim>\<open>%.4f\<close> of an E7 coordinate,
  \<^verbatim>\<open>%.1f\<close> and \<^verbatim>\<open>%.0f\<close> of the float with the given bits.
\<close>

record float_fmt =
  fmt_e7 :: "int \<Rightarrow> bytes"
  fmt_1f :: "u32 \<Rightarrow> bytes"
  fmt_0f :: "u32 \<Rightarrow> bytes"

record position_acc =
  lat_i :: "int option"
  lon_i :: "int option"
  alt :: "int option"

definition position_body :: "proto_field \<Rightarrow> position_acc \<Rightarrow> (position_acc, c_ub) ctl" where
  "position_body f a = Continue
     (if field_num f = 1 \<and> wire_type f = 5 then a\<lparr>lat_i := Some (sint (fixed32_val f))\<rparr>
      else if field_num f = 2 \<and> wire_type f = 5 then a\<lparr>lon_i := Some (sint (fixed32_val f))\<rparr>
      else if field_num f = 3 \<and> wire_type f = 0 then a\<lparr>alt := Some (sint (varint_val f))\<rparr>
      else a)"

definition pin_emoji :: bytes where "pin_emoji = [0xF0, 0x9F, 0x93, 0x8D, 0x20]"
definition battery_emoji :: bytes where "battery_emoji = [0xF0, 0x9F, 0x94, 0x8B, 0x20]"
definition thermo_emoji :: bytes where "thermo_emoji = [0xF0, 0x9F, 0x8C, 0xA1]"

text \<open>The characters written and the string in \<^verbatim>\<open>out\<close>.\<close>

definition format_position :: "float_fmt \<Rightarrow> bytes \<Rightarrow> int \<Rightarrow> nat \<Rightarrow> (nat \<times> bytes) run" where
  "format_position ff payload len out_len =
     run_bind (scan_fields position_body payload len \<lparr>lat_i = None, lon_i = None, alt = None\<rparr>)
       (\<lambda>a. case (lat_i a, lon_i a) of
          (Some lat, Some lon) \<Rightarrow>
            let s = pin_emoji @ fmt_e7 ff lat @ ascii '', '' @ fmt_e7 ff lon @
                    (case alt a of None \<Rightarrow> []
                     | Some z \<Rightarrow> ascii '' (alt '' @ dec_int z @ ascii ''m)'')
            in Some (Inr (length s, snprintf out_len s))
        | _ \<Rightarrow> Some (Inr (0, [])))"

definition telemetry_body ::
    "proto_field \<Rightarrow> (bytes \<times> int) option \<times> (bytes \<times> int) option \<Rightarrow>
     ((bytes \<times> int) option \<times> (bytes \<times> int) option, c_ub) ctl" where
  "telemetry_body f a = Continue
     (if wire_type f = 2 then
        if field_num f = 2 then (Some (bytes_val f), snd a)
        else if field_num f = 3 then (fst a, Some (bytes_val f))
        else a
      else a)"

definition device_body ::
    "proto_field \<Rightarrow> u32 option \<times> u32 option \<Rightarrow> (u32 option \<times> u32 option, c_ub) ctl" where
  "device_body f a = Continue
     (if field_num f = 1 \<and> wire_type f = 0 then (Some (varint_val f), snd a)
      else if field_num f = 3 \<and> wire_type f = 5 then (fst a, Some (fixed32_val f))
      else a)"

record env_acc =
  temp :: "u32 option"
  rh :: "u32 option"
  pres :: "u32 option"

definition env_body :: "proto_field \<Rightarrow> env_acc \<Rightarrow> (env_acc, c_ub) ctl" where
  "env_body f a = Continue
     (if wire_type f \<noteq> 5 then a
      else if field_num f = 1 then a\<lparr>temp := Some (fixed32_val f)\<rparr>
      else if field_num f = 2 then a\<lparr>rh := Some (fixed32_val f)\<rparr>
      else if field_num f = 3 then a\<lparr>pres := Some (fixed32_val f)\<rparr>
      else a)"

text \<open>
  One \<^verbatim>\<open>bp += snprintf(buf + bp, sizeof(buf) - bp, ...)\<close> into \<^verbatim>\<open>char buf[128]\<close>:
  \<open>s\<close> is everything printed so far, \<open>length s\<close> is \<^verbatim>\<open>bp\<close>.
\<close>

definition env_print :: "(u32 \<Rightarrow> bytes) \<Rightarrow> bytes \<Rightarrow> u32 option \<Rightarrow> c_ub + bytes \<Rightarrow> c_ub + bytes" where
  "env_print fmt unit v r =
     (case (r, v) of
        (Inr s, Some x) \<Rightarrow> if length s > 128 then Inl Buffer_overflow else Inr (s @ 32 # fmt x @ unit)
      | _ \<Rightarrow> r)"

definition format_environment :: "float_fmt \<Rightarrow> bytes \<times> int \<Rightarrow> nat \<Rightarrow> (nat \<times> bytes) run" where
  "format_environment ff env out_len =
     run_bind (scan_fields env_body (fst env) (snd env) \<lparr>temp = None, rh = None, pres = None\<rparr>)
       (\<lambda>a. if temp a \<noteq> None \<or> rh a \<noteq> None \<or> pres a \<noteq> None then
          (case env_print (fmt_0f ff) (ascii ''hPa'') (pres a)
                (env_print (fmt_0f ff) (ascii ''%RH'') (rh a)
                  (env_print (fmt_1f ff) ([0xC2, 0xB0] @ ascii ''C'') (temp a)
                    (Inr thermo_emoji))) of
             Inl e \<Rightarrow> Some (Inl e)
           | Inr s \<Rightarrow> let b = snprintf 128 s in Some (Inr (length b, snprintf out_len b)))
        else Some (Inr (0, [])))"

definition format_telemetry :: "float_fmt \<Rightarrow> bytes \<Rightarrow> int \<Rightarrow> nat \<Rightarrow> (nat \<times> bytes) run" where
  "format_telemetry ff payload len out_len =
     run_bind (scan_fields telemetry_body payload len (None, None)) (\<lambda>(dev, env).
       let env_part = (case env of None \<Rightarrow> Some (Inr (0, []))
                       | Some e \<Rightarrow> format_environment ff e out_len) in
       case dev of None \<Rightarrow> env_part
       | Some d \<Rightarrow>
           run_bind (scan_fields device_body (fst d) (snd d) (None, None)) (\<lambda>(batt, ch).
             case batt of None \<Rightarrow> env_part
             | Some b \<Rightarrow>
                 let s = battery_emoji @ dec_nat (unat b) @ ascii ''%'' @
                         (case ch of None \<Rightarrow> []
                          | Some c \<Rightarrow> ascii '', ch '' @ fmt_1f ff c @ ascii ''%'')
                 in Some (Inr (length s, snprintf out_len s))))"

section \<open>FromRadio parsers\<close>

datatype ParsedKind = PK_NONE | PK_TEXT | PK_POSITION | PK_TELEMETRY

record parsed_text_message =
  valid :: bool
  kind :: ParsedKind
  from_node :: u32
  to_node :: u32
  packet_id :: u32
  channel :: u8
  rx_time :: u32
  ptext :: bytes

definition empty_parsed :: parsed_text_message where
  "empty_parsed = \<lparr>valid = False, kind = PK_NONE, from_node = 0, to_node = 0, packet_id = 0,
                   channel = 0, rx_time = 0, ptext = []\<rparr>"

text \<open>A loop that keeps the last length-delimited field with the given number.\<close>

definition last_bytes_body ::
    "u32 \<Rightarrow> proto_field \<Rightarrow> (bytes \<times> int) option \<Rightarrow> ((bytes \<times> int) option, c_ub) ctl" where
  "last_bytes_body fnum f a = Continue
     (if field_num f = fnum \<and> wire_type f = 2 then Some (bytes_val f) else a)"

definition mesh_packet_body ::
    "proto_field \<Rightarrow> parsed_text_message \<times> (bytes \<times> int) option \<Rightarrow>
     (parsed_text_message \<times> (bytes \<times> int) option, c_ub) ctl" where
  "mesh_packet_body f a = Continue (case a of (r, decoded) \<Rightarrow>
     (if field_num f = 1 \<and> wire_type f = 5 then (r\<lparr>from_node := fixed32_val f\<rparr>, decoded)
      else if field_num f = 2 \<and> wire_type f = 5 then (r\<lparr>to_node := fixed32_val f\<rparr>, decoded)
      else if field_num f = 3 \<and> wire_type f = 0 then (r\<lparr>channel := ucast (varint_val f)\<rparr>, decoded)
      else if field_num f = 4 \<and> wire_type f = 2 then (r, Some (bytes_val f))
      else if field_num f = 6 \<and> wire_type f = 5 then (r\<lparr>packet_id := fixed32_val f\<rparr>, decoded)
      else if field_num f = 9 \<and> wire_type f = 5 then (r\<lparr>rx_time := fixed32_val f\<rparr>, decoded)
      else (r, decoded)))"

definition data_body ::
    "proto_field \<Rightarrow> u32 \<times> (bytes \<times> int) option \<Rightarrow> (u32 \<times> (bytes \<times> int) option, c_ub) ctl" where
  "data_body f a = Continue
     (if field_num f = 1 \<and> wire_type f = 0 then (varint_val f, snd a)
      else if field_num f = 2 \<and> wire_type f = 2 then (fst a, Some (bytes_val f))
      else a)"

text \<open>\<^verbatim>\<open>memcpy\<close> of \<^verbatim>\<open>min(len, cap)\<close> bytes followed by a NUL, into a string of \<open>cap\<close> bytes.\<close>

definition copy_string :: "nat \<Rightarrow> bytes \<times> int \<Rightarrow> c_ub + bytes" where
  "copy_string cap d =
     (let n = (if snd d < int cap then snd d else int cap) in
      if n < 0 then Inl Negative_memcpy else Inr (c_str (take (nat n) (fst d))))"

definition interpret_payload ::
    "float_fmt \<Rightarrow> parsed_text_message \<Rightarrow> u32 \<Rightarrow> bytes \<times> int \<Rightarrow> parsed_text_message run" where
  "interpret_payload ff r portnum payload =
     (let summary = (\<lambda>k m. run_bind m (\<lambda>(n, s).
            Some (Inr (if n > 0 then r\<lparr>ptext := s, kind := k, valid := True\<rparr> else r)))) in
      if portnum = PORTNUM_TEXT_MESSAGE_APP then
        (case copy_string 255 payload of
           Inl e \<Rightarrow> Some (Inl e)
         | Inr s \<Rightarrow> Some (Inr (r\<lparr>ptext := s, kind := PK_TEXT, valid := True\<rparr>)))
      else if portnum = PORTNUM_POSITION_APP then
        summary PK_POSITION (format_position ff (fst payload) (snd payload) 256)
      else if portnum = PORTNUM_TELEMETRY_APP then
        summary PK_TELEMETRY (format_telemetry ff (fst payload) (snd payload) 256)
      else Some (Inr r))"

definition parse_from_radio :: "float_fmt \<Rightarrow> bytes \<Rightarrow> int \<Rightarrow> parsed_text_message run" where
  "parse_from_radio ff buf len =
     run_bind (scan_fields (last_bytes_body 2) buf len None) (\<lambda>packet.
       case packet of None \<Rightarrow> Some (Inr empty_parsed)
       | Some (packet_data, packet_len) \<Rightarrow>
     run_bind (scan_fields mesh_packet_body packet_data packet_len (empty_parsed, None))
       (\<lambda>(result, decoded).
       case decoded of None \<Rightarrow> Some (Inr result)
       | Some (decoded_data, decoded_len) \<Rightarrow>
     run_bind (scan_fields data_body decoded_data decoded_len (0, None))
       (\<lambda>(portnum, payload).
       case payload of None \<Rightarrow> Some (Inr result)
       | Some p \<Rightarrow>
           if snd p = 0 then Some (Inr result) else interpret_payload ff result portnum p)))"

definition config_complete_body :: "u32 \<Rightarrow> proto_field \<Rightarrow> unit \<Rightarrow> (unit, bool) ctl" where
  "config_complete_body expected_nonce f a =
     (if field_num f = 7 \<and> wire_type f = 0 \<and> varint_val f = expected_nonce
      then Return True else Continue ())"

definition is_config_complete :: "bytes \<Rightarrow> int \<Rightarrow> u32 \<Rightarrow> bool run" where
  "is_config_complete buf len expected_nonce =
     (case field_loop (config_complete_body expected_nonce) buf len () of
        None \<Rightarrow> None
      | Some (Return b) \<Rightarrow> Some (Inr b)
      | Some (Continue _) \<Rightarrow> Some (Inr False))"

record parsed_node_info =
  ni_valid :: bool
  node_num :: u32
  ni_long_name :: bytes
  ni_short_name :: bytes

definition empty_node_info :: parsed_node_info where
  "empty_node_info = \<lparr>ni_valid = False, node_num = 0, ni_long_name = [], ni_short_name = []\<rparr>"

definition node_info_body ::
    "proto_field \<Rightarrow> u32 \<times> (bytes \<times> int) option \<Rightarrow> (u32 \<times> (bytes \<times> int) option, c_ub) ctl" where
  "node_info_body f a = Continue
     (if field_num f = 1 \<and> wire_type f = 5 then (fixed32_val f, snd a)
      else if field_num f = 2 \<and> wire_type f = 2 then (fst a, Some (bytes_val f))
      else a)"

definition user_body :: "proto_field \<Rightarrow> bytes \<times> bytes \<Rightarrow> (bytes \<times> bytes, c_ub) ctl" where
  "user_body f a =
     (if field_num f = 1 \<and> wire_type f = 2 then
        (case copy_string 39 (bytes_val f) of Inl e \<Rightarrow> Return e | Inr s \<Rightarrow> Continue (s, snd a))
      else if field_num f = 2 \<and> wire_type f = 2 then
        (case copy_string 4 (bytes_val f) of Inl e \<Rightarrow> Return e | Inr s \<Rightarrow> Continue (fst a, s))
      else Continue a)"

definition parse_node_info :: "bytes \<Rightarrow> int \<Rightarrow> parsed_node_info run" where
  "parse_node_info buf len =
     run_bind (scan_fields (last_bytes_body 4) buf len None) (\<lambda>ni.
       case ni of None \<Rightarrow> Some (Inr empty_node_info)
       | Some (ni_data, ni_len) \<Rightarrow>
     run_bind (scan_fields node_info_body ni_data ni_len (0, None)) (\<lambda>(num, user).
       let result = empty_node_info\<lparr>node_num := num\<rparr> in
       case user of None \<Rightarrow> Some (Inr result)
       | Some (user_data, user_len) \<Rightarrow>
           if num = 0 then Some (Inr result) else
     run_bind (scan_fields user_body user_data user_len ([], [])) (\<lambda>(ln, sn).
       Some (Inr (result\<lparr>ni_long_name := ln, ni_short_name := sn,
                         ni_valid := (ln \<noteq> [] \<or> sn \<noteq> [])\<rparr>)))))"

definition generate_packet_id :: "u32 \<Rightarrow> u32 \<Rightarrow> u32" where
  "generate_packet_id counter rnd =
     ((counter + 1) AND 0x3FF) OR push_bit 10 (rnd AND 0x3FFFFF)"

section \<open>Varints\<close>

lemma bit_7bits: "bit (127 :: int) k \<longleftrightarrow> k < 7" "bit (128 :: int) k \<longleftrightarrow> k = 7" "bit (7 :: int) k \<longleftrightarrow> k < 3"
proof -
  have "(127 :: int) = mask 7" "(128 :: int) = 2 ^ 7" "(7 :: int) = mask 3"
    by (simp_all add: mask_eq_exp_minus_1)
  then show "bit (127 :: int) k \<longleftrightarrow> k < 7" "bit (128 :: int) k \<longleftrightarrow> k = 7" "bit (7 :: int) k \<longleftrightarrow> k < 3"
    by (auto simp only: bit_mask_iff bit_exp_iff possible_bit_int)
qed

lemma varint_step_bits:
  fixes v :: u32
  shows "push_bit (7 * i) (ucast ((ucast (v AND 0x7F) OR 0x80 :: u8) AND 0x7F)) OR
         push_bit (7 * Suc i) (drop_bit 7 v) = push_bit (7 * i) v"
proof (rule bit_word_eqI)
  fix n assume "n < LENGTH(32)"
  consider "n < 7 * i" | "7 * i \<le> n \<and> n < 7 * i + 7" | "7 * i + 7 \<le> n" by force
  then show "bit (push_bit (7 * i) (ucast ((ucast (v AND 0x7F) OR 0x80 :: u8) AND 0x7F)) OR
         push_bit (7 * Suc i) (drop_bit 7 v)) n = bit (push_bit (7 * i) v :: u32) n"
    using \<open>n < LENGTH(32)\<close>
    by cases (auto simp: bit_simps bit_7bits)
qed

lemma varint_last_bits:
  fixes v :: u32
  assumes "\<not> v > 0x7F"
  shows "ucast (ucast (v AND 0x7F) AND 0x7F :: u8) = v" "(ucast (v AND 0x7F) :: u8) AND 0x80 = 0"
proof -
  have "unat v < 2 ^ 7"
    using assms by (simp add: word_less_nat_alt)
  then have "v = take_bit 7 v"
    by (simp add: word_unat_eq_iff unsigned_take_bit_eq take_bit_nat_eq_self)
  then have b: "bit v n \<Longrightarrow> n < 7" for n
    by (metis bit_take_bit_iff)
  show "ucast (ucast (v AND 0x7F) AND 0x7F :: u8) = v"
    by (rule bit_word_eqI) (auto simp: bit_simps bit_7bits dest: b)
  show "(ucast (v AND 0x7F) :: u8) AND 0x80 = 0"
    by (rule bit_word_eqI) (auto simp: bit_simps bit_7bits)
qed

lemma varint_more_bits: "(ucast (v AND 0x7F) OR 0x80 :: u8) AND 0x80 \<noteq> 0"
proof
  assume "(ucast (v AND 0x7F) OR 0x80 :: u8) AND 0x80 = 0"
  then have "bit ((ucast (v AND 0x7F) OR 0x80 :: u8) AND 0x80) 7 = bit (0 :: u8) 7" by simp
  then show False by (simp add: bit_simps bit_7bits)
qed

lemma decode_varint_loop_encode:
  assumes "i + length (encode_varint v) \<le> 5" and "int (i + length (encode_varint v)) \<le> len"
  shows "decode_varint_loop i acc len (encode_varint v @ rest) =
           (int (i + length (encode_varint v)), acc OR push_bit (7 * i) v)"
  using assms
proof (induction v arbitrary: i acc rule: encode_varint.induct)
  case (1 v)
  show ?case
  proof (cases "v > 0x7F")
    case True
    let ?b = "ucast (v AND 0x7F) OR 0x80 :: u8"
    have e: "encode_varint v = ?b # encode_varint (drop_bit 7 v)"
      using True by (simp add: encode_varint.simps [of v])
    have "decode_varint_loop (Suc i) (acc OR push_bit (7 * i) (ucast (?b AND 0x7F))) len
            (encode_varint (drop_bit 7 v) @ rest) =
          (int (Suc i + length (encode_varint (drop_bit 7 v))),
           (acc OR push_bit (7 * i) (ucast (?b AND 0x7F))) OR push_bit (7 * Suc i) (drop_bit 7 v))"
      using True "1.prems" e by (intro "1.IH") auto
    moreover have "i < 5" "int i < len"
      using "1.prems" e by simp_all
    ultimately show ?thesis
      using e varint_more_bits [of v] varint_step_bits [of i v]
      by (simp add: or.assoc Let_def del: mult_Suc_right)
  next
    case False
    then have e: "encode_varint v = [ucast (v AND 0x7F)]"
      by (simp add: encode_varint.simps [of v])
    then show ?thesis
      using "1.prems" varint_last_bits [OF False] by (simp add: Let_def)
  qed
qed

lemma length_encode_varint_le:
  assumes "unat v < 2 ^ (7 * k)" and "0 < k"
  shows "length (encode_varint v) \<le> k"
  using assms
proof (induction k arbitrary: v)
  case (Suc k)
  show ?case
  proof (cases "v > 0x7F")
    case True
    have d: "unat (drop_bit 7 v) = unat v div 128"
      by (simp add: drop_bit_eq_div unat_div_distrib)
    have "128 \<le> unat v"
      using True by (simp add: word_less_nat_alt)
    with Suc.prems have "0 < k"
      by (cases k) auto
    moreover have "unat (drop_bit 7 v) < 2 ^ (7 * k)"
      using Suc.prems(1) by (simp add: d power_add less_mult_imp_div_less)
    ultimately show ?thesis
      using Suc.IH [of "drop_bit 7 v"] True by (simp add: encode_varint.simps [of v])
  next
    case False
    then show ?thesis by (simp add: encode_varint.simps [of v])
  qed
qed simp

lemma length_encode_varint: "1 \<le> length (encode_varint v)" "length (encode_varint v) \<le> 5"
proof -
  show "1 \<le> length (encode_varint v)"
    by (subst encode_varint.simps) simp
  have "unat v < 2 ^ 32" using unsigned_less [of v] by simp
  also have "(2::nat) ^ 32 < 2 ^ (7 * 5)" by simp
  finally show "length (encode_varint v) \<le> 5"
    by (rule length_encode_varint_le) simp
qed

lemma length_encode_varint_1: "unat v < 128 \<Longrightarrow> length (encode_varint v) = 1"
  using length_encode_varint_le [of v 1] length_encode_varint [of v] by simp

lemma length_encode_varint_2: "unat v < 16384 \<Longrightarrow> length (encode_varint v) \<le> 2"
  using length_encode_varint_le [of v 2] by simp

lemma decode_encode_varint:
  "int (length (encode_varint v)) \<le> len \<Longrightarrow>
   decode_varint (encode_varint v @ rest) len = (int (length (encode_varint v)), v)"
  unfolding decode_varint_def
  using decode_varint_loop_encode [of 0 v len 0 rest] length_encode_varint [of v] by simp

section \<open>Fields\<close>

lemma encode_tag_parts:
  fixes k :: u32
  assumes "k < 2 ^ 29" and "wt < (8 :: u8)"
  shows "drop_bit 3 (push_bit 3 k OR ucast wt) = k" "ucast ((push_bit 3 k OR ucast wt) AND 7) = wt"
proof -
  have k: "bit k n \<Longrightarrow> n < 29" for n
  proof -
    assume b: "bit k n"
    have "unat k < 2 ^ 29"
      using assms(1) by (simp add: word_less_nat_alt)
    then have "k = take_bit 29 k"
      by (simp add: word_unat_eq_iff unsigned_take_bit_eq take_bit_nat_eq_self)
    with b show "n < 29" by (metis bit_take_bit_iff)
  qed
  have w: "bit wt n \<Longrightarrow> n < 3" for n
  proof -
    assume b: "bit wt n"
    have "unat wt < 2 ^ 3"
      using assms(2) by (simp add: word_less_nat_alt)
    then have "wt = take_bit 3 wt"
      by (simp add: word_unat_eq_iff unsigned_take_bit_eq take_bit_nat_eq_self)
    with b show "n < 3" by (metis bit_take_bit_iff)
  qed
  show "drop_bit 3 (push_bit 3 k OR ucast wt) = k"
    by (rule bit_word_eqI) (auto simp: bit_simps dest: k w)
  show "ucast ((push_bit 3 k OR ucast wt) AND 7) = wt"
    by (rule bit_word_eqI) (auto simp: bit_simps bit_7bits dest: w)
qed

lemma decode_field_tag:
  assumes "k < 2 ^ 29" and "wt < (8 :: u8)" and "int (length (encode_tag k wt)) \<le> len"
  shows "decode_varint (encode_tag k wt @ rest) len =
           (int (length (encode_tag k wt)), push_bit 3 k OR ucast wt)"
  using assms(3) unfolding encode_tag_def by (rule decode_encode_varint)

lemma length_encode_tag: "1 \<le> length (encode_tag k wt)" "length (encode_tag k wt) \<le> 5"
  unfolding encode_tag_def by (rule length_encode_varint)+

lemma decode_field_varint [wire_simps]:
  assumes "k < 2 ^ 29" and "int (length (encode_varint_field k v)) \<le> len"
  shows "decode_field (encode_varint_field k v @ rest) len =
           (int (length (encode_varint_field k v)),
            \<lparr>field_num = k, wire_type = 0, field_value = Varint_val v\<rparr>)"
proof -
  have "decode_varint (encode_tag k 0 @ encode_varint v @ rest) len =
          (int (length (encode_tag k 0)), push_bit 3 k OR ucast (0 :: u8))"
    using assms by (intro decode_field_tag) (simp_all add: encode_varint_field_def)
  moreover have "decode_varint (encode_varint v @ rest) (len - int (length (encode_tag k 0))) =
                   (int (length (encode_varint v)), v)"
    using assms by (intro decode_encode_varint) (simp add: encode_varint_field_def)
  ultimately show ?thesis
    using assms encode_tag_parts [of k 0] length_encode_tag [of k 0]
    by (simp add: decode_field_def encode_varint_field_def Let_def)
qed

lemma decode_field_fixed32 [wire_simps]:
  assumes "k < 2 ^ 29" and "int (length (encode_fixed32 k v)) \<le> len"
  shows "decode_field (encode_fixed32 k v @ rest) len =
           (int (length (encode_fixed32 k v)),
            \<lparr>field_num = k, wire_type = 5, field_value = Fixed32_val v\<rparr>)"
proof -
  have "decode_varint (encode_tag k 5 @ put_u32_le v @ rest) len =
          (int (length (encode_tag k 5)), push_bit 3 k OR ucast (5 :: u8))"
    using assms by (intro decode_field_tag) (simp_all add: encode_fixed32_def)
  then show ?thesis
    using assms encode_tag_parts [of k 5] length_encode_tag [of k 5]
    by (simp add: decode_field_def encode_fixed32_def Let_def)
qed

lemma sint_of_nat_small: "n < 2 ^ 31 \<Longrightarrow> sint (of_nat n :: u32) = int n"
  by (simp add: sint_uint signed_take_bit_int_eq_self_iff unsigned_of_nat take_bit_nat_eq_self
      take_bit_int_eq_self)

lemma decode_field_bytes [wire_simps]:
  assumes "k < 2 ^ 29" and "length d < 2 ^ 31" and "int (length (encode_bytes_field k d)) \<le> len"
  shows "decode_field (encode_bytes_field k d @ rest) len =
           (int (length (encode_bytes_field k d)),
            \<lparr>field_num = k, wire_type = 2, field_value = Bytes_val (d @ rest) (int (length d))\<rparr>)"
proof -
  let ?l = "of_nat (length d) :: u32"
  have "decode_varint (encode_tag k 2 @ encode_varint ?l @ d @ rest) len =
          (int (length (encode_tag k 2)), push_bit 3 k OR ucast (2 :: u8))"
    using assms by (intro decode_field_tag) (simp_all add: encode_bytes_field_def)
  moreover have "decode_varint (encode_varint ?l @ d @ rest) (len - int (length (encode_tag k 2))) =
                   (int (length (encode_varint ?l)), ?l)"
    using assms by (intro decode_encode_varint) (simp add: encode_bytes_field_def)
  ultimately show ?thesis
    using assms encode_tag_parts [of k 2] length_encode_tag [of k 2] sint_of_nat_small [of "length d"]
    by (simp add: decode_field_def encode_bytes_field_def Let_def)
qed

section \<open>The field loop\<close>

lemma field_loop_done [wire_simps]: "len \<le> 0 \<Longrightarrow> field_loop body buf len acc = Some (Continue acc)"
  by (subst field_loop.simps) simp

lemma field_loop_step:
  assumes "decode_field buf len = (c, f)" and "0 < len" and "0 \<le> c"
  shows "field_loop body buf len acc =
           (case body f acc of
              Return r \<Rightarrow> Some (Return r)
            | Continue acc' \<Rightarrow> field_loop body (drop (nat c) buf) (len - c) acc')"
  using assms by (subst field_loop.simps) simp

text \<open>A field that consumes nothing makes the loop run forever.\<close>

lemma field_loop_stuck:
  assumes "0 < len" and "fst (decode_field buf len) = 0" and "\<And>f a. \<exists>a'. body f a = Continue a'"
  shows "field_loop body buf len acc = None"
proof (rule ccontr)
  let ?stuck = "\<lambda>body buf len. 0 < len \<and> fst (decode_field buf len) = 0 \<and>
                  (\<forall>f a. \<exists>a'. body f a = Continue a')"
  assume "field_loop body buf len acc \<noteq> None"
  then obtain r where r: "field_loop body buf len acc = Some r" by auto
  have "\<not> ?stuck body buf len"
  proof (rule field_loop.raw_induct [where P = "\<lambda>body buf len acc r. \<not> ?stuck body buf len", OF _ r])
    fix g :: "(proto_field \<Rightarrow> 'a \<Rightarrow> ('a, 'b) ctl) \<Rightarrow> bytes \<Rightarrow> int \<Rightarrow> 'a \<Rightarrow> ('a, 'b) ctl option"
      and body buf len acc r
    assume IH: "\<And>body buf len acc r. g body buf len acc = Some r \<Longrightarrow> \<not> ?stuck body buf len"
      and eq: "(if 0 < len then
        (let (consumed, f) = decode_field buf len in
         if consumed < 0 then Some (Continue acc)
         else (case body f acc of
                 Return r \<Rightarrow> Some (Return r)
               | Continue acc' \<Rightarrow> g body (drop (nat consumed) buf) (len - consumed) acc'))
      else Some (Continue acc)) = Some r"
    show "\<not> ?stuck body buf len"
    proof
      assume A: "?stuck body buf len"
      then obtain f where f: "decode_field buf len = (0, f)"
        by (cases "decode_field buf len") auto
      obtain a where "body f acc = Continue a" using A by blast
      with eq A f have "g body buf len a = Some r" by simp
      from IH [OF this] A show False by blast
    qed
  qed
  with assms show False by blast
qed

text \<open>Where every position consumes something, the loop returns.\<close>

definition fields_progress :: "bytes \<Rightarrow> int \<Rightarrow> bool" where
  "fields_progress buf len \<longleftrightarrow>
     list_all (\<lambda>p. fst (decode_field (drop p buf) (len - int p)) \<noteq> 0) [0..<nat len]"

lemma fields_progress_drop:
  assumes "fields_progress buf len" and "0 \<le> c"
  shows "fields_progress (drop (nat c) buf) (len - c)"
  unfolding fields_progress_def list_all_iff
proof
  fix p assume "p \<in> set [0..<nat (len - c)]"
  then have "p + nat c \<in> set [0..<nat len]" using assms(2) by auto
  from assms(1) [unfolded fields_progress_def list_all_iff, rule_format, OF this] assms(2)
  show "fst (decode_field (drop p (drop (nat c) buf)) (len - c - int p)) \<noteq> 0"
    by (simp add: algebra_simps)
qed

lemma field_loop_returns:
  "fields_progress buf len \<Longrightarrow> \<exists>r. field_loop body buf len acc = Some r"
proof (induction "nat len" arbitrary: buf len acc rule: less_induct)
  case less
  show ?case
  proof (cases "0 < len")
    case True
    obtain c f where cf: "decode_field buf len = (c, f)" by fastforce
    have "c \<noteq> 0"
      using less.prems [unfolded fields_progress_def list_all_iff, rule_format, of 0] True cf by simp
    show ?thesis
    proof (cases "0 < c \<and> (\<exists>a. body f acc = Continue a)")
      case go: True
      then obtain a where a: "body f acc = Continue a" by blast
      have "\<exists>r. field_loop body (drop (nat c) buf) (len - c) a = Some r"
        using True go less.prems by (intro less.hyps fields_progress_drop) auto
      then show ?thesis
        using True go a by (simp add: field_loop_step [OF cf])
    next
      case False
      then show ?thesis
        using \<open>c \<noteq> 0\<close> True cf by (subst field_loop.simps) (auto split: ctl.splits)
    qed
  next
    case False
    then show ?thesis by (simp add: field_loop_done)
  qed
qed

lemma field_loop_varint [wire_simps]:
  assumes "k < 2 ^ 29" and "int (length (encode_varint_field k v)) \<le> len"
  shows "field_loop body (encode_varint_field k v @ rest) len acc =
     (case body \<lparr>field_num = k, wire_type = 0, field_value = Varint_val v\<rparr> acc of
        Return r \<Rightarrow> Some (Return r)
      | Continue acc' \<Rightarrow> field_loop body rest (len - int (length (encode_varint_field k v))) acc')"
proof -
  have "0 < len"
    using assms(2) length_encode_tag(1) [of k 0] by (simp add: encode_varint_field_def)
  then show ?thesis
    by (simp add: field_loop_step [OF decode_field_varint [OF assms]] split: ctl.split)
qed

lemma field_loop_fixed32 [wire_simps]:
  assumes "k < 2 ^ 29" and "int (length (encode_fixed32 k v)) \<le> len"
  shows "field_loop body (encode_fixed32 k v @ rest) len acc =
     (case body \<lparr>field_num = k, wire_type = 5, field_value = Fixed32_val v\<rparr> acc of
        Return r \<Rightarrow> Some (Return r)
      | Continue acc' \<Rightarrow> field_loop body rest (len - int (length (encode_fixed32 k v))) acc')"
proof -
  have "0 < len"
    using assms(2) length_encode_tag(1) [of k 5] by (simp add: encode_fixed32_def)
  then show ?thesis
    by (simp add: field_loop_step [OF decode_field_fixed32 [OF assms]] split: ctl.split)
qed

lemma field_loop_bytes [wire_simps]:
  assumes "k < 2 ^ 29" and "length d < 2 ^ 31" and "int (length (encode_bytes_field k d)) \<le> len"
  shows "field_loop body (encode_bytes_field k d @ rest) len acc =
     (case body \<lparr>field_num = k, wire_type = 2, field_value = Bytes_val (d @ rest) (int (length d))\<rparr> acc of
        Return r \<Rightarrow> Some (Return r)
      | Continue acc' \<Rightarrow> field_loop body rest (len - int (length (encode_bytes_field k d))) acc')"
proof -
  have "0 < len"
    using assms(3) length_encode_tag(1) [of k 2] by (simp add: encode_bytes_field_def)
  then show ?thesis
    by (simp add: field_loop_step [OF decode_field_bytes [OF assms]] split: ctl.split)
qed

lemmas field_loop_bytes_end [wire_simps] = field_loop_bytes [where rest = "[]", unfolded append_Nil2]
lemmas field_loop_varint_end [wire_simps] = field_loop_varint [where rest = "[]", unfolded append_Nil2]
lemmas field_loop_fixed32_end [wire_simps] = field_loop_fixed32 [where rest = "[]", unfolded append_Nil2]

section \<open>Properties\<close>

text \<open>A concrete formatter, for closed instances.\<close>

definition int_fmt :: float_fmt where
  "int_fmt = \<lparr>fmt_e7 = dec_int, fmt_1f = (\<lambda>w. dec_nat (unat w)), fmt_0f = (\<lambda>w. dec_nat (unat w))\<rparr>"

lemma length_tags [simp]:
  "length (encode_tag 1 0) = 1" "length (encode_tag 1 2) = 1" "length (encode_tag 1 5) = 1"
  "length (encode_tag 2 2) = 1" "length (encode_tag 2 5) = 1" "length (encode_tag 3 0) = 1"
  "length (encode_tag 3 2) = 1" "length (encode_tag 4 2) = 1" "length (encode_tag 5 0) = 1"
  "length (encode_tag 6 5) = 1" "length (encode_tag 7 0) = 1" "length (encode_tag 7 2) = 1"
  "length (encode_tag 9 0) = 1" "length (encode_tag 4 0) = 1"
  by (simp_all add: encode_tag_def encode_varint.simps)

lemma encode_mesh_packet_fields:
  "encode_mesh_packet frm to pkt_id ch hop data =
     (if frm \<noteq> 0 then encode_fixed32 1 frm else []) @ encode_fixed32 2 to @
     (if ch \<noteq> 0 then encode_varint_field 3 (ucast ch) else []) @
     encode_bytes_field 4 data @ encode_fixed32 6 pkt_id @ encode_varint_field 9 (ucast hop)"
  by (simp add: encode_mesh_packet_def encode_bytes_field_def)

lemma scan_fields_Nil [simp]: "scan_fields body buf 0 acc = Some (Inr acc)"
  by (simp add: scan_fields_def field_loop_done)

lemma scan_last_bytes:
  assumes "length p < 2 ^ 31" and "k < 2 ^ 29" and "len = int (length (encode_bytes_field k p))"
  shows "scan_fields (last_bytes_body k) (encode_bytes_field k p @ rest) len None =
           Some (Inr (Some (p @ rest, int (length p))))"
  using assms by (simp add: scan_fields_def wire_simps last_bytes_body_def bytes_val_def)

text \<open>Reading back the payload of a \<^verbatim>\<open>Data\<close> submessage and the fields of a packet.\<close>

lemma scan_data:
  assumes "length t < 2 ^ 31" and "len = int (length (encode_data p t))"
  shows "scan_fields data_body (encode_data p t @ rest) len (0, None) =
           Some (Inr (p, Some (t @ rest, int (length t))))"
  using assms
  by (simp add: encode_data_def scan_fields_def wire_simps data_body_def varint_val_def bytes_val_def)

lemma scan_mesh_packet:
  assumes "length d < 2 ^ 31" and "len = int (length (encode_mesh_packet frm to pkt_id ch hop d))"
  shows "\<exists>rest'. scan_fields mesh_packet_body (encode_mesh_packet frm to pkt_id ch hop d @ rest) len
             (empty_parsed, None) =
           Some (Inr (empty_parsed\<lparr>from_node := frm, to_node := to, channel := ch, packet_id := pkt_id\<rparr>,
                      Some (d @ rest', int (length d))))"
  using assms
  by (auto simp: encode_mesh_packet_fields scan_fields_def wire_simps mesh_packet_body_def
      varint_val_def fixed32_val_def bytes_val_def empty_parsed_def)

text \<open>
  Decoding what \<^verbatim>\<open>encode_varint\<close> wrote gives back the value and the number of
  bytes written, whatever follows in the buffer, for every 32-bit value; and the encoding
  is one to five bytes long.
\<close>

theorem decode_varint_encode_varint:
  "decode_varint (encode_varint v @ rest) (int (length (encode_varint v) + length rest)) =
     (int (length (encode_varint v)), v) \<and>
   length (encode_varint v) \<in> {1..5}"
  using length_encode_varint [of v] by (simp add: decode_encode_varint)

lemma parse_text_packet:
  assumes "0 < length t" and "length t < 2 ^ 30" and "is_cstr t"
  shows "parse_from_radio ff
           (encode_bytes_field 2 (encode_mesh_packet frm to pkt_id ch hop
              (encode_data PORTNUM_TEXT_MESSAGE_APP t)))
           (int (length (encode_bytes_field 2 (encode_mesh_packet frm to pkt_id ch hop
              (encode_data PORTNUM_TEXT_MESSAGE_APP t))))) =
         Some (Inr \<lparr>valid = True, kind = PK_TEXT, from_node = frm, to_node = to,
                    packet_id = pkt_id, channel = ch, rx_time = 0, ptext = take 255 t\<rparr>)"
proof -
  define d where "d = encode_data PORTNUM_TEXT_MESSAGE_APP t"
  define p where "p = encode_mesh_packet frm to pkt_id ch hop d"
  have d: "length d < 2 ^ 30 + 20"
    using assms(2) length_encode_varint(2) [of PORTNUM_TEXT_MESSAGE_APP]
      length_encode_varint(2) [of "of_nat (length t)"]
    by (simp add: d_def encode_data_def encode_varint_field_def encode_bytes_field_def)
  have p: "length p < 2 ^ 31"
    using d length_encode_varint(2) [of "ucast ch"] length_encode_varint(2) [of "ucast hop"]
      length_encode_varint(2) [of "of_nat (length d)"]
    by (simp add: p_def encode_mesh_packet_def encode_varint_field_def encode_fixed32_def)
  have 1: "scan_fields (last_bytes_body 2) (encode_bytes_field 2 p)
             (int (length (encode_bytes_field 2 p))) None = Some (Inr (Some (p, int (length p))))"
    using p scan_last_bytes [of p 2 _ "[]"] by simp
  obtain rest' where 2: "scan_fields mesh_packet_body p (int (length p)) (empty_parsed, None) =
      Some (Inr (empty_parsed\<lparr>from_node := frm, to_node := to, channel := ch, packet_id := pkt_id\<rparr>,
                 Some (d @ rest', int (length d))))"
    using scan_mesh_packet [of d _ frm to pkt_id ch hop "[]"] d by (auto simp: p_def)
  have 3: "scan_fields data_body (d @ rest') (int (length d)) (0, None) =
      Some (Inr (PORTNUM_TEXT_MESSAGE_APP, Some (t @ rest', int (length t))))"
    using scan_data [of t _ PORTNUM_TEXT_MESSAGE_APP rest'] assms(2) by (simp add: d_def)
  show ?thesis
    using assms
    by (simp flip: d_def p_def add: parse_from_radio_def run_bind_def 1 2 3 interpret_payload_def
        copy_string_def c_str_take) (simp add: empty_parsed_def)
qed

text \<open>
  A text packet built by the encoder and delivered by the radio in the \<^verbatim>\<open>packet\<close> field
  of a \<^verbatim>\<open>FromRadio\<close> is parsed back: sender, destination, packet id, channel and text
  survive (the text cut to the 255 bytes of \<^verbatim>\<open>ParsedTextMessage.text\<close>), and the message is
  marked as valid text.
\<close>

theorem parse_from_radio_encode_text:
  assumes "0 < length t" and "length t < 2 ^ 30" and "is_cstr t"
  shows "parse_from_radio ff
           (encode_bytes_field 2 (encode_mesh_packet frm to pkt_id ch hop
              (encode_data PORTNUM_TEXT_MESSAGE_APP t)))
           (int (length (encode_bytes_field 2 (encode_mesh_packet frm to pkt_id ch hop
              (encode_data PORTNUM_TEXT_MESSAGE_APP t))))) =
         Some (Inr \<lparr>valid = True, kind = PK_TEXT, from_node = frm, to_node = to,
                    packet_id = pkt_id, channel = ch, rx_time = 0, ptext = take 255 t\<rparr>)"
  using assms by (rule parse_text_packet)

theorem parse_from_radio_encode_text_witness:
  "parse_from_radio int_fmt
     (encode_bytes_field 2 (encode_mesh_packet 7 MESH_BROADCAST 99 0 3
        (encode_data PORTNUM_TEXT_MESSAGE_APP [72, 105])))
     (int (length (encode_bytes_field 2 (encode_mesh_packet 7 MESH_BROADCAST 99 0 3
        (encode_data PORTNUM_TEXT_MESSAGE_APP [72, 105]))))) =
   Some (Inr \<lparr>valid = True, kind = PK_TEXT, from_node = 7, to_node = MESH_BROADCAST,
              packet_id = 99, channel = 0, rx_time = 0, ptext = [72, 105]\<rparr>)"
  by (subst parse_from_radio_encode_text) simp_all

text \<open>
  The parser's loops return whenever no position of a scanned buffer decodes to a
  field of zero bytes: \<^verbatim>\<open>is_config_complete\<close>, \<^verbatim>\<open>parse_node_info\<close> and \<^verbatim>\<open>parse_from_radio\<close> are
  built from this loop.
\<close>

theorem scan_fields_terminates:
  "fields_progress buf len \<Longrightarrow> scan_fields body buf len acc \<noteq> None"
  using field_loop_returns [of buf len body acc]
  by (auto simp: scan_fields_def split: ctl.splits)

theorem scan_fields_terminates_witness:
  "fields_progress [8, 1, 16, 5] 4 \<and> scan_fields data_body [8, 1, 16, 5] 4 (0, None) \<noteq> None"
proof -
  have "fields_progress [8, 1, 16, 5] 4"
    by code_simp
  then show ?thesis using scan_fields_terminates [of "[8, 1, 16, 5]" 4 data_body "(0, None)"] by simp
qed

lemma decode_field_zero:
  assumes "unat k < 16" and "6 \<le> len"
  shows "fst (decode_field (encode_tag k 2 @ [0xFA, 0xFF, 0xFF, 0xFF, 0x0F] @ rest) len) = 0"
proof -
  have v: "encode_varint 0xFFFFFFFA = [0xFA, 0xFF, 0xFF, 0xFF, 0x0F]"
    by (simp add: encode_varint.simps)
  have k: "k < 2 ^ 29" using assms(1) by (simp add: word_less_nat_alt)
  have "unat (push_bit 3 k OR ucast (2 :: u8)) < 128"
  proof -
    have "k = take_bit 4 k"
      using assms(1) by (simp add: word_unat_eq_iff unsigned_take_bit_eq take_bit_nat_eq_self)
    then have "bit k n \<Longrightarrow> n < 4" for n by (metis bit_take_bit_iff)
    moreover have "bit (2 :: int) n \<Longrightarrow> n = 1" for n
      using bit_exp_iff [of 1 n, where 'a = int] by simp
    ultimately have "push_bit 3 k OR ucast (2 :: u8) = take_bit 7 (push_bit 3 k OR ucast (2 :: u8))"
      by (intro bit_word_eqI) (fastforce simp: bit_simps)
    then have "unat (push_bit 3 k OR ucast (2 :: u8)) < 2 ^ 7"
      by (metis take_bit_nat_less_exp unsigned_take_bit_eq)
    then show ?thesis by simp
  qed
  then have l: "length (encode_tag k 2) = 1"
    unfolding encode_tag_def by (rule length_encode_varint_1)
  have "decode_varint (encode_tag k 2 @ encode_varint 0xFFFFFFFA @ rest) len =
          (1, push_bit 3 k OR ucast (2 :: u8))"
    using decode_field_tag [OF k, of 2 len] assms(2) l by simp
  moreover have "decode_varint (encode_varint 0xFFFFFFFA @ rest) (len - 1) = (5, 0xFFFFFFFA)"
    using decode_encode_varint [of "0xFFFFFFFA" "len - 1" rest] assms(2) by (simp add: v)
  ultimately show ?thesis
    using assms(2) encode_tag_parts [OF k, of 2] l
    by (simp add: decode_field_def Let_def v)
qed

text \<open>
  C35: a length-delimited field whose 32-bit length is the two's complement of its own
  header size consumes zero bytes, so \<^verbatim>\<open>parse_from_radio\<close> never returns on any frame that
  starts with it (six bytes suffice), whatever follows.
\<close>

theorem parse_from_radio_hangs:
  assumes "unat k < 16" and "6 \<le> len"
  shows "parse_from_radio ff (encode_tag k 2 @ [0xFA, 0xFF, 0xFF, 0xFF, 0x0F] @ rest) len = None"
proof -
  have "field_loop (last_bytes_body 2) (encode_tag k 2 @ [0xFA, 0xFF, 0xFF, 0xFF, 0x0F] @ rest) len
          None = (None :: ((bytes \<times> int) option, c_ub) ctl option)"
    using decode_field_zero [OF assms] assms(2)
    by (intro field_loop_stuck) (simp_all add: last_bytes_body_def)
  then show ?thesis
    by (simp add: parse_from_radio_def scan_fields_def run_bind_def)
qed

theorem parse_from_radio_hangs_witness:
  "parse_from_radio int_fmt (encode_tag 2 2 @ [0xFA, 0xFF, 0xFF, 0xFF, 0x0F] @ []) 6 = None"
  by (rule parse_from_radio_hangs) simp_all

definition neg_len_data :: bytes where
  "neg_len_data = [0x08, 0x01, 0x12, 0xFF, 0xFF, 0xFF, 0xFF, 0x0F]"

lemma scan_neg_len_data:
  "\<exists>m. scan_fields data_body (neg_len_data @ rest) 8 (0, None) = Some (Inr (1, Some (m, -1)))"
proof -
  have "decode_field (neg_len_data @ rest) 8 =
          (2, \<lparr>field_num = 1, wire_type = 0, field_value = Varint_val 1\<rparr>)"
    by (simp add: neg_len_data_def decode_field_def decode_varint_def Let_def)
  moreover have "decode_field (drop 2 neg_len_data @ rest) 6 =
          (5, \<lparr>field_num = 2, wire_type = 2, field_value = Bytes_val rest (-1)\<rparr>)"
    by (simp add: neg_len_data_def decode_field_def decode_varint_def Let_def)
  moreover have "fst (decode_field (drop 7 neg_len_data @ rest) 1) = -1"
    by (simp add: neg_len_data_def decode_field_def decode_varint_def Let_def)
  ultimately show ?thesis
    by (simp add: scan_fields_def field_loop.simps neg_len_data_def data_body_def varint_val_def
        bytes_val_def case_prod_unfold)
qed

text \<open>
  A \<^verbatim>\<open>Data\<close> submessage whose payload length field is \<^verbatim>\<open>0xFFFFFFFF\<close> passes the bounds
  check of \<^verbatim>\<open>decode_field\<close> and reaches \<^verbatim>\<open>memcpy\<close> with a negative length, whatever
  packet header precedes it.
\<close>

theorem parse_from_radio_negative_memcpy:
  "parse_from_radio ff (encode_bytes_field 2 (encode_mesh_packet frm to pkt_id ch hop neg_len_data))
     (int (length (encode_bytes_field 2 (encode_mesh_packet frm to pkt_id ch hop neg_len_data)))) =
   Some (Inl Negative_memcpy)"
proof -
  let ?p = "encode_mesh_packet frm to pkt_id ch hop neg_len_data"
  have d: "length neg_len_data = 8" by (simp add: neg_len_data_def)
  have p: "length ?p < 2 ^ 31"
    using length_encode_varint(2) [of "ucast ch"] length_encode_varint(2) [of "ucast hop"]
      length_encode_varint(2) [of "of_nat 8"] d
    by (simp add: encode_mesh_packet_def encode_varint_field_def encode_fixed32_def)
  obtain rest' where 2: "scan_fields mesh_packet_body ?p (int (length ?p)) (empty_parsed, None) =
      Some (Inr (empty_parsed\<lparr>from_node := frm, to_node := to, channel := ch, packet_id := pkt_id\<rparr>,
                 Some (neg_len_data @ rest', 8)))"
    using scan_mesh_packet [of neg_len_data _ frm to pkt_id ch hop "[]"] d by auto
  obtain m where "scan_fields data_body (neg_len_data @ rest') 8 (0, None) = Some (Inr (1, Some (m, -1)))"
    using scan_neg_len_data by blast
  then show ?thesis
    using p scan_last_bytes [of ?p 2 _ "[]"] 2
    by (simp add: parse_from_radio_def run_bind_def interpret_payload_def copy_string_def
        PORTNUM_TEXT_MESSAGE_APP_def)
qed

text \<open>
  \<^verbatim>\<open>parse_node_info\<close> reads \<^verbatim>\<open>User\<close> with field numbers shifted by one against
  \<^verbatim>\<open>encode_user\<close>: on a \<^verbatim>\<open>NodeInfo\<close> whose user was written by the encoder, the long name it
  reports is the user id and the short name is the first four bytes of the long name.
\<close>

theorem parse_node_info_encode_user:
  assumes "num \<noteq> 0" and "is_cstr uid" and "uid \<noteq> []" and "is_cstr ln" and "ln \<noteq> []"
    and "is_cstr sn" and "sn \<noteq> []" and "length uid < 2 ^ 20" and "length ln < 2 ^ 20" and "length sn < 2 ^ 20"
    and "ni = encode_fixed32 1 num @ encode_bytes_field 2 (encode_user (Some uid) (Some ln) (Some sn) hw role)"
  shows "parse_node_info (encode_bytes_field 4 ni) (int (length (encode_bytes_field 4 ni))) =
         Some (Inr \<lparr>ni_valid = True, node_num = num, ni_long_name = take 39 uid, ni_short_name = take 4 ln\<rparr>)"
proof -
  define u where "u = encode_user (Some uid) (Some ln) (Some sn) hw role"
  have u: "u = encode_bytes_field 1 uid @ encode_bytes_field 2 ln @ encode_bytes_field 3 sn @
               encode_varint_field 5 hw @ encode_varint_field 7 role"
    using assms by (simp add: u_def encode_user_def encode_string_field_def)
  have lu: "length u < 2 ^ 23"
    using assms length_encode_varint(2) [of hw] length_encode_varint(2) [of role]
      length_encode_varint(2) [of "of_nat (length uid)"] length_encode_varint(2) [of "of_nat (length ln)"]
      length_encode_varint(2) [of "of_nat (length sn)"]
    by (simp add: u encode_bytes_field_def encode_varint_field_def)
  have ni: "ni = encode_fixed32 1 num @ encode_bytes_field 2 u" using assms by (simp add: u_def)
  have lni: "length ni < 2 ^ 31"
    using lu length_encode_varint(2) [of "of_nat (length u)"]
    by (simp add: ni encode_fixed32_def encode_bytes_field_def)
  have "scan_fields node_info_body ni (int (length ni)) (0, None) =
          Some (Inr (num, Some (u, int (length u))))"
    using lu by (simp add: ni scan_fields_def wire_simps node_info_body_def fixed32_val_def bytes_val_def)
  moreover have "scan_fields user_body (u @ []) (int (length u)) ([], []) =
                   Some (Inr (take 39 uid, take 4 ln))"
    using assms unfolding u
    by (simp add: scan_fields_def wire_simps user_body_def copy_string_def bytes_val_def c_str_take
        c_str_append field_loop_done)
  ultimately show ?thesis
    using assms(1,3) lni scan_last_bytes [of ni 4 _ "[]"]
    by (simp add: parse_node_info_def run_bind_def empty_node_info_def)
qed

theorem parse_node_info_encode_user_witness:
  "let ni = encode_fixed32 1 5 @ encode_bytes_field 2
              (encode_user (Some (ascii ''!00000005'')) (Some (ascii ''Alice'')) (Some (ascii ''AL'')) 255 0)
   in parse_node_info (encode_bytes_field 4 ni) (int (length (encode_bytes_field 4 ni))) =
      Some (Inr \<lparr>ni_valid = True, node_num = 5, ni_long_name = ascii ''!00000005'',
                 ni_short_name = ascii ''Alic''\<rparr>)"
  unfolding Let_def
  by (subst parse_node_info_encode_user [OF _ _ _ _ _ _ _ _ _ _ refl]) (simp_all add: ascii_def)

fun packet_ids :: "u32 \<Rightarrow> u32 list \<Rightarrow> u32 list" where
  "packet_ids counter [] = []"
| "packet_ids counter (r # rs) =
     generate_packet_id counter r # packet_ids (generate_packet_id counter r) rs"

lemma generate_packet_id_low: "unat (take_bit 10 (generate_packet_id c r)) = (unat (take_bit 10 c) + 1) mod 1024"
proof -
  have "take_bit 10 (generate_packet_id c r) = take_bit 10 (c + 1)"
  proof (rule bit_word_eqI)
    fix n assume "n < LENGTH(32)"
    have "bit (0x3FF :: int) n \<longleftrightarrow> n < 10"
      using bit_mask_iff [of 10 n, where 'a = int] by (simp add: mask_eq_exp_minus_1)
    then show "bit (take_bit 10 (generate_packet_id c r)) n = bit (take_bit 10 (c + 1)) n"
      using \<open>n < LENGTH(32)\<close> by (auto simp: generate_packet_id_def bit_simps)
  qed
  moreover have "unat (take_bit 10 (c + 1)) = (unat (take_bit 10 c) + 1) mod 1024"
    by (simp add: unsigned_take_bit_eq take_bit_eq_mod unat_word_ariths mod_simps mod_mod_cancel)
  ultimately show ?thesis by simp
qed

lemma packet_ids_low:
  "i < length rs \<Longrightarrow>
   unat (take_bit 10 (packet_ids c rs ! i)) = (unat (take_bit 10 c) + 1 + i) mod 1024"
proof (induction rs arbitrary: c i)
  case (Cons r rs)
  show ?case
  proof (cases i)
    case (Suc k)
    have "((unat (take_bit 10 c) + 1) mod 1024 + (1 + k)) mod 1024 =
            ((unat (take_bit 10 c) + 1) + (1 + k)) mod 1024"
      by (rule mod_add_left_eq)
    with Cons Suc show ?thesis
      by (simp add: generate_packet_id_low)
  qed (simp add: generate_packet_id_low)
qed simp

lemma length_packet_ids [simp]: "length (packet_ids c rs) = length rs"
  by (induction rs arbitrary: c) auto

text \<open>
  The packet ids of up to 1024 packets sent in a row are pairwise different, whatever
  the random generator returns: the low ten bits count modulo 1024.
\<close>

theorem packet_ids_distinct:
  assumes "length rs \<le> 1024"
  shows "distinct (packet_ids counter rs)"
  unfolding distinct_conv_nth
proof (intro allI impI)
  fix i j
  let ?c = "unat (take_bit 10 counter) + 1"
  assume "i < length (packet_ids counter rs)" "j < length (packet_ids counter rs)" "i \<noteq> j"
  then have ij: "i < length rs" "j < length rs" "i \<noteq> j" by simp_all
  show "packet_ids counter rs ! i \<noteq> packet_ids counter rs ! j"
  proof
    assume "packet_ids counter rs ! i = packet_ids counter rs ! j"
    then have "(?c + i) mod 1024 = (?c + j) mod 1024"
      using packet_ids_low [of i rs counter] packet_ids_low [of j rs counter] ij by simp
    then have "i = j" by (rule add_mod_inj) (use ij assms in simp_all)
    with ij show False by simp
  qed
qed

theorem packet_ids_distinct_witness: "distinct (packet_ids 1023 [5, 5, 7])"
  by (rule packet_ids_distinct) simp

end
