(* ===== verification/Bridge_Message.thy ===== *)
theory Bridge_Message
  imports Bridge_Prelude
begin

text \<open>
  \<^verbatim>\<open>src/bridge/message.h\<close>: the message both transports exchange with the bridge, and its
  FNV-1a hash.  The hash is analysed as a fold of bijections: it separates any two messages
  that differ in one hashed byte.
\<close>

datatype MessageOrigin = MESHTASTIC | BITCHAT | BRIDGE_LOCAL

record sender_identity =
  meshtastic_node_id :: u32
  bitchat_fingerprint :: bytes  \<comment> \<open>32 bytes\<close>
  display_name :: bytes

record bridge_message =
  origin :: MessageOrigin
  sender :: sender_identity
  mtext :: bytes
  timestamp_ms :: u32

definition no_sender :: sender_identity where
  "no_sender = \<lparr>meshtastic_node_id = 0, bitchat_fingerprint = replicate 32 0, display_name = []\<rparr>"

definition empty_message :: bridge_message where
  "empty_message = \<lparr>origin = BRIDGE_LOCAL, sender = no_sender, mtext = [], timestamp_ms = 0\<rparr>"

definition has_bitchat_fingerprint :: "sender_identity \<Rightarrow> bool" where
  "has_bitchat_fingerprint s = list_ex (\<lambda>b. b \<noteq> 0) (bitchat_fingerprint s)"

definition fnv_mix :: "u32 \<Rightarrow> u8 \<Rightarrow> u32" where
  "fnv_mix h b = (h XOR ucast b) * 16777619"

text \<open>The bytes the hash runs over: text, node id (little-endian), fingerprint prefix.\<close>

definition hashed_bytes :: "bridge_message \<Rightarrow> bytes" where
  "hashed_bytes m = c_str (mtext m) @ put_u32_le (meshtastic_node_id (sender m)) @
                    take 8 (bitchat_fingerprint (sender m))"

definition msg_hash :: "bridge_message \<Rightarrow> u32" where
  "msg_hash m = foldl fnv_mix 2166136261 (hashed_bytes m)"

section \<open>The hash\<close>

lemma fnv_mix_inverse: "(fnv_mix h b * 899433627) XOR ucast b = h"
proof -
  have "fnv_mix h b * 899433627 = (h XOR ucast b) * (16777619 * 899433627)"
    by (simp only: fnv_mix_def mult.assoc)
  also have "(16777619 * 899433627 :: u32) = 1" by simp
  finally show ?thesis by (simp add: xor.assoc)
qed

lemma fnv_mix_inj_state: "fnv_mix h b = fnv_mix h' b \<Longrightarrow> h = h'"
  by (metis fnv_mix_inverse)

lemma fnv_mix_inj_byte: "fnv_mix h b = fnv_mix h b' \<Longrightarrow> b = b'"
proof -
  assume eq: "fnv_mix h b = fnv_mix h b'"
  have "(ucast b :: u32) = h XOR (fnv_mix h b * 899433627)"
    using fnv_mix_inverse [of h b] by (metis xor.left_commute xor_self_eq xor.right_neutral)
  also have "\<dots> = ucast b'"
    unfolding eq using fnv_mix_inverse [of h b'] by (metis xor.left_commute xor_self_eq xor.right_neutral)
  finally have "(ucast (ucast b :: u32) :: u8) = ucast (ucast b' :: u32)" by simp
  then show "b = b'" by simp
qed

lemma foldl_fnv_inj: "foldl fnv_mix h bs = foldl fnv_mix h' bs \<Longrightarrow> h = h'"
  by (induction bs arbitrary: h h') (auto dest: fnv_mix_inj_state)

text \<open>
  Two messages whose hashed bytes differ in exactly one position have different
  hashes, so a single-byte change of the text, of the node id or of the fingerprint
  prefix is never taken for a duplicate of the original message.
\<close>

theorem msg_hash_one_byte:
  assumes "hashed_bytes m = a @ x # c" and "hashed_bytes m' = a @ y # c" and "x \<noteq> y"
  shows "msg_hash m \<noteq> msg_hash m'"
proof
  assume "msg_hash m = msg_hash m'"
  then have "foldl fnv_mix (fnv_mix (foldl fnv_mix 2166136261 a) x) c =
             foldl fnv_mix (fnv_mix (foldl fnv_mix 2166136261 a) y) c"
    by (simp add: msg_hash_def assms)
  then have "x = y"
    by (blast dest: foldl_fnv_inj fnv_mix_inj_byte)
  with assms(3) show False by contradiction
qed

theorem msg_hash_one_byte_witness:
  "msg_hash (empty_message\<lparr>mtext := [104, 105]\<rparr>) \<noteq> msg_hash (empty_message\<lparr>mtext := [104, 106]\<rparr>)"
  by (rule msg_hash_one_byte [of _ "[104]" 105 "[0, 0, 0, 0, 0, 0, 0, 0, 0, 0, 0, 0]" _ 106]; code_simp)

end
