(* ===== verification/Name_Cache.thy ===== *)
theory Name_Cache
  imports Bridge_Prelude
begin

text \<open>
  The contract of the firmware's bounded name tables: the Meshtastic and the BLE table of
  the identity mapper and the node directory of the TCP transport.  Each is an array
  searched from the front, whose first matching entry is updated and which takes a new
  entry only while it has room.  The locale states what such a table promises to the
  bridge, which looks names up; its lemmas describe a table after any sequence of updates.
\<close>

section \<open>Search and update of the first matching entry\<close>

fun update_first :: "('a \<Rightarrow> bool) \<Rightarrow> ('a \<Rightarrow> 'a) \<Rightarrow> 'a list \<Rightarrow> 'a list option" where
  "update_first p f [] = None"
| "update_first p f (x # xs) =
     (if p x then Some (f x # xs) else map_option ((#) x) (update_first p f xs))"

lemma update_first_None: "update_first p f xs = None \<longleftrightarrow> (\<forall>x\<in>set xs. \<not> p x)"
  by (induction xs) auto

lemma update_first_Some:
  "update_first p f xs = Some ys \<Longrightarrow>
   \<exists>us x vs. xs = us @ x # vs \<and> ys = us @ f x # vs \<and> p x \<and> (\<forall>u\<in>set us. \<not> p u)"
proof (induction xs arbitrary: ys)
  case (Cons a xs)
  show ?case
  proof (cases "p a")
    case True
    with Cons.prems show ?thesis by (intro exI [of _ "[]"]) auto
  next
    case False
    with Cons.prems obtain zs where zs: "update_first p f xs = Some zs" "ys = a # zs" by auto
    with Cons.IH [OF zs(1)] obtain us x vs where
      "xs = us @ x # vs" "zs = us @ f x # vs" "p x" "\<forall>u\<in>set us. \<not> p u" by blast
    with False zs(2) show ?thesis by (intro exI [of _ "a # us"]) auto
  qed
qed simp

text \<open>A name is shown to a reader only when it is not empty.\<close>

definition shown :: "bytes \<Rightarrow> bytes option" where
  "shown n = (if n = [] then None else Some n)"

definition table_lookup :: "('e \<Rightarrow> 'k) \<Rightarrow> ('e \<Rightarrow> bytes) \<Rightarrow> 'e list \<Rightarrow> 'k \<Rightarrow> bytes option" where
  "table_lookup key_of name_of es k =
     map_option name_of (find (\<lambda>e. key_of e = k \<and> name_of e \<noteq> []) es)"

lemma table_lookup_Nil [simp]: "table_lookup key_of name_of [] k = None"
  by (simp add: table_lookup_def)

lemma table_lookup_Cons [simp]:
  "table_lookup key_of name_of (e # es) k =
   (if key_of e = k \<and> name_of e \<noteq> [] then Some (name_of e) else table_lookup key_of name_of es k)"
  by (simp add: table_lookup_def)

lemma table_lookup_unknown:
  "k \<notin> key_of ` set es \<Longrightarrow> table_lookup key_of name_of es k = None"
  by (induction es) auto

lemma table_lookup_distinct:
  assumes "distinct (map key_of es)" and "e \<in> set es"
  shows "table_lookup key_of name_of es (key_of e) = shown (name_of e)"
  using assms by (induction es) (auto simp: shown_def table_lookup_unknown)

lemma table_lookup_append:
  "table_lookup key_of name_of (es @ fs) k =
   (case table_lookup key_of name_of es k of None \<Rightarrow> table_lookup key_of name_of fs k | r \<Rightarrow> r)"
  by (induction es) auto

lemma table_lookup_change_other:
  assumes "key_of (f e) = key_of e" and "k \<noteq> key_of e"
  shows "table_lookup key_of name_of (us @ f e # vs) k = table_lookup key_of name_of (us @ e # vs) k"
  using assms unfolding table_lookup_append by (simp split: option.split)

section \<open>The contract\<close>

locale name_cache =
  fixes lookup :: "'s \<Rightarrow> 'k \<Rightarrow> bytes option"
    and learn :: "'s \<Rightarrow> 'i \<Rightarrow> 's"
    and keys :: "'s \<Rightarrow> 'k list"
    and key :: "'i \<Rightarrow> 'k"
    and given :: "'i \<Rightarrow> bytes option"
    and capacity :: nat
    and limit :: nat
  assumes lookup_learn_same: "distinct (keys s) \<Longrightarrow>
      key i \<in> set (keys s) \<or> length (keys s) < capacity \<Longrightarrow>
      lookup (learn s i) (key i) =
        (case given i of None \<Rightarrow> lookup s (key i) | Some n \<Rightarrow> shown (strncpy limit n))"
    and lookup_learn_other: "distinct (keys s) \<Longrightarrow> k \<noteq> key i \<Longrightarrow> lookup (learn s i) k = lookup s k"
    and keys_learn: "keys (learn s i) =
        (if key i \<in> set (keys s) \<or> capacity \<le> length (keys s) then keys s else keys s @ [key i])"
    and lookup_known: "k \<notin> set (keys s) \<Longrightarrow> lookup s k = None"
begin

fun learn_all :: "'s \<Rightarrow> 'i list \<Rightarrow> 's" where
  "learn_all s [] = s"
| "learn_all s (i # is) = learn_all (learn s i) is"

text \<open>The name the last update of a key gives.\<close>

definition latest :: "'k \<Rightarrow> 'i list \<Rightarrow> bytes option \<Rightarrow> bytes option" where
  "latest k is r0 = fold (\<lambda>i r. if key i = k then (case given i of None \<Rightarrow> r | Some n \<Rightarrow> shown (strncpy limit n))
                               else r) is r0"

lemma distinct_learn: "distinct (keys s) \<Longrightarrow> distinct (keys (learn s i))"
  by (simp add: keys_learn)

lemma distinct_learn_all: "distinct (keys s) \<Longrightarrow> distinct (keys (learn_all s is))"
  by (induction s "is" rule: learn_all.induct) (simp_all add: distinct_learn)

lemma bounded_learn: "length (keys s) \<le> capacity \<Longrightarrow> length (keys (learn s i)) \<le> capacity"
  by (simp add: keys_learn)

lemma bounded_learn_all: "length (keys s) \<le> capacity \<Longrightarrow> length (keys (learn_all s is)) \<le> capacity"
  by (induction s "is" rule: learn_all.induct) (simp_all add: bounded_learn)

text \<open>While the keys fit, the table holds for every key the last name it was given.\<close>

lemma lookup_learn_all:
  assumes "distinct (keys s)" and "card (set (keys s) \<union> key ` set is) \<le> capacity"
  shows "lookup (learn_all s is) k = latest k is (lookup s k)"
  using assms
proof (induction s "is" rule: learn_all.induct)
  case (1 s)
  then show ?case by (simp add: latest_def)
next
  case (2 s i "is")
  have room: "key i \<in> set (keys s) \<or> length (keys s) < capacity"
  proof (rule disjCI)
    assume "\<not> length (keys s) < capacity"
    then have "card (set (keys s)) \<ge> card (set (keys s) \<union> key ` set (i # is))"
      using 2(2,3) by (simp add: distinct_card)
    then have "set (keys s) = set (keys s) \<union> key ` set (i # is)"
      by (intro card_seteq) auto
    then show "key i \<in> set (keys s)" by auto
  qed
  have "set (keys (learn s i)) \<union> key ` set is = set (keys s) \<union> key ` set (i # is)"
    using room by (auto simp: keys_learn)
  then have "lookup (learn_all (learn s i) is) k = latest k is (lookup (learn s i) k)"
    using 2 by (simp add: distinct_learn)
  moreover have "lookup (learn s i) k = latest k [i] (lookup s k)"
    using room 2(2) lookup_learn_same [of s i] lookup_learn_other [of s k i]
    by (auto simp: latest_def)
  ultimately show ?case by (simp add: latest_def)
qed

text \<open>A full table never learns a new key.\<close>

lemma full_never_learns:
  assumes "capacity \<le> length (keys s)" and "k \<notin> set (keys s)"
  shows "lookup (learn_all s is) k = None"
  using assms
  by (induction s "is" rule: learn_all.induct) (simp_all add: keys_learn lookup_known)

end

section \<open>An array of entries implements the contract\<close>

text \<open>The update all three tables perform.\<close>

definition table_put :: "nat \<Rightarrow> ('e \<Rightarrow> 'k) \<Rightarrow> ('e \<Rightarrow> 'e) \<Rightarrow> 'e \<Rightarrow> 'k \<Rightarrow> 'e list \<Rightarrow> 'e list" where
  "table_put cap key_of upd new k es =
     (case update_first (\<lambda>e. key_of e = k) upd es of
        Some es' \<Rightarrow> es'
      | None \<Rightarrow> if length es < cap then es @ [new] else es)"

lemma table_put_cases [case_names hit new full]:
  assumes "\<And>e. key_of (upd e) = key_of e"
  obtains us e vs where "es = us @ e # vs" "key_of e = k" "table_put cap key_of upd new k es = us @ upd e # vs"
  | "k \<notin> key_of ` set es" "length es < cap" "table_put cap key_of upd new k es = es @ [new]"
  | "k \<notin> key_of ` set es" "cap \<le> length es" "table_put cap key_of upd new k es = es"
proof (cases "update_first (\<lambda>e. key_of e = k) upd es")
  case None
  then have "k \<notin> key_of ` set es" by (auto simp: update_first_None)
  with None that(2,3) show ?thesis by (cases "length es < cap") (auto simp: table_put_def)
next
  case (Some ys)
  with update_first_Some [OF Some] that(1) show ?thesis by (auto simp: table_put_def)
qed

lemma keys_table_put:
  assumes "\<And>e. key_of (upd e) = key_of e" and "key_of new = k"
  shows "map key_of (table_put cap key_of upd new k es) =
    (if k \<in> set (map key_of es) \<or> cap \<le> length (map key_of es) then map key_of es else map key_of es @ [k])"
  by (rule table_put_cases [of key_of upd es k cap new]) (auto simp: assms)

lemma lookup_table_put_other:
  assumes "\<And>e. key_of (upd e) = key_of e" and "key_of new = k" and "k' \<noteq> k"
  shows "table_lookup key_of name_of (table_put cap key_of upd new k es) k' = table_lookup key_of name_of es k'"
proof (rule table_put_cases [of key_of upd es k cap new])
  fix us e vs
  assume "es = us @ e # vs" "key_of e = k" "table_put cap key_of upd new k es = us @ upd e # vs"
  with assms show ?thesis
    using table_lookup_change_other [of key_of upd e k' name_of us vs] by simp
next
  assume "table_put cap key_of upd new k es = es @ [new]"
  with assms show ?thesis
    by (simp add: table_lookup_append split: option.split)
qed (use assms in auto)

lemma lookup_table_put_same:
  assumes keep: "\<And>e. key_of (upd e) = key_of e" and new: "key_of new = k"
    and dist: "distinct (map key_of es)" and room: "k \<in> key_of ` set es \<or> length es < cap"
    and upd: "\<And>e. name_of (upd e) = (case n of None \<Rightarrow> name_of e | Some s \<Rightarrow> s)"
    and nw: "name_of new = (case n of None \<Rightarrow> [] | Some s \<Rightarrow> s)"
  shows "table_lookup key_of name_of (table_put cap key_of upd new k es) k =
    (case n of None \<Rightarrow> table_lookup key_of name_of es k | Some s \<Rightarrow> shown s)"
proof -
  let ?T = "table_put cap key_of upd new k es"
  have distT: "distinct (map key_of ?T)"
    using dist by (simp add: keys_table_put [OF keep new])
  show ?thesis
  proof (rule table_put_cases [of key_of upd es k cap new, OF keep])
    fix us e vs
    assume *: "es = us @ e # vs" "key_of e = k" "?T = us @ upd e # vs"
    then have "table_lookup key_of name_of ?T (key_of (upd e)) = shown (name_of (upd e))"
      using distT by (intro table_lookup_distinct) simp_all
    moreover have "table_lookup key_of name_of es (key_of e) = shown (name_of e)"
      using * dist by (intro table_lookup_distinct) simp_all
    ultimately show ?thesis using * keep upd by (simp split: option.split)
  next
    assume *: "k \<notin> key_of ` set es" "?T = es @ [new]"
    then have "table_lookup key_of name_of ?T (key_of new) = shown (name_of new)"
      using distT by (intro table_lookup_distinct) simp_all
    then show ?thesis using * new nw
      by (simp add: table_lookup_unknown shown_def split: option.split)
  qed (use room in auto)
qed

end
