(* ===== verification/Time_Util.thy ===== *)
theory Time_Util
  imports Bridge_Prelude
begin

text \<open>
  \<^verbatim>\<open>src/utils/time_util.h\<close>: the wall clock.  A clock reading is the pair \<^verbatim>\<open>tv_sec\<close>,
  \<^verbatim>\<open>tv_usec\<close> of \<^verbatim>\<open>gettimeofday\<close>; setting the clock returns the new reading.
\<close>

definition EPOCH_2020 :: int where "EPOCH_2020 = 1577836800"

definition time_is_synced :: "int \<Rightarrow> bool" where
  "time_is_synced tv_sec \<longleftrightarrow> tv_sec \<ge> EPOCH_2020"

definition bitchat_epoch_ms :: "int \<times> int \<Rightarrow> u32 \<Rightarrow> u64" where
  "bitchat_epoch_ms tv now =
     (if fst tv < EPOCH_2020 then ucast now
      else of_int (fst tv) * 1000 + of_int (snd tv div 1000))"

text \<open>The new value of \<^verbatim>\<open>tv_sec\<close>, and whether the clock was set.\<close>

definition time_sync_from_epoch :: "int \<Rightarrow> u32 \<Rightarrow> int \<times> bool" where
  "time_sync_from_epoch tv_sec unix_seconds =
     (if time_is_synced tv_sec then (tv_sec, False)
      else if uint unix_seconds < EPOCH_2020 then (tv_sec, False)
      else (uint unix_seconds, True))"

lemma time_sync_keeps_synced: "time_is_synced t \<Longrightarrow> fst (time_sync_from_epoch t u) = t"
  by (simp add: time_sync_from_epoch_def)

lemma time_sync_once:
  "snd (time_sync_from_epoch t u) \<Longrightarrow>
   time_is_synced (fst (time_sync_from_epoch t u)) \<and> \<not> snd (time_sync_from_epoch (fst (time_sync_from_epoch t u)) u')"
  by (auto simp: time_sync_from_epoch_def time_is_synced_def split: if_splits)

end
