(* ===== verification/Mesh_Tcp.thy ===== *)
theory Mesh_Tcp
  imports Mesh_Proto Bridge_Message Name_Cache Time_Util
begin

text \<open>
  \<^verbatim>\<open>src/meshtastic/meshtastic_tcp.{h,cpp}\<close>: the TCP client of a Meshtastic radio.  Its state
  is the record \<open>mesh_tcp\<close>; what it does to the socket and to the bridge is the list of
  \<open>tcp_out\<close> actions each operation returns, in order.  The socket's answers (connected,
  bytes available), the clock and the random numbers are arguments.  Every operation
  reads \<^verbatim>\<open>millis()\<close> once.  An operation that parses may never return (\<open>None\<close>).
\<close>

section \<open>State\<close>

definition MESH_START1 :: u8 where "MESH_START1 = 0x94"
definition MESH_START2 :: u8 where "MESH_START2 = 0xC3"
definition MESH_HEARTBEAT_MS :: u32 where "MESH_HEARTBEAT_MS = 300000"
definition MESHTASTIC_CHANNEL :: u8 where "MESHTASTIC_CHANNEL = 0"
definition BRIDGE_NODEINFO_INTERVAL_MS :: u32 where "BRIDGE_NODEINFO_INTERVAL_MS = 3600000"
definition BRIDGE_HW_MODEL :: u32 where "BRIDGE_HW_MODEL = 255"
definition BRIDGE_ROLE :: u32 where "BRIDGE_ROLE = 0"
definition POSITION_FORWARD_MIN_MS :: u32 where "POSITION_FORWARD_MIN_MS = 300000"
definition TELEMETRY_FORWARD_MIN_MS :: u32 where "TELEMETRY_FORWARD_MIN_MS = 300000"
definition MAX_NODES :: nat where "MAX_NODES = 32"

lemmas tcp_consts = MESH_START1_def MESH_START2_def MESHTASTIC_CHANNEL_def MAX_NODES_def
  BRIDGE_HW_MODEL_def BRIDGE_ROLE_def

text \<open>The build switches \<^verbatim>\<open>BRIDGE_FORWARD_POSITION\<close> and \<^verbatim>\<open>BRIDGE_FORWARD_TELEMETRY\<close>.\<close>

record forward_config =
  forward_position :: bool
  forward_telemetry :: bool

definition default_forward :: forward_config where
  "default_forward = \<lparr>forward_position = False, forward_telemetry = False\<rparr>"

datatype RxState = WAIT_START1 | WAIT_START2 | READ_LEN_HI | READ_LEN_LO | READ_PAYLOAD

record node_entry =
  ne_id :: u32
  ne_long_name :: bytes
  ne_short_name :: bytes
  ne_last_pos_ms :: u32
  ne_last_tel_ms :: u32

text \<open>\<open>rx_buf\<close> holds the bytes stored so far; its length is \<^verbatim>\<open>_rx_pos\<close>.\<close>

record mesh_tcp =
  connected :: bool
  config_complete :: bool
  config_nonce :: u32
  my_node_id :: u32
  packet_id_counter :: u32
  nodes :: "node_entry list"
  bridge_node_num :: u32
  last_nodeinfo_ms :: u32
  bridge_long_name :: bytes
  bridge_short_name :: bytes
  nodeinfo_pending :: bool
  last_heartbeat_ms :: u32
  rx_buf :: bytes
  rx_state :: RxState
  rx_payload_len :: u16
  on_message_set :: bool
  wall_sec :: int

definition new_mesh_tcp :: "bool \<Rightarrow> int \<Rightarrow> mesh_tcp" where
  "new_mesh_tcp callback wall =
     \<lparr>connected = False, config_complete = False, config_nonce = 0, my_node_id = 0,
      packet_id_counter = 0, nodes = [], bridge_node_num = 0, last_nodeinfo_ms = 0,
      bridge_long_name = [], bridge_short_name = [], nodeinfo_pending = False,
      last_heartbeat_ms = 0, rx_buf = [], rx_state = WAIT_START1, rx_payload_len = 0,
      on_message_set = callback, wall_sec = wall\<rparr>"

datatype tcp_out =
    Tcp_write bytes
  | Tcp_flush
  | Tcp_stop
  | Deliver bridge_message  \<comment> \<open>the call of \<^verbatim>\<open>_on_message\<close>\<close>

section \<open>The node directory\<close>

definition get_node_name :: "mesh_tcp \<Rightarrow> u32 \<Rightarrow> bytes option" where
  "get_node_name s node_id =
     map_option ne_long_name (find (\<lambda>e. ne_id e = node_id \<and> ne_long_name e \<noteq> []) (nodes s))"

definition store_node_info :: "mesh_tcp \<Rightarrow> parsed_node_info \<Rightarrow> mesh_tcp" where
  "store_node_info s ni =
     (let set_names = (\<lambda>e. e\<lparr>ne_long_name := strncpy 39 (ni_long_name ni),
                             ne_short_name := strncpy 4 (ni_short_name ni)\<rparr>) in
      case update_first (\<lambda>e. ne_id e = node_num ni) set_names (nodes s) of
        Some ns \<Rightarrow> s\<lparr>nodes := ns\<rparr>
      | None \<Rightarrow>
          if length (nodes s) < MAX_NODES then
            s\<lparr>nodes := nodes s @ [set_names \<lparr>ne_id = node_num ni, ne_long_name = [], ne_short_name = [],
                                            ne_last_pos_ms = 0, ne_last_tel_ms = 0\<rparr>]\<rparr>
          else s)"

text \<open>The index of the entry stands for the returned pointer.\<close>

definition find_or_create_node :: "mesh_tcp \<Rightarrow> u32 \<Rightarrow> mesh_tcp \<times> nat option" where
  "find_or_create_node s node_id =
     (case find (\<lambda>i. ne_id (nodes s ! i) = node_id) [0..<length (nodes s)] of
        Some i \<Rightarrow> (s, Some i)
      | None \<Rightarrow>
          if length (nodes s) < MAX_NODES then
            (s\<lparr>nodes := nodes s @ [\<lparr>ne_id = node_id, ne_long_name = [], ne_short_name = [],
                                    ne_last_pos_ms = 0, ne_last_tel_ms = 0\<rparr>]\<rparr>,
             Some (length (nodes s)))
          else (s, None))"

section \<open>Sending\<close>

definition is_connected :: "mesh_tcp \<Rightarrow> bool \<Rightarrow> bool" where
  "is_connected s link \<longleftrightarrow> connected s \<and> config_complete s \<and> link"

definition send_raw :: "bytes \<Rightarrow> tcp_out list" where
  "send_raw payload =
     (let len = of_nat (length payload) :: u16 in
      [Tcp_write [MESH_START1, MESH_START2, ucast (drop_bit 8 len), ucast (len AND 0xFF)],
       Tcp_write (take (unat len) payload), Tcp_flush])"

definition send_text :: "bool \<Rightarrow> u32 \<Rightarrow> mesh_tcp \<Rightarrow> bytes \<Rightarrow> u32 \<Rightarrow> u8 \<Rightarrow> mesh_tcp \<times> tcp_out list \<times> bool" where
  "send_text link rnd s txt dest chan =
     (if \<not> is_connected s link then (s, [], False) else
      let payload = take MESH_DATA_MAX (c_str txt);
          data_buf = encode_data PORTNUM_TEXT_MESSAGE_APP payload;
          pkt_id = generate_packet_id (packet_id_counter s) rnd;
          mp_buf = encode_mesh_packet_nofrom dest pkt_id chan 3 data_buf;
          tr_buf = encode_to_radio_packet mp_buf
      in (s\<lparr>packet_id_counter := pkt_id\<rparr>, send_raw tr_buf, True))"

definition send_node_info :: "mesh_tcp \<Rightarrow> u32 \<Rightarrow> bytes option \<Rightarrow> bytes option \<Rightarrow> mesh_tcp \<times> bool" where
  "send_node_info s num long_name short_name =
     (if num = 0 then (s, False) else
      (s\<lparr>bridge_node_num := num,
         bridge_long_name := (case long_name of None \<Rightarrow> bridge_long_name s | Some n \<Rightarrow> strncpy 39 n),
         bridge_short_name := (case short_name of None \<Rightarrow> bridge_short_name s | Some n \<Rightarrow> strncpy 4 n),
         nodeinfo_pending := True\<rparr>, True))"

definition emit_node_info :: "bool \<Rightarrow> u32 \<Rightarrow> mesh_tcp \<Rightarrow> mesh_tcp \<times> tcp_out list \<times> bool" where
  "emit_node_info link rnd s =
     (if \<not> is_connected s link \<or> bridge_node_num s = 0 then (s, [], False) else
      let id_buf = snprintf 10 (ascii ''!'' @ hex8 (bridge_node_num s));
          user_buf = encode_user (Some id_buf) (Some (bridge_long_name s)) (Some (bridge_short_name s))
                       BRIDGE_HW_MODEL BRIDGE_ROLE;
          data_buf = encode_data PORTNUM_NODEINFO_APP user_buf;
          pkt_id = generate_packet_id (packet_id_counter s) rnd;
          mp_buf = encode_mesh_packet (bridge_node_num s) MESH_BROADCAST pkt_id MESHTASTIC_CHANNEL 3 data_buf;
          tr_buf = encode_to_radio_packet mp_buf
      in (s\<lparr>packet_id_counter := pkt_id\<rparr>, send_raw tr_buf, True))"

definition send_heartbeat :: "tcp_out list" where
  "send_heartbeat = send_raw encode_to_radio_heartbeat"

section \<open>Receiving\<close>

text \<open>The scan for \<^verbatim>\<open>my_info\<close>: a loop in a loop, either of which may not end.\<close>

definition my_node_num_body :: "proto_field \<Rightarrow> u32 \<Rightarrow> (u32, c_ub) ctl" where
  "my_node_num_body mf node_id = Continue
     (if field_num mf = 1 \<and> wire_type mf = 5 then fixed32_val mf else node_id)"

definition my_info_body :: "proto_field \<Rightarrow> u32 \<Rightarrow> (u32, u32 run) ctl" where
  "my_info_body f node_id =
     (if field_num f = 3 \<and> wire_type f = 2 then
        (case scan_fields my_node_num_body (fst (bytes_val f)) (snd (bytes_val f)) node_id of
           Some (Inr n) \<Rightarrow> Continue n
         | r \<Rightarrow> Return r)
      else Continue node_id)"

definition scan_my_info :: "bytes \<Rightarrow> int \<Rightarrow> u32 \<Rightarrow> u32 run" where
  "scan_my_info buf len node_id =
     (case field_loop my_info_body buf len node_id of
        None \<Rightarrow> None
      | Some (Return r) \<Rightarrow> r
      | Some (Continue n) \<Rightarrow> Some (Inr n))"

definition learn_node_info :: "bytes \<Rightarrow> int \<Rightarrow> mesh_tcp \<Rightarrow> mesh_tcp run" where
  "learn_node_info buf len s =
     run_bind (parse_node_info buf len)
       (\<lambda>ni. Some (Inr (if ni_valid ni then store_node_info s ni else s)))"

definition handle_config :: "mesh_tcp \<Rightarrow> bytes \<Rightarrow> int \<Rightarrow> mesh_tcp run" where
  "handle_config s buf len =
     run_bind (scan_my_info buf len (my_node_id s)) (\<lambda>n.
     run_bind (learn_node_info buf len (s\<lparr>my_node_id := n\<rparr>)) (\<lambda>s.
     run_bind (is_config_complete buf len (config_nonce s)) (\<lambda>done_flag.
     Some (Inr (if done_flag then s\<lparr>config_complete := True\<rparr> else s)))))"

text \<open>
  The rate limit of position and telemetry reports: whether the report passes, and the
  directory with the new time stamp.
\<close>

definition rate_gate ::
  "(node_entry \<Rightarrow> u32) \<Rightarrow> (u32 \<Rightarrow> node_entry \<Rightarrow> node_entry) \<Rightarrow> u32 \<Rightarrow> u32 \<Rightarrow> mesh_tcp \<Rightarrow> u32 \<Rightarrow> mesh_tcp \<times> bool" where
  "rate_gate last_ms set_last min_ms now s node_id =
     (case find_or_create_node s node_id of
        (s, None) \<Rightarrow> (s, True)
      | (s, Some i) \<Rightarrow>
          if last_ms (nodes s ! i) \<noteq> 0 \<and> now - last_ms (nodes s ! i) < min_ms then (s, False)
          else (s\<lparr>nodes := (nodes s)[i := set_last now (nodes s ! i)]\<rparr>, True))"

definition report_gate :: "forward_config \<Rightarrow> u32 \<Rightarrow> mesh_tcp \<Rightarrow> parsed_text_message \<Rightarrow> mesh_tcp \<times> bool" where
  "report_gate fwd now s msg =
     (if kind msg = PK_POSITION then
        if \<not> forward_position fwd then (s, False)
        else rate_gate ne_last_pos_ms (\<lambda>t e. e\<lparr>ne_last_pos_ms := t\<rparr>) POSITION_FORWARD_MIN_MS now s (from_node msg)
      else if kind msg = PK_TELEMETRY then
        if \<not> forward_telemetry fwd then (s, False)
        else rate_gate ne_last_tel_ms (\<lambda>t e. e\<lparr>ne_last_tel_ms := t\<rparr>) TELEMETRY_FORWARD_MIN_MS now s (from_node msg)
      else (s, True))"

definition stamp_text :: "parsed_text_message \<Rightarrow> bytes" where
  "stamp_text msg =
     (if (kind msg = PK_POSITION \<or> kind msg = PK_TELEMETRY) \<and> rx_time msg > 0 then
        let t = unat (rx_time msg) in
        snprintf 256 (ptext msg @ ascii '' @ '' @ dec2 ((t div 3600) mod 24) @ ascii '':'' @
                      dec2 ((t div 60) mod 60) @ ascii '':'' @ dec2 (t mod 60))
      else ptext msg)"

definition to_bridge_message :: "u32 \<Rightarrow> mesh_tcp \<Rightarrow> parsed_text_message \<Rightarrow> bridge_message" where
  "to_bridge_message now s msg =
     \<lparr>origin = MESHTASTIC,
      sender = no_sender\<lparr>meshtastic_node_id := from_node msg,
                         display_name := (case get_node_name s (from_node msg) of
                            Some name \<Rightarrow> strncpy 31 name
                          | None \<Rightarrow> snprintf 32 (ascii ''!'' @ hex8 (from_node msg)))\<rparr>,
      mtext = strncpy 511 (stamp_text msg),
      timestamp_ms = now\<rparr>"

text \<open>The message part of the handler: \<open>None\<close> in the last component is an early return.\<close>

definition forward_message ::
  "forward_config \<Rightarrow> u32 \<Rightarrow> mesh_tcp \<Rightarrow> parsed_text_message \<Rightarrow> mesh_tcp \<times> tcp_out list option" where
  "forward_message fwd now s msg =
     (if valid msg \<and> on_message_set s then
        if from_node msg = my_node_id s \<and> my_node_id s \<noteq> 0 then (s, None)
        else if from_node msg = bridge_node_num s \<and> bridge_node_num s \<noteq> 0 then (s, None)
        else (case report_gate fwd now s msg of
                (s, False) \<Rightarrow> (s, None)
              | (s, True) \<Rightarrow> (s, Some [Deliver (to_bridge_message now s msg)]))
      else (s, Some []))"

definition sync_clock :: "mesh_tcp \<Rightarrow> parsed_text_message \<Rightarrow> mesh_tcp" where
  "sync_clock s msg =
     (if rx_time msg > 0 then s\<lparr>wall_sec := fst (time_sync_from_epoch (wall_sec s) (rx_time msg))\<rparr> else s)"

definition handle_from_radio ::
  "float_fmt \<Rightarrow> forward_config \<Rightarrow> u32 \<Rightarrow> mesh_tcp \<Rightarrow> bytes \<Rightarrow> int \<Rightarrow> (mesh_tcp \<times> tcp_out list) run" where
  "handle_from_radio ff fwd now s buf len =
     (if \<not> config_complete s then
        run_bind (handle_config s buf len) (\<lambda>s. Some (Inr (s, [])))
      else
        run_bind (parse_from_radio ff buf len) (\<lambda>msg.
          case forward_message fwd now (sync_clock s msg) msg of
            (s, None) \<Rightarrow> Some (Inr (s, []))
          | (s, Some outs) \<Rightarrow>
              run_bind (learn_node_info buf len s) (\<lambda>s. Some (Inr (s, outs)))))"

definition process_byte ::
  "float_fmt \<Rightarrow> forward_config \<Rightarrow> u32 \<Rightarrow> mesh_tcp \<Rightarrow> u8 \<Rightarrow> (mesh_tcp \<times> tcp_out list) run" where
  "process_byte ff fwd now s b =
     (case rx_state s of
        WAIT_START1 \<Rightarrow>
          Some (Inr (if b = MESH_START1 then s\<lparr>rx_state := WAIT_START2\<rparr> else s, []))
      | WAIT_START2 \<Rightarrow>
          Some (Inr (s\<lparr>rx_state := (if b = MESH_START2 then READ_LEN_HI else WAIT_START1)\<rparr>, []))
      | READ_LEN_HI \<Rightarrow>
          Some (Inr (s\<lparr>rx_payload_len := push_bit 8 (ucast b), rx_state := READ_LEN_LO\<rparr>, []))
      | READ_LEN_LO \<Rightarrow>
          (let len = rx_payload_len s OR ucast b in
           if unat len > MESH_MAX_PAYLOAD then Some (Inr (s\<lparr>rx_payload_len := len, rx_state := WAIT_START1\<rparr>, []))
           else Some (Inr (s\<lparr>rx_payload_len := len, rx_buf := [], rx_state := READ_PAYLOAD\<rparr>, [])))
      | READ_PAYLOAD \<Rightarrow>
          (let s = s\<lparr>rx_buf := rx_buf s @ [b]\<rparr> in
           if length (rx_buf s) \<ge> unat (rx_payload_len s) then
             run_bind (handle_from_radio ff fwd now s (rx_buf s) (int (unat (rx_payload_len s))))
               (\<lambda>(s, outs). Some (Inr (s\<lparr>rx_state := WAIT_START1\<rparr>, outs)))
           else Some (Inr (s, []))))"

text \<open>\<^verbatim>\<open>while (_client.available()) _process_byte(_client.read())\<close> over the bytes that arrive.\<close>

fun process_bytes ::
  "float_fmt \<Rightarrow> forward_config \<Rightarrow> u32 \<Rightarrow> mesh_tcp \<Rightarrow> bytes \<Rightarrow> (mesh_tcp \<times> tcp_out list) run" where
  "process_bytes ff fwd now s [] = Some (Inr (s, []))"
| "process_bytes ff fwd now s (b # bs) =
     run_bind (process_byte ff fwd now s b) (\<lambda>(s, outs).
     run_bind (process_bytes ff fwd now s bs) (\<lambda>(s, outs'). Some (Inr (s, outs @ outs'))))"

section \<open>Connection management and the main loop\<close>

definition heartbeat_step :: "u32 \<Rightarrow> mesh_tcp \<Rightarrow> mesh_tcp \<times> tcp_out list" where
  "heartbeat_step now s =
     (if config_complete s \<and> now - last_heartbeat_ms s > MESH_HEARTBEAT_MS
      then (s\<lparr>last_heartbeat_ms := now\<rparr>, send_heartbeat) else (s, []))"

definition nodeinfo_step :: "bool \<Rightarrow> u32 \<Rightarrow> u32 \<Rightarrow> mesh_tcp \<Rightarrow> mesh_tcp \<times> tcp_out list" where
  "nodeinfo_step link rnd now s =
     (if config_complete s \<and> bridge_node_num s \<noteq> 0 \<and>
         (nodeinfo_pending s \<or> now - last_nodeinfo_ms s > BRIDGE_NODEINFO_INTERVAL_MS)
      then (case emit_node_info link rnd s of
              (s, outs, _) \<Rightarrow> (s\<lparr>nodeinfo_pending := False, last_nodeinfo_ms := now\<rparr>, outs))
      else (s, []))"

text \<open>\<open>link\<close> is the answer of \<^verbatim>\<open>_client.connected()\<close>, \<open>bs\<close> the bytes read while some are available.\<close>

definition tcp_loop ::
  "float_fmt \<Rightarrow> forward_config \<Rightarrow> bool \<Rightarrow> u32 \<Rightarrow> u32 \<Rightarrow> mesh_tcp \<Rightarrow> bytes \<Rightarrow> (mesh_tcp \<times> tcp_out list) run" where
  "tcp_loop ff fwd link rnd now s bs =
     (if \<not> connected s then Some (Inr (s, []))
      else if \<not> link then
        Some (Inr (s\<lparr>connected := False, config_complete := False, rx_state := WAIT_START1, rx_buf := []\<rparr>, []))
      else
        run_bind (process_bytes ff fwd now s bs) (\<lambda>(s, outs).
          let (s, hb) = heartbeat_step now s; (s, ni) = nodeinfo_step link rnd now s
          in Some (Inr (s, outs @ hb @ ni))))"

definition tcp_disconnect :: "bool \<Rightarrow> mesh_tcp \<Rightarrow> mesh_tcp \<times> tcp_out list" where
  "tcp_disconnect link s =
     (s\<lparr>connected := False, config_complete := False\<rparr>,
      if link then send_raw (encode_varint_field 4 1) @ [Tcp_stop] else [])"

text \<open>\<^verbatim>\<open>_resolve_host\<close>: \<open>query\<close> is the mDNS query, 0 when it fails.\<close>

definition resolve_host :: "(bytes \<Rightarrow> u32) \<Rightarrow> bytes \<Rightarrow> u32 option" where
  "resolve_host query host =
     (let suffix = ascii ''.local''; host_len = length host; suffix_len = length suffix in
      if host_len \<le> suffix_len \<or> drop (host_len - suffix_len) host \<noteq> suffix then None
      else
        let ip = query (take (min (host_len - suffix_len) 63) host)
        in if ip = 0 then None else Some ip)"

text \<open>
  The wait for the configuration: each element is one turn of the loop, its clock reading
  and the byte read if one is available.  Running out of turns is \<open>None\<close>.
\<close>

fun handshake_wait ::
  "float_fmt \<Rightarrow> forward_config \<Rightarrow> u32 \<Rightarrow> mesh_tcp \<Rightarrow> (u32 \<times> u8 option) list \<Rightarrow> (mesh_tcp \<times> tcp_out list) run" where
  "handshake_wait ff fwd start s [] = (if config_complete s then Some (Inr (s, [])) else None)"
| "handshake_wait ff fwd start s ((now, avail) # turns) =
     (if \<not> config_complete s \<and> now - start < 10000 then
        (case avail of
           None \<Rightarrow> handshake_wait ff fwd start s turns
         | Some b \<Rightarrow>
             run_bind (process_byte ff fwd now s b) (\<lambda>(s, outs).
             run_bind (handshake_wait ff fwd start s turns) (\<lambda>(s, outs'). Some (Inr (s, outs @ outs')))))
      else Some (Inr (s, [])))"

definition do_handshake ::
  "float_fmt \<Rightarrow> forward_config \<Rightarrow> u32 \<Rightarrow> u32 \<Rightarrow> mesh_tcp \<Rightarrow> (u32 \<times> u8 option) list \<Rightarrow>
   (mesh_tcp \<times> tcp_out list \<times> bool) run" where
  "do_handshake ff fwd rnd start s turns =
     run_bind (handshake_wait ff fwd start (s\<lparr>config_nonce := rnd\<rparr>) turns) (\<lambda>(s, outs).
       Some (Inr (s, Tcp_write (replicate 32 MESH_START2) #
                     send_raw (encode_to_radio_want_config rnd) @ outs, config_complete s)))"

text \<open>
  \<open>open_ip\<close> and \<open>open_host\<close> are \<^verbatim>\<open>_client.connect\<close>; \<open>link'\<close> is \<^verbatim>\<open>_client.connected()\<close>
  when a failed handshake disconnects.
\<close>

definition tcp_connect ::
  "float_fmt \<Rightarrow> forward_config \<Rightarrow> (bytes \<Rightarrow> u32) \<Rightarrow> (u32 \<Rightarrow> bool) \<Rightarrow> (bytes \<Rightarrow> bool) \<Rightarrow> bytes \<Rightarrow> bool \<Rightarrow>
   u32 \<Rightarrow> u32 \<Rightarrow> u32 \<Rightarrow> mesh_tcp \<Rightarrow> (u32 \<times> u8 option) list \<Rightarrow> (mesh_tcp \<times> tcp_out list \<times> bool) run" where
  "tcp_connect ff fwd query open_ip open_host host link' rnd start now s turns =
     (if \<not> (case resolve_host query host of Some ip \<Rightarrow> open_ip ip | None \<Rightarrow> open_host host)
      then Some (Inr (s, [], False))
      else
        run_bind (do_handshake ff fwd rnd start
                    (s\<lparr>connected := True, config_complete := False, rx_state := WAIT_START1, rx_buf := []\<rparr>) turns)
          (\<lambda>(s, outs, ok).
             if ok then Some (Inr (s\<lparr>last_heartbeat_ms := now\<rparr>, outs, True))
             else (case tcp_disconnect link' s of (s, outs') \<Rightarrow> Some (Inr (s, outs @ outs', False)))))"

section \<open>The directory implements the name table contract\<close>

lemma get_node_name_table: "get_node_name s k = table_lookup ne_id ne_long_name (nodes s) k"
  by (simp add: get_node_name_def table_lookup_def)

definition set_names :: "parsed_node_info \<Rightarrow> node_entry \<Rightarrow> node_entry" where
  "set_names ni e = e\<lparr>ne_long_name := strncpy 39 (ni_long_name ni), ne_short_name := strncpy 4 (ni_short_name ni)\<rparr>"

lemma nodes_store_node_info:
  "store_node_info s ni = s\<lparr>nodes := table_put MAX_NODES ne_id (set_names ni)
     (set_names ni \<lparr>ne_id = node_num ni, ne_long_name = [], ne_short_name = [], ne_last_pos_ms = 0,
                    ne_last_tel_ms = 0\<rparr>) (node_num ni) (nodes s)\<rparr>"
  by (simp add: store_node_info_def table_put_def set_names_def [abs_def] Let_def split: option.split)

lemma set_names_simps [simp]:
  "ne_id (set_names ni e) = ne_id e" "ne_long_name (set_names ni e) = strncpy 39 (ni_long_name ni)"
  by (simp_all add: set_names_def)

interpretation directory: name_cache get_node_name store_node_info "\<lambda>s. map ne_id (nodes s)" node_num
  "\<lambda>ni. Some (ni_long_name ni)" MAX_NODES 39
proof unfold_locales
  fix s :: mesh_tcp and i :: parsed_node_info
  assume d: "distinct (map ne_id (nodes s))"
    and room: "node_num i \<in> set (map ne_id (nodes s)) \<or> length (map ne_id (nodes s)) < MAX_NODES"
  show "get_node_name (store_node_info s i) (node_num i) =
    (case Some (ni_long_name i) of None \<Rightarrow> get_node_name s (node_num i) | Some n \<Rightarrow> shown (strncpy 39 n))"
    using d room unfolding get_node_name_table nodes_store_node_info
    by (simp, subst lookup_table_put_same [where n = "Some (strncpy 39 (ni_long_name i))"]) auto
next
  fix s :: mesh_tcp and k and i :: parsed_node_info
  assume "k \<noteq> node_num i"
  then show "get_node_name (store_node_info s i) k = get_node_name s k"
    by (simp add: get_node_name_table nodes_store_node_info lookup_table_put_other)
next
  fix s :: mesh_tcp and i :: parsed_node_info
  show "map ne_id (nodes (store_node_info s i)) =
    (if node_num i \<in> set (map ne_id (nodes s)) \<or> MAX_NODES \<le> length (map ne_id (nodes s))
     then map ne_id (nodes s) else map ne_id (nodes s) @ [node_num i])"
    by (simp add: nodes_store_node_info keys_table_put)
next
  fix s :: mesh_tcp and k
  assume "k \<notin> set (map ne_id (nodes s))"
  then show "get_node_name s k = None"
    by (simp add: get_node_name_table table_lookup_unknown)
qed

section \<open>Framing\<close>

text \<open>The bytes a list of actions puts on the socket.\<close>

definition wire :: "tcp_out list \<Rightarrow> bytes" where
  "wire outs = concat (map (\<lambda>out. case out of Tcp_write bs \<Rightarrow> bs | _ \<Rightarrow> []) outs)"

lemma u16_of_bytes:
  fixes w :: u16
  shows "push_bit 8 (ucast (ucast (drop_bit 8 w) :: u8)) OR ucast (ucast (w AND 0xFF) :: u8) = w"
proof -
  have "w AND 0xFF = take_bit 8 w"
    by (simp add: take_bit_eq_mask mask_eq_exp_minus_1)
  moreover have "push_bit 8 (ucast (ucast (drop_bit 8 w) :: u8)) OR ucast (ucast (take_bit 8 w) :: u8) = w"
    by (rule bit_word_eqI) (auto simp: bit_simps)
  ultimately show ?thesis by simp
qed

lemma wire_send_raw:
  assumes "length p < 2 ^ 16"
  shows "wire (send_raw p) = [MESH_START1, MESH_START2, ucast (drop_bit 8 (of_nat (length p) :: u16)),
                              ucast ((of_nat (length p) :: u16) AND 0xFF)] @ p"
  using assms by (simp add: wire_def send_raw_def Let_def unat_of_nat take_bit_nat_eq_self)

lemma run_bind_simps [simp]:
  "run_bind (Some (Inr a)) k = k a" "run_bind None k = None" "run_bind (Some (Inl e)) k = Some (Inl e)"
  by (simp_all add: run_bind_def)

lemma run_bind_assoc: "run_bind (run_bind m f) g = run_bind m (\<lambda>a. run_bind (f a) g)"
  by (simp add: run_bind_def split: option.split sum.split)

text \<open>After a frame: the handler's result, then the rest of the stream.\<close>

definition then_process ::
  "float_fmt \<Rightarrow> forward_config \<Rightarrow> u32 \<Rightarrow> bytes \<Rightarrow> mesh_tcp \<times> tcp_out list \<Rightarrow> (mesh_tcp \<times> tcp_out list) run" where
  "then_process ff fwd now rest = (\<lambda>(s, outs).
     run_bind (process_bytes ff fwd now (s\<lparr>rx_state := WAIT_START1\<rparr>) rest)
       (\<lambda>(s, outs'). Some (Inr (s, outs @ outs'))))"

lemma process_payload:
  assumes "rx_state s = READ_PAYLOAD" and "unat (rx_payload_len s) = length (rx_buf s) + length p" and "p \<noteq> []"
  shows "process_bytes ff fwd now s (p @ rest) =
         run_bind (handle_from_radio ff fwd now (s\<lparr>rx_buf := rx_buf s @ p\<rparr>) (rx_buf s @ p)
                     (int (length (rx_buf s @ p)))) (then_process ff fwd now rest)"
  using assms
proof (induction p arbitrary: s)
  case (Cons b p)
  show ?case
  proof (cases p)
    case Nil
    with Cons.prems show ?thesis
      by (simp add: process_byte_def Let_def run_bind_assoc then_process_def split_def)
  next
    case (Cons c q)
    with Cons.prems Cons.IH [of "s\<lparr>rx_buf := rx_buf s @ [b]\<rparr>"]
    have "process_bytes ff fwd now (s\<lparr>rx_buf := rx_buf s @ [b]\<rparr>) (p @ rest) =
         run_bind (handle_from_radio ff fwd now (s\<lparr>rx_buf := rx_buf s @ b # p\<rparr>) (rx_buf s @ b # p)
                     (int (length (rx_buf s @ b # p)))) (then_process ff fwd now rest)"
      by simp
    with Cons Cons.prems show ?thesis
      by (simp add: process_byte_def Let_def then_process_def split_def run_bind_assoc)
  qed
qed simp

lemma process_frame:
  assumes "rx_state s = WAIT_START1" and "1 \<le> length p" and "length p \<le> MESH_MAX_PAYLOAD"
  shows "process_bytes ff fwd now s (wire (send_raw p) @ rest) =
         run_bind (handle_from_radio ff fwd now
                     (s\<lparr>rx_payload_len := of_nat (length p), rx_state := READ_PAYLOAD, rx_buf := p\<rparr>)
                     p (int (length p))) (then_process ff fwd now rest)"
proof -
  let ?s = "s\<lparr>rx_payload_len := of_nat (length p), rx_buf := [], rx_state := READ_PAYLOAD\<rparr>"
  have n: "unat (of_nat (length p) :: u16) = length p"
    using assms(3) by (simp add: unat_of_nat MESH_MAX_PAYLOAD_def take_bit_nat_eq_self)
  have "process_bytes ff fwd now s (wire (send_raw p) @ rest) = process_bytes ff fwd now ?s (p @ rest)"
    using assms by (simp add: wire_send_raw MESH_MAX_PAYLOAD_def process_byte_def u16_of_bytes n
        run_bind_def split_def split: option.split sum.split)
  also have "\<dots> = run_bind (handle_from_radio ff fwd now (?s\<lparr>rx_buf := p\<rparr>) p (int (length p)))
                    (then_process ff fwd now rest)"
    using process_payload [of ?s p ff fwd now rest] assms(2) n by (cases p) simp_all
  finally show ?thesis by simp
qed

section \<open>Delivery\<close>

definition from_radio_text :: "u32 \<Rightarrow> u32 \<Rightarrow> u32 \<Rightarrow> u8 \<Rightarrow> u8 \<Rightarrow> bytes \<Rightarrow> bytes" where
  "from_radio_text frm dest pkt_id ch hop t =
     encode_bytes_field 2 (encode_mesh_packet frm dest pkt_id ch hop (encode_data PORTNUM_TEXT_MESSAGE_APP t))"

lemma unat_ucast_u8: "unat (ucast (x :: u8) :: u32) < 256"
  by (simp add: unsigned_ucast_eq take_bit_nat_eq_self less_le_trans [OF unsigned_less])

lemma length_varint_of_nat: "n < 16384 \<Longrightarrow> length (encode_varint (of_nat n)) \<le> 2"
  by (rule length_encode_varint_2) (simp add: unat_of_nat take_bit_nat_eq_self)

lemma length_varint_u8: "length (encode_varint (ucast (x :: u8))) \<le> 2"
  using unat_ucast_u8 [of x] by (intro length_encode_varint_2) simp

lemma length_encode_data:
  assumes "length t \<le> 300" and "unat port < 128"
  shows "length (encode_data port t) \<le> length t + 5"
  using assms length_varint_of_nat [of "length t"] length_encode_varint_1 [of port]
  by (simp add: encode_data_def encode_varint_field_def encode_bytes_field_def)

lemma length_encode_mesh_packet:
  assumes "length d \<le> 400"
  shows "length (encode_mesh_packet frm dest pkt_id ch hop d) \<le> length d + 24"
  using assms length_varint_of_nat [of "length d"] length_varint_u8 [of ch] length_varint_u8 [of hop]
  by (simp add: encode_mesh_packet_def encode_fixed32_def encode_varint_field_def)

lemma length_from_radio_text:
  assumes "length t \<le> MESH_DATA_MAX"
  shows "1 \<le> length (from_radio_text frm dest pkt_id ch hop t)"
    and "length (from_radio_text frm dest pkt_id ch hop t) \<le> MESH_MAX_PAYLOAD"
proof -
  let ?d = "encode_data PORTNUM_TEXT_MESSAGE_APP t"
  have d: "length ?d \<le> 238"
    using assms length_encode_data [of t PORTNUM_TEXT_MESSAGE_APP] by (simp add: proto_consts)
  then have m: "length (encode_mesh_packet frm dest pkt_id ch hop ?d) \<le> 262"
    using length_encode_mesh_packet [of ?d frm dest pkt_id ch hop] by simp
  show "1 \<le> length (from_radio_text frm dest pkt_id ch hop t)"
    by (simp add: from_radio_text_def encode_bytes_field_def)
  show "length (from_radio_text frm dest pkt_id ch hop t) \<le> MESH_MAX_PAYLOAD"
    using m length_varint_of_nat [of "length (encode_mesh_packet frm dest pkt_id ch hop ?d)"]
    by (simp add: from_radio_text_def encode_bytes_field_def MESH_MAX_PAYLOAD_def)
qed

lemma learn_node_info_packet:
  assumes "length p < 2 ^ 31"
  shows "learn_node_info (encode_bytes_field 2 p) (int (length (encode_bytes_field 2 p))) s = Some (Inr s)"
  using assms
  by (simp add: learn_node_info_def parse_node_info_def scan_fields_def wire_simps last_bytes_body_def
      empty_node_info_def)

lemma to_bridge_text:
  assumes "length t \<le> MESH_DATA_MAX" and "is_cstr t" and "nodes s' = nodes s"
  shows "to_bridge_message now s' \<lparr>valid = True, kind = PK_TEXT, from_node = frm, to_node = dest,
           packet_id = pkt_id, channel = ch, rx_time = 0, ptext = take 255 t\<rparr> =
         \<lparr>origin = MESHTASTIC,
          sender = no_sender\<lparr>meshtastic_node_id := frm,
             display_name := (case get_node_name s frm of Some n \<Rightarrow> strncpy 31 n
                              | None \<Rightarrow> snprintf 32 (ascii ''!'' @ hex8 frm))\<rparr>,
          mtext = t, timestamp_ms = now\<rparr>"
proof -
  have n: "get_node_name s' = get_node_name s"
    using assms(3) by (simp add: get_node_name_def fun_eq_iff)
  show ?thesis
    using assms(1,2) by (cases "get_node_name s frm")
      (simp_all add: n to_bridge_message_def stamp_text_def strncpy_def MESH_DATA_MAX_def)
qed

lemma handle_text_packet:
  assumes "config_complete s" and "on_message_set s" and "frm \<noteq> my_node_id s" and "frm \<noteq> bridge_node_num s"
    and "0 < length t" and "length t \<le> MESH_DATA_MAX" and "is_cstr t"
    and "p = from_radio_text frm dest pkt_id ch hop t"
  shows "handle_from_radio ff fwd now s p (int (length p)) =
      Some (Inr (s, [Deliver \<lparr>origin = MESHTASTIC,
              sender = no_sender\<lparr>meshtastic_node_id := frm,
                 display_name := (case get_node_name s frm of Some n \<Rightarrow> strncpy 31 n
                                  | None \<Rightarrow> snprintf 32 (ascii ''!'' @ hex8 frm))\<rparr>,
              mtext = t, timestamp_ms = now\<rparr>]))"
proof -
  let ?m = "encode_mesh_packet frm dest pkt_id ch hop (encode_data PORTNUM_TEXT_MESSAGE_APP t)"
  have m: "length ?m < 2 ^ 31"
    using length_from_radio_text(2) [OF assms(6), of frm dest pkt_id ch hop]
    by (simp add: from_radio_text_def encode_bytes_field_def MESH_MAX_PAYLOAD_def)
  have parse: "parse_from_radio ff p (int (length p)) =
      Some (Inr \<lparr>valid = True, kind = PK_TEXT, from_node = frm, to_node = dest, packet_id = pkt_id,
                 channel = ch, rx_time = 0, ptext = take 255 t\<rparr>)"
    unfolding assms(8) from_radio_text_def using assms(5-7)
    by (intro parse_text_packet) (simp_all add: MESH_DATA_MAX_def)
  show ?thesis
    using assms(1-4) parse learn_node_info_packet [OF m, of s]
    by (simp add: handle_from_radio_def sync_clock_def forward_message_def report_gate_def
        to_bridge_text [OF assms(6,7) refl] assms(8) flip: from_radio_text_def)
qed

lemma framed_text_delivered:
  assumes "rx_state s = WAIT_START1" and "config_complete s" and "on_message_set s"
    and "frm \<noteq> my_node_id s" and "frm \<noteq> bridge_node_num s"
    and "0 < length t" and "length t \<le> MESH_DATA_MAX" and "is_cstr t"
  shows "\<exists>s'. process_bytes ff fwd now s (wire (send_raw (from_radio_text frm dest pkt_id ch hop t))) =
           Some (Inr (s', [Deliver \<lparr>origin = MESHTASTIC,
              sender = no_sender\<lparr>meshtastic_node_id := frm,
                 display_name := (case get_node_name s frm of Some n \<Rightarrow> strncpy 31 n
                                  | None \<Rightarrow> snprintf 32 (ascii ''!'' @ hex8 frm))\<rparr>,
              mtext = t, timestamp_ms = now\<rparr>])) \<and>
         rx_state s' = WAIT_START1 \<and> nodes s' = nodes s"
proof -
  let ?p = "from_radio_text frm dest pkt_id ch hop t"
  let ?s = "s\<lparr>rx_payload_len := of_nat (length ?p), rx_state := READ_PAYLOAD, rx_buf := ?p\<rparr>"
  note len = length_from_radio_text [OF assms(7), of frm dest pkt_id ch hop]
  have "get_node_name ?s = get_node_name s" by (simp add: get_node_name_def fun_eq_iff)
  then show ?thesis
    using process_frame [OF assms(1) len, of ff fwd now "[]"] assms(2-8)
      handle_text_packet [of ?s frm t ?p dest pkt_id ch hop ff fwd now]
    by (auto simp: then_process_def)
qed

text \<open>
  C13: a text packet framed by the radio's stream protocol and fed byte by byte to a configured
  client whose parser is between frames is handed to the bridge exactly once, with the
  sender's node id, the name the directory knows for it and the whole text, unless it comes
  from the radio's own node or from the bridge's own node number; the parser is then between
  frames again.
\<close>

theorem tcp_delivers_text:
  assumes "rx_state s = WAIT_START1" and "config_complete s" and "on_message_set s"
    and "frm \<noteq> my_node_id s" and "frm \<noteq> bridge_node_num s"
    and "0 < length t" and "length t \<le> MESH_DATA_MAX" and "is_cstr t"
  shows "\<exists>s'. process_bytes ff fwd now s (wire (send_raw (from_radio_text frm dest pkt_id ch hop t))) =
           Some (Inr (s', [Deliver \<lparr>origin = MESHTASTIC,
              sender = no_sender\<lparr>meshtastic_node_id := frm,
                 display_name := (case get_node_name s frm of Some n \<Rightarrow> strncpy 31 n
                                  | None \<Rightarrow> snprintf 32 (ascii ''!'' @ hex8 frm))\<rparr>,
              mtext = t, timestamp_ms = now\<rparr>])) \<and>
         rx_state s' = WAIT_START1 \<and> nodes s' = nodes s"
  by (rule framed_text_delivered [OF assms])

text \<open>A client that is configured and has a callback.\<close>

definition ready_tcp :: mesh_tcp where
  "ready_tcp = (new_mesh_tcp True 0)\<lparr>connected := True, config_complete := True, my_node_id := 1\<rparr>"

theorem tcp_delivers_text_witness:
  "\<exists>s'. process_bytes int_fmt default_forward 5 ready_tcp
          (wire (send_raw (from_radio_text 7 MESH_BROADCAST 99 0 3 [72, 105]))) =
        Some (Inr (s', [Deliver \<lparr>origin = MESHTASTIC,
           sender = no_sender\<lparr>meshtastic_node_id := 7, display_name := ascii ''!00000007''\<rparr>,
           mtext = [72, 105], timestamp_ms = 5\<rparr>])) \<and>
        rx_state s' = WAIT_START1 \<and> nodes s' = nodes ready_tcp"
proof -
  have "(case get_node_name ready_tcp 7 of Some n \<Rightarrow> strncpy 31 n
         | None \<Rightarrow> snprintf 32 (ascii ''!'' @ hex8 7)) = ascii ''!00000007''"
    by code_simp
  then show ?thesis
    using tcp_delivers_text [of ready_tcp 7 "[72, 105]" int_fmt default_forward 5 MESH_BROADCAST 99 0 3]
    by (simp add: ready_tcp_def new_mesh_tcp_def MESH_DATA_MAX_def)
qed

section \<open>Invariant\<close>

definition tcp_invar :: "mesh_tcp \<Rightarrow> bool" where
  "tcp_invar s \<longleftrightarrow>
     length (rx_buf s) \<le> MESH_MAX_PAYLOAD \<and>
     (rx_state s = READ_PAYLOAD \<longrightarrow>
        unat (rx_payload_len s) \<le> MESH_MAX_PAYLOAD \<and>
        (length (rx_buf s) < unat (rx_payload_len s) \<or> rx_buf s = [])) \<and>
     distinct (map ne_id (nodes s)) \<and> length (nodes s) \<le> MAX_NODES \<and>
     length (bridge_long_name s) \<le> 39 \<and> length (bridge_short_name s) \<le> 4"

text \<open>The part of the state the message handlers may change leaves the receive buffer alone.\<close>

definition same_rx :: "mesh_tcp \<Rightarrow> mesh_tcp \<Rightarrow> bool" where
  "same_rx s s' \<longleftrightarrow> rx_buf s' = rx_buf s \<and> rx_state s' = rx_state s \<and> rx_payload_len s' = rx_payload_len s \<and>
     bridge_long_name s' = bridge_long_name s \<and> bridge_short_name s' = bridge_short_name s \<and>
     (distinct (map ne_id (nodes s)) \<and> length (nodes s) \<le> MAX_NODES \<longrightarrow>
      distinct (map ne_id (nodes s')) \<and> length (nodes s') \<le> MAX_NODES)"

lemma same_rx_refl [simp]: "same_rx s s"
  by (simp add: same_rx_def)

lemma same_rx_trans: "same_rx s s' \<Longrightarrow> same_rx s' s'' \<Longrightarrow> same_rx s s''"
  by (simp add: same_rx_def)

lemma tcp_invar_same_rx: "tcp_invar s \<Longrightarrow> same_rx s s' \<Longrightarrow> tcp_invar s'"
  by (simp add: tcp_invar_def same_rx_def)

lemma run_bind_cases:
  assumes "run_bind m k = Some (Inr y)"
  obtains x where "m = Some (Inr x)" "k x = Some (Inr y)"
  using assms by (auto simp: run_bind_def split: option.splits sum.splits)

lemma same_rx_store: "same_rx s (store_node_info s ni)"
  using directory.distinct_learn [of s ni] directory.bounded_learn [of s ni]
  by (simp add: same_rx_def nodes_store_node_info)

lemma same_rx_learn: "learn_node_info buf len s = Some (Inr s') \<Longrightarrow> same_rx s s'"
  unfolding learn_node_info_def by (erule run_bind_cases) (auto simp: same_rx_store)

lemma same_rx_fields [simp]:
  "same_rx s (s'\<lparr>my_node_id := n\<rparr>) = same_rx s s'" "same_rx s (s'\<lparr>config_complete := c\<rparr>) = same_rx s s'"
  "same_rx s (s'\<lparr>wall_sec := w\<rparr>) = same_rx s s'"
  "same_rx (s\<lparr>my_node_id := n\<rparr>) s' = same_rx s s'" "same_rx (s\<lparr>wall_sec := w\<rparr>) s' = same_rx s s'"
  by (simp_all add: same_rx_def)

lemma same_rx_config: "handle_config s buf len = Some (Inr s') \<Longrightarrow> same_rx s s'"
  unfolding handle_config_def
  by (auto elim!: run_bind_cases dest!: same_rx_learn split: if_splits)

lemma find_or_create_cases:
  obtains i where "find_or_create_node s n = (s, Some i)" "i < length (nodes s)" "ne_id (nodes s ! i) = n"
  | "n \<notin> ne_id ` set (nodes s)" "length (nodes s) < MAX_NODES"
    "find_or_create_node s n = (s\<lparr>nodes := nodes s @ [\<lparr>ne_id = n, ne_long_name = [], ne_short_name = [],
        ne_last_pos_ms = 0, ne_last_tel_ms = 0\<rparr>]\<rparr>, Some (length (nodes s)))"
  | "n \<notin> ne_id ` set (nodes s)" "MAX_NODES \<le> length (nodes s)" "find_or_create_node s n = (s, None)"
proof (cases "find (\<lambda>i. ne_id (nodes s ! i) = n) [0..<length (nodes s)]")
  case None
  then have "n \<notin> ne_id ` set (nodes s)"
    by (auto simp: find_None_iff in_set_conv_nth)
  with None that(2,3) show ?thesis
    by (cases "length (nodes s) < MAX_NODES") (simp_all add: find_or_create_node_def)
next
  case (Some i)
  then have "i < length (nodes s) \<and> ne_id (nodes s ! i) = n"
    by (auto simp: find_Some_iff)
  with Some that(1) show ?thesis by (simp add: find_or_create_node_def)
qed

lemma map_update_same_key: "i < length xs \<Longrightarrow> (map f xs)[i := f (xs ! i)] = map f xs"
  by (metis list_update_id map_update)

lemma same_rx_rate_gate:
  assumes "\<And>t e. ne_id (set_last t e) = ne_id e"
  shows "same_rx s (fst (rate_gate last_ms set_last min_ms now s n))"
  by (rule find_or_create_cases [of s n])
    (auto simp: rate_gate_def same_rx_def assms map_update nth_append list_update_append
       map_update_same_key)

lemma same_rx_report_gate: "same_rx s (fst (report_gate fwd now s msg))"
  by (simp add: report_gate_def same_rx_rate_gate)

lemma same_rx_forward: "same_rx s (fst (forward_message fwd now s msg))"
  using same_rx_report_gate [of s fwd now msg]
  by (auto simp: forward_message_def split: prod.split bool.split)

lemma same_rx_handle:
  assumes "handle_from_radio ff fwd now s buf len = Some (Inr (s', outs))"
  shows "same_rx s s'"
proof (cases "config_complete s")
  case False
  with assms show ?thesis
    by (auto simp: handle_from_radio_def elim!: run_bind_cases dest: same_rx_config)
next
  case True
  with assms obtain msg where
    *: "(case forward_message fwd now (sync_clock s msg) msg of
            (s, None) \<Rightarrow> Some (Inr (s, []))
          | (s, Some outs) \<Rightarrow>
              run_bind (learn_node_info buf len s) (\<lambda>s. Some (Inr (s, outs)))) = Some (Inr (s', outs))"
    by (auto simp: handle_from_radio_def elim!: run_bind_cases)
  obtain s1 o1 where f: "forward_message fwd now (sync_clock s msg) msg = (s1, o1)" by force
  then have "same_rx s s1"
    using same_rx_forward [of "sync_clock s msg" fwd now msg] by (simp add: sync_clock_def split: if_splits)
  then show ?thesis
    using * f by (auto split: option.splits elim!: run_bind_cases dest!: same_rx_learn intro: same_rx_trans)
qed

lemma process_byte_invar:
  assumes "process_byte ff fwd now s b = Some (Inr (s', outs))" and "tcp_invar s"
  shows "tcp_invar s'"
proof (cases "rx_state s")
  case READ_PAYLOAD
  let ?s = "s\<lparr>rx_buf := rx_buf s @ [b]\<rparr>"
  have inv: "unat (rx_payload_len s) \<le> MESH_MAX_PAYLOAD" "length (rx_buf ?s) \<le> MESH_MAX_PAYLOAD"
    using assms(2) READ_PAYLOAD by (auto simp: tcp_invar_def MESH_MAX_PAYLOAD_def)
  show ?thesis
  proof (cases "length (rx_buf ?s) \<ge> unat (rx_payload_len s)")
    case True
    with READ_PAYLOAD assms(1) obtain s1 where
      h: "handle_from_radio ff fwd now ?s (rx_buf ?s) (int (unat (rx_payload_len s))) = Some (Inr (s1, outs))"
      and s': "s' = s1\<lparr>rx_state := WAIT_START1\<rparr>"
      by (auto simp: process_byte_def Let_def elim!: run_bind_cases)
    from same_rx_handle [OF h] assms(2) inv s' show ?thesis
      by (simp add: tcp_invar_def same_rx_def)
  next
    case False
    with READ_PAYLOAD assms inv show ?thesis
      by (auto simp: process_byte_def Let_def tcp_invar_def)
  qed
qed (use assms in \<open>auto simp: process_byte_def Let_def tcp_invar_def split: if_splits\<close>)

lemma process_bytes_invar:
  "process_bytes ff fwd now s bs = Some (Inr (s', outs)) \<Longrightarrow> tcp_invar s \<Longrightarrow> tcp_invar s'"
  by (induction bs arbitrary: s s' outs) (auto elim!: run_bind_cases dest: process_byte_invar)

lemma handshake_wait_invar:
  "handshake_wait ff fwd start s turns = Some (Inr (s', outs)) \<Longrightarrow> tcp_invar s \<Longrightarrow> tcp_invar s'"
proof (induction ff fwd start s turns arbitrary: s' outs rule: handshake_wait.induct)
  case (2 ff fwd start s now avail turns)
  show ?case
  proof (cases "\<not> config_complete s \<and> now - start < 10000")
    case True
    with 2 show ?thesis
      by (cases avail) (auto elim!: run_bind_cases dest: process_byte_invar)
  qed (use 2 in auto)
qed (auto split: if_splits)

lemma tcp_invar_fields [simp]:
  "tcp_invar (s\<lparr>packet_id_counter := c\<rparr>) = tcp_invar s" "tcp_invar (s\<lparr>config_nonce := c\<rparr>) = tcp_invar s"
  "tcp_invar (s\<lparr>last_heartbeat_ms := c\<rparr>) = tcp_invar s" "tcp_invar (s\<lparr>connected := b, config_complete := b'\<rparr>) = tcp_invar s"
  "tcp_invar (s\<lparr>nodeinfo_pending := b, last_nodeinfo_ms := c\<rparr>) = tcp_invar s" "tcp_invar (s\<lparr>wall_sec := w\<rparr>) = tcp_invar s"
  by (simp_all add: tcp_invar_def)

lemma tcp_invar_reset: "tcp_invar s \<Longrightarrow> tcp_invar (s\<lparr>connected := b, config_complete := b', rx_state := WAIT_START1, rx_buf := []\<rparr>)"
  by (simp add: tcp_invar_def)

lemma emit_node_info_invar: "tcp_invar s \<Longrightarrow> tcp_invar (fst (emit_node_info link rnd s))"
  by (simp add: emit_node_info_def Let_def)

lemma nodeinfo_step_invar: "tcp_invar s \<Longrightarrow> tcp_invar (fst (nodeinfo_step link rnd now s))"
  using emit_node_info_invar [of s link rnd]
  by (auto simp: nodeinfo_step_def split: prod.split)

lemma heartbeat_step_invar: "tcp_invar s \<Longrightarrow> tcp_invar (fst (heartbeat_step now s))"
  by (simp add: heartbeat_step_def)

lemma tcp_loop_invar:
  assumes "tcp_loop ff fwd link rnd now s bs = Some (Inr (s', outs))" and "tcp_invar s"
  shows "tcp_invar s'"
proof (cases "connected s \<and> link")
  case True
  with assms(1) obtain s1 o1 where p: "process_bytes ff fwd now s bs = Some (Inr (s1, o1))"
    and s': "s' = fst (nodeinfo_step link rnd now (fst (heartbeat_step now s1)))"
    by (auto simp: tcp_loop_def Let_def split_def elim!: run_bind_cases)
  from process_bytes_invar [OF p assms(2)] show ?thesis
    unfolding s' by (intro nodeinfo_step_invar heartbeat_step_invar)
next
  case False
  with assms show ?thesis
    by (auto simp: tcp_loop_def tcp_invar_reset split: if_splits)
qed

lemma do_handshake_invar:
  assumes "do_handshake ff fwd rnd start s turns = Some (Inr (s', outs, ok))" and "tcp_invar s"
  shows "tcp_invar s'"
  using assms unfolding do_handshake_def
  by (auto elim!: run_bind_cases dest: handshake_wait_invar)

lemma tcp_connect_invar:
  assumes "tcp_connect ff fwd query open_ip open_host host link' rnd start now s turns = Some (Inr (s', outs, ok))"
    and "tcp_invar s"
  shows "tcp_invar s'"
proof (cases "case resolve_host query host of Some ip \<Rightarrow> open_ip ip | None \<Rightarrow> open_host host")
  case True
  with assms obtain s1 o1 ok1 where
    "do_handshake ff fwd rnd start (s\<lparr>connected := True, config_complete := False, rx_state := WAIT_START1,
       rx_buf := []\<rparr>) turns = Some (Inr (s1, o1, ok1))"
    and s': "s' = s1\<lparr>last_heartbeat_ms := now\<rparr> \<or> s' = fst (tcp_disconnect link' s1)"
    by (auto simp: tcp_connect_def split: if_splits prod.splits elim!: run_bind_cases)
  then have "tcp_invar s1" using assms(2) by (auto intro: do_handshake_invar tcp_invar_reset)
  with s' show ?thesis by (auto simp: tcp_disconnect_def)
qed (use assms in \<open>auto simp: tcp_connect_def\<close>)

text \<open>
  The states of the client: each step is a call of a public operation that returns, or the
  passage of time on the wall clock.
\<close>

inductive tcp_reachable :: "mesh_tcp \<Rightarrow> bool" where
  init: "tcp_reachable (new_mesh_tcp callback wall)"
| connect: "tcp_reachable s \<Longrightarrow>
    tcp_connect ff fwd query open_ip open_host host link' rnd start now s turns = Some (Inr (s', outs, ok)) \<Longrightarrow>
    tcp_reachable s'"
| loop: "tcp_reachable s \<Longrightarrow> tcp_loop ff fwd link rnd now s bs = Some (Inr (s', outs)) \<Longrightarrow> tcp_reachable s'"
| disconnect: "tcp_reachable s \<Longrightarrow> tcp_reachable (fst (tcp_disconnect link s))"
| send: "tcp_reachable s \<Longrightarrow> tcp_reachable (fst (send_text link rnd s txt dest chan))"
| node_info: "tcp_reachable s \<Longrightarrow> tcp_reachable (fst (send_node_info s num ln sn))"
| clock: "tcp_reachable s \<Longrightarrow> tcp_reachable (s\<lparr>wall_sec := w\<rparr>)"

lemma tcp_reachable_invar: "tcp_reachable s \<Longrightarrow> tcp_invar s"
proof (induction rule: tcp_reachable.induct)
  case (init callback wall)
  then show ?case by (simp add: new_mesh_tcp_def tcp_invar_def)
next
  case (node_info s num ln sn)
  then show ?case by (auto simp: send_node_info_def tcp_invar_def split: option.split)
qed (auto simp: tcp_disconnect_def send_text_def Let_def intro: tcp_connect_invar tcp_loop_invar)

text \<open>
  In every state a sequence of operations can reach, the receive position stays within
  the 516 bytes of \<^verbatim>\<open>_rx_buf\<close> (the next byte has a slot, whatever arrives), the node
  directory has at most \<^verbatim>\<open>MAX_NODES\<close> entries with different ids, and the bridge names fit
  their arrays with a terminating zero.
\<close>

theorem tcp_buffers_bounded:
  assumes "tcp_reachable s"
  shows "length (rx_buf s) < 4 + MESH_MAX_PAYLOAD \<and> length (nodes s) \<le> MAX_NODES \<and>
         distinct (map ne_id (nodes s)) \<and> length (bridge_long_name s) < 40 \<and> length (bridge_short_name s) < 5"
  using tcp_reachable_invar [OF assms] by (auto simp: tcp_invar_def MESH_MAX_PAYLOAD_def)

lemma tcp_reachable_example:
  "tcp_reachable (fst (send_node_info (new_mesh_tcp True 0) 5 (Some [66]) (Some [66])))"
  by (rule tcp_reachable.node_info, rule tcp_reachable.init)

theorem tcp_buffers_bounded_witness:
  "length (bridge_long_name (fst (send_node_info (new_mesh_tcp True 0) 5 (Some [66]) (Some [66])))) < 40"
  using tcp_buffers_bounded [OF tcp_reachable_example] by simp

section \<open>What is delivered\<close>

lemma handle_delivers:
  assumes "handle_from_radio ff fwd now s buf len = Some (Inr (s', outs))" and "Deliver m \<in> set outs"
  obtains msg s1 where "config_complete s" "parse_from_radio ff buf len = Some (Inr msg)" "valid msg"
    "from_node msg \<noteq> my_node_id s \<or> my_node_id s = 0"
    "from_node msg \<noteq> bridge_node_num s \<or> bridge_node_num s = 0"
    "outs = [Deliver (to_bridge_message now s1 msg)]" "m = to_bridge_message now s1 msg"
    "kind msg = PK_POSITION \<longrightarrow> forward_position fwd" "kind msg = PK_TELEMETRY \<longrightarrow> forward_telemetry fwd"
proof (cases "config_complete s")
  case False
  with assms show ?thesis by (auto simp: handle_from_radio_def elim!: run_bind_cases)
next
  case True
  with assms(1) obtain msg where msg: "parse_from_radio ff buf len = Some (Inr msg)" and
    *: "(case forward_message fwd now (sync_clock s msg) msg of
            (s, None) \<Rightarrow> Some (Inr (s, []))
          | (s, Some outs) \<Rightarrow>
              run_bind (learn_node_info buf len s) (\<lambda>s. Some (Inr (s, outs)))) = Some (Inr (s', outs))"
    by (auto simp: handle_from_radio_def elim!: run_bind_cases)
  let ?c = "sync_clock s msg"
  have c: "my_node_id ?c = my_node_id s" "bridge_node_num ?c = bridge_node_num s"
    by (simp_all add: sync_clock_def)
  obtain s1 o1 where f: "forward_message fwd now ?c msg = (s1, o1)" by force
  with * assms(2) have o1: "o1 = Some outs" by (auto split: option.splits elim!: run_bind_cases)
  with f assms(2) have v: "valid msg" "\<not> (from_node msg = my_node_id s \<and> my_node_id s \<noteq> 0)"
      "\<not> (from_node msg = bridge_node_num s \<and> bridge_node_num s \<noteq> 0)"
    by (auto simp: forward_message_def c split: if_splits)
  obtain s2 b where g: "report_gate fwd now ?c msg = (s2, b)" by force
  with f o1 assms(2) v have b: "b" "outs = [Deliver (to_bridge_message now s2 msg)]"
    by (auto simp: forward_message_def c split: if_splits bool.splits)
  have "kind msg = PK_POSITION \<longrightarrow> forward_position fwd" "kind msg = PK_TELEMETRY \<longrightarrow> forward_telemetry fwd"
    using g b(1) by (auto simp: report_gate_def split: if_splits)
  with True msg v b assms(2) show ?thesis by (intro that [of msg s2]) auto
qed

text \<open>
  Whatever bytes the radio sends, a frame makes the client call the bridge at most once,
  and only with a message of Meshtastic origin that does not come from the radio's own node
  or the bridge's node number, whose name and text fit their arrays; with the build's default
  switches no position and no telemetry report is forwarded.
\<close>

theorem tcp_deliver_safe:
  assumes "handle_from_radio ff fwd now s buf len = Some (Inr (s', outs))" and "Deliver m \<in> set outs"
  shows "outs = [Deliver m] \<and> origin m = MESHTASTIC \<and> timestamp_ms m = now \<and>
         (my_node_id s \<noteq> 0 \<longrightarrow> meshtastic_node_id (sender m) \<noteq> my_node_id s) \<and>
         (bridge_node_num s \<noteq> 0 \<longrightarrow> meshtastic_node_id (sender m) \<noteq> bridge_node_num s) \<and>
         length (display_name (sender m)) < 32 \<and> length (mtext m) < 512 \<and>
         (\<exists>msg. parse_from_radio ff buf len = Some (Inr msg) \<and>
            (fwd = default_forward \<longrightarrow> kind msg \<noteq> PK_POSITION \<and> kind msg \<noteq> PK_TELEMETRY))"
proof -
  obtain msg s1 where *: "config_complete s" "parse_from_radio ff buf len = Some (Inr msg)"
    "from_node msg \<noteq> my_node_id s \<or> my_node_id s = 0"
    "from_node msg \<noteq> bridge_node_num s \<or> bridge_node_num s = 0"
    "outs = [Deliver (to_bridge_message now s1 msg)]" "m = to_bridge_message now s1 msg"
    "kind msg = PK_POSITION \<longrightarrow> forward_position fwd" "kind msg = PK_TELEMETRY \<longrightarrow> forward_telemetry fwd"
    using handle_delivers [OF assms] by metis
  have "length (display_name (sender m)) < 32"
    using *(6) length_snprintf [of 32] le_less_trans [OF length_strncpy [of 31], of 32]
    by (auto simp: to_bridge_message_def split: option.split)
  moreover have "length (mtext m) < 512"
    using *(6) le_less_trans [OF length_strncpy [of 511 "stamp_text msg"], of 512]
    by (simp add: to_bridge_message_def)
  ultimately show ?thesis
    using * by (auto simp: to_bridge_message_def default_forward_def)
qed

theorem tcp_deliver_safe_witness:
  "\<exists>s' m outs. handle_from_radio int_fmt default_forward 5 ready_tcp (from_radio_text 7 MESH_BROADCAST 99 0 3 [72])
      (int (length (from_radio_text 7 MESH_BROADCAST 99 0 3 [72]))) = Some (Inr (s', outs)) \<and>
    Deliver m \<in> set outs \<and> meshtastic_node_id (sender m) \<noteq> my_node_id ready_tcp"
proof -
  have r: "config_complete ready_tcp" "on_message_set ready_tcp" "my_node_id ready_tcp = 1" "bridge_node_num ready_tcp = 0"
    by (simp_all add: ready_tcp_def new_mesh_tcp_def)
  obtain m where h: "handle_from_radio int_fmt default_forward 5 ready_tcp (from_radio_text 7 MESH_BROADCAST 99 0 3 [72])
      (int (length (from_radio_text 7 MESH_BROADCAST 99 0 3 [72]))) = Some (Inr (ready_tcp, [Deliver m]))"
    using handle_text_packet [of ready_tcp 7 "[72]" _ MESH_BROADCAST 99 0 3 int_fmt default_forward 5] r
    by (simp add: MESH_DATA_MAX_def)
  with tcp_deliver_safe [OF h, of m] r show ?thesis by (intro exI [of _ ready_tcp] exI [of _ m] exI [of _ "[Deliver m]"]) simp
qed

section \<open>Rate limit\<close>

text \<open>A time stamp of the directory entries that limits one kind of report.\<close>

locale report_stamp =
  fixes last_ms :: "node_entry \<Rightarrow> u32" and set_last :: "u32 \<Rightarrow> node_entry \<Rightarrow> node_entry"
  assumes get_set: "last_ms (set_last t e) = t" and keeps_id: "ne_id (set_last t e) = ne_id e"
begin

lemma find_again:
  assumes "i < length ns" and "find (\<lambda>j. ne_id (ns ! j) = n) [0..<length ns] = Some i"
  shows "find (\<lambda>j. ne_id (ns[i := set_last t (ns ! i)] ! j) = n) [0..<length (ns[i := set_last t (ns ! i)])] = Some i"
proof -
  have "find (\<lambda>j. ne_id (ns[i := set_last t (ns ! i)] ! j) = n) [0..<length ns] =
        find (\<lambda>j. ne_id (ns ! j) = n) [0..<length ns]"
    using assms(1) by (intro find_cong refl) (auto simp: nth_list_update keeps_id)
  with assms(2) show ?thesis by simp
qed

lemma find_fresh:
  assumes "n \<notin> ne_id ` set ns" and "ne_id e = n"
  shows "find (\<lambda>j. ne_id ((ns @ [e]) ! j) = n) [0..<length (ns @ [e])] = Some (length ns)"
proof -
  have app: "find P (xs @ ys) = (case find P xs of None \<Rightarrow> find P ys | r \<Rightarrow> r)" for P and xs ys :: "nat list"
    by (induction xs) auto
  have "find (\<lambda>j. ne_id ((ns @ [e]) ! j) = n) [0..<length ns] = None"
    using assms(1) by (auto simp: find_None_iff nth_append)
  then show ?thesis
    using assms(2) by (simp add: app)
qed

lemma second_blocked:
  assumes "rate_gate last_ms set_last min_ms t1 s n = (s1, True)" and "t1 \<noteq> 0"
    and "n \<in> ne_id ` set (nodes s) \<or> length (nodes s) < MAX_NODES" and "t2 - t1 < min_ms"
  shows "rate_gate last_ms set_last min_ms t2 s1 n = (s1, False)"
proof -
  obtain s0 i where foc: "find_or_create_node s n = (s0, Some i)" "i < length (nodes s0)"
    and f0: "find (\<lambda>j. ne_id (nodes s0 ! j) = n) [0..<length (nodes s0)] = Some i"
  proof (rule find_or_create_cases [of s n])
    fix i assume "find_or_create_node s n = (s, Some i)" "i < length (nodes s)"
    then show ?thesis by (intro that [of s i]) (auto simp: find_or_create_node_def split: option.splits if_splits)
  next
    assume "n \<notin> ne_id ` set (nodes s)" and f: "find_or_create_node s n = (s\<lparr>nodes := nodes s @
      [\<lparr>ne_id = n, ne_long_name = [], ne_short_name = [], ne_last_pos_ms = 0, ne_last_tel_ms = 0\<rparr>]\<rparr>,
      Some (length (nodes s)))"
    then show ?thesis
      using find_fresh [of n "nodes s"] by (intro that [OF f]) (simp_all del: upt_Suc)
  qed (use assms(3) in auto)
  have s1: "s1 = s0\<lparr>nodes := (nodes s0)[i := set_last t1 (nodes s0 ! i)]\<rparr>"
    using assms(1) foc by (auto simp: rate_gate_def split: if_splits)
  have "find_or_create_node s1 n = (s1, Some i)"
    using find_again [OF foc(2) f0, of t1] by (simp add: find_or_create_node_def s1)
  then show ?thesis
    using foc(2) assms(2,4) by (simp add: rate_gate_def s1 get_set)
qed

end

interpretation position_stamp: report_stamp ne_last_pos_ms "\<lambda>t e. e\<lparr>ne_last_pos_ms := t\<rparr>"
  by unfold_locales simp_all

interpretation telemetry_stamp: report_stamp ne_last_tel_ms "\<lambda>t e. e\<lparr>ne_last_tel_ms := t\<rparr>"
  by unfold_locales simp_all

text \<open>
  When a position or telemetry report of a node the directory holds, or has room for,
  was let through at time \<open>t1\<close>, a second report of the same kind from that node less than five
  minutes later is held back and changes nothing.
\<close>

theorem report_rate_limited:
  assumes "report_gate fwd t1 s msg = (s1, True)" and "kind msg \<in> {PK_POSITION, PK_TELEMETRY}" and "t1 \<noteq> 0"
    and "from_node msg \<in> ne_id ` set (nodes s) \<or> length (nodes s) < MAX_NODES"
    and "t2 - t1 < 300000" and "kind msg' = kind msg" and "from_node msg' = from_node msg"
  shows "report_gate fwd t2 s1 msg' = (s1, False)"
proof (cases "kind msg = PK_POSITION")
  case True
  with assms show ?thesis
    by (auto simp: report_gate_def POSITION_FORWARD_MIN_MS_def split: if_splits
        intro: position_stamp.second_blocked)
next
  case False
  with assms show ?thesis
    by (auto simp: report_gate_def TELEMETRY_FORWARD_MIN_MS_def split: if_splits
        intro: telemetry_stamp.second_blocked)
qed

lemma report_gate_example:
  "report_gate \<lparr>forward_position = True, forward_telemetry = True\<rparr> 1000 ready_tcp
     (empty_parsed\<lparr>kind := PK_POSITION, from_node := 7\<rparr>) =
   (ready_tcp\<lparr>nodes := [\<lparr>ne_id = 7, ne_long_name = [], ne_short_name = [], ne_last_pos_ms = 1000,
                         ne_last_tel_ms = 0\<rparr>]\<rparr>, True)"
  by (simp add: report_gate_def rate_gate_def find_or_create_node_def ready_tcp_def new_mesh_tcp_def
      empty_parsed_def MAX_NODES_def)

theorem report_rate_limited_witness:
  "report_gate \<lparr>forward_position = True, forward_telemetry = True\<rparr> 5000
     (ready_tcp\<lparr>nodes := [\<lparr>ne_id = 7, ne_long_name = [], ne_short_name = [], ne_last_pos_ms = 1000,
                           ne_last_tel_ms = 0\<rparr>]\<rparr>)
     (empty_parsed\<lparr>kind := PK_POSITION, from_node := 7\<rparr>) =
   (ready_tcp\<lparr>nodes := [\<lparr>ne_id = 7, ne_long_name = [], ne_short_name = [], ne_last_pos_ms = 1000,
                         ne_last_tel_ms = 0\<rparr>]\<rparr>, False)"
  by (rule report_rate_limited [OF report_gate_example]) (simp_all add: ready_tcp_def new_mesh_tcp_def MAX_NODES_def)

section \<open>Sending\<close>

text \<open>
  A text sent while connected goes out as one frame whose payload is the \<^verbatim>\<open>ToRadio\<close> packet
  with the text cut to 233 bytes, and every buffer it is assembled in (\<^verbatim>\<open>data_buf\<close>,
  \<^verbatim>\<open>mp_buf\<close>, \<^verbatim>\<open>tr_buf\<close>, 512 bytes each) is large enough; a client that is not connected
  sends nothing and keeps its state.
\<close>

theorem send_text_frame:
  "send_text link rnd s txt dest chan =
     (if is_connected s link then
        (s\<lparr>packet_id_counter := generate_packet_id (packet_id_counter s) rnd\<rparr>,
         send_raw (encode_to_radio_packet (encode_mesh_packet 0 dest
           (generate_packet_id (packet_id_counter s) rnd) chan 3
           (encode_data PORTNUM_TEXT_MESSAGE_APP (take 233 (c_str txt))))), True)
      else (s, [], False)) \<and>
   length (encode_data PORTNUM_TEXT_MESSAGE_APP (take 233 (c_str txt))) \<le> MESH_MAX_PAYLOAD \<and>
   length (encode_mesh_packet 0 dest (generate_packet_id (packet_id_counter s) rnd) chan 3
     (encode_data PORTNUM_TEXT_MESSAGE_APP (take 233 (c_str txt)))) \<le> MESH_MAX_PAYLOAD \<and>
   length (encode_to_radio_packet (encode_mesh_packet 0 dest (generate_packet_id (packet_id_counter s) rnd) chan 3
     (encode_data PORTNUM_TEXT_MESSAGE_APP (take 233 (c_str txt))))) \<le> MESH_MAX_PAYLOAD"
proof -
  let ?d = "encode_data PORTNUM_TEXT_MESSAGE_APP (take 233 (c_str txt))"
  let ?m = "encode_mesh_packet 0 dest (generate_packet_id (packet_id_counter s) rnd) chan 3 ?d"
  have d: "length ?d \<le> 238"
  proof -
    have "length (take 233 (c_str txt)) \<le> 233" "unat PORTNUM_TEXT_MESSAGE_APP < 128"
      by (simp_all add: PORTNUM_TEXT_MESSAGE_APP_def)
    then show ?thesis
      using length_encode_data [of "take 233 (c_str txt)" PORTNUM_TEXT_MESSAGE_APP] by linarith
  qed
  then have m: "length ?m \<le> 262"
    using length_encode_mesh_packet [of ?d 0 dest "generate_packet_id (packet_id_counter s) rnd" chan 3] by linarith
  then have "length (encode_to_radio_packet ?m) \<le> MESH_MAX_PAYLOAD"
    using length_varint_of_nat [of "length ?m"] by (simp add: encode_to_radio_packet_def MESH_MAX_PAYLOAD_def)
  then show ?thesis
    using d m by (simp add: send_text_def Let_def encode_mesh_packet_nofrom_def MESH_DATA_MAX_def MESH_MAX_PAYLOAD_def)
qed

end
