(* ===== verification/Chacha20.thy ===== *)
theory Chacha20
  imports Bridge_Prelude "HOL-Library.Stream"
begin

text \<open>
  \<^verbatim>\<open>src/mbedtls_extras/chacha20.c\<close>: the stream cipher of the Noise transport.  The state is a
  list of sixteen 32-bit words.  The incremental \<^verbatim>\<open>mbedtls_chacha20_update\<close> with its saved
  keystream bytes is shown to XOR the input with one infinite key stream, whatever the sizes
  of the calls.
\<close>

section \<open>The cipher\<close>

definition ROTL32 :: "u32 \<Rightarrow> nat \<Rightarrow> u32" where
  "ROTL32 v amount = push_bit amount v OR drop_bit (32 - amount) v"

definition CHACHA20_CTR_INDEX :: nat where "CHACHA20_CTR_INDEX = 12"
definition CHACHA20_BLOCK_SIZE_BYTES :: nat where "CHACHA20_BLOCK_SIZE_BYTES = 64"

definition chacha20_quarter_round :: "u32 list \<Rightarrow> nat \<Rightarrow> nat \<Rightarrow> nat \<Rightarrow> nat \<Rightarrow> u32 list" where
  "chacha20_quarter_round st a b c d =
     (let st = st[a := st ! a + st ! b]; st = st[d := st ! d XOR st ! a]; st = st[d := ROTL32 (st ! d) 16];
          st = st[c := st ! c + st ! d]; st = st[b := st ! b XOR st ! c]; st = st[b := ROTL32 (st ! b) 12];
          st = st[a := st ! a + st ! b]; st = st[d := st ! d XOR st ! a]; st = st[d := ROTL32 (st ! d) 8];
          st = st[c := st ! c + st ! d]; st = st[b := st ! b XOR st ! c]; st = st[b := ROTL32 (st ! b) 7]
      in st)"

definition chacha20_inner_block :: "u32 list \<Rightarrow> u32 list" where
  "chacha20_inner_block st =
     (let st = chacha20_quarter_round st 0 4 8 12;
          st = chacha20_quarter_round st 1 5 9 13;
          st = chacha20_quarter_round st 2 6 10 14;
          st = chacha20_quarter_round st 3 7 11 15;
          st = chacha20_quarter_round st 0 5 10 15;
          st = chacha20_quarter_round st 1 6 11 12;
          st = chacha20_quarter_round st 2 7 8 13;
          st = chacha20_quarter_round st 3 4 9 14
      in st)"

definition chacha20_block :: "u32 list \<Rightarrow> bytes" where
  "chacha20_block initial_state =
     (let working_state = (chacha20_inner_block ^^ 10) initial_state
      in concat (map put_u32_le (map2 (+) working_state initial_state)))"

record chacha20_context =
  cc_state :: "u32 list"
  cc_keystream8 :: bytes
  cc_keystream_bytes_used :: nat

definition mbedtls_chacha20_init :: chacha20_context where
  "mbedtls_chacha20_init =
     \<lparr>cc_state = replicate 16 0, cc_keystream8 = replicate 64 0,
      cc_keystream_bytes_used = CHACHA20_BLOCK_SIZE_BYTES\<rparr>"

text \<open>\<open>None\<close> is the null pointer.\<close>

definition mbedtls_chacha20_free :: "chacha20_context option \<Rightarrow> chacha20_context option" where
  "mbedtls_chacha20_free ctx =
     map_option (\<lambda>_. \<lparr>cc_state = replicate 16 0, cc_keystream8 = replicate 64 0, cc_keystream_bytes_used = 0\<rparr>) ctx"

definition mbedtls_chacha20_setkey :: "chacha20_context \<Rightarrow> bytes \<Rightarrow> chacha20_context" where
  "mbedtls_chacha20_setkey ctx key =
     ctx\<lparr>cc_state := [0x61707865, 0x3320646e, 0x79622d32, 0x6b206574] @
                     map (\<lambda>i. get_u32_le (drop (4 * i) key)) [0..<8] @ drop 12 (cc_state ctx)\<rparr>"

definition mbedtls_chacha20_starts :: "chacha20_context \<Rightarrow> bytes \<Rightarrow> u32 \<Rightarrow> chacha20_context" where
  "mbedtls_chacha20_starts ctx nonce counter =
     ctx\<lparr>cc_state := take 12 (cc_state ctx) @ counter # map (\<lambda>i. get_u32_le (drop (4 * i) nonce)) [0..<3],
         cc_keystream8 := replicate 64 0,
         cc_keystream_bytes_used := CHACHA20_BLOCK_SIZE_BYTES\<rparr>"

text \<open>
  The three parts of \<^verbatim>\<open>mbedtls_chacha20_update\<close>.  Each takes the input that is left and
  returns the context, the output it wrote and what is still to process.
\<close>

fun use_leftover :: "chacha20_context \<Rightarrow> bytes \<Rightarrow> chacha20_context \<times> bytes \<times> bytes" where
  "use_leftover ctx [] = (ctx, [], [])"
| "use_leftover ctx (b # bs) =
     (if cc_keystream_bytes_used ctx < CHACHA20_BLOCK_SIZE_BYTES then
        (case use_leftover (ctx\<lparr>cc_keystream_bytes_used := cc_keystream_bytes_used ctx + 1\<rparr>) bs of
           (ctx', out, rest) \<Rightarrow> (ctx', (b XOR cc_keystream8 ctx ! cc_keystream_bytes_used ctx) # out, rest))
      else (ctx, [], b # bs))"

definition next_block :: "chacha20_context \<Rightarrow> chacha20_context" where
  "next_block ctx = ctx\<lparr>cc_keystream8 := chacha20_block (cc_state ctx),
     cc_state := (cc_state ctx)[CHACHA20_CTR_INDEX := cc_state ctx ! CHACHA20_CTR_INDEX + 1]\<rparr>"

function full_blocks :: "chacha20_context \<Rightarrow> bytes \<Rightarrow> chacha20_context \<times> bytes \<times> bytes" where
  "full_blocks ctx bs =
     (if length bs \<ge> CHACHA20_BLOCK_SIZE_BYTES then
        let ctx = next_block ctx
        in (case full_blocks ctx (drop 64 bs) of
              (ctx', out, rest) \<Rightarrow> (ctx', map2 (XOR) (take 64 bs) (cc_keystream8 ctx) @ out, rest))
      else (ctx, [], bs))"
  by pat_completeness auto
termination by (relation "measure (length \<circ> snd)") (auto simp: CHACHA20_BLOCK_SIZE_BYTES_def)

declare full_blocks.simps [simp del]

definition last_block :: "chacha20_context \<Rightarrow> bytes \<Rightarrow> chacha20_context \<times> bytes" where
  "last_block ctx bs =
     (if bs = [] then (ctx, [])
      else let ctx = next_block ctx
           in (ctx\<lparr>cc_keystream_bytes_used := length bs\<rparr>, map2 (XOR) bs (cc_keystream8 ctx)))"

definition mbedtls_chacha20_update :: "chacha20_context \<Rightarrow> bytes \<Rightarrow> chacha20_context \<times> bytes" where
  "mbedtls_chacha20_update ctx bs =
     (case use_leftover ctx bs of (ctx, out1, bs) \<Rightarrow>
      case full_blocks ctx bs of (ctx, out2, bs) \<Rightarrow>
      case last_block ctx bs of (ctx, out3) \<Rightarrow> (ctx, out1 @ out2 @ out3))"

text \<open>A context after \<^verbatim>\<open>init\<close>, \<^verbatim>\<open>setkey\<close> and \<^verbatim>\<open>starts\<close>.\<close>

definition chacha20_keyed :: "bytes \<Rightarrow> bytes \<Rightarrow> u32 \<Rightarrow> chacha20_context" where
  "chacha20_keyed key nonce counter =
     mbedtls_chacha20_starts (mbedtls_chacha20_setkey mbedtls_chacha20_init key) nonce counter"

definition mbedtls_chacha20_crypt :: "bytes \<Rightarrow> bytes \<Rightarrow> u32 \<Rightarrow> bytes \<Rightarrow> bytes" where
  "mbedtls_chacha20_crypt key nonce counter bs =
     snd (mbedtls_chacha20_update (chacha20_keyed key nonce counter) bs)"

section \<open>The key stream\<close>

definition incr_counter :: "u32 list \<Rightarrow> u32 list" where
  "incr_counter st = st[CHACHA20_CTR_INDEX := st ! CHACHA20_CTR_INDEX + 1]"

definition key_stream :: "u32 list \<Rightarrow> u8 stream" where
  "key_stream st = flat (smap chacha20_block (siterate incr_counter st))"

text \<open>The bytes the next calls will use.\<close>

definition remaining :: "chacha20_context \<Rightarrow> u8 stream" where
  "remaining ctx = drop (cc_keystream_bytes_used ctx) (cc_keystream8 ctx) @- key_stream (cc_state ctx)"

fun xor_stream :: "bytes \<Rightarrow> u8 stream \<Rightarrow> bytes" where
  "xor_stream [] s = []"
| "xor_stream (b # bs) s = (b XOR shd s) # xor_stream bs (stl s)"

definition cc_invar :: "chacha20_context \<Rightarrow> bool" where
  "cc_invar ctx \<longleftrightarrow> length (cc_state ctx) = 16 \<and> length (cc_keystream8 ctx) = 64 \<and> cc_keystream_bytes_used ctx \<le> 64"

lemma length_quarter [simp]: "length (chacha20_quarter_round st a b c d) = length st"
  by (simp add: chacha20_quarter_round_def Let_def)

lemma length_inner [simp]: "length (chacha20_inner_block st) = length st"
  by (simp add: chacha20_inner_block_def Let_def)

lemma length_inner_n [simp]: "length ((chacha20_inner_block ^^ n) st) = length st"
  by (induction n) simp_all

lemma length_concat_put: "length (concat (map put_u32_le ws)) = 4 * length ws"
  by (induction ws) simp_all

lemma length_chacha20_block: "length (chacha20_block st) = 4 * length st"
  by (simp add: chacha20_block_def Let_def length_concat_put del: map_map)

lemma length_xor_stream [simp]: "length (xor_stream bs s) = length bs"
  by (induction bs arbitrary: s) simp_all

lemma xor_stream_xor_stream [simp]: "xor_stream (xor_stream bs s) s = bs"
  by (induction bs arbitrary: s) (simp_all add: xor.assoc)

lemma xor_stream_append: "xor_stream (xs @ ys) s = xor_stream xs s @ xor_stream ys (sdrop (length xs) s)"
  by (induction xs arbitrary: s) simp_all

lemma xor_stream_shift: "length xs \<le> length ks \<Longrightarrow> xor_stream xs (ks @- s) = map2 (XOR) xs ks"
proof (induction xs arbitrary: ks)
  case (Cons x xs)
  then show ?case by (cases ks) simp_all
qed simp

lemma key_stream_unfold:
  assumes "length st = 16"
  shows "key_stream st = chacha20_block st @- key_stream (incr_counter st)"
proof -
  have "chacha20_block st \<noteq> []"
    using length_chacha20_block [of st] assms by auto
  then show ?thesis
    by (simp add: key_stream_def siterate.code [of incr_counter st])
qed

lemma next_block_invar: "cc_invar ctx \<Longrightarrow> cc_invar (next_block ctx)"
  by (simp add: cc_invar_def next_block_def length_chacha20_block)

lemma next_block_stream:
  assumes "cc_invar ctx" and "cc_keystream_bytes_used ctx = 64"
  shows "remaining ctx = cc_keystream8 (next_block ctx) @- key_stream (cc_state (next_block ctx))"
  using assms key_stream_unfold [of "cc_state ctx"]
  by (simp add: remaining_def cc_invar_def next_block_def incr_counter_def)

text \<open>What each part of the update keeps: the output so far and the stream still to use.\<close>

definition part_ok :: "chacha20_context \<Rightarrow> bytes \<Rightarrow> chacha20_context \<Rightarrow> bytes \<Rightarrow> bytes \<Rightarrow> bool" where
  "part_ok ctx bs ctx' out rest \<longleftrightarrow> cc_invar ctx' \<and>
     out @ xor_stream rest (remaining ctx') = xor_stream bs (remaining ctx) \<and>
     sdrop (length rest) (remaining ctx') = sdrop (length bs) (remaining ctx)"

lemma use_leftover_ok:
  assumes "use_leftover ctx bs = (ctx', out, rest)" and "cc_invar ctx"
  shows "part_ok ctx bs ctx' out rest \<and> (rest = [] \<or> cc_keystream_bytes_used ctx' = 64)"
  using assms
proof (induction ctx bs arbitrary: ctx' out rest rule: use_leftover.induct)
  case (1 ctx)
  then show ?case by (simp add: part_ok_def)
next
  case (2 ctx b bs)
  show ?case
  proof (cases "cc_keystream_bytes_used ctx < 64")
    case True
    let ?c = "ctx\<lparr>cc_keystream_bytes_used := cc_keystream_bytes_used ctx + 1\<rparr>"
    obtain out' where out': "use_leftover ?c bs = (ctx', out', rest)"
      "out = (b XOR cc_keystream8 ctx ! cc_keystream_bytes_used ctx) # out'"
      using 2(2) True by (auto simp: CHACHA20_BLOCK_SIZE_BYTES_def split: prod.splits)
    have inv: "cc_invar ?c" using 2(3) True by (simp add: cc_invar_def)
    have "remaining ctx = cc_keystream8 ctx ! cc_keystream_bytes_used ctx ## remaining ?c"
      using 2(3) True by (simp add: remaining_def cc_invar_def Cons_nth_drop_Suc flip: shift.simps(2))
    with 2(1) [OF _ out'(1) inv] True out'(2) show ?thesis
      by (simp add: part_ok_def CHACHA20_BLOCK_SIZE_BYTES_def)
  next
    case False
    with 2(2,3) show ?thesis by (simp add: part_ok_def cc_invar_def CHACHA20_BLOCK_SIZE_BYTES_def)
  qed
qed

lemma full_blocks_ok:
  assumes "full_blocks ctx bs = (ctx', out, rest)" and "cc_invar ctx"
    and "bs = [] \<or> cc_keystream_bytes_used ctx = 64"
  shows "part_ok ctx bs ctx' out rest \<and> length rest < 64 \<and> (rest = [] \<or> cc_keystream_bytes_used ctx' = 64)"
  using assms
proof (induction ctx bs arbitrary: ctx' out rest rule: full_blocks.induct)
  case (1 ctx bs)
  show ?case
  proof (cases "length bs \<ge> 64")
    case True
    let ?c = "next_block ctx"
    obtain out' where out': "full_blocks ?c (drop 64 bs) = (ctx', out', rest)"
      "out = map2 (XOR) (take 64 bs) (cc_keystream8 ?c) @ out'"
      using 1(2) True by (subst (asm) full_blocks.simps)
        (auto simp: CHACHA20_BLOCK_SIZE_BYTES_def Let_def split: prod.splits)
    have used: "cc_keystream_bytes_used ctx = 64" "cc_keystream_bytes_used ?c = 64"
      using 1(4) True by (auto simp: next_block_def)
    note inv = next_block_invar [OF 1(3)]
    have rem: "remaining ctx = cc_keystream8 ?c @- remaining ?c"
      using next_block_stream [OF 1(3) used(1)] used inv by (simp add: remaining_def cc_invar_def)
    have ih: "part_ok ?c (drop 64 bs) ctx' out' rest \<and> length rest < 64 \<and> (rest = [] \<or> cc_keystream_bytes_used ctx' = 64)"
      by (rule 1(1) [OF _ refl out'(1) inv]) (use True used in \<open>auto simp: CHACHA20_BLOCK_SIZE_BYTES_def\<close>)
    have "xor_stream bs (remaining ctx) =
          xor_stream (take 64 bs) (remaining ctx) @ xor_stream (drop 64 bs) (sdrop 64 (remaining ctx))"
      using xor_stream_append [of "take 64 bs" "drop 64 bs" "remaining ctx"] True by simp
    moreover have "sdrop 64 (remaining ctx) = remaining ?c"
      using inv by (simp add: rem cc_invar_def sdrop_shift)
    moreover have "xor_stream (take 64 bs) (remaining ctx) = map2 (XOR) (take 64 bs) (cc_keystream8 ?c)"
      using inv by (simp add: rem xor_stream_shift cc_invar_def)
    moreover have "sdrop (length bs) (remaining ctx) = sdrop (length (drop 64 bs)) (sdrop 64 (remaining ctx))"
      using True by (simp add: sdrop_add)
    ultimately show ?thesis using ih out'(2) by (simp add: part_ok_def)
  next
    case False
    with 1 show ?thesis
      by (subst (asm) full_blocks.simps) (auto simp: part_ok_def CHACHA20_BLOCK_SIZE_BYTES_def)
  qed
qed

lemma last_block_ok:
  assumes "last_block ctx bs = (ctx', out)" and "cc_invar ctx" and "bs = [] \<or> cc_keystream_bytes_used ctx = 64"
    and "length bs < 64"
  shows "part_ok ctx bs ctx' out []"
proof (cases "bs = []")
  case True
  with assms show ?thesis by (simp add: last_block_def part_ok_def)
next
  case False
  let ?c = "next_block ctx"
  have c': "ctx' = ?c\<lparr>cc_keystream_bytes_used := length bs\<rparr>" "out = map2 (XOR) bs (cc_keystream8 ?c)"
    using assms(1) False by (auto simp: last_block_def Let_def)
  have rem: "remaining ctx = cc_keystream8 ?c @- key_stream (cc_state ?c)"
    using next_block_stream assms(2,3) False by blast
  have inv: "length (cc_keystream8 ?c) = 64" "cc_invar ctx'"
    using next_block_invar [OF assms(2)] assms(4) c' by (auto simp: cc_invar_def)
  have "sdrop (length bs) (remaining ctx) = drop (length bs) (cc_keystream8 ?c) @- key_stream (cc_state ?c)"
    using assms(4) inv(1) by (simp add: rem sdrop_shift)
  moreover have "remaining ctx' = drop (length bs) (cc_keystream8 ?c) @- key_stream (cc_state ?c)"
    using c' by (simp add: remaining_def)
  ultimately show ?thesis
    using c' inv assms(4) by (simp add: part_ok_def xor_stream_shift rem)
qed

lemma chacha20_update_stream:
  assumes "cc_invar ctx"
  shows "cc_invar (fst (mbedtls_chacha20_update ctx bs)) \<and>
         snd (mbedtls_chacha20_update ctx bs) = xor_stream bs (remaining ctx) \<and>
         remaining (fst (mbedtls_chacha20_update ctx bs)) = sdrop (length bs) (remaining ctx)"
proof -
  obtain c1 o1 r1 where 1: "use_leftover ctx bs = (c1, o1, r1)" by (metis prod_cases3)
  obtain c2 o2 r2 where 2: "full_blocks c1 r1 = (c2, o2, r2)" by (metis prod_cases3)
  obtain c3 o3 where 3: "last_block c2 r2 = (c3, o3)" by force
  note u = use_leftover_ok [OF 1 assms]
  note f = full_blocks_ok [OF 2] 
  have f: "part_ok c1 r1 c2 o2 r2 \<and> length r2 < 64 \<and> (r2 = [] \<or> cc_keystream_bytes_used c2 = 64)"
    using u by (intro f) (auto simp: part_ok_def)
  then have "part_ok c2 r2 c3 o3 []"
    by (intro last_block_ok [OF 3]) (auto simp: part_ok_def)
  with u f show ?thesis
    by (auto simp: mbedtls_chacha20_update_def 1 2 3 part_ok_def)
qed

lemma keyed_invar: "cc_invar (chacha20_keyed key nonce ctr)"
  by (simp add: chacha20_keyed_def cc_invar_def mbedtls_chacha20_starts_def mbedtls_chacha20_setkey_def
      mbedtls_chacha20_init_def CHACHA20_BLOCK_SIZE_BYTES_def)


end
