(* ===== verification/Poly1305.thy ===== *)
theory Poly1305
  imports Bridge_Prelude
begin

text \<open>
  \<^verbatim>\<open>src/mbedtls_extras/poly1305.c\<close>: the authenticator of the Noise transport, on 32-bit limbs
  with 64-bit intermediate sums.  The limb arithmetic is shown to compute the polynomial of
  RFC 8439 modulo \<open>2 ^ 130 - 5\<close>, with no overflow, and the incremental interface to
  compute the MAC of the concatenated input.  \<open>mul64\<close> has two bodies in the source, one for each
  build: \<open>mul64_halves\<close> is the one for \<^verbatim>\<open>MBEDTLS_NO_64BIT_MULTIPLICATION\<close>, and the two agree.
\<close>

section \<open>Limbs\<close>

text \<open>The accumulator: five 32-bit limbs; the key part \<open>r\<close> and \<open>s\<close>: four each.\<close>

type_synonym limbs4 = "u32 \<times> u32 \<times> u32 \<times> u32"
type_synonym limbs5 = "u32 \<times> u32 \<times> u32 \<times> u32 \<times> u32"

definition mul64 :: "u32 \<Rightarrow> u32 \<Rightarrow> u64" where
  "mul64 a b = ucast a * ucast b"

definition mul64_halves :: "u32 \<Rightarrow> u32 \<Rightarrow> u64" where
  "mul64_halves a b =
     (let al = ucast a :: u16; bl = ucast b :: u16; ah = ucast (drop_bit 16 a) :: u16; bh = ucast (drop_bit 16 b) :: u16;
          lo = ucast al * ucast bl :: u32;
          me = ucast (ucast ah * ucast bl :: u32) + ucast (ucast al * ucast bh :: u32) :: u64;
          hi = ucast ah * ucast bh :: u32
      in ucast lo + push_bit 16 me + push_bit 32 (ucast hi))"

definition lo32 :: "u64 \<Rightarrow> u32" where "lo32 d = ucast d"
definition hi32 :: "u64 \<Rightarrow> u64" where "hi32 d = drop_bit 32 d"

text \<open>One turn of the loop of \<^verbatim>\<open>poly1305_process\<close>, in its three steps.\<close>

definition poly_add :: "limbs5 \<Rightarrow> bytes \<Rightarrow> u32 \<Rightarrow> limbs5" where
  "poly_add acc input needs_padding =
     (case acc of (acc0, acc1, acc2, acc3, acc4) \<Rightarrow>
      let d0 = ucast (get_u32_le input); d1 = ucast (get_u32_le (drop 4 input));
          d2 = ucast (get_u32_le (drop 8 input)); d3 = ucast (get_u32_le (drop 12 input));
          d0 = d0 + ucast acc0;
          d1 = d1 + (ucast acc1 + hi32 d0);
          d2 = d2 + (ucast acc2 + hi32 d1);
          d3 = d3 + (ucast acc3 + hi32 d2)
      in (lo32 d0, lo32 d1, lo32 d2, lo32 d3, acc4 + (lo32 (hi32 d3) + needs_padding)))"

definition poly_mul :: "limbs5 \<Rightarrow> limbs4 \<Rightarrow> limbs5" where
  "poly_mul acc r =
     (case acc of (acc0, acc1, acc2, acc3, acc4) \<Rightarrow>
      case r of (r0, r1, r2, r3) \<Rightarrow>
      let rs1 = r1 + drop_bit 2 r1; rs2 = r2 + drop_bit 2 r2; rs3 = r3 + drop_bit 2 r3;
          d0 = mul64 acc0 r0 + mul64 acc1 rs3 + mul64 acc2 rs2 + mul64 acc3 rs1;
          d1 = mul64 acc0 r1 + mul64 acc1 r0 + mul64 acc2 rs3 + mul64 acc3 rs2 + mul64 acc4 rs1;
          d2 = mul64 acc0 r2 + mul64 acc1 r1 + mul64 acc2 r0 + mul64 acc3 rs3 + mul64 acc4 rs2;
          d3 = mul64 acc0 r3 + mul64 acc1 r2 + mul64 acc2 r1 + mul64 acc3 r0 + mul64 acc4 rs3;
          acc4 = acc4 * r0;
          d1 = d1 + hi32 d0;
          d2 = d2 + hi32 d1;
          d3 = d3 + hi32 d2
      in (lo32 d0, lo32 d1, lo32 d2, lo32 d3, lo32 (hi32 d3) + acc4))"

definition poly_reduce :: "limbs5 \<Rightarrow> limbs5" where
  "poly_reduce acc =
     (case acc of (acc0, acc1, acc2, acc3, acc4) \<Rightarrow>
      let d0 = ucast acc0 + ucast (drop_bit 2 acc4) + ucast (acc4 AND 0xFFFFFFFC);
          acc4 = acc4 AND 3;
          d1 = ucast acc1 + hi32 d0;
          d2 = ucast acc2 + hi32 d1;
          d3 = ucast acc3 + hi32 d2;
          d4 = ucast acc4 + hi32 d3
      in (lo32 d0, lo32 d1, lo32 d2, lo32 d3, lo32 d4))"

definition poly1305_block :: "limbs4 \<Rightarrow> u32 \<Rightarrow> bytes \<Rightarrow> limbs5 \<Rightarrow> limbs5" where
  "poly1305_block r needs_padding input acc = poly_reduce (poly_mul (poly_add acc input needs_padding) r)"

fun poly1305_process :: "limbs4 \<Rightarrow> nat \<Rightarrow> bytes \<Rightarrow> u32 \<Rightarrow> limbs5 \<Rightarrow> limbs5" where
  "poly1305_process r 0 input needs_padding acc = acc"
| "poly1305_process r (Suc nblocks) input needs_padding acc =
     poly1305_process r nblocks (drop 16 input) needs_padding (poly1305_block r needs_padding input acc)"

definition poly1305_compute_mac :: "limbs5 \<Rightarrow> limbs4 \<Rightarrow> bytes" where
  "poly1305_compute_mac acc s =
     (case acc of (acc0, acc1, acc2, acc3, acc4) \<Rightarrow>
      case s of (s0, s1, s2, s3) \<Rightarrow>
      let d0 = ucast acc0 + 5; d1 = ucast acc1 + hi32 d0; d2 = ucast acc2 + hi32 d1; d3 = ucast acc3 + hi32 d2;
          g0 = lo32 d0; g1 = lo32 d1; g2 = lo32 d2; g3 = lo32 d3;
          g4 = acc4 + lo32 (hi32 d3);
          mask = 0 - drop_bit 2 g4;
          mask_inv = NOT mask;
          acc0 = (acc0 AND mask_inv) OR (g0 AND mask);
          acc1 = (acc1 AND mask_inv) OR (g1 AND mask);
          acc2 = (acc2 AND mask_inv) OR (g2 AND mask);
          acc3 = (acc3 AND mask_inv) OR (g3 AND mask);
          e0 = ucast acc0 + ucast s0;
          e1 = ucast acc1 + ucast s1 + hi32 e0;
          e2 = ucast acc2 + ucast s2 + hi32 e1;
          e3 = acc3 + (s3 + lo32 (hi32 e2))
      in put_u32_le (lo32 e0) @ put_u32_le (lo32 e1) @ put_u32_le (lo32 e2) @ put_u32_le e3)"

section \<open>The incremental interface\<close>

text \<open>\<open>po_queue\<close> holds the \<^verbatim>\<open>queue_len\<close> bytes waiting for a full block.\<close>

record poly1305_context =
  po_r :: limbs4
  po_s :: limbs4
  po_acc :: limbs5
  po_queue :: bytes

definition mbedtls_poly1305_init :: poly1305_context where
  "mbedtls_poly1305_init = \<lparr>po_r = (0, 0, 0, 0), po_s = (0, 0, 0, 0), po_acc = (0, 0, 0, 0, 0), po_queue = []\<rparr>"

text \<open>\<open>None\<close> is the null pointer.\<close>

definition mbedtls_poly1305_free :: "poly1305_context option \<Rightarrow> poly1305_context option" where
  "mbedtls_poly1305_free ctx =
     map_option (\<lambda>_. \<lparr>po_r = (0, 0, 0, 0), po_s = (0, 0, 0, 0), po_acc = (0, 0, 0, 0, 0), po_queue = []\<rparr>) ctx"

definition mbedtls_poly1305_starts :: "bytes \<Rightarrow> poly1305_context" where
  "mbedtls_poly1305_starts key =
     \<lparr>po_r = (get_u32_le key AND 0x0FFFFFFF, get_u32_le (drop 4 key) AND 0x0FFFFFFC,
              get_u32_le (drop 8 key) AND 0x0FFFFFFC, get_u32_le (drop 12 key) AND 0x0FFFFFFC),
      po_s = (get_u32_le (drop 16 key), get_u32_le (drop 20 key),
              get_u32_le (drop 24 key), get_u32_le (drop 28 key)),
      po_acc = (0, 0, 0, 0, 0), po_queue = []\<rparr>"

text \<open>The first part of the update: fill the queue; returns what remains of the input.\<close>

definition fill_queue :: "poly1305_context \<Rightarrow> bytes \<Rightarrow> poly1305_context \<times> bytes" where
  "fill_queue ctx input =
     (if length input > 0 \<and> length (po_queue ctx) > 0 then
        let queue_free_len = 16 - length (po_queue ctx) in
        if length input < queue_free_len then (ctx\<lparr>po_queue := po_queue ctx @ input\<rparr>, [])
        else (ctx\<lparr>po_acc := poly1305_process (po_r ctx) 1 (po_queue ctx @ take queue_free_len input) 1 (po_acc ctx),
                  po_queue := []\<rparr>, drop queue_free_len input)
      else (ctx, input))"

definition mbedtls_poly1305_update :: "poly1305_context \<Rightarrow> bytes \<Rightarrow> poly1305_context" where
  "mbedtls_poly1305_update ctx input =
     (let (ctx, rest) = fill_queue ctx input;
          nblocks = length rest div 16;
          ctx = (if length rest \<ge> 16
                 then ctx\<lparr>po_acc := poly1305_process (po_r ctx) nblocks rest 1 (po_acc ctx)\<rparr> else ctx);
          rest = (if length rest \<ge> 16 then drop (nblocks * 16) rest else rest)
      in if rest \<noteq> [] then ctx\<lparr>po_queue := rest\<rparr> else ctx)"

definition mbedtls_poly1305_finish :: "poly1305_context \<Rightarrow> bytes" where
  "mbedtls_poly1305_finish ctx =
     (let acc = (if length (po_queue ctx) > 0 then
                   poly1305_process (po_r ctx) 1
                     (po_queue ctx @ 1 # replicate (16 - (length (po_queue ctx) + 1)) 0) 0 (po_acc ctx)
                 else po_acc ctx)
      in poly1305_compute_mac acc (po_s ctx))"

definition mbedtls_poly1305_mac :: "bytes \<Rightarrow> bytes \<Rightarrow> bytes" where
  "mbedtls_poly1305_mac key input = mbedtls_poly1305_finish (mbedtls_poly1305_update (mbedtls_poly1305_starts key) input)"

section \<open>Reference\<close>

fun le_nat :: "bytes \<Rightarrow> nat" where
  "le_nat [] = 0"
| "le_nat (b # bs) = unat b + 256 * le_nat bs"

fun nat_le :: "nat \<Rightarrow> nat \<Rightarrow> bytes" where
  "nat_le 0 v = []"
| "nat_le (Suc n) v = of_nat v # nat_le n (v div 256)"

definition P1305 :: nat where "P1305 = 2 ^ 130 - 5"

text \<open>RFC 8439: each block of up to 16 bytes gets a final 1, and the polynomial is evaluated at r.\<close>

function poly_eval :: "nat \<Rightarrow> nat \<Rightarrow> bytes \<Rightarrow> nat" where
  "poly_eval r acc msg =
     (if msg = [] then acc
      else poly_eval r (((acc + le_nat (take 16 msg @ [1])) * r) mod P1305) (drop 16 msg))"
  by pat_completeness auto
termination by (relation "measure (\<lambda>(r, acc, msg). length msg)") auto

declare poly_eval.simps [simp del]

definition clamp_r :: "nat \<Rightarrow> nat" where
  "clamp_r n = and n 0x0ffffffc0ffffffc0ffffffc0fffffff"

definition poly1305_spec :: "bytes \<Rightarrow> bytes \<Rightarrow> bytes" where
  "poly1305_spec key msg =
     nat_le 16 ((poly_eval (clamp_r (le_nat (take 16 key))) 0 msg + le_nat (take 16 (drop 16 key))) mod 2 ^ 128)"

section \<open>Limb arithmetic\<close>

lemma unat_up [simp]: "unat (ucast (x :: u32) :: u64) = unat x"
  by (simp add: unsigned_ucast_eq take_bit_nat_eq_self less_le_trans [OF unsigned_less])

lemma unat_lo32 [simp]: "unat (lo32 d) = unat d mod 2 ^ 32"
  by (simp add: lo32_def unsigned_ucast_eq take_bit_eq_mod)

lemma unat_hi32 [simp]: "unat (hi32 d) = unat d div 2 ^ 32"
  by (simp add: hi32_def drop_bit_eq_div unat_div_distrib)

lemma unat_add64: "unat (a :: u64) + unat b < 2 ^ 64 \<Longrightarrow> unat (a + b) = unat a + unat b"
  by (simp add: unat_word_ariths)
lemma unat_add32: "unat (a :: u32) + unat b < 2 ^ 32 \<Longrightarrow> unat (a + b) = unat a + unat b"
  by (simp add: unat_word_ariths)
lemma unat_u32: "unat (a :: u32) < 2 ^ 32" using unsigned_less [of a] by simp

lemma unat_u64: "unat (a :: u64) < 2 ^ 64" using unsigned_less [of a] by simp

definition val4 :: "limbs4 \<Rightarrow> nat" where
  "val4 = (\<lambda>(a0, a1, a2, a3). unat a0 + 2 ^ 32 * unat a1 + 2 ^ 64 * unat a2 + 2 ^ 96 * unat a3)"
definition val5 :: "limbs5 \<Rightarrow> nat" where
  "val5 = (\<lambda>(a0, a1, a2, a3, a4). unat a0 + 2 ^ 32 * unat a1 + 2 ^ 64 * unat a2 + 2 ^ 96 * unat a3 + 2 ^ 128 * unat a4)"

lemma carry_value:
  fixes d0 d1 d2 d3 c :: nat
  assumes "e1 = d1 + d0 div 2 ^ 32" "e2 = d2 + e1 div 2 ^ 32" "e3 = d3 + e2 div 2 ^ 32"
  shows "d0 mod 2 ^ 32 + 2 ^ 32 * (e1 mod 2 ^ 32) + 2 ^ 64 * (e2 mod 2 ^ 32) + 2 ^ 96 * (e3 mod 2 ^ 32) +
         2 ^ 128 * (e3 div 2 ^ 32 + c) = d0 + 2 ^ 32 * d1 + 2 ^ 64 * d2 + 2 ^ 96 * d3 + 2 ^ 128 * c"
proof -
  have m: "n = 2 ^ 32 * (n div 2 ^ 32) + n mod 2 ^ 32" for n :: nat by simp
  define q0 r0 q1 r1 q2 r2 q3 r3 where
    "q0 = d0 div 2 ^ 32" "r0 = d0 mod 2 ^ 32" "q1 = e1 div 2 ^ 32" "r1 = e1 mod 2 ^ 32"
    "q2 = e2 div 2 ^ 32" "r2 = e2 mod 2 ^ 32" "q3 = e3 div 2 ^ 32" "r3 = e3 mod 2 ^ 32"
  note defs = this
  have "d0 = 2 ^ 32 * q0 + r0" "d1 + q0 = 2 ^ 32 * q1 + r1"
    "d2 + q1 = 2 ^ 32 * q2 + r2" "d3 + q2 = 2 ^ 32 * q3 + r3"
    using m [of d0] m [of e1] m [of e2] m [of e3] assms unfolding defs by linarith+
  then show ?thesis unfolding defs [symmetric] by simp
qed

lemma poly_add_value:
  assumes "unat a4 \<le> 4" and "unat pad \<le> 1" and "poly_add (a0, a1, a2, a3, a4) input pad = (b0, b1, b2, b3, b4)"
  shows "val5 (b0, b1, b2, b3, b4) = val5 (a0, a1, a2, a3, a4) + (unat (get_u32_le input) +
     2 ^ 32 * unat (get_u32_le (drop 4 input)) + 2 ^ 64 * unat (get_u32_le (drop 8 input)) +
     2 ^ 96 * unat (get_u32_le (drop 12 input))) + 2 ^ 128 * unat pad \<and> unat b4 \<le> 6"
proof -
  define m0 where "m0 = get_u32_le input"
  define m1 where "m1 = get_u32_le (drop 4 input)"
  define m2 where "m2 = get_u32_le (drop 8 input)"
  define m3 where "m3 = get_u32_le (drop 12 input)"
  define d0 where "d0 = (ucast m0 :: u64) + ucast a0"
  define d1 where "d1 = (ucast m1 :: u64) + (ucast a1 + hi32 d0)"
  define d2 where "d2 = (ucast m2 :: u64) + (ucast a2 + hi32 d1)"
  define d3 where "d3 = (ucast m3 :: u64) + (ucast a3 + hi32 d2)"
  have step: "unat ((ucast m :: u64) + (ucast a + hi32 d)) = unat m + unat a + unat d div 2 ^ 32 \<and>
      unat ((ucast m :: u64) + (ucast a + hi32 d)) div 2 ^ 32 \<le> 1"
    if "unat d div 2 ^ 32 \<le> 1" for m a :: u32 and d :: u64
  proof -
    have e: "unat ((ucast m :: u64) + (ucast a + hi32 d)) = unat m + unat a + unat d div 2 ^ 32"
      using that unat_u32 [of m] unat_u32 [of a] by (simp add: unat_add64)
    have "unat m + unat a + unat d div 2 ^ 32 < 2 * 2 ^ 32"
      using that unat_u32 [of m] unat_u32 [of a] by linarith
    then have "(unat m + unat a + unat d div 2 ^ 32) div 2 ^ 32 < 2"
      by (rule less_mult_imp_div_less)
    then show ?thesis by (simp add: e)
  qed
  have d0: "unat d0 = unat m0 + unat a0"
    unfolding d0_def using unat_u32 [of m0] unat_u32 [of a0] by (simp add: unat_add64)
  have c0: "unat d0 div 2 ^ 32 \<le> 1"
    using less_mult_imp_div_less [of "unat d0" 2 "2 ^ 32"] unat_u32 [of m0] unat_u32 [of a0] d0 by simp
  note s1 = step [OF c0, of m1 a1, folded d1_def]
  note s2 = step [OF conjunct2 [OF s1], of m2 a2, folded d2_def]
  note s3 = step [OF conjunct2 [OF s2], of m3 a3, folded d3_def]
  have b: "b0 = lo32 d0" "b1 = lo32 d1" "b2 = lo32 d2" "b3 = lo32 d3" "b4 = a4 + (lo32 (hi32 d3) + pad)"
    using assms(3) by (simp_all add: poly_add_def Let_def m0_def m1_def m2_def m3_def d0_def d1_def d2_def d3_def)
  have l: "unat (lo32 (hi32 d3)) = unat d3 div 2 ^ 32"
    unfolding unat_lo32 unat_hi32 by (rule mod_less, rule le_less_trans [OF conjunct2 [OF s3]]) simp
  have b4: "unat b4 = unat d3 div 2 ^ 32 + (unat a4 + unat pad)"
  proof -
    have c: "unat (lo32 (hi32 d3)) \<le> 1" using l s3 by linarith
    have "unat (lo32 (hi32 d3) + pad) = unat (lo32 (hi32 d3)) + unat pad"
      by (rule unat_add32) (use c assms(2) in \<open>simp del: unat_lo32 unat_hi32\<close>)
    moreover have "unat (a4 + (lo32 (hi32 d3) + pad)) = unat a4 + unat (lo32 (hi32 d3) + pad)"
      by (rule unat_add32) (use calculation c assms(1,2) in \<open>simp del: unat_lo32 unat_hi32\<close>)
    ultimately show ?thesis unfolding b using l by linarith
  qed
  have "val5 (b0, b1, b2, b3, b4) = unat d0 + 2 ^ 32 * (unat m1 + unat a1) + 2 ^ 64 * (unat m2 + unat a2) +
      2 ^ 96 * (unat m3 + unat a3) + 2 ^ 128 * (unat a4 + unat pad)"
    unfolding val5_def split b4 unfolding b unat_lo32
    by (rule carry_value) (use s1 s2 s3 in simp_all)
  moreover have "unat b4 \<le> 6" using b4 conjunct2 [OF s3] assms(1,2) by linarith
  ultimately show ?thesis
    unfolding d0 val5_def m0_def m1_def m2_def m3_def by simp
qed

lemma unat_mul64: "unat (mul64 a b) = unat a * unat b"
proof -
  have "unat a * unat b < 2 ^ 32 * 2 ^ 32"
    using unat_u32 [of a] unat_u32 [of b] by (intro mult_strict_mono) auto
  then show ?thesis by (simp add: mul64_def unat_word_ariths)
qed

text \<open>The multiplication for platforms without a 64-bit one, from the halves of its arguments.\<close>

lemma unat_bounds: "unat (w :: u32) < 2 ^ 32" "unat (v :: u16) < 2 ^ 16"
  using unsigned_less [of w, where ?'a = nat] unsigned_less [of v, where ?'a = nat] by simp_all

lemma unat_halves:
  fixes a :: u32
  shows "unat (ucast a :: u16) = unat a mod 2 ^ 16" "unat (ucast (drop_bit 16 a) :: u16) = unat a div 2 ^ 16"
proof -
  show "unat (ucast a :: u16) = unat a mod 2 ^ 16" by (simp add: unsigned_ucast_eq take_bit_eq_mod)
  have lt: "unat a div 2 ^ 16 < 2 ^ 16" using unat_bounds(1) [of a] by (simp add: less_mult_imp_div_less)
  have "unat (ucast (drop_bit 16 a) :: u16) = unat a div 2 ^ 16 mod 2 ^ 16"
    by (simp add: unsigned_ucast_eq take_bit_eq_mod drop_bit_eq_div unat_div)
  then show "unat (ucast (drop_bit 16 a) :: u16) = unat a div 2 ^ 16" using lt by simp
qed

lemma unat_widen:
  "unat (ucast x :: u32) = unat x" "unat (ucast w :: u64) = unat w" for x :: u16 and w :: u32
  using unat_bounds(2) [of x] unat_bounds(1) [of w] by (simp_all only: unsigned_ucast_eq take_bit_eq_mod) simp_all

lemma unat_half_product: "unat (ucast x * ucast y :: u32) = unat x * unat (y :: u16)" for x :: u16
proof -
  have "unat x * unat y < 2 ^ 16 * 2 ^ 16"
    by (rule mult_strict_mono) (simp_all only: unat_bounds, simp_all)
  then have "unat x * unat y < 2 ^ 32" by simp
  then show ?thesis unfolding unat_word_ariths(2) unat_widen by simp
qed
lemma mul64_from_halves: "mul64_halves a b = mul64 a b"
proof -
  define al ah bl bh where "al = unat a mod 2 ^ 16" and "ah = unat a div 2 ^ 16" and "bl = unat b mod 2 ^ 16" and "bh = unat b div 2 ^ 16"
  note halves = al_def ah_def bl_def bh_def
  have a: "unat a = al + 2 ^ 16 * ah" and b: "unat b = bl + 2 ^ 16 * bh" by (simp_all add: halves)
  have sum: "al * bl + (ah * bl + al * bh) * 2 ^ 16 + ah * bh * 2 ^ 32 = unat a * unat b"
    by (simp add: a b algebra_simps)
  have "unat (mul64_halves a b) =
      (al * bl + (ah * bl + al * bh) * 2 ^ 16 + ah * bh * 2 ^ 32) mod 2 ^ 64"
    unfolding mul64_halves_def Let_def push_bit_eq_mult unat_word_ariths(1) unat_word_ariths(2) [where 'a = 64]
      unat_widen unat_half_product unat_halves(2) unfolding unat_halves(1) halves [symmetric]
    by (simp add: mod_simps)
  moreover have "unat (mul64 a b) < 2 ^ 64" using unsigned_less [of "mul64 a b", where ?'a = nat] by simp
  ultimately have "unat (mul64_halves a b) = unat (mul64 a b)"
    unfolding sum by (simp add: unat_mul64 [symmetric])
  then show ?thesis by (simp only: word_unat_eq_iff)
qed

lemma unat_sum5:
  fixes x1 :: u64
  assumes "unat x1 + unat x2 + unat x3 + unat x4 + unat x5 < 2 ^ 64"
  shows "unat (x1 + x2 + x3 + x4 + x5) = unat x1 + unat x2 + unat x3 + unat x4 + unat x5"
  using assms by (simp add: unat_add64)

lemma unat_rs:
  assumes "unat (r :: u32) = 4 * t" and "unat r < 2 ^ 28"
  shows "unat (r + drop_bit 2 r) = 5 * t"
proof -
  have "unat (drop_bit 2 r) = t"
    using assms(1) by (simp add: drop_bit_eq_div unat_div_distrib)
  then show ?thesis using assms by (simp add: unat_add32)
qed

lemma P1305_num: "P1305 = 1361129467683753853853498429727072845819"
  by (simp add: P1305_def)

text \<open>The columns of the product, with the high ones folded down by \<open>2 ^ 130 = P1305 + 5\<close>.\<close>

lemma mul_columns:
  fixes a0 a1 a2 a3 a4 r0 t1 t2 t3 :: nat
  shows "(a0 + 2 ^ 32 * a1 + 2 ^ 64 * a2 + 2 ^ 96 * a3 + 2 ^ 128 * a4) *
         (r0 + 2 ^ 32 * (4 * t1) + 2 ^ 64 * (4 * t2) + 2 ^ 96 * (4 * t3)) =
         (a0 * r0 + a1 * (5 * t3) + a2 * (5 * t2) + a3 * (5 * t1)) +
         2 ^ 32 * (a0 * (4 * t1) + a1 * r0 + a2 * (5 * t3) + a3 * (5 * t2) + a4 * (5 * t1)) +
         2 ^ 64 * (a0 * (4 * t2) + a1 * (4 * t1) + a2 * r0 + a3 * (5 * t3) + a4 * (5 * t2)) +
         2 ^ 96 * (a0 * (4 * t3) + a1 * (4 * t2) + a2 * (4 * t1) + a3 * r0 + a4 * (5 * t3)) +
         2 ^ 128 * (a4 * r0) +
         P1305 * (a1 * t3 + a2 * t2 + a3 * t1 + 2 ^ 32 * (a2 * t3 + a3 * t2 + a4 * t1) +
                  2 ^ 64 * (a3 * t3 + a4 * t2) + 2 ^ 96 * (a4 * t3))"
  unfolding P1305_num by (simp add: algebra_simps)

definition clamped :: "limbs4 \<Rightarrow> bool" where
  "clamped = (\<lambda>(r0, r1, r2, r3). unat r0 < 2 ^ 28 \<and> unat r1 < 2 ^ 28 \<and> unat r2 < 2 ^ 28 \<and> unat r3 < 2 ^ 28 \<and>
     4 dvd unat r1 \<and> 4 dvd unat r2 \<and> 4 dvd unat r3)"

lemma prod_bound: "unat (a :: u32) * n \<le> 2 ^ 32 * m" if "n \<le> m"
  using that unat_u32 [of a] by (intro mult_le_mono) auto

lemma poly_mul_value:
  assumes "unat a4 \<le> 6" and "clamped r" and "poly_mul (a0, a1, a2, a3, a4) r = (b0, b1, b2, b3, b4)"
  shows "val5 (b0, b1, b2, b3, b4) mod P1305 = (val5 (a0, a1, a2, a3, a4) * val4 r) mod P1305"
proof -
  obtain r0 r1 r2 r3 where r: "r = (r0, r1, r2, r3)" by (metis prod_cases4)
  obtain t1 t2 t3 where t: "unat r1 = 4 * t1" "unat r2 = 4 * t2" "unat r3 = 4 * t3"
    using assms(2) by (auto simp: clamped_def r dvd_def)
  define rs1 rs2 rs3 where "rs1 = r1 + drop_bit 2 r1" "rs2 = r2 + drop_bit 2 r2" "rs3 = r3 + drop_bit 2 r3"
  note rs_defs = this
  have lt: "unat r0 \<le> 2 ^ 28" "t1 \<le> 2 ^ 26" "t2 \<le> 2 ^ 26" "t3 \<le> 2 ^ 26"
    using assms(2) t by (auto simp: clamped_def r)
  have rs: "unat rs1 = 5 * t1" "unat rs2 = 5 * t2" "unat rs3 = 5 * t3"
    unfolding rs_defs using assms(2) t by (auto intro!: unat_rs simp: clamped_def r)
  define d0 where "d0 = mul64 a0 r0 + mul64 a1 rs3 + mul64 a2 rs2 + mul64 a3 rs1"
  define d1 where "d1 = mul64 a0 r1 + mul64 a1 r0 + mul64 a2 rs3 + mul64 a3 rs2 + mul64 a4 rs1"
  define d2 where "d2 = mul64 a0 r2 + mul64 a1 r1 + mul64 a2 r0 + mul64 a3 rs3 + mul64 a4 rs2"
  define d3 where "d3 = mul64 a0 r3 + mul64 a1 r2 + mul64 a2 r1 + mul64 a3 r0 + mul64 a4 rs3"
  define c0 where "c0 = unat a0 * unat r0 + unat a1 * (5 * t3) + unat a2 * (5 * t2) + unat a3 * (5 * t1)"
  define c1 where "c1 = unat a0 * (4 * t1) + unat a1 * unat r0 + unat a2 * (5 * t3) + unat a3 * (5 * t2) + unat a4 * (5 * t1)"
  define c2 where "c2 = unat a0 * (4 * t2) + unat a1 * (4 * t1) + unat a2 * unat r0 + unat a3 * (5 * t3) + unat a4 * (5 * t2)"
  define c3 where "c3 = unat a0 * (4 * t3) + unat a1 * (4 * t2) + unat a2 * (4 * t1) + unat a3 * unat r0 + unat a4 * (5 * t3)"
  have pb: "unat a * unat r0 \<le> 1152921504606846976" "unat a * (4 * t1) \<le> 1152921504606846976"
    "unat a * (4 * t2) \<le> 1152921504606846976" "unat a * (4 * t3) \<le> 1152921504606846976"
    "unat a * (5 * t1) \<le> 1441151880758558720" "unat a * (5 * t2) \<le> 1441151880758558720"
    "unat a * (5 * t3) \<le> 1441151880758558720" for a :: u32
    using lt prod_bound [of "unat r0" "2 ^ 28" a] prod_bound [of "4 * t1" "2 ^ 28" a] prod_bound [of "4 * t2" "2 ^ 28" a]
      prod_bound [of "4 * t3" "2 ^ 28" a] prod_bound [of "5 * t1" "5 * 2 ^ 26" a]
      prod_bound [of "5 * t2" "5 * 2 ^ 26" a] prod_bound [of "5 * t3" "5 * 2 ^ 26" a] by simp_all
  have "unat a4 * (5 * t3) \<le> 6 * (5 * 2 ^ 26)" "unat a4 * unat r0 \<le> 6 * 2 ^ 28"
    by (rule mult_le_mono; use assms(1) lt in simp)+
  then have a4: "unat a4 * (5 * t3) \<le> 2013265920" "unat a4 * unat r0 \<le> 1610612736" by simp_all
  have "c0 < 9223372036854775808" "c1 < 9223372036854775808" "c2 < 9223372036854775808"
      "c3 \<le> 4611686018427387904 + 2013265920"
    unfolding c0_def c1_def c2_def c3_def
    using pb(1) [of a0] pb(7) [of a1] pb(6) [of a2] pb(5) [of a3]
      pb(2) [of a0] pb(1) [of a1] pb(7) [of a2] pb(6) [of a3] pb(5) [of a4]
      pb(3) [of a0] pb(2) [of a1] pb(1) [of a2] pb(7) [of a3] pb(6) [of a4]
      pb(4) [of a0] pb(3) [of a1] pb(2) [of a2] pb(1) [of a3] a4(1) by linarith+
  then have cb: "c0 < 2 ^ 63" "c1 < 2 ^ 63" "c2 < 2 ^ 63" "c3 \<le> 2 ^ 62 + 30 * 2 ^ 26" by simp_all
  have d0: "unat d0 = c0"
    unfolding d0_def c0_def using cb(1)
    by (subst unat_sum5 [where ?x5.0 = 0, simplified]) (simp_all add: unat_mul64 t rs c0_def)
  have d1: "unat d1 = c1" and d2: "unat d2 = c2" and d3: "unat d3 = c3"
    unfolding d1_def d2_def d3_def using cb(2-4)
    by (subst unat_sum5; simp add: unat_mul64 t rs c1_def c2_def c3_def)+
  define e1 e2 e3 where "e1 = d1 + hi32 d0" "e2 = d2 + hi32 (d1 + hi32 d0)" "e3 = d3 + hi32 (d2 + hi32 (d1 + hi32 d0))"
  note e_defs = this
  have hi: "unat (hi32 d) \<le> 2 ^ 32" for d
    using less_mult_imp_div_less [of "unat d" "2 ^ 32" "2 ^ 32"] unat_u64 [of d] by simp
  have e1: "unat e1 = c1 + c0 div 2 ^ 32"
    unfolding e_defs using cb(2) hi [of d0] d0 d1 by (subst unat_add64) simp_all
  have e2: "unat e2 = c2 + unat e1 div 2 ^ 32"
    unfolding e_defs using cb(3) hi [of "d1 + hi32 d0"] d2 by (subst unat_add64) simp_all
  have e3: "unat e3 = c3 + unat e2 div 2 ^ 32"
    unfolding e_defs using cb(4) hi [of "d2 + hi32 (d1 + hi32 d0)"] d3 by (subst unat_add64) simp_all
  have b: "b0 = lo32 d0" "b1 = lo32 e1" "b2 = lo32 e2" "b3 = lo32 e3" "b4 = lo32 (hi32 e3) + a4 * r0"
    using assms(3) by (simp_all add: r poly_mul_def Let_def rs_defs e_defs d0_def d1_def d2_def d3_def)
  have "unat e3 < 5 * 2 ^ 29 * 2 ^ 32"
    using e3 cb(4) hi [of e2] by simp
  then have q: "unat e3 div 2 ^ 32 < 5 * 2 ^ 29" by (rule less_mult_imp_div_less)
  have b4: "unat b4 = unat e3 div 2 ^ 32 + unat a4 * unat r0"
  proof -
    have "unat (a4 * r0) = unat a4 * unat r0"
      using a4(2) by (simp add: unat_word_ariths)
    moreover have "unat (lo32 (hi32 e3)) = unat e3 div 2 ^ 32"
      unfolding unat_lo32 unat_hi32 by (rule mod_less, rule less_trans [OF q]) simp
    ultimately show ?thesis
      unfolding b using q a4(2) by (subst unat_add32) (simp_all del: unat_lo32)
  qed
  have "val5 (b0, b1, b2, b3, b4) = c0 + 2 ^ 32 * c1 + 2 ^ 64 * c2 + 2 ^ 96 * c3 + 2 ^ 128 * (unat a4 * unat r0)"
    unfolding val5_def split b4 unfolding b unat_lo32 d0
    by (rule carry_value) (use e1 e2 e3 in simp_all)
  then show ?thesis
    using mul_columns [of "unat a0" "unat a1" "unat a2" "unat a3" "unat a4" "unat r0" t1 t2 t3]
    unfolding val5_def val4_def r split t c0_def c1_def c2_def c3_def by simp
qed

lemma poly_reduce_value:
  assumes "poly_reduce (a0, a1, a2, a3, a4) = (b0, b1, b2, b3, b4)"
  shows "val5 (b0, b1, b2, b3, b4) mod P1305 = val5 (a0, a1, a2, a3, a4) mod P1305 \<and> unat b4 \<le> 4"
proof -
  define q m where "q = unat a4 div 4" "m = unat a4 mod 4"
  note qm = this
  have a4: "unat a4 = 4 * q + m" by (simp add: qm)
  have q: "unat (drop_bit 2 a4) = q" by (simp add: qm drop_bit_eq_div unat_div_distrib)
  have m3: "a4 AND 3 = take_bit 2 a4"
    by (simp add: take_bit_eq_mask mask_eq_exp_minus_1)
  have m: "unat (a4 AND 3) = m"
    unfolding m3 by (simp only: unsigned_take_bit_eq) (simp add: qm take_bit_eq_mod)
  have q4: "unat (a4 AND 0xFFFFFFFC) = 4 * q"
  proof -
    have "(0xFFFFFFFC :: u32) = NOT (mask 2)" by (simp add: mask_eq_exp_minus_1)
    moreover have "a4 AND NOT (mask 2) = push_bit 2 (drop_bit 2 a4)"
    proof (rule bit_word_eqI)
      fix n
      have "2 \<le> n \<Longrightarrow> Suc (Suc (n - 2)) = n" by simp
      then show "bit (a4 AND NOT (mask 2)) n = bit (push_bit 2 (drop_bit 2 a4)) n"
        by (cases "2 \<le> n") (auto simp: bit_simps bit_imp_le_length)
    qed
    ultimately have "a4 AND 0xFFFFFFFC = a4 - (a4 AND 3)"
      using bits_ident [of 2 a4] m3 by (metis add_diff_cancel_right')
    moreover have "a4 AND 3 \<le> a4" unfolding word_le_nat_alt m by (simp add: qm)
    ultimately show ?thesis using m a4 by (simp add: unat_sub)
  qed
  define d0 where "d0 = (ucast a0 :: u64) + ucast (drop_bit 2 a4) + ucast (a4 AND 0xFFFFFFFC)"
  define d1 where "d1 = (ucast a1 :: u64) + hi32 d0"
  define d2 where "d2 = (ucast a2 :: u64) + hi32 d1"
  define d3 where "d3 = (ucast a3 :: u64) + hi32 d2"
  define d4 where "d4 = (ucast (a4 AND 3) :: u64) + hi32 d3"
  have lim: "q < 2 ^ 30" "m < 4" using unat_u32 [of a4] by (simp_all add: qm)
  have d0: "unat d0 = unat a0 + 5 * q"
    unfolding d0_def using unat_u32 [of a0] lim(1) by (simp add: unat_add64 q q4)
  have c0: "unat d0 div 2 ^ 32 \<le> 2"
    using less_mult_imp_div_less [of "unat d0" 3 "2 ^ 32"] unat_u32 [of a0] lim d0 by simp
  have step: "unat ((ucast a :: u64) + hi32 d) = unat a + unat d div 2 ^ 32 \<and>
      unat ((ucast a :: u64) + hi32 d) div 2 ^ 32 \<le> 1"
    if "unat d div 2 ^ 32 \<le> 2" for a :: u32 and d :: u64
  proof -
    have e: "unat ((ucast a :: u64) + hi32 d) = unat a + unat d div 2 ^ 32"
      using that unat_u32 [of a] by (simp add: unat_add64)
    have "unat a + unat d div 2 ^ 32 < 2 * 2 ^ 32"
      using that unat_u32 [of a] by simp
    then have "(unat a + unat d div 2 ^ 32) div 2 ^ 32 < 2"
      by (rule less_mult_imp_div_less)
    then show ?thesis by (simp add: e)
  qed
  note s1 = step [OF c0, of a1, folded d1_def]
  have "unat d1 div 2 ^ 32 \<le> 2" using s1 by linarith
  note s2 = step [OF this, of a2, folded d2_def]
  have "unat d2 div 2 ^ 32 \<le> 2" using s2 by linarith
  note s3 = step [OF this, of a3, folded d3_def]
  have "unat d3 div 2 ^ 32 \<le> 2" using s3 by linarith
  note s4 = step [OF this, of "a4 AND 3", folded d4_def]
  have b: "b0 = lo32 d0" "b1 = lo32 d1" "b2 = lo32 d2" "b3 = lo32 d3" "b4 = lo32 d4"
    using assms by (simp_all add: poly_reduce_def Let_def d0_def d1_def d2_def d3_def d4_def)
  have "unat d4 \<le> 4" using s4 s3 lim(2) m by linarith
  then have b4: "unat b4 = unat d3 div 2 ^ 32 + m" "unat b4 \<le> 4"
    unfolding b using s4 m by simp_all
  have "val5 (b0, b1, b2, b3, b4) = unat d0 + 2 ^ 32 * unat a1 + 2 ^ 64 * unat a2 + 2 ^ 96 * unat a3 + 2 ^ 128 * m"
    unfolding val5_def split b4(1) unfolding b unat_lo32
    by (rule carry_value) (use s1 s2 s3 in simp_all)
  moreover have "val5 (a0, a1, a2, a3, a4) = \<dots> + P1305 * q"
    unfolding val5_def split d0 a4 P1305_num by simp
  ultimately show ?thesis using b4(2) by simp
qed

lemma poly1305_block_value:
  assumes "poly1305_block r pad input (a0, a1, a2, a3, a4) = (b0, b1, b2, b3, b4)"
    and "unat a4 \<le> 4" and "unat pad \<le> 1" and "clamped r"
  shows "val5 (b0, b1, b2, b3, b4) mod P1305 =
    ((val5 (a0, a1, a2, a3, a4) + (unat (get_u32_le input) +
     2 ^ 32 * unat (get_u32_le (drop 4 input)) + 2 ^ 64 * unat (get_u32_le (drop 8 input)) +
     2 ^ 96 * unat (get_u32_le (drop 12 input))) + 2 ^ 128 * unat pad) * val4 r) mod P1305 \<and> unat b4 \<le> 4"
proof -
  obtain c0 c1 c2 c3 c4 where c: "poly_add (a0, a1, a2, a3, a4) input pad = (c0, c1, c2, c3, c4)" by (metis prod_cases5)
  obtain d0 d1 d2 d3 d4 where d: "poly_mul (c0, c1, c2, c3, c4) r = (d0, d1, d2, d3, d4)" by (metis prod_cases5)
  have e: "poly_reduce (d0, d1, d2, d3, d4) = (b0, b1, b2, b3, b4)"
    using assms(1) by (simp add: poly1305_block_def c d)
  note pa = poly_add_value [OF assms(2,3) c]
  show ?thesis
    using poly_reduce_value [OF e] poly_mul_value [OF conjunct2 [OF pa] assms(4) d] pa by simp
qed

section \<open>Blocks, contexts and the MAC\<close>

lemma le_nat_append: "le_nat (a @ b) = le_nat a + 256 ^ length a * le_nat b"
  by (induction a) (simp_all add: algebra_simps)

lemma le_nat_less: "le_nat bs < 256 ^ length bs"
proof (induction bs)
  case (Cons b bs)
  have "unat b < 256" using unsigned_less [of b] by simp
  with Cons show ?case by simp
qed simp

lemma le_nat_zeros [simp]: "le_nat (replicate n 0) = 0"
  by (induction n) simp_all

lemma unat_byte: "unat (ucast (drop_bit k (w :: u32)) :: u8) = (unat w div 2 ^ k) mod 256"
proof -
  have "take_bit 32 (unat w) = unat w" using unat_u32 [of w] by (simp add: take_bit_nat_eq_self)
  then have "unat (drop_bit k w) = unat w div 2 ^ k" by (subst unsigned_drop_bit_eq) (simp add: drop_bit_eq_div)
  then show ?thesis by (simp add: unsigned_ucast_eq take_bit_eq_mod)
qed

lemma le_nat_put [simp]: "le_nat (put_u32_le w) = unat w"
proof -
  define n n1 n2 n3 where "n = unat w" "n1 = n div 256" "n2 = n div 65536" "n3 = n div 16777216"
  note defs = this
  have "n < 2 ^ 32" unfolding defs by (rule unat_u32)
  then have n3: "n3 mod 256 = n3" by (simp add: defs less_mult_imp_div_less)
  have "n1 div 256 = n2" "n2 div 256 = n3"
    by (simp_all add: defs flip: div_mult2_eq)
  then have "n = n mod 256 + 256 * n1" "n1 = n1 mod 256 + 256 * n2" "n2 = n2 mod 256 + 256 * n3"
    using mod_mult_div_eq [of n1 256] mod_mult_div_eq [of n2 256] mod_mult_div_eq [of n 256] by (simp_all add: defs(2))
  moreover have "le_nat (put_u32_le w) = n mod 256 + 256 * (n1 mod 256 + 256 * (n2 mod 256 + 256 * n3))"
    using unat_byte [of 0 w] unat_byte [of 8 w] unat_byte [of 16 w] unat_byte [of 24 w] n3
    by (simp add: put_u32_le_def flip: defs)
  ultimately show ?thesis unfolding defs(1) [symmetric] by simp
qed

lemma put_get_u32_le: "4 \<le> length b \<Longrightarrow> put_u32_le (get_u32_le b) = take 4 b"
proof -
  assume "4 \<le> length b"
  then obtain b0 b1 b2 b3 r where b: "b = b0 # b1 # b2 # b3 # r"
    by (metis (no_types, lifting) Suc_le_length_iff numeral_eq_Suc pred_numeral_simps(2,3) pred_numeral_simps(1) BitM.simps)
  show ?thesis
    unfolding b get_u32_le_def put_u32_le_def by (simp, intro conjI; rule bit_word_eqI; auto simp: bit_simps dest: bit_imp_le_length)
qed

lemma unat_get_u32_le: "4 \<le> length b \<Longrightarrow> unat (get_u32_le b) = le_nat (take 4 b)"
  by (metis le_nat_put put_get_u32_le)

lemma le_nat_limbs:
  assumes "16 \<le> length b"
  shows "unat (get_u32_le b) + 2 ^ 32 * unat (get_u32_le (drop 4 b)) + 2 ^ 64 * unat (get_u32_le (drop 8 b)) +
         2 ^ 96 * unat (get_u32_le (drop 12 b)) = le_nat (take 16 b)"
proof -
  have "take 16 b = take 4 b @ take 4 (drop 4 b) @ take 4 (drop 8 b) @ take 4 (drop 12 b)"
    using take_add [of 4 12 b] take_add [of 4 8 "drop 4 b"] take_add [of 4 4 "drop 8 b"] by simp
  then have "le_nat (take 16 b) = le_nat (take 4 b @ take 4 (drop 4 b) @ take 4 (drop 8 b) @ take 4 (drop 12 b))"
    by (rule arg_cong)
  also have "\<dots> = le_nat (take 4 b) + 2 ^ 32 * le_nat (take 4 (drop 4 b)) + 2 ^ 64 * le_nat (take 4 (drop 8 b)) +
      2 ^ 96 * le_nat (take 4 (drop 12 b))"
    using assms by (simp add: le_nat_append min_def)
  finally show ?thesis
    using assms by (simp add: unat_get_u32_le)
qed

lemma length_nat_le [simp]: "length (nat_le n v) = n"
  by (induction n arbitrary: v) simp_all

lemma nat_le_add: "nat_le (m + n) v = nat_le m v @ nat_le n (v div 256 ^ m)"
  by (induction m arbitrary: v) (simp_all add: div_mult2_eq)

lemma nat_le_mod: "nat_le n (v mod 256 ^ n) = nat_le n v"
proof (induction n arbitrary: v)
  case (Suc n)
  have "(of_nat (v mod 256 ^ Suc n) :: u8) = of_nat v"
    by (simp add: word_unat_eq_iff unat_of_nat take_bit_eq_mod mod_mod_cancel)
  moreover have "v mod 256 ^ Suc n div 256 = (v div 256) mod 256 ^ n"
    by (simp add: mod_mult2_eq)
  ultimately show ?case by (simp only: nat_le.simps Suc.IH)
qed simp

lemma nat_le_le_nat: "nat_le (length bs) (le_nat bs) = bs"
proof (induction bs)
  case (Cons b bs)
  have b: "unat b < 256" using unsigned_less [of b] by simp
  then have "(unat b + 256 * le_nat bs) div 256 = le_nat bs" by simp
  moreover have "(of_nat (unat b + 256 * le_nat bs) :: u8) = b"
  proof -
    have "(256 :: u8) = 0" by simp
    then show ?thesis by (simp only: of_nat_add of_nat_mult of_nat_numeral) simp
  qed
  ultimately show ?case using Cons by (simp only: nat_le.simps le_nat.simps list.size(4)) simp
qed simp

lemma put_u32_le_nat: "put_u32_le w = nat_le 4 (unat w)"
  using nat_le_le_nat [of "put_u32_le w"] by simp

lemma put_limbs:
  "put_u32_le a0 @ put_u32_le a1 @ put_u32_le a2 @ put_u32_le a3 = nat_le 16 (val4 (a0, a1, a2, a3))"
proof -
  have "le_nat (put_u32_le a0 @ put_u32_le a1 @ put_u32_le a2 @ put_u32_le a3) = val4 (a0, a1, a2, a3)"
    by (simp add: le_nat_append val4_def)
  then show ?thesis
    using nat_le_le_nat [of "put_u32_le a0 @ put_u32_le a1 @ put_u32_le a2 @ put_u32_le a3"] by simp
qed


lemma poly1305_block_spec:
  assumes "unat (snd (snd (snd (snd acc)))) \<le> 4" and "unat pad \<le> 1" and "clamped r" and "16 \<le> length input"
  shows "val5 (poly1305_block r pad input acc) mod P1305 =
           ((val5 acc + le_nat (take 16 input) + 2 ^ 128 * unat pad) * val4 r) mod P1305 \<and>
         unat (snd (snd (snd (snd (poly1305_block r pad input acc))))) \<le> 4"
proof -
  obtain a0 a1 a2 a3 a4 where a: "acc = (a0, a1, a2, a3, a4)" by (metis prod_cases5)
  obtain b0 b1 b2 b3 b4 where b: "poly1305_block r pad input (a0, a1, a2, a3, a4) = (b0, b1, b2, b3, b4)"
    by (metis prod_cases5)
  show ?thesis
    using poly1305_block_value [OF b _ assms(2,3)] assms(1) le_nat_limbs [OF assms(4)] by (simp add: a b)
qed

abbreviation acc_small :: "limbs5 \<Rightarrow> bool" where
  "acc_small acc \<equiv> unat (snd (snd (snd (snd acc)))) \<le> 4"

lemma le_nat_block: "length b = 16 \<Longrightarrow> le_nat (b @ [1]) = le_nat b + 2 ^ 128"
  by (simp add: le_nat_append)

lemma poly_eval_step: "msg \<noteq> [] \<Longrightarrow>
  poly_eval r acc msg = poly_eval r (((acc + le_nat (take 16 msg @ [1])) * r) mod P1305) (drop 16 msg)"
  by (subst poly_eval.simps) simp

lemma poly_eval_Nil [simp]: "poly_eval r acc [] = acc"
  by (subst poly_eval.simps) simp

lemma mod_add_mult_left: "((x mod p + m) * r) mod p = ((x + m) * r) mod (p :: nat)"
  by (metis mod_add_left_eq mod_mult_left_eq)

lemma process_spec:
  assumes "acc_small acc" and "clamped r" and "16 * n \<le> length input"
  shows "val5 (poly1305_process r n input 1 acc) mod P1305 = poly_eval (val4 r) (val5 acc mod P1305) (take (16 * n) input) \<and>
         acc_small (poly1305_process r n input 1 acc)"
  using assms
proof (induction n arbitrary: input acc)
  case 0
  then show ?case by simp
next
  case (Suc n)
  let ?b = "poly1305_block r 1 input acc"
  have b: "val5 ?b mod P1305 = ((val5 acc + le_nat (take 16 input) + 2 ^ 128) * val4 r) mod P1305" "acc_small ?b"
    using poly1305_block_spec [of acc 1 r input] Suc.prems by simp_all
  have "((val5 acc mod P1305 + le_nat (take 16 input @ [1])) * val4 r) mod P1305 = val5 ?b mod P1305"
    using Suc.prems(3) b(1) by (simp only: mod_add_mult_left) (simp add: le_nat_block add.assoc)
  then have "poly_eval (val4 r) (val5 acc mod P1305) (take (16 * Suc n) input) =
        poly_eval (val4 r) (val5 ?b mod P1305) (take (16 * n) (drop 16 input))"
    using Suc.prems(3) by (subst poly_eval_step) (auto simp: drop_take min_def)
  moreover have "16 * n \<le> length (drop 16 input)" using Suc.prems(3) by simp
  note Suc.IH [OF b(2) Suc.prems(2) this]
  ultimately show ?case by simp
qed

lemma poly_eval_append:
  "16 dvd length a \<Longrightarrow> poly_eval r acc (a @ b) = poly_eval r (poly_eval r acc a) b"
proof (induction r acc a rule: poly_eval.induct)
  case (1 r acc a)
  show ?case
  proof (cases "a = []")
    case False
    with 1(2) have "16 \<le> length a" by (simp add: dvd_imp_le)
    with 1(2) False have "poly_eval r (((acc + le_nat (take 16 a @ [1])) * r) mod P1305) (drop 16 a @ b) =
       poly_eval r (poly_eval r (((acc + le_nat (take 16 a @ [1])) * r) mod P1305) (drop 16 a)) b"
      by (intro 1(1)) (auto simp: dvd_minus_self)
    with False \<open>16 \<le> length a\<close> show ?thesis
      by (simp add: poly_eval_step [of "a @ b"] poly_eval_step [of a])
  qed simp
qed

text \<open>What a context stands for: the message fed to it so far.\<close>

definition po_abs :: "poly1305_context \<Rightarrow> bytes \<Rightarrow> bool" where
  "po_abs ctx msg \<longleftrightarrow> clamped (po_r ctx) \<and> acc_small (po_acc ctx) \<and> length (po_queue ctx) < 16 \<and>
     (\<exists>full. msg = full @ po_queue ctx \<and> 16 dvd length full \<and>
        val5 (po_acc ctx) mod P1305 = poly_eval (val4 (po_r ctx)) 0 full)"

lemma fill_queue_abs:
  assumes "po_abs ctx msg" and "fill_queue ctx input = (ctx', rest)"
  shows "\<exists>used. input = used @ rest \<and> po_abs ctx' (msg @ used) \<and> (rest = [] \<or> po_queue ctx' = []) \<and>
         po_r ctx' = po_r ctx \<and> po_s ctx' = po_s ctx"
proof (cases "length input > 0 \<and> length (po_queue ctx) > 0")
  case False
  with assms show ?thesis by (intro exI [of _ "[]"]) (auto simp: fill_queue_def)
next
  case True
  let ?k = "16 - length (po_queue ctx)"
  obtain full where full: "msg = full @ po_queue ctx" "16 dvd length full"
    "val5 (po_acc ctx) mod P1305 = poly_eval (val4 (po_r ctx)) 0 full" "clamped (po_r ctx)"
    "acc_small (po_acc ctx)" "length (po_queue ctx) < 16"
    using assms(1) by (auto simp: po_abs_def)
  show ?thesis
  proof (cases "length input < ?k")
    case less: True
    with assms(2) True have "ctx' = ctx\<lparr>po_queue := po_queue ctx @ input\<rparr>" "rest = []"
      by (auto simp: fill_queue_def Let_def)
    with full less show ?thesis by (intro exI [of _ input]) (auto simp: po_abs_def)
  next
    case ge: False
    let ?blk = "po_queue ctx @ take ?k input"
    have c: "ctx' = ctx\<lparr>po_acc := poly1305_process (po_r ctx) 1 ?blk 1 (po_acc ctx), po_queue := []\<rparr>"
      "rest = drop ?k input"
      using assms(2) True ge by (auto simp: fill_queue_def Let_def)
    have l: "length ?blk = 16" using ge full(6) by simp
    then have "val5 (po_acc ctx') mod P1305 = poly_eval (val4 (po_r ctx)) (poly_eval (val4 (po_r ctx)) 0 full) ?blk"
      "acc_small (po_acc ctx')"
      using process_spec [OF full(5,4), of 1 ?blk] full(3) unfolding c by (simp_all del: poly1305_process.simps One_nat_def)
    then have "po_abs ctx' (msg @ take ?k input)"
      unfolding po_abs_def using full(1,2,4) l
      by (auto simp: c poly_eval_append intro!: exI [of _ "full @ ?blk"] simp del: poly1305_process.simps One_nat_def)
    then show ?thesis
      by (intro exI [of _ "take ?k input"]) (simp add: c)
  qed
qed


lemma update_abs:
  assumes "po_abs ctx msg"
  shows "po_abs (mbedtls_poly1305_update ctx input) (msg @ input) \<and>
         po_r (mbedtls_poly1305_update ctx input) = po_r ctx \<and> po_s (mbedtls_poly1305_update ctx input) = po_s ctx"
proof -
  obtain c rest where f: "fill_queue ctx input = (c, rest)" by force
  obtain used where u: "input = used @ rest" "po_abs c (msg @ used)" "rest = [] \<or> po_queue c = []"
    "po_r c = po_r ctx" "po_s c = po_s ctx"
    using fill_queue_abs [OF assms f] by blast
  show ?thesis
  proof (cases "rest = []")
    case True
    with u f show ?thesis by (simp add: mbedtls_poly1305_update_def)
  next
    case False
    let ?n = "length rest div 16"
    let ?p = "poly1305_process (po_r c) ?n rest 1 (po_acc c)"
    let ?tl = "drop (?n * 16) rest"
    have upd: "mbedtls_poly1305_update ctx input = c\<lparr>po_acc := ?p, po_queue := ?tl\<rparr>"
    proof (cases "length rest \<ge> 16")
      case True
      with u(3) False show ?thesis by (simp add: mbedtls_poly1305_update_def f Let_def)
    next
      case short: False
      then have n0: "?n = 0" by simp
      show ?thesis using False short u(3) unfolding n0 by (simp add: mbedtls_poly1305_update_def f Let_def)
    qed
    obtain full where full: "msg @ used = full" "16 dvd length full"
      "val5 (po_acc c) mod P1305 = poly_eval (val4 (po_r c)) 0 full" "clamped (po_r c)" "acc_small (po_acc c)"
      using u(2,3) False by (auto simp: po_abs_def)
    have n: "16 * ?n \<le> length rest" by simp
    note ps = process_spec [OF full(5,4) n]
    have "poly_eval (val4 (po_r c)) 0 (full @ take (16 * ?n) rest) = val5 ?p mod P1305"
      using ps full(2,3) by (simp add: poly_eval_append)
    moreover have "length ?tl < 16" "16 dvd length (full @ take (16 * ?n) rest)"
      using full(2) n by (simp_all add: minus_div_mult_eq_mod min_absorb2)
    ultimately have "po_abs (c\<lparr>po_acc := ?p, po_queue := ?tl\<rparr>) (msg @ input)"
      unfolding po_abs_def using ps full(4)
      by (intro conjI exI [of _ "full @ take (16 * ?n) rest"])
        (simp_all add: u(1) flip: full(1) mult.commute [of 16])
    with upd u(4,5) show ?thesis by simp
  qed
qed

lemma val4_less: "val4 (a0, a1, a2, a3) < 2 ^ 128"
  using unat_u32 [of a0] unat_u32 [of a1] unat_u32 [of a2] unat_u32 [of a3] by (simp add: val4_def)

lemma add_s_value:
  "put_u32_le (lo32 ((ucast a0 :: u64) + ucast s0)) @
   put_u32_le (lo32 ((ucast a1 :: u64) + ucast s1 + hi32 (ucast a0 + ucast s0))) @
   put_u32_le (lo32 ((ucast a2 :: u64) + ucast s2 + hi32 (ucast a1 + ucast s1 + hi32 (ucast a0 + ucast s0)))) @
   put_u32_le (a3 + (s3 + lo32 (hi32 (ucast a2 + ucast s2 + hi32 (ucast a1 + ucast s1 + hi32 (ucast a0 + ucast s0)))))) =
   nat_le 16 ((val4 (a0, a1, a2, a3) + val4 (s0, s1, s2, s3)) mod 2 ^ 128)"
proof -
  define e0 where "e0 = (ucast a0 :: u64) + ucast s0"
  define e1 where "e1 = (ucast a1 :: u64) + ucast s1 + hi32 e0"
  define e2 where "e2 = (ucast a2 :: u64) + ucast s2 + hi32 e1"
  have step: "unat ((ucast m :: u64) + ucast a + hi32 d) = unat m + unat a + unat d div 2 ^ 32 \<and>
      unat ((ucast m :: u64) + ucast a + hi32 d) div 2 ^ 32 \<le> 1"
    if "unat d div 2 ^ 32 \<le> 1" for m a :: u32 and d :: u64
  proof -
    have e: "unat ((ucast m :: u64) + ucast a + hi32 d) = unat m + unat a + unat d div 2 ^ 32"
      using that unat_u32 [of m] unat_u32 [of a] by (simp add: unat_add64)
    have "unat m + unat a + unat d div 2 ^ 32 < 2 * 2 ^ 32"
      using that unat_u32 [of m] unat_u32 [of a] by simp
    then have "(unat m + unat a + unat d div 2 ^ 32) div 2 ^ 32 < 2"
      by (rule less_mult_imp_div_less)
    then show ?thesis by (simp add: e)
  qed
  have e0: "unat e0 = unat a0 + unat s0"
    unfolding e0_def using unat_u32 [of a0] unat_u32 [of s0] by (simp add: unat_add64)
  have c0: "unat e0 div 2 ^ 32 \<le> 1"
    using less_mult_imp_div_less [of "unat e0" 2 "2 ^ 32"] unat_u32 [of a0] unat_u32 [of s0] e0 by simp
  note s1 = step [OF c0, of a1 s1, folded e1_def]
  note s2 = step [OF conjunct2 [OF s1], of a2 s2, folded e2_def]
  define E3 where "E3 = unat a3 + unat s3 + unat e2 div 2 ^ 32"
  have e3: "unat (a3 + (s3 + lo32 (hi32 e2))) = E3 mod 2 ^ 32"
    using s2 unfolding E3_def by (simp add: unat_word_ariths mod_simps add.assoc)
  have "val4 (lo32 e0, lo32 e1, lo32 e2, a3 + (s3 + lo32 (hi32 e2))) + 2 ^ 128 * (E3 div 2 ^ 32 + 0) =
      unat e0 + 2 ^ 32 * (unat a1 + unat s1) + 2 ^ 64 * (unat a2 + unat s2) + 2 ^ 96 * (unat a3 + unat s3) + 2 ^ 128 * 0"
    unfolding val4_def split e3 unat_lo32
    by (rule carry_value) (use s1 s2 in \<open>simp_all add: E3_def\<close>)
  also have "\<dots> = val4 (a0, a1, a2, a3) + val4 (s0, s1, s2, s3)"
    unfolding e0 val4_def by simp
  finally have "(val4 (a0, a1, a2, a3) + val4 (s0, s1, s2, s3)) mod 2 ^ 128 =
      val4 (lo32 e0, lo32 e1, lo32 e2, a3 + (s3 + lo32 (hi32 e2)))"
    using val4_less [of "lo32 e0" "lo32 e1" "lo32 e2" "a3 + (s3 + lo32 (hi32 e2))"] by (metis add_0_right mod_less mod_mult_self2)
  then show ?thesis
    unfolding e0_def [symmetric] e1_def [symmetric] e2_def [symmetric] put_limbs by simp
qed


lemma compute_mac_spec:
  assumes "acc_small acc"
  shows "poly1305_compute_mac acc s = nat_le 16 ((val5 acc mod P1305 + val4 s) mod 2 ^ 128)"
proof -
  obtain a0 a1 a2 a3 a4 where a: "acc = (a0, a1, a2, a3, a4)" by (metis prod_cases5)
  obtain s0 s1 s2 s3 where s: "s = (s0, s1, s2, s3)" by (metis prod_cases4)
  define d0 where "d0 = (ucast a0 :: u64) + 5"
  define d1 where "d1 = (ucast a1 :: u64) + hi32 d0"
  define d2 where "d2 = (ucast a2 :: u64) + hi32 d1"
  define d3 where "d3 = (ucast a3 :: u64) + hi32 d2"
  define g4 where "g4 = a4 + lo32 (hi32 d3)"
  have step: "unat ((ucast a :: u64) + hi32 d) = unat a + unat d div 2 ^ 32 \<and>
      unat ((ucast a :: u64) + hi32 d) div 2 ^ 32 \<le> 1"
    if "unat d div 2 ^ 32 \<le> 1" for a :: u32 and d :: u64
  proof -
    have e: "unat ((ucast a :: u64) + hi32 d) = unat a + unat d div 2 ^ 32"
      using that unat_u32 [of a] by (simp add: unat_add64)
    have "unat a + unat d div 2 ^ 32 < 2 * 2 ^ 32" using that unat_u32 [of a] by simp
    then have "(unat a + unat d div 2 ^ 32) div 2 ^ 32 < 2" by (rule less_mult_imp_div_less)
    then show ?thesis by (simp add: e)
  qed
  have d0: "unat d0 = unat a0 + 5"
    unfolding d0_def using unat_u32 [of a0] by (simp add: unat_add64)
  have c0: "unat d0 div 2 ^ 32 \<le> 1"
    using less_mult_imp_div_less [of "unat d0" 2 "2 ^ 32"] unat_u32 [of a0] d0 by simp
  note t1 = step [OF c0, of a1, folded d1_def]
  note t2 = step [OF conjunct2 [OF t1], of a2, folded d2_def]
  note t3 = step [OF conjunct2 [OF t2], of a3, folded d3_def]
  have a4: "unat a4 \<le> 4" using assms by (simp add: a)
  have g4: "unat g4 = unat d3 div 2 ^ 32 + unat a4" "unat g4 \<le> 5"
  proof -
    have l: "unat (lo32 (hi32 d3)) = unat d3 div 2 ^ 32"
      unfolding unat_lo32 unat_hi32 by (rule mod_less, rule le_less_trans [OF conjunct2 [OF t3]]) simp
    moreover have "unat d3 div 2 ^ 32 \<le> 1" using t3 by blast
    ultimately show "unat g4 = unat d3 div 2 ^ 32 + unat a4" "unat g4 \<le> 5"
      unfolding g4_def using a4 by (subst unat_add32; simp del: unat_lo32 unat_hi32)+
  qed
  have val: "val4 (lo32 d0, lo32 d1, lo32 d2, lo32 d3) + 2 ^ 128 * unat g4 = val5 acc + 5"
  proof -
    have "val4 (lo32 d0, lo32 d1, lo32 d2, lo32 d3) + 2 ^ 128 * unat g4 =
        unat d0 + 2 ^ 32 * unat a1 + 2 ^ 64 * unat a2 + 2 ^ 96 * unat a3 + 2 ^ 128 * unat a4"
      unfolding val4_def split g4(1) unat_lo32 by (rule carry_value) (use t1 t2 t3 in simp_all)
    then show ?thesis unfolding d0 a val5_def split by simp
  qed
  define b where "b = (if unat g4 < 4 then (a0, a1, a2, a3) else (lo32 d0, lo32 d1, lo32 d2, lo32 d3))"
  obtain b0 b1 b2 b3 where b4: "b = (b0, b1, b2, b3)" by (metis prod_cases4)
  let ?mask = "0 - drop_bit 2 g4"
  have mask: "?mask = (if unat g4 < 4 then 0 else -1)"
  proof -
    have "unat (drop_bit 2 g4) = unat g4 div 4" by (simp add: drop_bit_eq_div unat_div_distrib)
    moreover have "unat g4 div 4 = (if unat g4 < 4 then 0 else 1)" using g4(2) by auto
    ultimately have "drop_bit 2 g4 = (if unat g4 < 4 then 0 else 1)"
      by (simp add: word_unat_eq_iff split: if_splits)
    then show ?thesis by simp
  qed
  have sel: "b0 = (a0 AND NOT ?mask) OR (lo32 d0 AND ?mask)" "b1 = (a1 AND NOT ?mask) OR (lo32 d1 AND ?mask)"
    "b2 = (a2 AND NOT ?mask) OR (lo32 d2 AND ?mask)" "b3 = (a3 AND NOT ?mask) OR (lo32 d3 AND ?mask)"
    unfolding mask using b4 by (auto simp: b_def split: if_splits)
  have "poly1305_compute_mac acc s = nat_le 16 ((val4 (b0, b1, b2, b3) + val4 (s0, s1, s2, s3)) mod 2 ^ 128)"
    unfolding a s poly1305_compute_mac_def split Let_def
    unfolding d0_def [symmetric] d1_def [symmetric] d2_def [symmetric] d3_def [symmetric]
      g4_def [symmetric] sel [symmetric] by (rule add_s_value)
  moreover have "val4 b mod 2 ^ 128 = (val5 acc mod P1305) mod 2 ^ 128"
  proof (cases "unat g4 < 4")
    case True
    have "val5 acc < P1305"
      using val True val4_less [of "lo32 d0" "lo32 d1" "lo32 d2" "lo32 d3"] unfolding P1305_num by simp
    then show ?thesis using True by (simp add: b_def a val5_def val4_def)
  next
    case False
    have "val5 acc = P1305 + (val4 b + 2 ^ 128 * (unat g4 - 4))"
      using val False unfolding P1305_num b_def by simp
    moreover have "val4 b + 2 ^ 128 * (unat g4 - 4) < P1305"
      using g4(2) False val4_less [of "lo32 d0" "lo32 d1" "lo32 d2" "lo32 d3"] unfolding P1305_num b_def by simp
    ultimately show ?thesis by simp
  qed
  ultimately show ?thesis unfolding b4 s by (metis mod_add_left_eq)
qed

lemma finish_abs:
  assumes "po_abs ctx msg"
  shows "mbedtls_poly1305_finish ctx = nat_le 16 ((poly_eval (val4 (po_r ctx)) 0 msg + val4 (po_s ctx)) mod 2 ^ 128)"
proof -
  obtain full where full: "msg = full @ po_queue ctx" "16 dvd length full"
    "val5 (po_acc ctx) mod P1305 = poly_eval (val4 (po_r ctx)) 0 full" "clamped (po_r ctx)"
    "acc_small (po_acc ctx)" "length (po_queue ctx) < 16"
    using assms by (auto simp: po_abs_def)
  show ?thesis
  proof (cases "po_queue ctx = []")
    case True
    with full compute_mac_spec [OF full(5), of "po_s ctx"] show ?thesis
      by (simp add: mbedtls_poly1305_finish_def)
  next
    case False
    let ?q = "po_queue ctx"
    let ?blk = "?q @ 1 # replicate (16 - (length ?q + 1)) 0"
    let ?acc = "poly1305_block (po_r ctx) 0 ?blk (po_acc ctx)"
    have l: "length ?blk = 16" using full(6) by simp
    have v: "le_nat ?blk = le_nat (?q @ [1])" by (simp add: le_nat_append)
    have b: "val5 ?acc mod P1305 = ((val5 (po_acc ctx) + le_nat (?q @ [1])) * val4 (po_r ctx)) mod P1305" "acc_small ?acc"
      using poly1305_block_spec [of "po_acc ctx" 0 "po_r ctx" ?blk] full(4,5) l v by simp_all
    have "poly_eval (val4 (po_r ctx)) 0 msg = val5 ?acc mod P1305"
      using False full(6) unfolding full(1) poly_eval_append [OF full(2)] b(1)
      by (simp add: poly_eval_step mod_add_mult_left flip: full(3))
    with compute_mac_spec [OF b(2), of "po_s ctx"] False show ?thesis
      by (simp add: mbedtls_poly1305_finish_def)
  qed
qed

section \<open>The key, and the result\<close>

lemma and_limbs:
  fixes a b c d :: nat
  assumes "a < 2 ^ 32" and "c < 2 ^ 32"
  shows "and (a + 2 ^ 32 * b) (c + 2 ^ 32 * d) = and a c + 2 ^ 32 * and b d"
proof -
  let ?x = "and (a + 2 ^ 32 * b) (c + 2 ^ 32 * d)"
  have t: "take_bit 32 (a + 2 ^ 32 * b) = a" "take_bit 32 (c + 2 ^ 32 * d) = c"
    "drop_bit 32 (a + 2 ^ 32 * b) = b" "drop_bit 32 (c + 2 ^ 32 * d) = d"
    using assms by (simp_all add: take_bit_eq_mod drop_bit_eq_div)
  have "?x = take_bit 32 ?x + push_bit 32 (drop_bit 32 ?x)"
    using bits_ident [of 32 ?x] by (simp add: add.commute)
  also have "\<dots> = and a c + 2 ^ 32 * and b d"
    by (simp only: take_bit_and drop_bit_and t push_bit_eq_mult) (simp add: mult.commute)
  finally show ?thesis .
qed

lemma unat_and: "unat (a AND b) = and (unat a) (unat (b :: u32))"
  by (simp add: unsigned_and_eq)

lemma clamp_limb:
  "unat (w AND 0x0FFFFFFF :: u32) < 2 ^ 28" "unat (w AND 0x0FFFFFFC :: u32) < 2 ^ 28"
  "4 dvd unat (w AND 0x0FFFFFFC :: u32)"
proof -
  have "w AND 0x0FFFFFFF \<le> (0x0FFFFFFF :: u32)" "w AND 0x0FFFFFFC \<le> (0x0FFFFFFC :: u32)"
    by (rule word_and_le1)+
  then show "unat (w AND 0x0FFFFFFF :: u32) < 2 ^ 28" "unat (w AND 0x0FFFFFFC :: u32) < 2 ^ 28"
    by (simp_all add: word_le_nat_alt)
  have "take_bit 2 (unat (w AND 0x0FFFFFFC :: u32)) = 0"
    by (simp add: unat_and take_bit_and take_bit_eq_mod [of 2 "268435452 :: nat"])
  then show "4 dvd unat (w AND 0x0FFFFFFC :: u32)"
    by (simp add: take_bit_eq_0_iff)
qed

lemma starts_values:
  assumes "32 \<le> length key"
  shows "clamped (po_r (mbedtls_poly1305_starts key))"
    and "val4 (po_r (mbedtls_poly1305_starts key)) = clamp_r (le_nat (take 16 key))"
    and "val4 (po_s (mbedtls_poly1305_starts key)) = le_nat (take 16 (drop 16 key))"
proof -
  show "clamped (po_r (mbedtls_poly1305_starts key))"
    by (simp add: clamped_def mbedtls_poly1305_starts_def clamp_limb [simplified])
  let ?k = "\<lambda>i. unat (get_u32_le (drop (4 * i) key))"
  have m: "(0x0ffffffc0ffffffc0ffffffc0fffffff :: nat) =
     0x0fffffff + 2 ^ 32 * (0x0ffffffc + 2 ^ 32 * (0x0ffffffc + 2 ^ 32 * 0x0ffffffc))" by simp
  have "le_nat (take 16 key) = ?k 0 + 2 ^ 32 * (?k 1 + 2 ^ 32 * (?k 2 + 2 ^ 32 * ?k 3))"
    using le_nat_limbs [of key] assms by simp
  moreover have c: "(0x0fffffff :: nat) < 2 ^ 32" "(0x0ffffffc :: nat) < 2 ^ 32" by simp_all
  ultimately have "clamp_r (le_nat (take 16 key)) = and (?k 0) 0x0fffffff +
      2 ^ 32 * (and (?k 1) 0x0ffffffc + 2 ^ 32 * (and (?k 2) 0x0ffffffc + 2 ^ 32 * and (?k 3) 0x0ffffffc))"
    unfolding clamp_r_def m by (simp only: and_limbs [OF unat_u32 c(1)] and_limbs [OF unat_u32 c(2)])
  then show "val4 (po_r (mbedtls_poly1305_starts key)) = clamp_r (le_nat (take 16 key))"
    by (simp add: unat_and mbedtls_poly1305_starts_def val4_def)
  show "val4 (po_s (mbedtls_poly1305_starts key)) = le_nat (take 16 (drop 16 key))"
    using le_nat_limbs [of "drop 16 key"] assms by (simp add: mbedtls_poly1305_starts_def val4_def)
qed

lemma starts_abs: "32 \<le> length key \<Longrightarrow> po_abs (mbedtls_poly1305_starts key) []"
  using starts_values(1) [of key] unfolding po_abs_def
  by (auto simp: mbedtls_poly1305_starts_def val5_def)

lemma updates_abs:
  "po_abs ctx msg \<Longrightarrow> po_abs (foldl mbedtls_poly1305_update ctx chunks) (msg @ concat chunks) \<and>
     po_r (foldl mbedtls_poly1305_update ctx chunks) = po_r ctx \<and>
     po_s (foldl mbedtls_poly1305_update ctx chunks) = po_s ctx"
proof (induction chunks arbitrary: ctx msg)
  case (Cons c cs)
  from Cons.IH [of "mbedtls_poly1305_update ctx c" "msg @ c"] update_abs [OF Cons.prems, of c]
  show ?case by simp
qed simp

lemma finish_updates:
  assumes "32 \<le> length key"
  shows "mbedtls_poly1305_finish (foldl mbedtls_poly1305_update (mbedtls_poly1305_starts key) chunks) =
         poly1305_spec key (concat chunks)"
  using updates_abs [OF starts_abs [OF assms], of chunks] starts_values [OF assms]
    finish_abs [of "foldl mbedtls_poly1305_update (mbedtls_poly1305_starts key) chunks" "concat chunks"]
  by (simp add: poly1305_spec_def)

text \<open>
  C21: for every 32-byte key and every way of cutting the input into calls of
  \<^verbatim>\<open>mbedtls_poly1305_update\<close>, the MAC is the one RFC 8439 defines by arithmetic modulo
  \<open>2 ^ 130 - 5\<close>: the 32-bit limbs and 64-bit sums never overflow and the partial reductions
  and the final constant-time subtraction are exact.
\<close>

theorem poly1305_correct:
  assumes "length key = 32"
  shows "mbedtls_poly1305_finish (foldl mbedtls_poly1305_update (mbedtls_poly1305_starts key) chunks) =
           poly1305_spec key (concat chunks) \<and>
         mbedtls_poly1305_mac key (concat chunks) = poly1305_spec key (concat chunks)"
  using finish_updates [of key chunks] finish_updates [of key "[concat chunks]"] assms
  by (simp add: mbedtls_poly1305_mac_def)

theorem poly1305_correct_witness:
  "mbedtls_poly1305_mac (replicate 32 7) [1, 2, 3] = poly1305_spec (replicate 32 7) [1, 2, 3]"
  using poly1305_correct [of "replicate 32 7" "[[1, 2], [3]]"] by simp

end
