(* ===== verification/Chachapoly.thy ===== *)
theory Chachapoly
  imports Chacha20 Poly1305
begin

text \<open>
  \<^verbatim>\<open>src/mbedtls_extras/chachapoly.c\<close>: the AEAD of the Noise transport, with its four-state
  context, on top of the two components.  The results are the RFC 8439 form of the
  ciphertext and tag, and that decryption accepts exactly the tag encryption makes.
\<close>

section \<open>Definitions\<close>

datatype chachapoly_state = CP_INIT | CP_AAD | CP_CIPHERTEXT | CP_FINISHED
datatype chachapoly_mode = CP_ENCRYPT | CP_DECRYPT
datatype chachapoly_error = CHACHAPOLY_BAD_STATE | CHACHAPOLY_AUTH_FAILED

record chachapoly_context =
  cp_chacha20_ctx :: chacha20_context
  cp_poly1305_ctx :: poly1305_context
  cp_aad_len :: u64
  cp_ciphertext_len :: u64
  cp_state :: chachapoly_state
  cp_mode :: chachapoly_mode

definition put_u64_le :: "u64 \<Rightarrow> bytes" where
  "put_u64_le w = map (\<lambda>i. ucast (drop_bit (8 * i) w)) [0, 1, 2, 3, 4, 5, 6, 7]"

text \<open>The bytes both \<^verbatim>\<open>chachapoly_pad_aad\<close> and \<^verbatim>\<open>chachapoly_pad_ciphertext\<close> append.\<close>

definition pad_zeroes :: "u64 \<Rightarrow> bytes" where
  "pad_zeroes len =
     (let partial_block_len = unat len mod 16
      in if partial_block_len = 0 then [] else replicate (16 - partial_block_len) 0)"

definition chachapoly_pad_aad :: "chachapoly_context \<Rightarrow> chachapoly_context" where
  "chachapoly_pad_aad ctx =
     (if unat (cp_aad_len ctx) mod 16 = 0 then ctx
      else ctx\<lparr>cp_poly1305_ctx := mbedtls_poly1305_update (cp_poly1305_ctx ctx) (pad_zeroes (cp_aad_len ctx))\<rparr>)"

definition chachapoly_pad_ciphertext :: "chachapoly_context \<Rightarrow> chachapoly_context" where
  "chachapoly_pad_ciphertext ctx =
     (if unat (cp_ciphertext_len ctx) mod 16 = 0 then ctx
      else ctx\<lparr>cp_poly1305_ctx := mbedtls_poly1305_update (cp_poly1305_ctx ctx) (pad_zeroes (cp_ciphertext_len ctx))\<rparr>)"

definition mbedtls_chachapoly_init :: chachapoly_context where
  "mbedtls_chachapoly_init =
     \<lparr>cp_chacha20_ctx = mbedtls_chacha20_init, cp_poly1305_ctx = mbedtls_poly1305_init,
      cp_aad_len = 0, cp_ciphertext_len = 0, cp_state = CP_INIT, cp_mode = CP_ENCRYPT\<rparr>"

definition mbedtls_chachapoly_free :: "chachapoly_context option \<Rightarrow> chachapoly_context option" where
  "mbedtls_chachapoly_free ctx =
     map_option (\<lambda>c. c\<lparr>cp_chacha20_ctx := the (mbedtls_chacha20_free (Some (cp_chacha20_ctx c))),
                       cp_poly1305_ctx := the (mbedtls_poly1305_free (Some (cp_poly1305_ctx c))),
                       cp_aad_len := 0, cp_ciphertext_len := 0, cp_state := CP_INIT, cp_mode := CP_ENCRYPT\<rparr>) ctx"

text \<open>Nothing of a key is left in a context that has been freed.\<close>

lemma freed_contexts_equal: "mbedtls_chachapoly_free (Some a) = mbedtls_chachapoly_free (Some b)"
  by (cases a; cases b) (simp add: mbedtls_chachapoly_free_def mbedtls_chacha20_free_def mbedtls_poly1305_free_def)

definition mbedtls_chachapoly_setkey :: "chachapoly_context \<Rightarrow> bytes \<Rightarrow> chachapoly_context" where
  "mbedtls_chachapoly_setkey ctx key =
     ctx\<lparr>cp_chacha20_ctx := mbedtls_chacha20_setkey (cp_chacha20_ctx ctx) key\<rparr>"

definition mbedtls_chachapoly_starts :: "chachapoly_context \<Rightarrow> bytes \<Rightarrow> chachapoly_mode \<Rightarrow> chachapoly_context" where
  "mbedtls_chachapoly_starts ctx nonce mode =
     (case mbedtls_chacha20_update (mbedtls_chacha20_starts (cp_chacha20_ctx ctx) nonce 0) (replicate 64 0) of
        (cc, poly1305_key) \<Rightarrow>
          ctx\<lparr>cp_chacha20_ctx := cc, cp_poly1305_ctx := mbedtls_poly1305_starts poly1305_key,
              cp_aad_len := 0, cp_ciphertext_len := 0, cp_state := CP_AAD, cp_mode := mode\<rparr>)"

definition mbedtls_chachapoly_update_aad :: "chachapoly_context \<Rightarrow> bytes \<Rightarrow> chachapoly_error + chachapoly_context" where
  "mbedtls_chachapoly_update_aad ctx aad =
     (if cp_state ctx \<noteq> CP_AAD then Inl CHACHAPOLY_BAD_STATE
      else Inr (ctx\<lparr>cp_aad_len := cp_aad_len ctx + of_nat (length aad),
                    cp_poly1305_ctx := mbedtls_poly1305_update (cp_poly1305_ctx ctx) aad\<rparr>))"

definition mbedtls_chachapoly_update ::
  "chachapoly_context \<Rightarrow> bytes \<Rightarrow> chachapoly_error + chachapoly_context \<times> bytes" where
  "mbedtls_chachapoly_update ctx input =
     (if cp_state ctx \<noteq> CP_AAD \<and> cp_state ctx \<noteq> CP_CIPHERTEXT then Inl CHACHAPOLY_BAD_STATE
      else
        let ctx = (if cp_state ctx = CP_AAD then chachapoly_pad_aad (ctx\<lparr>cp_state := CP_CIPHERTEXT\<rparr>) else ctx);
            ctx = ctx\<lparr>cp_ciphertext_len := cp_ciphertext_len ctx + of_nat (length input)\<rparr>;
            (cc, output) = mbedtls_chacha20_update (cp_chacha20_ctx ctx) input;
            hashed = (if cp_mode ctx = CP_ENCRYPT then output else input)
        in Inr (ctx\<lparr>cp_chacha20_ctx := cc,
                    cp_poly1305_ctx := mbedtls_poly1305_update (cp_poly1305_ctx ctx) hashed\<rparr>, output))"

definition mbedtls_chachapoly_finish ::
  "chachapoly_context \<Rightarrow> chachapoly_error + chachapoly_context \<times> bytes" where
  "mbedtls_chachapoly_finish ctx =
     (if cp_state ctx = CP_INIT then Inl CHACHAPOLY_BAD_STATE
      else
        let ctx = (if cp_state ctx = CP_AAD then chachapoly_pad_aad ctx
                   else if cp_state ctx = CP_CIPHERTEXT then chachapoly_pad_ciphertext ctx else ctx);
            len_block = put_u64_le (cp_aad_len ctx) @ put_u64_le (cp_ciphertext_len ctx);
            po = mbedtls_poly1305_update (cp_poly1305_ctx ctx) len_block
        in Inr (ctx\<lparr>cp_state := CP_FINISHED, cp_poly1305_ctx := po\<rparr>, mbedtls_poly1305_finish po))"

text \<open>The context, the output and the tag.\<close>

definition chachapoly_crypt_and_tag ::
  "chachapoly_context \<Rightarrow> chachapoly_mode \<Rightarrow> bytes \<Rightarrow> bytes \<Rightarrow> bytes \<Rightarrow>
   chachapoly_error + chachapoly_context \<times> bytes \<times> bytes" where
  "chachapoly_crypt_and_tag ctx mode nonce aad input =
     (case mbedtls_chachapoly_update_aad (mbedtls_chachapoly_starts ctx nonce mode) aad of
        Inl e \<Rightarrow> Inl e
      | Inr ctx \<Rightarrow>
          (case mbedtls_chachapoly_update ctx input of
             Inl e \<Rightarrow> Inl e
           | Inr (ctx, output) \<Rightarrow>
               (case mbedtls_chachapoly_finish ctx of
                  Inl e \<Rightarrow> Inl e
                | Inr (ctx, tag) \<Rightarrow> Inr (ctx, output, tag))))"

definition mbedtls_chachapoly_encrypt_and_tag ::
  "chachapoly_context \<Rightarrow> bytes \<Rightarrow> bytes \<Rightarrow> bytes \<Rightarrow> chachapoly_error + chachapoly_context \<times> bytes \<times> bytes" where
  "mbedtls_chachapoly_encrypt_and_tag ctx nonce aad input = chachapoly_crypt_and_tag ctx CP_ENCRYPT nonce aad input"

text \<open>A failed check leaves zeroes in the output.\<close>

definition mbedtls_chachapoly_auth_decrypt ::
  "chachapoly_context \<Rightarrow> bytes \<Rightarrow> bytes \<Rightarrow> bytes \<Rightarrow> bytes \<Rightarrow> (chachapoly_error \<times> bytes) + bytes" where
  "mbedtls_chachapoly_auth_decrypt ctx nonce aad tag input =
     (case chachapoly_crypt_and_tag ctx CP_DECRYPT nonce aad input of
        Inl e \<Rightarrow> Inl (e, [])
      | Inr (ctx, output, check_tag) \<Rightarrow>
          if tag \<noteq> check_tag then Inl (CHACHAPOLY_AUTH_FAILED, replicate (length input) 0) else Inr output)"

section \<open>The RFC 8439 form\<close>

definition aead_xor :: "bytes \<Rightarrow> bytes \<Rightarrow> bytes \<Rightarrow> bytes" where
  "aead_xor key nonce input = xor_stream input (sdrop 64 (remaining (chacha20_keyed key nonce 0)))"

definition aead_tag :: "bytes \<Rightarrow> bytes \<Rightarrow> bytes \<Rightarrow> bytes \<Rightarrow> bytes" where
  "aead_tag key nonce aad ct =
     poly1305_spec (stake 64 (remaining (chacha20_keyed key nonce 0)))
       (aad @ pad_zeroes (of_nat (length aad)) @ ct @ pad_zeroes (of_nat (length ct)) @
        put_u64_le (of_nat (length aad)) @ put_u64_le (of_nat (length ct)))"

lemma poly1305_update_Nil: "mbedtls_poly1305_update ctx [] = ctx"
  by (simp add: mbedtls_poly1305_update_def fill_queue_def)

lemma pad_aad_update:
  "chachapoly_pad_aad ctx =
     ctx\<lparr>cp_poly1305_ctx := mbedtls_poly1305_update (cp_poly1305_ctx ctx) (pad_zeroes (cp_aad_len ctx))\<rparr>"
  by (simp add: chachapoly_pad_aad_def pad_zeroes_def poly1305_update_Nil)

lemma pad_ciphertext_update:
  "chachapoly_pad_ciphertext ctx =
     ctx\<lparr>cp_poly1305_ctx := mbedtls_poly1305_update (cp_poly1305_ctx ctx) (pad_zeroes (cp_ciphertext_len ctx))\<rparr>"
  by (simp add: chachapoly_pad_ciphertext_def pad_zeroes_def poly1305_update_Nil)

lemma xor_stream_zeroes: "xor_stream (replicate n 0) s = stake n s"
  by (induction n arbitrary: s) simp_all

lemma starts_keyed:
  "mbedtls_chachapoly_starts (mbedtls_chachapoly_setkey mbedtls_chachapoly_init key) nonce mode =
     \<lparr>cp_chacha20_ctx = fst (mbedtls_chacha20_update (chacha20_keyed key nonce 0) (replicate 64 0)),
      cp_poly1305_ctx = mbedtls_poly1305_starts (stake 64 (remaining (chacha20_keyed key nonce 0))),
      cp_aad_len = 0, cp_ciphertext_len = 0, cp_state = CP_AAD, cp_mode = mode\<rparr>"
  using chacha20_update_stream [OF keyed_invar, of key nonce 0 "replicate 64 0"]
  by (simp add: mbedtls_chachapoly_starts_def mbedtls_chachapoly_setkey_def mbedtls_chachapoly_init_def
      chacha20_keyed_def xor_stream_zeroes split_def)

lemma crypt_and_tag_keyed:
  "\<exists>ctx'. chachapoly_crypt_and_tag (mbedtls_chachapoly_setkey mbedtls_chachapoly_init key) mode nonce aad input =
     Inr (ctx', aead_xor key nonce input,
          aead_tag key nonce aad (if mode = CP_ENCRYPT then aead_xor key nonce input else input))"
proof -
  let ?k0 = "chacha20_keyed key nonce 0"
  let ?c = "fst (mbedtls_chacha20_update ?k0 (replicate 64 0))"
  let ?pk = "stake 64 (remaining ?k0)"
  note u = chacha20_update_stream [OF keyed_invar, of key nonce 0 "replicate 64 0"]
  have out: "snd (mbedtls_chacha20_update ?c input) = aead_xor key nonce input"
    using chacha20_update_stream [OF conjunct1 [OF u], of input] u by (simp add: aead_xor_def)
  obtain cc where upd: "mbedtls_chacha20_update ?c input = (cc, aead_xor key nonce input)"
    using out by (metis prod.collapse)
  have len: "length (aead_xor key nonce input) = length input" by (simp add: aead_xor_def)
  have mac: "mbedtls_poly1305_finish (mbedtls_poly1305_update (mbedtls_poly1305_update (mbedtls_poly1305_update
       (mbedtls_poly1305_update (mbedtls_poly1305_update (mbedtls_poly1305_starts ?pk) aad) p) ct) q) l) =
     poly1305_spec ?pk (aad @ p @ ct @ q @ l)" for p ct q l
    using finish_updates [of ?pk "[aad, p, ct, q, l]"] by simp
  show ?thesis
    unfolding chachapoly_crypt_and_tag_def starts_keyed
    by (simp add: mbedtls_chachapoly_update_aad_def mbedtls_chachapoly_update_def mbedtls_chachapoly_finish_def
        pad_aad_update pad_ciphertext_update Let_def upd mac aead_tag_def len)
qed

lemma encrypt_keyed:
  "\<exists>ctx'. mbedtls_chachapoly_encrypt_and_tag (mbedtls_chachapoly_setkey mbedtls_chachapoly_init key) nonce aad input =
     Inr (ctx', aead_xor key nonce input, aead_tag key nonce aad (aead_xor key nonce input))"
  using crypt_and_tag_keyed [of key CP_ENCRYPT nonce aad input]
  by (simp add: mbedtls_chachapoly_encrypt_and_tag_def)

lemma decrypt_keyed:
  "mbedtls_chachapoly_auth_decrypt (mbedtls_chachapoly_setkey mbedtls_chachapoly_init key) nonce aad tag ct =
     (if tag = aead_tag key nonce aad ct then Inr (aead_xor key nonce ct)
      else Inl (CHACHAPOLY_AUTH_FAILED, replicate (length ct) 0))"
  using crypt_and_tag_keyed [of key CP_DECRYPT nonce aad ct]
  by (auto simp: mbedtls_chachapoly_auth_decrypt_def)

lemma aead_xor_xor [simp]: "aead_xor key nonce (aead_xor key nonce input) = input"
  by (simp add: aead_xor_def)

lemma length_aead_xor [simp]: "length (aead_xor key nonce input) = length input"
  by (simp add: aead_xor_def)

lemma length_aead_tag [simp]: "length (aead_tag key nonce aad ct) = 16"
  by (simp add: aead_tag_def poly1305_spec_def)

text \<open>
  C23: the AEAD round trip over the modelled ChaCha20 and Poly1305: encryption with any key,
  nonce and associated data succeeds; decryption of its ciphertext under the same three
  returns the plaintext exactly when the tag is the one encryption computed, and any other
  tag is refused with the output zeroed.
\<close>

theorem chachapoly_roundtrip:
  "\<exists>ctx' ct tag. mbedtls_chachapoly_encrypt_and_tag (mbedtls_chachapoly_setkey mbedtls_chachapoly_init key)
        nonce aad pt = Inr (ctx', ct, tag) \<and>
     length ct = length pt \<and> length tag = 16 \<and>
     (\<forall>tag'. mbedtls_chachapoly_auth_decrypt (mbedtls_chachapoly_setkey mbedtls_chachapoly_init key) nonce aad tag' ct =
        (if tag' = tag then Inr pt else Inl (CHACHAPOLY_AUTH_FAILED, replicate (length pt) 0)))"
proof -
  obtain ctx' where e: "mbedtls_chachapoly_encrypt_and_tag (mbedtls_chachapoly_setkey mbedtls_chachapoly_init key)
     nonce aad pt = Inr (ctx', aead_xor key nonce pt, aead_tag key nonce aad (aead_xor key nonce pt))"
    using encrypt_keyed by blast
  show ?thesis
    by (intro exI [of _ ctx'] exI [of _ "aead_xor key nonce pt"]
        exI [of _ "aead_tag key nonce aad (aead_xor key nonce pt)"]) (simp add: e decrypt_keyed)
qed

end
