(* ===== verification/Hkdf.thy ===== *)
theory Hkdf
  imports Bridge_Prelude
begin

text \<open>
  \<^verbatim>\<open>src/mbedtls_extras/hkdf.c\<close>: HKDF (RFC 5869).  The message digest of mbedTLS is a parameter:
  its output length and the HMAC of a key and a message.  The incremental HMAC calls of the
  source (\<^verbatim>\<open>starts\<close>, three \<^verbatim>\<open>update\<close>s, \<^verbatim>\<open>finish\<close>) are the HMAC of the concatenation; they and
  \<^verbatim>\<open>mbedtls_md_setup\<close> return zero.
\<close>

record md_info =
  md_size :: nat
  md_hmac :: "bytes \<Rightarrow> bytes \<Rightarrow> bytes"

datatype hkdf_error = HKDF_BAD_INPUT_DATA

definition mbedtls_hkdf_extract :: "md_info \<Rightarrow> bytes option \<Rightarrow> bytes \<Rightarrow> hkdf_error + bytes" where
  "mbedtls_hkdf_extract md salt ikm =
     (case salt of
        None \<Rightarrow> if md_size md = 0 then Inl HKDF_BAD_INPUT_DATA
                else Inr (md_hmac md (replicate (md_size md) 0) ikm)
      | Some salt \<Rightarrow> Inr (md_hmac md salt ikm))"

text \<open>The loop: turn \<open>i\<close> of \<open>n\<close>, the previous block \<open>t\<close>, and how much is still to be written.\<close>

fun hkdf_expand_loop :: "md_info \<Rightarrow> bytes \<Rightarrow> bytes \<Rightarrow> nat \<Rightarrow> nat \<Rightarrow> bytes \<Rightarrow> nat \<Rightarrow> bytes" where
  "hkdf_expand_loop md prk info i 0 t left = []"
| "hkdf_expand_loop md prk info i (Suc turns) t left =
     (let t = md_hmac md prk (t @ info @ [of_nat i]);
          num_to_copy = (if turns \<noteq> 0 then md_size md else left)
      in take num_to_copy t @ hkdf_expand_loop md prk info (i + 1) turns t (left - md_size md))"

definition mbedtls_hkdf_expand :: "md_info \<Rightarrow> bytes \<Rightarrow> bytes option \<Rightarrow> nat \<Rightarrow> hkdf_error + bytes" where
  "mbedtls_hkdf_expand md prk info okm_len =
     (let hash_len = md_size md in
      if length prk < hash_len \<or> hash_len = 0 then Inl HKDF_BAD_INPUT_DATA
      else
        let info = (case info of None \<Rightarrow> [] | Some x \<Rightarrow> x);
            n = okm_len div hash_len + (if okm_len mod hash_len \<noteq> 0 then 1 else 0)
        in if n > 255 then Inl HKDF_BAD_INPUT_DATA
           else Inr (hkdf_expand_loop md prk info 1 n [] okm_len))"

definition mbedtls_hkdf ::
  "md_info \<Rightarrow> bytes option \<Rightarrow> bytes \<Rightarrow> bytes option \<Rightarrow> nat \<Rightarrow> hkdf_error + bytes" where
  "mbedtls_hkdf md salt ikm info okm_len =
     (case mbedtls_hkdf_extract md salt ikm of
        Inl e \<Rightarrow> Inl e
      | Inr prk \<Rightarrow> mbedtls_hkdf_expand md prk info okm_len)"

section \<open>The RFC 5869 form\<close>

fun hkdf_T :: "md_info \<Rightarrow> bytes \<Rightarrow> bytes \<Rightarrow> nat \<Rightarrow> bytes" where
  "hkdf_T md prk info 0 = []"
| "hkdf_T md prk info (Suc i) = md_hmac md prk (hkdf_T md prk info i @ info @ [of_nat (Suc i)])"

definition md_lawful :: "md_info \<Rightarrow> bool" where
  "md_lawful md \<longleftrightarrow> 0 < md_size md \<and> (\<forall>k m. length (md_hmac md k m) = md_size md)"

lemma expand_loop_T:
  assumes "md_lawful md" and "n = i + turns"
    and "turns \<noteq> 0 \<longrightarrow> (turns - 1) * md_size md < left \<and> left \<le> turns * md_size md"
  shows "hkdf_expand_loop md prk info (i + 1) turns (hkdf_T md prk info i) left =
         take (if turns = 0 then 0 else left) (concat (map (hkdf_T md prk info) [i + 1..<n + 1]))"
  using assms
proof (induction turns arbitrary: i left)
  case 0
  then show ?case by simp
next
  case (Suc turns)
  have sz: "length (hkdf_T md prk info (Suc j)) = md_size md" for j
    using Suc.prems(1) by (simp add: md_lawful_def)
  have upt: "[i + 1..<n + 1] = (i + 1) # [i + 2..<n + 1]"
    using Suc.prems(2) upt_conv_Cons [of "i + 1" "n + 1"] by simp
  show ?case
  proof (cases "turns = 0")
    case True
    then have "n = i + 1" using Suc.prems(2) by simp
    with True Suc.prems sz [of i] show ?thesis by (simp add: Let_def)
  next
    case False
    have le: "md_size md \<le> left" and l2: "(turns - 1) * md_size md < left - md_size md" "left - md_size md \<le> turns * md_size md"
    proof -
      obtain k where k: "turns = Suc k" using False by (cases turns) simp
      have "md_size md + k * md_size md < left" "left \<le> md_size md + (md_size md + k * md_size md)"
        using Suc.prems(3) k by simp_all
      then show "md_size md \<le> left" "(turns - 1) * md_size md < left - md_size md" "left - md_size md \<le> turns * md_size md"
        by (simp_all add: k)
    qed
    have "hkdf_expand_loop md prk info (Suc i + 1) turns (hkdf_T md prk info (Suc i)) (left - md_size md) =
          take (left - md_size md) (concat (map (hkdf_T md prk info) [Suc i + 1..<n + 1]))"
      using Suc.IH [of "Suc i" "left - md_size md"] Suc.prems(1,2) l2 False by simp
    with False le sz [of i] show ?thesis
      unfolding upt by (simp add: Let_def take_append)
  qed
qed

lemma block_count:
  fixes okm h :: nat
  assumes "0 < h" and "n = okm div h + (if okm mod h \<noteq> 0 then 1 else 0)"
  shows "okm \<le> n * h" and "n \<noteq> 0 \<Longrightarrow> (n - 1) * h < okm" and "n > 255 \<longleftrightarrow> okm > 255 * h"
proof -
  have okm: "okm = okm div h * h + okm mod h" by simp
  have r: "okm mod h < h" using assms(1) by simp
  have nh: "n * h = okm div h * h + (if okm mod h \<noteq> 0 then h else 0)" using assms(2) by simp
  have "okm mod h \<le> (if okm mod h \<noteq> 0 then h else 0)" using r by simp
  then have "okm div h * h + okm mod h \<le> okm div h * h + (if okm mod h \<noteq> 0 then h else 0)"
    by (rule add_left_mono)
  then show 1: "okm \<le> n * h" by (simp only: nh div_mult_mod_eq)
  show 2: "(n - 1) * h < okm" if "n \<noteq> 0"
  proof (cases "okm mod h = 0")
    case True
    then have "okm = n * h" using okm assms(2) by simp
    moreover have "(n - 1) * h < n * h" using that assms(1) by simp
    ultimately show ?thesis by (simp only:)
  next
    case False
    then have "n - 1 = okm div h" using assms(2) by simp
    with okm False show ?thesis by (metis less_add_same_cancel1 neq0_conv)
  qed
  show "n > 255 \<longleftrightarrow> okm > 255 * h"
  proof
    assume "n > 255"
    then have "255 * h \<le> (n - 1) * h" by (intro mult_le_mono) auto
    moreover have "(n - 1) * h < okm" using 2 \<open>n > 255\<close> by simp
    ultimately show "okm > 255 * h" by (rule le_less_trans)
  next
    assume "okm > 255 * h"
    with 1 have "255 * h < n * h" by linarith
    then show "n > 255" by simp
  qed
qed

lemma length_concat_T:
  assumes "md_lawful md"
  shows "length (concat (map (hkdf_T md prk info) [1..<n + 1])) = n * md_size md"
proof (induction n)
  case (Suc n)
  then show ?case using assms by (simp add: md_lawful_def)
qed simp

text \<open>
  C24: for a digest whose HMAC has its declared length, HKDF returns exactly the first
  \<open>okm_len\<close> bytes of \<open>T(1) | T(2) | ...\<close> as RFC 5869 defines them whenever at most 255 blocks
  are needed, and refuses a longer request.
\<close>

theorem hkdf_rfc5869:
  assumes "md_lawful md"
  shows "mbedtls_hkdf md (Some salt) ikm info okm_len =
    (if okm_len \<le> 255 * md_size md then
       Inr (take okm_len (concat (map (hkdf_T md (md_hmac md salt ikm) (case info of None \<Rightarrow> [] | Some x \<Rightarrow> x))
              [1..<256])))
     else Inl HKDF_BAD_INPUT_DATA)"
proof -
  let ?prk = "md_hmac md salt ikm"
  let ?info = "case info of None \<Rightarrow> [] | Some x \<Rightarrow> x"
  let ?T = "\<lambda>m. concat (map (hkdf_T md ?prk ?info) [1..<m])"
  define n where "n = okm_len div md_size md + (if okm_len mod md_size md \<noteq> 0 then 1 else 0)"
  have h: "0 < md_size md" "length ?prk = md_size md" using assms by (simp_all add: md_lawful_def)
  note bc = block_count [OF h(1) n_def]
  have "mbedtls_hkdf md (Some salt) ikm info okm_len =
      (if n > 255 then Inl HKDF_BAD_INPUT_DATA else Inr (hkdf_expand_loop md ?prk ?info 1 n [] okm_len))"
    using h by (simp add: mbedtls_hkdf_def mbedtls_hkdf_extract_def mbedtls_hkdf_expand_def Let_def n_def)
  moreover have "hkdf_expand_loop md ?prk ?info 1 n [] okm_len = take okm_len (?T 256)" if "n \<le> 255"
  proof -
    have "hkdf_expand_loop md ?prk ?info 1 n [] okm_len = take (if n = 0 then 0 else okm_len) (?T (n + 1))"
      using expand_loop_T [OF assms, of n 0 n okm_len ?prk ?info] bc by simp
    moreover have "okm_len = 0" if "n = 0" using bc(1) that by simp
    moreover have "[1..<256] = [1..<n + 1] @ [n + 1..<256]"
      using upt_add_eq_append [of 1 "n + 1" "255 - n"] that by simp
    then have "?T 256 = ?T (n + 1) @ concat (map (hkdf_T md ?prk ?info) [n + 1..<256])"
      by (metis concat_append map_append)
    moreover have "okm_len \<le> length (?T (n + 1))"
      using bc(1) length_concat_T [OF assms, of ?prk ?info n] by simp
    ultimately show ?thesis by (simp split: if_splits)
  qed
  ultimately show ?thesis using bc(3) by (cases "n > 255") (simp_all add: not_less)
qed

text \<open>A digest of one byte.\<close>

definition sum_md :: md_info where
  "sum_md = \<lparr>md_size = 1, md_hmac = (\<lambda>k m. [sum_list k + sum_list m])\<rparr>"

theorem hkdf_rfc5869_witness:
  "mbedtls_hkdf sum_md (Some [1]) [2] None 3 =
     Inr (take 3 (concat (map (hkdf_T sum_md (md_hmac sum_md [1] [2]) []) [1..<256])))"
  using hkdf_rfc5869 [of sum_md "[1]" "[2]" None 3] by (simp add: md_lawful_def sum_md_def)

end
