(* ===== verification/Noise_State.thy ===== *)
theory Noise_State
  imports Chachapoly Hkdf
begin

text \<open>
  \<^verbatim>\<open>src/bitchat/noise_state.h\<close>: the symmetric state, the cipher states and the Curve25519
  helpers of Noise XX.  SHA-256, HMAC-SHA-256 and the curve are mbedTLS code outside the
  repository and are the parameter \<open>crypto\<close>; ChaCha20-Poly1305 and HKDF are the modelled
  ones.  Functions that change a state and can fail return the state with the result.
\<close>

section \<open>State\<close>

text \<open>
  \<open>x25519 d u\<close> is the X coordinate of \<open>d\<close> times the point \<open>u\<close> (\<open>None\<close> on an mbedTLS error),
  \<open>ecdh_gen\<close> makes a key pair from random bytes, \<open>x25519_base\<close> is the encoded generator.
\<close>

record crypto =
  sha256 :: "bytes \<Rightarrow> bytes"
  hmac_sha256 :: md_info
  x25519 :: "bytes \<Rightarrow> bytes \<Rightarrow> bytes option"
  ecdh_gen :: "bytes \<Rightarrow> (bytes \<times> bytes) option"
  x25519_base :: bytes
  sha512 :: "bytes \<Rightarrow> bytes"

datatype noise_error = Noise_bad_call | Noise_too_short | Noise_hkdf_failed | Noise_aead_failed | Noise_ecp_failed

record symmetric_state =
  ss_ck :: bytes
  ss_h :: bytes
  ss_k :: bytes
  ss_n :: u64
  ss_has_key :: bool

record cipher_state =
  cs_k :: bytes
  cs_n :: u64

definition NOISE_PROTO_NAME :: bytes where
  "NOISE_PROTO_NAME = ascii ''Noise_XX_25519_ChaChaPoly_SHA256''"

definition noise_nonce :: "u64 \<Rightarrow> bytes" where
  "noise_nonce n = replicate 4 0 @ map (\<lambda>i. ucast (drop_bit (i * 8) n AND 0xFF)) [0, 1, 2, 3, 4, 5, 6, 7]"

definition noise_sha256 :: "crypto \<Rightarrow> bytes \<Rightarrow> bytes" where
  "noise_sha256 cr data = sha256 cr data"

definition noise_mix_hash :: "crypto \<Rightarrow> symmetric_state \<Rightarrow> bytes \<Rightarrow> symmetric_state" where
  "noise_mix_hash cr ss data = ss\<lparr>ss_h := sha256 cr (ss_h ss @ data)\<rparr>"

definition noise_ss_init :: "crypto \<Rightarrow> symmetric_state" where
  "noise_ss_init cr =
     noise_mix_hash cr \<lparr>ss_ck = NOISE_PROTO_NAME, ss_h = NOISE_PROTO_NAME, ss_k = replicate 32 0,
                        ss_n = 0, ss_has_key = False\<rparr> []"

definition noise_mix_key :: "crypto \<Rightarrow> symmetric_state \<Rightarrow> bytes \<Rightarrow> noise_error + symmetric_state" where
  "noise_mix_key cr ss ikm =
     (case mbedtls_hkdf (hmac_sha256 cr) (Some (ss_ck ss)) ikm None 64 of
        Inl e \<Rightarrow> Inl Noise_hkdf_failed
      | Inr okm \<Rightarrow> Inr (ss\<lparr>ss_ck := take 32 okm, ss_k := take 32 (drop 32 okm), ss_n := 0, ss_has_key := True\<rparr>))"

definition noise_aead_key :: "bytes \<Rightarrow> chachapoly_context" where
  "noise_aead_key k = mbedtls_chachapoly_setkey mbedtls_chachapoly_init k"

definition noise_encrypt_and_hash :: "crypto \<Rightarrow> symmetric_state \<Rightarrow> bytes \<Rightarrow> symmetric_state \<times> (noise_error + bytes)" where
  "noise_encrypt_and_hash cr ss pt =
     (if \<not> ss_has_key ss then (noise_mix_hash cr ss pt, Inr pt)
      else
        let nonce = noise_nonce (ss_n ss); ss = ss\<lparr>ss_n := ss_n ss + 1\<rparr> in
        case mbedtls_chachapoly_encrypt_and_tag (noise_aead_key (ss_k ss)) nonce (ss_h ss) pt of
          Inl e \<Rightarrow> (ss, Inl Noise_aead_failed)
        | Inr (_, ct, tag) \<Rightarrow> (noise_mix_hash cr ss (ct @ tag), Inr (ct @ tag)))"

definition noise_decrypt_and_hash :: "crypto \<Rightarrow> symmetric_state \<Rightarrow> bytes \<Rightarrow> symmetric_state \<times> (noise_error + bytes)" where
  "noise_decrypt_and_hash cr ss ct =
     (if \<not> ss_has_key ss then
        if ct = [] then (ss, Inr []) else (noise_mix_hash cr ss ct, Inr ct)
      else if length ct < 16 then (ss, Inl Noise_bad_call)
      else
        let plen = length ct - 16; nonce = noise_nonce (ss_n ss); ss = ss\<lparr>ss_n := ss_n ss + 1\<rparr> in
        case mbedtls_chachapoly_auth_decrypt (noise_aead_key (ss_k ss)) nonce (ss_h ss) (drop plen ct) (take plen ct) of
          Inl e \<Rightarrow> (ss, Inl Noise_aead_failed)
        | Inr pt \<Rightarrow> (noise_mix_hash cr ss ct, Inr pt))"

text \<open>The first and the second cipher state; the caller says which one it sends with.\<close>

definition noise_split :: "crypto \<Rightarrow> symmetric_state \<Rightarrow> noise_error + cipher_state \<times> cipher_state" where
  "noise_split cr ss =
     (case mbedtls_hkdf (hmac_sha256 cr) (Some (ss_ck ss)) [] None 64 of
        Inl e \<Rightarrow> Inl Noise_hkdf_failed
      | Inr okm \<Rightarrow> Inr (\<lparr>cs_k = take 32 okm, cs_n = 0\<rparr>, \<lparr>cs_k = take 32 (drop 32 okm), cs_n = 0\<rparr>))"

definition noise_cs_encrypt :: "cipher_state \<Rightarrow> bytes \<Rightarrow> bytes \<Rightarrow> cipher_state \<times> (noise_error + bytes)" where
  "noise_cs_encrypt cs ad pt =
     (let nonce = noise_nonce (cs_n cs); cs = cs\<lparr>cs_n := cs_n cs + 1\<rparr> in
      case mbedtls_chachapoly_encrypt_and_tag (noise_aead_key (cs_k cs)) nonce ad pt of
        Inl e \<Rightarrow> (cs, Inl Noise_aead_failed)
      | Inr (_, ct, tag) \<Rightarrow> (cs, Inr (ct @ tag)))"

definition noise_cs_decrypt :: "cipher_state \<Rightarrow> bytes \<Rightarrow> bytes \<Rightarrow> cipher_state \<times> (noise_error + bytes)" where
  "noise_cs_decrypt cs ad ct =
     (if length ct < 16 then (cs, Inl Noise_bad_call)
      else
        let plen = length ct - 16; nonce = noise_nonce (cs_n cs); cs = cs\<lparr>cs_n := cs_n cs + 1\<rparr> in
        case mbedtls_chachapoly_auth_decrypt (noise_aead_key (cs_k cs)) nonce ad (drop plen ct) (take plen ct) of
          Inl e \<Rightarrow> (cs, Inl Noise_aead_failed)
        | Inr pt \<Rightarrow> (cs, Inr pt))"

definition noise_gen_keypair :: "crypto \<Rightarrow> bytes \<Rightarrow> noise_error + bytes \<times> bytes" where
  "noise_gen_keypair cr rnd = (case ecdh_gen cr rnd of None \<Rightarrow> Inl Noise_ecp_failed | Some kp \<Rightarrow> Inr kp)"

definition noise_dh :: "crypto \<Rightarrow> bytes \<Rightarrow> bytes \<Rightarrow> noise_error + bytes" where
  "noise_dh cr priv remote_pub = (case x25519 cr priv remote_pub of None \<Rightarrow> Inl Noise_ecp_failed | Some s \<Rightarrow> Inr s)"

section \<open>The AEAD steps in closed form\<close>

text \<open>Ciphertext with its tag.\<close>

definition sealed :: "bytes \<Rightarrow> u64 \<Rightarrow> bytes \<Rightarrow> bytes \<Rightarrow> bytes" where
  "sealed k n ad pt =
     (let ct = aead_xor k (noise_nonce n) pt in ct @ aead_tag k (noise_nonce n) ad ct)"

lemma length_sealed [simp]: "length (sealed k n ad pt) = length pt + 16"
  by (simp add: sealed_def Let_def)

lemma aead_seal:
  "(case mbedtls_chachapoly_encrypt_and_tag (noise_aead_key k) (noise_nonce n) ad pt of
      Inl e \<Rightarrow> f e | Inr (c, ct, tag) \<Rightarrow> g (ct @ tag)) = g (sealed k n ad pt)"
  using encrypt_keyed [of k "noise_nonce n" ad pt] by (auto simp: noise_aead_key_def sealed_def Let_def)

lemma aead_open:
  "mbedtls_chachapoly_auth_decrypt (noise_aead_key k) (noise_nonce n) ad
     (drop (length pt) (sealed k n ad pt)) (take (length pt) (sealed k n ad pt)) = Inr pt"
  by (simp add: noise_aead_key_def sealed_def Let_def decrypt_keyed)

lemma cs_encrypt_sealed: "noise_cs_encrypt cs ad pt = (cs\<lparr>cs_n := cs_n cs + 1\<rparr>, Inr (sealed (cs_k cs) (cs_n cs) ad pt))"
  using encrypt_keyed [of "cs_k cs" "noise_nonce (cs_n cs)" ad pt]
  by (auto simp: noise_cs_encrypt_def sealed_def noise_aead_key_def Let_def)

lemma cs_decrypt_sealed:
  "cs_k r = cs_k s \<Longrightarrow> cs_n r = cs_n s \<Longrightarrow>
   noise_cs_decrypt r ad (sealed (cs_k s) (cs_n s) ad pt) = (r\<lparr>cs_n := cs_n r + 1\<rparr>, Inr pt)"
  by (simp add: noise_cs_decrypt_def Let_def aead_open)

lemma encrypt_and_hash_sealed:
  "ss_has_key ss \<Longrightarrow> noise_encrypt_and_hash cr ss pt =
     (noise_mix_hash cr (ss\<lparr>ss_n := ss_n ss + 1\<rparr>) (sealed (ss_k ss) (ss_n ss) (ss_h ss) pt),
      Inr (sealed (ss_k ss) (ss_n ss) (ss_h ss) pt))"
  using encrypt_keyed [of "ss_k ss" "noise_nonce (ss_n ss)" "ss_h ss" pt]
  by (auto simp: noise_encrypt_and_hash_def sealed_def noise_aead_key_def Let_def)

lemma decrypt_and_hash_sealed:
  "ss_has_key ss \<Longrightarrow> noise_decrypt_and_hash cr ss (sealed (ss_k ss) (ss_n ss) (ss_h ss) pt) =
     (noise_mix_hash cr (ss\<lparr>ss_n := ss_n ss + 1\<rparr>) (sealed (ss_k ss) (ss_n ss) (ss_h ss) pt), Inr pt)"
  by (simp add: noise_decrypt_and_hash_def Let_def aead_open)

section \<open>Transport messages\<close>

text \<open>A sender and a receiver working through a list of (associated data, plaintext).\<close>

fun send_all :: "cipher_state \<Rightarrow> (bytes \<times> bytes) list \<Rightarrow> cipher_state \<times> (noise_error + bytes) list" where
  "send_all cs [] = (cs, [])"
| "send_all cs ((ad, pt) # ms) =
     (case noise_cs_encrypt cs ad pt of (cs, r) \<Rightarrow> case send_all cs ms of (cs, rs) \<Rightarrow> (cs, r # rs))"

fun recv_all :: "cipher_state \<Rightarrow> (bytes \<times> bytes) list \<Rightarrow> cipher_state \<times> (noise_error + bytes) list" where
  "recv_all cs [] = (cs, [])"
| "recv_all cs ((ad, ct) # ms) =
     (case noise_cs_decrypt cs ad ct of (cs, r) \<Rightarrow> case recv_all cs ms of (cs, rs) \<Rightarrow> (cs, r # rs))"

definition wire_cts :: "(noise_error + bytes) list \<Rightarrow> bytes list" where
  "wire_cts rs = map (\<lambda>r. case r of Inr ct \<Rightarrow> ct | Inl _ \<Rightarrow> []) rs"

text \<open>
  Over a pair of cipher states with the same key and counter, a sequence of messages of any
  length sealed by one side and opened in order by the other gives back every plaintext, and
  the two states stay in step.
\<close>

theorem noise_transport_in_order:
  assumes "cs_k r = cs_k s" and "cs_n r = cs_n s"
  shows "snd (recv_all r (zip (map fst ms) (wire_cts (snd (send_all s ms))))) = map (Inr \<circ> snd) ms \<and>
         cs_n (fst (recv_all r (zip (map fst ms) (wire_cts (snd (send_all s ms)))))) = cs_n (fst (send_all s ms))"
  using assms
proof (induction ms arbitrary: r s)
  case Nil
  then show ?case by (simp add: wire_cts_def)
next
  case (Cons m ms)
  obtain ad pt where m: "m = (ad, pt)" by force
  let ?s = "s\<lparr>cs_n := cs_n s + 1\<rparr>" and ?r = "r\<lparr>cs_n := cs_n r + 1\<rparr>"
  have "noise_cs_decrypt r ad (sealed (cs_k s) (cs_n s) ad pt) = (?r, Inr pt)"
    using Cons.prems by (rule cs_decrypt_sealed)
  with Cons.IH [of ?r ?s] Cons.prems show ?case
    by (simp add: m cs_encrypt_sealed wire_cts_def split_def)
qed

theorem noise_transport_in_order_witness:
  "snd (recv_all \<lparr>cs_k = [1], cs_n = 0\<rparr> (zip (map fst [([], [65]), ([7], [])])
     (wire_cts (snd (send_all \<lparr>cs_k = [1], cs_n = 0\<rparr> [([], [65]), ([7], [])]))))) = [Inr [65], Inr []]"
  using noise_transport_in_order [of "\<lparr>cs_k = [1], cs_n = 0\<rparr>" "\<lparr>cs_k = [1], cs_n = 0\<rparr>" "[([], [65]), ([7], [])]"]
  by simp

text \<open>
  A packet that fails authentication still consumes a receive nonce: after any refused
  ciphertext of at least 16 bytes the receiver's counter is one ahead of the sender's, and the
  next genuine message is opened under the wrong nonce (it is accepted only if its tag also
  happens to be valid there).
\<close>

theorem noise_failed_decrypt_desyncs:
  assumes "cs_k r = cs_k s" and "cs_n r = cs_n s" and "16 \<le> length garbage"
    and "snd (noise_cs_decrypt r ad garbage) = Inl Noise_aead_failed"
  shows "cs_n (fst (noise_cs_decrypt r ad garbage)) = cs_n s + 1 \<and> cs_n s + 1 \<noteq> cs_n s \<and>
    snd (noise_cs_decrypt (fst (noise_cs_decrypt r ad garbage)) ad' (sealed (cs_k s) (cs_n s) ad' pt)) =
      (let ct = aead_xor (cs_k s) (noise_nonce (cs_n s)) pt in
       if aead_tag (cs_k s) (noise_nonce (cs_n s)) ad' ct = aead_tag (cs_k s) (noise_nonce (cs_n s + 1)) ad' ct
       then Inr (aead_xor (cs_k s) (noise_nonce (cs_n s + 1)) ct) else Inl Noise_aead_failed)"
proof -
  have f: "fst (noise_cs_decrypt r ad garbage) = r\<lparr>cs_n := cs_n s + 1\<rparr>"
    using assms(2,3) by (simp add: noise_cs_decrypt_def Let_def split: sum.split)
  show ?thesis
    unfolding f by (simp add: noise_cs_decrypt_def Let_def sealed_def noise_aead_key_def decrypt_keyed assms(1))
qed

lemma decrypt_wrong_tag:
  assumes "length tag = 16" and "tag \<noteq> aead_tag (cs_k r) (noise_nonce (cs_n r)) ad []"
  shows "snd (noise_cs_decrypt r ad tag) = Inl Noise_aead_failed"
  using assms by (simp add: noise_cs_decrypt_def Let_def noise_aead_key_def decrypt_keyed)

theorem noise_failed_decrypt_desyncs_witness:
  "\<exists>garbage. 16 \<le> length garbage \<and> snd (noise_cs_decrypt \<lparr>cs_k = [1], cs_n = 0\<rparr> [] garbage) = Inl Noise_aead_failed \<and>
     cs_n (fst (noise_cs_decrypt \<lparr>cs_k = [1], cs_n = 0\<rparr> [] garbage)) = 1"
proof -
  let ?r = "\<lparr>cs_k = [1], cs_n = 0\<rparr>"
  let ?tag = "aead_tag [1] (noise_nonce 0) [] []"
  define garbage :: bytes where "garbage = (if ?tag = replicate 16 0 then replicate 16 1 else replicate 16 0)"
  have len: "length garbage = 16" by (simp add: garbage_def)
  have "garbage \<noteq> ?tag" by (auto simp: garbage_def replicate_eq_replicate)
  then have "snd (noise_cs_decrypt ?r [] garbage) = Inl Noise_aead_failed"
    using decrypt_wrong_tag [of garbage ?r "[]"] len by simp
  moreover from this have "cs_n (fst (noise_cs_decrypt ?r [] garbage)) = 1"
    using noise_failed_decrypt_desyncs [of ?r ?r garbage "[]" "[]" "[]"] len by simp
  ultimately show ?thesis using len by (intro exI [of _ garbage]) simp
qed

end
