(* ===== verification/Noise_Handshake.thy ===== *)
theory Noise_Handshake
  imports Noise_State
begin

text \<open>
  \<^verbatim>\<open>src/bitchat/noise_handshake.{h,cpp}\<close>: the per-peer Noise XX state machine.  Every operation
  returns the new handshake state and either an error or the message it writes.  The main
  result is agreement: when the messages are delivered unchanged, both sides reach
  transport mode with matching keys and authenticated static keys.
\<close>

section \<open>State machine\<close>

datatype NoiseHSPhase = NOISE_HS_IDLE | NOISE_HS_AWAIT_MSG2 | NOISE_HS_AWAIT_MSG3 | NOISE_HS_TRANSPORT | NOISE_HS_FAILED
datatype NoiseRole = NOISE_ROLE_INITIATOR | NOISE_ROLE_RESPONDER

record handshake_state =
  hs_role :: NoiseRole
  hs_phase :: NoiseHSPhase
  hs_ss :: symmetric_state
  hs_e_priv :: bytes
  hs_e_pub :: bytes
  hs_re_pub :: bytes
  hs_rs_pub :: bytes
  hs_s_priv :: bytes
  hs_s_pub :: bytes
  hs_send_cs :: cipher_state
  hs_recv_cs :: cipher_state

type_synonym 'a hs_result = "handshake_state \<times> (noise_error + 'a)"

definition empty_cs :: cipher_state where
  "empty_cs = \<lparr>cs_k = replicate 32 0, cs_n = 0\<rparr>"

definition noise_hs_init :: "crypto \<Rightarrow> bytes \<Rightarrow> NoiseRole \<Rightarrow> bytes \<Rightarrow> bytes \<Rightarrow> unit hs_result" where
  "noise_hs_init cr rnd role s_priv s_pub =
     (let hs = \<lparr>hs_role = role, hs_phase = NOISE_HS_IDLE, hs_ss = noise_ss_init cr,
                hs_e_priv = replicate 32 0, hs_e_pub = replicate 32 0, hs_re_pub = replicate 32 0,
                hs_rs_pub = replicate 32 0, hs_s_priv = s_priv, hs_s_pub = s_pub,
                hs_send_cs = empty_cs, hs_recv_cs = empty_cs\<rparr>
      in case noise_gen_keypair cr rnd of
           Inl e \<Rightarrow> (hs, Inl e)
         | Inr (priv, pub) \<Rightarrow> (hs\<lparr>hs_e_priv := priv, hs_e_pub := pub\<rparr>, Inr ()))"

text \<open>A step that fails marks the handshake as failed.\<close>

definition hs_fail :: "handshake_state \<Rightarrow> noise_error \<Rightarrow> 'a hs_result" where
  "hs_fail hs e = (hs\<lparr>hs_phase := NOISE_HS_FAILED\<rparr>, Inl e)"

definition hs_mix_hash :: "crypto \<Rightarrow> handshake_state \<Rightarrow> bytes \<Rightarrow> handshake_state" where
  "hs_mix_hash cr hs data = hs\<lparr>hs_ss := noise_mix_hash cr (hs_ss hs) data\<rparr>"

text \<open>\<^verbatim>\<open>noise_dh\<close> followed by \<^verbatim>\<open>noise_mix_key\<close>, each with its check.\<close>

definition hs_mix_dh :: "crypto \<Rightarrow> handshake_state \<Rightarrow> bytes \<Rightarrow> bytes \<Rightarrow> (handshake_state \<Rightarrow> 'a hs_result) \<Rightarrow> 'a hs_result" where
  "hs_mix_dh cr hs priv pub k =
     (case noise_dh cr priv pub of
        Inl e \<Rightarrow> hs_fail hs e
      | Inr dh \<Rightarrow>
          (case noise_mix_key cr (hs_ss hs) dh of
             Inl e \<Rightarrow> hs_fail hs e
           | Inr ss \<Rightarrow> k (hs\<lparr>hs_ss := ss\<rparr>)))"

definition hs_encrypt_and_hash :: "crypto \<Rightarrow> handshake_state \<Rightarrow> bytes \<Rightarrow> (handshake_state \<Rightarrow> bytes \<Rightarrow> 'a hs_result) \<Rightarrow> 'a hs_result" where
  "hs_encrypt_and_hash cr hs pt k =
     (case noise_encrypt_and_hash cr (hs_ss hs) pt of
        (ss, Inl e) \<Rightarrow> hs_fail (hs\<lparr>hs_ss := ss\<rparr>) e
      | (ss, Inr ct) \<Rightarrow> k (hs\<lparr>hs_ss := ss\<rparr>) ct)"

definition hs_decrypt_rs :: "crypto \<Rightarrow> handshake_state \<Rightarrow> bytes \<Rightarrow> (handshake_state \<Rightarrow> 'a hs_result) \<Rightarrow> 'a hs_result" where
  "hs_decrypt_rs cr hs ct k =
     (case noise_decrypt_and_hash cr (hs_ss hs) ct of
        (ss, Inl e) \<Rightarrow> hs_fail (hs\<lparr>hs_ss := ss\<rparr>) e
      | (ss, Inr pt) \<Rightarrow> k (hs\<lparr>hs_ss := ss, hs_rs_pub := pt\<rparr>))"

definition noise_hs_write_msg1 :: "crypto \<Rightarrow> handshake_state \<Rightarrow> bytes hs_result" where
  "noise_hs_write_msg1 cr hs =
     (if hs_phase hs \<noteq> NOISE_HS_IDLE \<or> hs_role hs \<noteq> NOISE_ROLE_INITIATOR then (hs, Inl Noise_bad_call)
      else ((hs_mix_hash cr hs (hs_e_pub hs))\<lparr>hs_phase := NOISE_HS_AWAIT_MSG2\<rparr>, Inr (hs_e_pub hs)))"

definition noise_hs_read_msg1_write_msg2 :: "crypto \<Rightarrow> handshake_state \<Rightarrow> bytes \<Rightarrow> bytes hs_result" where
  "noise_hs_read_msg1_write_msg2 cr hs msg1 =
     (if hs_phase hs \<noteq> NOISE_HS_IDLE \<or> hs_role hs \<noteq> NOISE_ROLE_RESPONDER then (hs, Inl Noise_bad_call)
      else if length msg1 < 32 then hs_fail hs Noise_too_short
      else
        let hs = hs\<lparr>hs_re_pub := take 32 msg1\<rparr>;
            hs = hs_mix_hash cr hs (hs_re_pub hs);
            hs = hs_mix_hash cr hs (hs_e_pub hs)
        in hs_mix_dh cr hs (hs_e_priv hs) (hs_re_pub hs) (\<lambda>hs.
           hs_encrypt_and_hash cr hs (hs_s_pub hs) (\<lambda>hs enc.
           hs_mix_dh cr hs (hs_s_priv hs) (hs_re_pub hs) (\<lambda>hs.
             (hs\<lparr>hs_phase := NOISE_HS_AWAIT_MSG3\<rparr>, Inr (hs_e_pub hs @ enc))))))"

definition noise_hs_read_msg2_write_msg3 :: "crypto \<Rightarrow> handshake_state \<Rightarrow> bytes \<Rightarrow> bytes hs_result" where
  "noise_hs_read_msg2_write_msg3 cr hs msg2 =
     (if hs_phase hs \<noteq> NOISE_HS_AWAIT_MSG2 \<or> hs_role hs \<noteq> NOISE_ROLE_INITIATOR then (hs, Inl Noise_bad_call)
      else if length msg2 < 80 then hs_fail hs Noise_too_short
      else
        let hs = hs\<lparr>hs_re_pub := take 32 msg2\<rparr>;
            hs = hs_mix_hash cr hs (hs_re_pub hs)
        in hs_mix_dh cr hs (hs_e_priv hs) (hs_re_pub hs) (\<lambda>hs.
           hs_decrypt_rs cr hs (take 48 (drop 32 msg2)) (\<lambda>hs.
           hs_mix_dh cr hs (hs_e_priv hs) (hs_rs_pub hs) (\<lambda>hs.
           hs_encrypt_and_hash cr hs (hs_s_pub hs) (\<lambda>hs enc.
           hs_mix_dh cr hs (hs_s_priv hs) (hs_re_pub hs) (\<lambda>hs.
             case noise_split cr (hs_ss hs) of
               Inl e \<Rightarrow> hs_fail hs e
             | Inr (c1, c2) \<Rightarrow>
                 (hs\<lparr>hs_send_cs := c1, hs_recv_cs := c2, hs_phase := NOISE_HS_TRANSPORT\<rparr>, Inr enc)))))))"

definition noise_hs_read_msg3 :: "crypto \<Rightarrow> handshake_state \<Rightarrow> bytes \<Rightarrow> unit hs_result" where
  "noise_hs_read_msg3 cr hs msg3 =
     (if hs_phase hs \<noteq> NOISE_HS_AWAIT_MSG3 \<or> hs_role hs \<noteq> NOISE_ROLE_RESPONDER then (hs, Inl Noise_bad_call)
      else if length msg3 < 48 then hs_fail hs Noise_too_short
      else
        hs_decrypt_rs cr hs (take 48 msg3) (\<lambda>hs.
        hs_mix_dh cr hs (hs_e_priv hs) (hs_rs_pub hs) (\<lambda>hs.
          case noise_split cr (hs_ss hs) of
            Inl e \<Rightarrow> hs_fail hs e
          | Inr (c1, c2) \<Rightarrow>
              (hs\<lparr>hs_recv_cs := c1, hs_send_cs := c2, hs_phase := NOISE_HS_TRANSPORT\<rparr>, Inr ()))))"

definition noise_hs_encrypt :: "handshake_state \<Rightarrow> bytes \<Rightarrow> bytes \<Rightarrow> bytes hs_result" where
  "noise_hs_encrypt hs ad pt =
     (if hs_phase hs \<noteq> NOISE_HS_TRANSPORT then (hs, Inl Noise_bad_call)
      else case noise_cs_encrypt (hs_send_cs hs) ad pt of (cs, r) \<Rightarrow> (hs\<lparr>hs_send_cs := cs\<rparr>, r))"

definition noise_hs_decrypt :: "handshake_state \<Rightarrow> bytes \<Rightarrow> bytes \<Rightarrow> bytes hs_result" where
  "noise_hs_decrypt hs ad ct =
     (if hs_phase hs \<noteq> NOISE_HS_TRANSPORT then (hs, Inl Noise_bad_call)
      else case noise_cs_decrypt (hs_recv_cs hs) ad ct of (cs, r) \<Rightarrow> (hs\<lparr>hs_recv_cs := cs\<rparr>, r))"

section \<open>Agreement\<close>

text \<open>What the handshake relies on of the digest and of the curve, for the two key pairs of each side.\<close>

definition dh_agree :: "crypto \<Rightarrow> bytes \<Rightarrow> bytes \<Rightarrow> bytes \<Rightarrow> bytes \<Rightarrow> bool" where
  "dh_agree cr priv1 pub1 priv2 pub2 \<longleftrightarrow>
     x25519 cr priv1 pub2 \<noteq> None \<and> x25519 cr priv1 pub2 = x25519 cr priv2 pub1"

definition hmac_ok :: "crypto \<Rightarrow> bool" where
  "hmac_ok cr \<longleftrightarrow> md_lawful (hmac_sha256 cr) \<and> md_size (hmac_sha256 cr) = 32"

lemma hkdf64:
  assumes "hmac_ok cr"
  shows "\<exists>okm. mbedtls_hkdf (hmac_sha256 cr) (Some ck) ikm None 64 = Inr okm"
  using assms by (auto simp: hmac_ok_def mbedtls_hkdf_def mbedtls_hkdf_extract_def mbedtls_hkdf_expand_def md_lawful_def Let_def)

definition mixed :: "crypto \<Rightarrow> symmetric_state \<Rightarrow> bytes \<Rightarrow> symmetric_state" where
  "mixed cr ss dh = (case noise_mix_key cr ss dh of Inr ss' \<Rightarrow> ss' | Inl _ \<Rightarrow> ss)"

lemma mix_key_mixed: "hmac_ok cr \<Longrightarrow> noise_mix_key cr ss dh = Inr (mixed cr ss dh) \<and> ss_has_key (mixed cr ss dh)"
  using hkdf64 [of cr "ss_ck ss" dh] by (auto simp: mixed_def noise_mix_key_def)

lemma split_ok: "hmac_ok cr \<Longrightarrow> \<exists>k1 k2. noise_split cr ss = Inr (\<lparr>cs_k = k1, cs_n = 0\<rparr>, \<lparr>cs_k = k2, cs_n = 0\<rparr>)"
  using hkdf64 [of cr "ss_ck ss" "[]"] by (auto simp: noise_split_def)

lemma hs_mix_dh_ok:
  "hmac_ok cr \<Longrightarrow> x25519 cr priv pub = Some dh \<Longrightarrow>
   hs_mix_dh cr hs priv pub k = k (hs\<lparr>hs_ss := mixed cr (hs_ss hs) dh\<rparr>)"
  using mix_key_mixed [of cr "hs_ss hs" dh] by (simp add: hs_mix_dh_def noise_dh_def)

text \<open>The symmetric state after sealing, or opening, a static key, and the sealed key.\<close>

definition after_seal :: "crypto \<Rightarrow> symmetric_state \<Rightarrow> bytes \<Rightarrow> symmetric_state" where
  "after_seal cr ss pt = noise_mix_hash cr (ss\<lparr>ss_n := ss_n ss + 1\<rparr>) (sealed (ss_k ss) (ss_n ss) (ss_h ss) pt)"

definition seal_of :: "symmetric_state \<Rightarrow> bytes \<Rightarrow> bytes" where
  "seal_of ss pt = sealed (ss_k ss) (ss_n ss) (ss_h ss) pt"

lemma hs_encrypt_ok:
  "ss_has_key (hs_ss hs) \<Longrightarrow>
   hs_encrypt_and_hash cr hs pt k = k (hs\<lparr>hs_ss := after_seal cr (hs_ss hs) pt\<rparr>) (seal_of (hs_ss hs) pt)"
  by (simp add: hs_encrypt_and_hash_def encrypt_and_hash_sealed after_seal_def seal_of_def)

lemma hs_decrypt_ok:
  "ss_has_key (hs_ss hs) \<Longrightarrow> ct = seal_of (hs_ss hs) pt \<Longrightarrow>
   hs_decrypt_rs cr hs ct k = k (hs\<lparr>hs_ss := after_seal cr (hs_ss hs) pt, hs_rs_pub := pt\<rparr>)"
  by (simp add: hs_decrypt_rs_def decrypt_and_hash_sealed after_seal_def seal_of_def)

lemma length_seal_of [simp]: "length (seal_of ss pt) = length pt + 16"
  by (simp add: seal_of_def)

lemma hs_init_simps:
  assumes "noise_hs_init cr rnd role s_priv s_pub = (hs, Inr ())"
  shows "hs_phase hs = NOISE_HS_IDLE" "hs_role hs = role" "hs_ss hs = noise_ss_init cr"
    "hs_s_priv hs = s_priv" "hs_s_pub hs = s_pub"
  using assms by (auto simp: noise_hs_init_def Let_def split: sum.splits)

lemma dh_agreeD:
  "dh_agree cr priv1 pub1 priv2 pub2 \<Longrightarrow> \<exists>d. x25519 cr priv1 pub2 = Some d \<and> x25519 cr priv2 pub1 = Some d"
  unfolding dh_agree_def by (metis not_None_eq)

text \<open>
  C20: agreement of the Noise XX handshake.  Two sides start from fresh states and the three
  messages arrive unchanged.  If the curve operations succeed and commute on the ephemeral
  and static keys involved, and HMAC-SHA-256 has 32 bytes, then every step succeeds, the
  messages have 32, 80 and 48 bytes, both sides end in transport mode, each knows the other's
  static key, and what one side sends with is what the other receives with, from counter 0.
\<close>

theorem noise_xx_agreement:
  assumes cr: "hmac_ok cr"
    and i0: "noise_hs_init cr rnd_i NOISE_ROLE_INITIATOR si Si = (i0, Inr ())"
    and r0: "noise_hs_init cr rnd_r NOISE_ROLE_RESPONDER sr Sr = (r0, Inr ())"
    and len: "length (hs_e_pub i0) = 32" "length (hs_e_pub r0) = 32" "length Si = 32" "length Sr = 32"
    and ee: "dh_agree cr (hs_e_priv i0) (hs_e_pub i0) (hs_e_priv r0) (hs_e_pub r0)"
    and es: "dh_agree cr (hs_e_priv i0) (hs_e_pub i0) sr Sr"
    and se: "dh_agree cr si Si (hs_e_priv r0) (hs_e_pub r0)"
  shows "\<exists>i1 m1 r1 m2 i2 m3 r2.
     noise_hs_write_msg1 cr i0 = (i1, Inr m1) \<and>
     noise_hs_read_msg1_write_msg2 cr r0 m1 = (r1, Inr m2) \<and>
     noise_hs_read_msg2_write_msg3 cr i1 m2 = (i2, Inr m3) \<and>
     noise_hs_read_msg3 cr r1 m3 = (r2, Inr ()) \<and>
     length m1 = 32 \<and> length m2 = 80 \<and> length m3 = 48 \<and>
     hs_phase i2 = NOISE_HS_TRANSPORT \<and> hs_phase r2 = NOISE_HS_TRANSPORT \<and>
     hs_rs_pub i2 = Sr \<and> hs_rs_pub r2 = Si \<and>
     hs_send_cs i2 = hs_recv_cs r2 \<and> hs_recv_cs i2 = hs_send_cs r2 \<and>
     cs_n (hs_send_cs i2) = 0 \<and> cs_n (hs_recv_cs i2) = 0"
proof -
  obtain d1 where d1: "x25519 cr (hs_e_priv i0) (hs_e_pub r0) = Some d1" "x25519 cr (hs_e_priv r0) (hs_e_pub i0) = Some d1"
    using dh_agreeD [OF ee] by blast
  obtain d2 where d2: "x25519 cr (hs_e_priv i0) Sr = Some d2" "x25519 cr sr (hs_e_pub i0) = Some d2"
    using dh_agreeD [OF es] by blast
  obtain d3 where d3: "x25519 cr si (hs_e_pub r0) = Some d3" "x25519 cr (hs_e_priv r0) Si = Some d3"
    using dh_agreeD [OF se] by blast
  note ii = hs_init_simps [OF i0] and rr = hs_init_simps [OF r0]
  define s1 where "s1 = mixed cr (noise_mix_hash cr (noise_mix_hash cr (noise_ss_init cr) (hs_e_pub i0)) (hs_e_pub r0)) d1"
  define s2 where "s2 = mixed cr (after_seal cr s1 Sr) d2"
  define s3 where "s3 = mixed cr (after_seal cr s2 Si) d3"
  have k1: "ss_has_key s1" and k2: "ss_has_key s2" unfolding s1_def s2_def using mix_key_mixed [OF cr] by blast+
  obtain c1 c2 where sp: "noise_split cr s3 = Inr (\<lparr>cs_k = c1, cs_n = 0\<rparr>, \<lparr>cs_k = c2, cs_n = 0\<rparr>)"
    using split_ok [OF cr] by blast
  define i1 where "i1 = (hs_mix_hash cr i0 (hs_e_pub i0))\<lparr>hs_phase := NOISE_HS_AWAIT_MSG2\<rparr>"
  define m2 where "m2 = hs_e_pub r0 @ seal_of s1 Sr"
  define r1 where "r1 = r0\<lparr>hs_re_pub := hs_e_pub i0, hs_ss := s2, hs_phase := NOISE_HS_AWAIT_MSG3\<rparr>"
  have 1: "noise_hs_write_msg1 cr i0 = (i1, Inr (hs_e_pub i0))"
    by (simp add: noise_hs_write_msg1_def ii i1_def)
  have 2: "noise_hs_read_msg1_write_msg2 cr r0 (hs_e_pub i0) = (r1, Inr m2)"
    by (simp add: noise_hs_read_msg1_write_msg2_def rr len Let_def hs_mix_hash_def hs_mix_dh_ok [OF cr] d1 d2
        hs_encrypt_ok k1 r1_def m2_def flip: s1_def s2_def)
  have 3: "noise_hs_read_msg2_write_msg3 cr i1 m2 =
     (i1\<lparr>hs_re_pub := hs_e_pub r0, hs_rs_pub := Sr, hs_ss := s3, hs_send_cs := \<lparr>cs_k = c1, cs_n = 0\<rparr>,
         hs_recv_cs := \<lparr>cs_k = c2, cs_n = 0\<rparr>, hs_phase := NOISE_HS_TRANSPORT\<rparr>, Inr (seal_of s2 Si))"
    by (simp add: noise_hs_read_msg2_write_msg3_def i1_def m2_def ii len Let_def hs_mix_hash_def hs_mix_dh_ok [OF cr]
        d1 d2 d3 hs_encrypt_ok hs_decrypt_ok [where pt = Sr] k1 k2 sp flip: s1_def s2_def s3_def)
  have 4: "noise_hs_read_msg3 cr r1 (seal_of s2 Si) =
     (r1\<lparr>hs_rs_pub := Si, hs_ss := s3, hs_recv_cs := \<lparr>cs_k = c1, cs_n = 0\<rparr>,
         hs_send_cs := \<lparr>cs_k = c2, cs_n = 0\<rparr>, hs_phase := NOISE_HS_TRANSPORT\<rparr>, Inr ())"
    by (simp add: noise_hs_read_msg3_def r1_def rr len hs_mix_dh_ok [OF cr] d3 hs_decrypt_ok [where pt = Si] k2 sp
        flip: s3_def)
  have "length m2 = 80" by (simp add: m2_def len)
  with 1 2 3 4 len show ?thesis by simp
qed

text \<open>A curve in which the public key is the private one and the shared secret their XOR.\<close>

definition xor_crypto :: crypto where
  "xor_crypto = \<lparr>sha256 = (\<lambda>_. replicate 32 0), hmac_sha256 = \<lparr>md_size = 32, md_hmac = (\<lambda>k m. replicate 32 (of_nat (length m)))\<rparr>,
     x25519 = (\<lambda>d u. Some (map2 (XOR) d u)), ecdh_gen = (\<lambda>rnd. Some (rnd, rnd)), x25519_base = [], sha512 = (\<lambda>_. [])\<rparr>"

lemma map2_xor_commute: "map2 (XOR) a b = map2 (XOR) b (a :: bytes)"
  by (induction a b rule: list_induct2') (simp_all add: xor.commute)

lemma xor_crypto_agree: "dh_agree xor_crypto a a b b"
  by (simp add: dh_agree_def xor_crypto_def map2_xor_commute [of a b])

lemma xor_crypto_hmac: "hmac_ok xor_crypto"
  by (simp add: hmac_ok_def md_lawful_def xor_crypto_def)

theorem noise_xx_agreement_witness:
  "\<exists>i1 m1 r1 m2 i2 m3 r2.
     noise_hs_write_msg1 xor_crypto (fst (noise_hs_init xor_crypto (replicate 32 1) NOISE_ROLE_INITIATOR
       (replicate 32 2) (replicate 32 2))) = (i1, Inr m1) \<and>
     noise_hs_read_msg1_write_msg2 xor_crypto (fst (noise_hs_init xor_crypto (replicate 32 3) NOISE_ROLE_RESPONDER
       (replicate 32 4) (replicate 32 4))) m1 = (r1, Inr m2) \<and>
     noise_hs_read_msg2_write_msg3 xor_crypto i1 m2 = (i2, Inr m3) \<and>
     noise_hs_read_msg3 xor_crypto r1 m3 = (r2, Inr ()) \<and>
     hs_send_cs i2 = hs_recv_cs r2 \<and> hs_rs_pub i2 = replicate 32 4"
proof -
  define i0 where "i0 = fst (noise_hs_init xor_crypto (replicate 32 1) NOISE_ROLE_INITIATOR (replicate 32 2) (replicate 32 2))"
  define r0 where "r0 = fst (noise_hs_init xor_crypto (replicate 32 3) NOISE_ROLE_RESPONDER (replicate 32 4) (replicate 32 4))"
  have g: "noise_gen_keypair xor_crypto rnd = Inr (rnd, rnd)" for rnd
    by (simp add: noise_gen_keypair_def xor_crypto_def)
  have i: "noise_hs_init xor_crypto (replicate 32 1) NOISE_ROLE_INITIATOR (replicate 32 2) (replicate 32 2) = (i0, Inr ())"
    "hs_e_priv i0 = replicate 32 1" "hs_e_pub i0 = replicate 32 1"
    by (simp_all add: i0_def noise_hs_init_def Let_def g)
  have r: "noise_hs_init xor_crypto (replicate 32 3) NOISE_ROLE_RESPONDER (replicate 32 4) (replicate 32 4) = (r0, Inr ())"
    "hs_e_priv r0 = replicate 32 3" "hs_e_pub r0 = replicate 32 3"
    by (simp_all add: r0_def noise_hs_init_def Let_def g)
  have e: "dh_agree xor_crypto (hs_e_priv i0) (hs_e_pub i0) (hs_e_priv r0) (hs_e_pub r0)"
    "dh_agree xor_crypto (hs_e_priv i0) (hs_e_pub i0) (replicate 32 4) (replicate 32 4)"
    "dh_agree xor_crypto (replicate 32 2) (replicate 32 2) (hs_e_priv r0) (hs_e_pub r0)"
    unfolding i(2,3) r(2,3) by (rule xor_crypto_agree)+
  have l: "length (hs_e_pub i0) = 32" "length (hs_e_pub r0) = 32"
    unfolding i(3) r(3) by (rule length_replicate)+
  from noise_xx_agreement [OF xor_crypto_hmac i(1) r(1) l length_replicate length_replicate e]
  show ?thesis
    unfolding i0_def [symmetric] r0_def [symmetric] by blast
qed

end
