(* ===== verification/Ed25519.thy ===== *)
theory Ed25519
  imports Noise_State
begin

text \<open>
  \<^verbatim>\<open>src/bitchat/ed25519.h\<close>: Ed25519 key generation, signing and verification in the style of
  TweetNaCl.  A field element is a list of sixteen signed limbs of about 16 bits; the 64-bit
  limbs of the source are integers here, and \<open>ed_M_in_range\<close> bounds the sums of a
  multiplication well inside 64 bits.  SHA-512 is the parameter \<open>sha512\<close>.
\<close>

type_synonym gf = "int list"
type_synonym point = "gf \<times> gf \<times> gf \<times> gf"

section \<open>Field arithmetic\<close>

definition ed_gf0 :: gf where "ed_gf0 = replicate 16 0"
definition ed_gf1 :: gf where "ed_gf1 = 1 # replicate 15 0"

definition ed_D :: gf where
  "ed_D = [0x78a3, 0x1359, 0x4dca, 0x75eb, 0xd8ab, 0x4141, 0x0a4d, 0x0070,
           0xe898, 0x7779, 0x4079, 0x8cc7, 0xfe73, 0x2b6f, 0x6cee, 0x5203]"

definition ed_D2 :: gf where
  "ed_D2 = [0xf159, 0x26b2, 0x9b94, 0xebd6, 0xb156, 0x8283, 0x149a, 0x00e0,
            0xd130, 0xeef3, 0x80f2, 0x198e, 0xfce7, 0x56df, 0xd9dc, 0x2406]"

definition ed_I :: gf where
  "ed_I = [0xa0b0, 0x4a0e, 0x1b27, 0xc4ee, 0xe478, 0xad2f, 0x1806, 0x2f43,
           0xd7a7, 0x3dfb, 0x0099, 0x2b4d, 0xdf0b, 0x4fc1, 0x2480, 0x2b83]"

definition ed_L :: "int list" where
  "ed_L = [0xed, 0xd3, 0xf5, 0x5c, 0x1a, 0x63, 0x12, 0x58,
           0xd6, 0x9c, 0xf7, 0xa2, 0xde, 0xf9, 0xde, 0x14,
           0, 0, 0, 0, 0, 0, 0, 0, 0, 0, 0, 0, 0, 0, 0, 0x10]"

definition ed_B :: bytes where
  "ed_B = 0x58 # replicate 31 0x66"

definition car_step :: "gf \<Rightarrow> nat \<Rightarrow> gf" where
  "car_step f i =
     (let f = f[i := f ! i + 2 ^ 16];
          c = f ! i div 2 ^ 16;
          j = (if i < 15 then i + 1 else 0);
          f = f[j := f ! j + (c - 1 + (if i = 15 then 37 * (c - 1) else 0))]
      in f[i := f ! i - c * 2 ^ 16])"

definition ed_car :: "gf \<Rightarrow> gf" where
  "ed_car f = foldl car_step f [0..<16]"

text \<open>\<^verbatim>\<open>_ed_sel\<close> with \<open>b\<close> 0 or 1: the mask is 0 or -1.\<close>

definition ed_sel :: "gf \<Rightarrow> gf \<Rightarrow> int \<Rightarrow> gf \<times> gf" where
  "ed_sel p q b =
     (let c = NOT (b - 1); t = map2 (\<lambda>x y. c AND (x XOR y)) p q
      in (map2 (XOR) p t, map2 (XOR) q t))"

text \<open>The two conditional subtractions of \<open>p\<close> in \<^verbatim>\<open>_ed_pack25519\<close>.\<close>

definition pack_m_step :: "gf \<Rightarrow> gf \<Rightarrow> nat \<Rightarrow> gf" where
  "pack_m_step t m i =
     (let m = m[i := t ! i - 0xffff - ((m ! (i - 1) div 2 ^ 16) AND 1)]
      in m[i - 1 := m ! (i - 1) AND 0xffff])"

definition pack_sub :: "gf \<Rightarrow> gf" where
  "pack_sub t =
     (let m = foldl (pack_m_step t) ((t ! 0 - 0xffed) # replicate 15 0) [1..<15];
          m = m[15 := t ! 15 - 0x7fff - ((m ! 14 div 2 ^ 16) AND 1)];
          bv = (m ! 15 div 2 ^ 16) AND 1;
          m = m[14 := m ! 14 AND 0xffff]
      in fst (ed_sel t m (1 - bv)))"

definition ed_pack25519 :: "gf \<Rightarrow> bytes" where
  "ed_pack25519 n =
     (let t = pack_sub (pack_sub (ed_car (ed_car (ed_car n))))
      in concat (map (\<lambda>i. [of_int (t ! i AND 0xff), of_int (t ! i div 2 ^ 8)]) [0..<16]))"

lemma length_ed_pack25519 [simp]: "length (ed_pack25519 n) = 32"
  by (simp add: ed_pack25519_def Let_def length_concat comp_def sum_list_triv)

definition ed_unpack25519 :: "bytes \<Rightarrow> gf" where
  "ed_unpack25519 n =
     (let f = map (\<lambda>i. uint (n ! (2 * i)) + uint (n ! (2 * i + 1)) * 2 ^ 8) [0..<16]
      in f[15 := f ! 15 AND 0x7fff])"

definition ed_par25519 :: "gf \<Rightarrow> u8" where
  "ed_par25519 a = ed_pack25519 a ! 0 AND 1"

definition ed_neq25519 :: "gf \<Rightarrow> gf \<Rightarrow> bool" where
  "ed_neq25519 a b \<longleftrightarrow> ed_pack25519 a \<noteq> ed_pack25519 b"

definition ed_A :: "gf \<Rightarrow> gf \<Rightarrow> gf" where
  "ed_A a b = map2 (+) a b"

definition ed_Z :: "gf \<Rightarrow> gf \<Rightarrow> gf" where
  "ed_Z a b = map2 (-) a b"

definition mul_step :: "gf \<Rightarrow> gf \<Rightarrow> int list \<Rightarrow> nat \<times> nat \<Rightarrow> int list" where
  "mul_step a b t ij = (case ij of (i, j) \<Rightarrow> t[i + j := t ! (i + j) + a ! i * b ! j])"

definition ed_M :: "gf \<Rightarrow> gf \<Rightarrow> gf" where
  "ed_M a b =
     (let t = foldl (mul_step a b) (replicate 31 0) (List.product [0..<16] [0..<16]);
          t = map (\<lambda>i. if i < 15 then t ! i + 38 * t ! (i + 16) else t ! i) [0..<16]
      in ed_car (ed_car t))"

definition ed_S :: "gf \<Rightarrow> gf" where
  "ed_S a = ed_M a a"

text \<open>The two exponentiation ladders, from the top index down.\<close>

definition ed_inv25519 :: "gf \<Rightarrow> gf" where
  "ed_inv25519 a =
     foldl (\<lambda>c i. let c = ed_S c in if i \<noteq> 2 \<and> i \<noteq> 4 then ed_M c a else c) a (rev [0..<254])"

definition ed_pow2523 :: "gf \<Rightarrow> gf" where
  "ed_pow2523 a =
     foldl (\<lambda>c i. let c = ed_S c in if i \<noteq> 1 then ed_M c a else c) a (rev [0..<251])"

section \<open>Points\<close>

definition ed_cswap :: "point \<Rightarrow> point \<Rightarrow> int \<Rightarrow> point \<times> point" where
  "ed_cswap p q b =
     (case p of (p0, p1, p2, p3) \<Rightarrow> case q of (q0, q1, q2, q3) \<Rightarrow>
      let (p0, q0) = ed_sel p0 q0 b; (p1, q1) = ed_sel p1 q1 b;
          (p2, q2) = ed_sel p2 q2 b; (p3, q3) = ed_sel p3 q3 b
      in ((p0, p1, p2, p3), (q0, q1, q2, q3)))"

definition ed_pt_add :: "point \<Rightarrow> point \<Rightarrow> point" where
  "ed_pt_add p q =
     (case p of (p0, p1, p2, p3) \<Rightarrow> case q of (q0, q1, q2, q3) \<Rightarrow>
      let a = ed_M (ed_Z p1 p0) (ed_Z q1 q0);
          b = ed_M (ed_A p0 p1) (ed_A q0 q1);
          c = ed_M (ed_M p3 q3) ed_D2;
          d = ed_M p2 q2;
          d = ed_A d d;
          e = ed_Z b a; f = ed_Z d c; g = ed_A d c; h = ed_A b a
      in (ed_M e f, ed_M h g, ed_M g f, ed_M e h))"

definition ed_pack_point :: "point \<Rightarrow> bytes" where
  "ed_pack_point p =
     (case p of (p0, p1, p2, p3) \<Rightarrow>
      let zi = ed_inv25519 p2; tx = ed_M p0 zi; ty = ed_M p1 zi; r = ed_pack25519 ty
      in r[31 := r ! 31 XOR push_bit 7 (ed_par25519 tx)])"

text \<open>\<open>None\<close> is the return value -1: the bytes are not a point.\<close>

definition ed_unpackneg :: "bytes \<Rightarrow> point option" where
  "ed_unpackneg p =
     (let r2 = ed_gf1; r1 = ed_unpack25519 p;
          num = ed_S r1; den = ed_M num ed_D;
          num = ed_Z num r2; den = ed_A r2 den;
          den2 = ed_S den; den4 = ed_S den2; den6 = ed_M den4 den2;
          t = ed_M den6 num; t = ed_M t den;
          t = ed_pow2523 t;
          t = ed_M t num; t = ed_M t den; t = ed_M t den;
          r0 = ed_M t den;
          chk = ed_M (ed_S r0) den;
          r0 = (if ed_neq25519 chk num then ed_M r0 ed_I else r0);
          chk = ed_M (ed_S r0) den
      in if ed_neq25519 chk num then None
         else
           let r0 = (if ed_par25519 r0 = drop_bit 7 (p ! 31) then ed_Z ed_gf0 r0 else r0)
           in Some (r0, r1, r2, ed_M r0 r1))"

definition scalar_bit :: "bytes \<Rightarrow> nat \<Rightarrow> int" where
  "scalar_bit s i = (if bit (s ! (i div 8)) (i mod 8) then 1 else 0)"

definition scalarmult_step :: "bytes \<Rightarrow> point \<times> point \<Rightarrow> nat \<Rightarrow> point \<times> point" where
  "scalarmult_step s pq i =
     (let b = scalar_bit s i;
          (p, q) = ed_cswap (fst pq) (snd pq) b;
          q = ed_pt_add q p;
          p = ed_pt_add p p
      in ed_cswap p q b)"

definition ed_scalarmult :: "point \<Rightarrow> bytes \<Rightarrow> point" where
  "ed_scalarmult q s =
     fst (foldl (scalarmult_step s) ((ed_gf0, ed_gf1, ed_gf1, ed_gf0), q) (rev [0..<256]))"

text \<open>
  The source does not look at the result of \<^verbatim>\<open>_ed_unpackneg\<close> on the base point.  Were it to
  fail, C would go on with an uninitialised \<^verbatim>\<open>q[3]\<close>; the model uses zeros there.
\<close>

definition ed_scalarbase :: "bytes \<Rightarrow> point" where
  "ed_scalarbase s =
     (case ed_unpackneg ed_B of
        Some (q0, q1, q2, q3) \<Rightarrow> ed_scalarmult (ed_Z ed_gf0 q0, q1, q2, ed_Z ed_gf0 q3) s
      | None \<Rightarrow> ed_scalarmult (ed_gf0, ed_gf0, ed_gf0, ed_gf0) s)"

section \<open>Scalars modulo the group order\<close>

definition reduce_inner :: "nat \<Rightarrow> int list \<times> int \<Rightarrow> nat \<Rightarrow> int list \<times> int" where
  "reduce_inner i xc j =
     (case xc of (x, carry) \<Rightarrow>
      let xj = x ! j + carry - 16 * x ! i * ed_L ! (j - (i - 32));
          carry = (xj + 128) div 2 ^ 8
      in (x[j := xj - carry * 2 ^ 8], carry))"

definition reduce_row :: "int list \<Rightarrow> nat \<Rightarrow> int list" where
  "reduce_row x i =
     (case foldl (reduce_inner i) (x, 0) [i - 32..<i - 12] of
        (x, carry) \<Rightarrow> x[i - 12 := x ! (i - 12) + carry, i := 0])"

definition reduce_top :: "int list \<times> int \<Rightarrow> nat \<Rightarrow> int list \<times> int" where
  "reduce_top xc j =
     (case xc of (x, carry) \<Rightarrow>
      let xj = x ! j + carry - (x ! 31 div 2 ^ 4) * ed_L ! j
      in (x[j := xj AND 0xff], xj div 2 ^ 8))"

definition ed_reduce :: "int list \<Rightarrow> bytes" where
  "ed_reduce x =
     (let x = foldl reduce_row x (rev [32..<64]);
          (x, carry) = foldl reduce_top (x, 0) [0..<32];
          x = foldl (\<lambda>x j. x[j := x ! j - carry * ed_L ! j]) x [0..<32];
          x = foldl (\<lambda>x i. x[i + 1 := x ! (i + 1) + x ! i div 2 ^ 8]) x [0..<32]
      in map (\<lambda>i. of_int (x ! i AND 0xff)) [0..<32])"

section \<open>Public interface\<close>

definition ed_clamp :: "bytes \<Rightarrow> bytes" where
  "ed_clamp d = d[0 := d ! 0 AND 248, 31 := (d ! 31 AND 127) OR 64]"

definition ed25519_create_keypair :: "crypto \<Rightarrow> bytes \<Rightarrow> bytes \<times> bytes" where
  "ed25519_create_keypair cr seed =
     (let d = ed_clamp (sha512 cr (take 32 seed));
          pk = ed_pack_point (ed_scalarbase d)
      in (pk, take 32 seed @ pk))"

definition ed25519_sign :: "crypto \<Rightarrow> bytes \<Rightarrow> bytes \<Rightarrow> bytes" where
  "ed25519_sign cr msg sk =
     (let d = ed_clamp (sha512 cr (take 32 sk));
          h = sha512 cr (take 32 (drop 32 d) @ msg);
          r = ed_reduce (map uint (take 64 h));
          R = ed_pack_point (ed_scalarbase r);
          h = sha512 cr (R @ take 32 (drop 32 sk) @ msg);
          x = foldl (\<lambda>x (i, j). x[i + j := x ! (i + j) + uint (h ! i) * uint (d ! j)])
                (map uint r @ replicate 32 0) (List.product [0..<32] [0..<32])
      in R @ ed_reduce x)"

text \<open>True is the return value 0.\<close>

definition ed25519_verify :: "crypto \<Rightarrow> bytes \<Rightarrow> bytes \<Rightarrow> bytes \<Rightarrow> bool" where
  "ed25519_verify cr sig msg pk =
     (if sig ! 63 AND 0xf0 \<noteq> 0 then False
      else
        case ed_unpackneg pk of
          None \<Rightarrow> False
        | Some negA \<Rightarrow>
            let h = sha512 cr (take 32 sig @ take 32 pk @ msg);
                hA = ed_scalarmult negA (ed_reduce (map uint (take 64 h)));
                sB = ed_pt_add (ed_scalarbase (take 32 (drop 32 sig))) hA
            in ed_pack_point sB = take 32 sig)"

section \<open>The field operations compute in GF(p)\<close>

definition P25519 :: int where "P25519 = 2 ^ 255 - 19"

definition gf_val :: "int list \<Rightarrow> int" where
  "gf_val f = (\<Sum>i<length f. f ! i * 2 ^ (16 * i))"

lemma gf_val_update:
  assumes "i < length f"
  shows "gf_val (f[i := x]) = gf_val f + (x - f ! i) * 2 ^ (16 * i)"
proof -
  have "gf_val (f[i := x]) = (\<Sum>j<length f. f ! j * 2 ^ (16 * j) + (if j = i then (x - f ! i) * 2 ^ (16 * i) else 0))"
    unfolding gf_val_def using assms by (intro sum.cong) (auto simp: nth_list_update algebra_simps)
  also have "\<dots> = gf_val f + (x - f ! i) * 2 ^ (16 * i)"
    using assms by (simp add: sum.distrib gf_val_def)
  finally show ?thesis .
qed

lemma length_car_step [simp]: "length (car_step f i) = length f"
  by (simp add: car_step_def Let_def)

lemma car_step_val:
  assumes "length f = 16" and "i < 16"
  shows "gf_val (car_step f i) mod P25519 = gf_val f mod P25519"
proof -
  define f1 where "f1 = f[i := f ! i + 2 ^ 16]"
  define c where "c = f1 ! i div 2 ^ 16"
  define j where "j = (if i < 15 then i + 1 else 0)"
  define f2 where "f2 = f1[j := f1 ! j + (c - 1 + (if i = 15 then 37 * (c - 1) else 0))]"
  have s: "car_step f i = f2[i := f2 ! i - c * 2 ^ 16]"
    by (simp add: car_step_def Let_def f1_def c_def j_def f2_def)
  have ij: "j < 16" using assms(2) by (simp add: j_def)
  have "gf_val (car_step f i) = gf_val f + 2 ^ 16 * 2 ^ (16 * i) +
      (c - 1 + (if i = 15 then 37 * (c - 1) else 0)) * 2 ^ (16 * j) - c * 2 ^ 16 * 2 ^ (16 * i)"
    using assms ij by (simp add: s gf_val_update f1_def f2_def algebra_simps)
  also have "\<dots> = gf_val f + P25519 * (if i = 15 then 2 * (1 - c) else 0)"
  proof (cases "i = 15")
    case True
    then show ?thesis by (simp add: j_def P25519_def algebra_simps)
  next
    case False
    with assms(2) have "i < 15" by simp
    then have "(2 :: int) ^ (16 * j) = 2 ^ 16 * 2 ^ (16 * i)" by (simp add: j_def power_add)
    with False show ?thesis by (simp add: algebra_simps)
  qed
  finally show ?thesis by simp
qed

lemma ed_car_val:
  assumes "length f = 16"
  shows "gf_val (ed_car f) mod P25519 = gf_val f mod P25519 \<and> length (ed_car f) = 16"
proof -
  have "gf_val (foldl car_step f js) mod P25519 = gf_val f mod P25519 \<and> length (foldl car_step f js) = 16"
    if "length f = 16" "set js \<subseteq> {..<16}" for f js
    using that
  proof (induction js arbitrary: f)
    case (Cons j js)
    then show ?case using car_step_val [of f j] by simp
  qed simp
  from this [OF assms, of "[0..<16]"] show ?thesis by (simp add: ed_car_def atLeast0LessThan)
qed

lemma length_mul_step [simp]: "length (mul_step a b t ij) = length t"
  by (simp add: mul_step_def split: prod.split)

lemma length_foldl_mul [simp]: "length (foldl (mul_step a b) t ijs) = length t"
  by (induction ijs arbitrary: t) simp_all

lemma foldl_mul_val:
  assumes "\<forall>(i, j)\<in>set ijs. i + j < length t"
  shows "gf_val (foldl (mul_step a b) t ijs) =
         gf_val t + (\<Sum>(i, j)\<leftarrow>ijs. a ! i * b ! j * 2 ^ (16 * (i + j)))"
  using assms
proof (induction ijs arbitrary: t)
  case (Cons ij ijs)
  obtain i j where ij: "ij = (i, j)" by force
  with Cons.prems have "gf_val (mul_step a b t ij) = gf_val t + a ! i * b ! j * 2 ^ (16 * (i + j))"
    by (simp add: mul_step_def gf_val_update)
  with Cons ij show ?case by simp
qed simp

lemma sum_product_list:
  "(\<Sum>(i, j)\<leftarrow>List.product xs ys. f i * g j) = (\<Sum>i\<leftarrow>xs. f i) * (\<Sum>j\<leftarrow>ys. (g j :: int))"
proof (induction xs)
  case (Cons x xs)
  have "(\<Sum>(i, j)\<leftarrow>map (Pair x) ys. f i * g j) = f x * (\<Sum>j\<leftarrow>ys. g j)"
    by (induction ys) (simp_all add: algebra_simps)
  with Cons show ?case by (simp add: algebra_simps)
qed simp

lemma gf_val_list: "gf_val f = (\<Sum>i\<leftarrow>[0..<length f]. f ! i * 2 ^ (16 * i))"
  by (simp add: gf_val_def interv_sum_list_conv_sum_set_nat atLeast0LessThan)

lemma ed_M_val:
  assumes "length a = 16" and "length b = 16"
  shows "gf_val (ed_M a b) mod P25519 = (gf_val a * gf_val b) mod P25519 \<and> length (ed_M a b) = 16"
proof -
  define t where "t = foldl (mul_step a b) (replicate 31 0) (List.product [0..<16] [0..<16])"
  define u where "u = map (\<lambda>i. if i < 15 then t ! i + 38 * t ! (i + 16) else t ! i) [0..<16]"
  have lt: "length t = 31" by (simp add: t_def)
  have "gf_val t = (\<Sum>(i, j)\<leftarrow>List.product [0..<16] [0..<16]. a ! i * b ! j * 2 ^ (16 * (i + j)))"
    unfolding t_def by (subst foldl_mul_val) (auto simp: gf_val_def)
  also have "\<dots> = (\<Sum>(i, j)\<leftarrow>List.product [0..<16] [0..<16]. (a ! i * 2 ^ (16 * i)) * (b ! j * 2 ^ (16 * j)))"
    by (intro arg_cong [where f = sum_list] map_cong) (auto simp: power_add distrib_left)
  also have "\<dots> = gf_val a * gf_val b"
    unfolding sum_product_list gf_val_list using assms by simp
  finally have tv: "gf_val t = gf_val a * gf_val b" .
  have "gf_val t = (\<Sum>i<16. t ! i * 2 ^ (16 * i)) + (\<Sum>i<15. t ! (i + 16) * 2 ^ (16 * (i + 16)))"
    unfolding gf_val_def lt using sum.atLeastLessThan_concat [of 0 16 31 "\<lambda>i. t ! i * 2 ^ (16 * i)"]
      sum.shift_bounds_nat_ivl [of "\<lambda>i. t ! i * 2 ^ (16 * i)" 0 16 15] by (simp add: atLeast0LessThan)
  moreover have "gf_val u = (\<Sum>i<16. t ! i * 2 ^ (16 * i)) + (\<Sum>i<15. 38 * (t ! (i + 16) * 2 ^ (16 * i)))"
  proof -
    have "gf_val u = (\<Sum>i<16. t ! i * 2 ^ (16 * i) + (if i < 15 then 38 * (t ! (i + 16) * 2 ^ (16 * i)) else 0))"
      unfolding gf_val_def u_def by (intro sum.cong) (auto simp: algebra_simps)
    also have "\<dots> = (\<Sum>i<16. t ! i * 2 ^ (16 * i)) + (\<Sum>i<16. if i < 15 then 38 * (t ! (i + 16) * 2 ^ (16 * i)) else 0)"
      by (rule sum.distrib)
    also have "(\<Sum>i<16. if i < 15 then 38 * (t ! (i + 16) * 2 ^ (16 * i)) else 0) =
        (\<Sum>i<15. 38 * (t ! (i + 16) * 2 ^ (16 * i)))"
      by (intro sum.mono_neutral_cong_right) auto
    finally show ?thesis .
  qed
  moreover have "(\<Sum>i<15. t ! (i + 16) * 2 ^ (16 * (i + 16))) =
      2 ^ 256 * (\<Sum>i<15. t ! (i + 16) * 2 ^ (16 * i))"
    unfolding sum_distrib_left by (rule sum.cong) (auto simp: power_add algebra_simps)
  ultimately have "gf_val t = gf_val u + P25519 * (2 * (\<Sum>i<15. t ! (i + 16) * 2 ^ (16 * i)))"
    by (simp add: P25519_def sum_distrib_left algebra_simps flip: sum_distrib_left)
  then have "gf_val u mod P25519 = (gf_val a * gf_val b) mod P25519" by (simp flip: tv)
  moreover have "length u = 16" by (simp add: u_def)
  moreover have "ed_M a b = ed_car (ed_car u)" by (simp only: ed_M_def Let_def t_def u_def)
  ultimately show ?thesis using ed_car_val [of u] ed_car_val [of "ed_car u"] by simp
qed

lemma ladder_val:
  assumes "length a = 16" and "length c = 16" and "gf_val c mod P25519 = gf_val a ^ e mod P25519"
  shows "gf_val (foldl (\<lambda>c i. let c = ed_S c in if p i then ed_M c a else c) c js) mod P25519 =
         gf_val a ^ foldl (\<lambda>e i. 2 * e + (if p i then 1 else 0)) e js mod P25519 \<and>
         length (foldl (\<lambda>c i. let c = ed_S c in if p i then ed_M c a else c) c js) = 16"
  using assms
proof (induction js arbitrary: c e)
  case (Cons j js)
  let ?c = "let c = ed_S c in if p j then ed_M c a else c"
  let ?e = "2 * e + (if p j then 1 else 0)"
  have s: "gf_val (ed_S c) mod P25519 = gf_val a ^ (2 * e) mod P25519" "length (ed_S c) = 16"
    using ed_M_val [OF Cons.prems(2,2)] Cons.prems(3)
    by (simp_all add: ed_S_def mult_2 power_add) (metis mod_mult_eq)
  have "gf_val ?c mod P25519 = gf_val a ^ ?e mod P25519" "length ?c = 16"
    using s ed_M_val [OF s(2) Cons.prems(1)]
    by (simp_all add: Let_def mult.commute) (metis mod_mult_right_eq mult.commute)
  from Cons.IH [OF Cons.prems(1) this(2,1)] show ?case by simp
qed simp

lemma all_ones_exponent:
  assumes "\<forall>i\<in>set js. p i"
  shows "foldl (\<lambda>e i. 2 * e + (if p i then 1 else 0)) e js + 1 = (e + 1) * (2 :: nat) ^ length js"
  using assms
proof (induction js arbitrary: e)
  case (Cons j js)
  then have "foldl (\<lambda>e i. 2 * e + (if p i then 1 else 0)) (2 * e + 1) js + 1 = (2 * e + 1 + 1) * 2 ^ length js" by simp
  with Cons.prems show ?case by (simp add: algebra_simps)
qed simp

lemma rev_upt_split: "m \<le> n \<Longrightarrow> rev [0..<n] = rev [m..<n] @ rev [0..<m]"
  using upt_add_eq_append [of 0 m "n - m"] by (metis le_add_diff_inverse rev_append zero_le)

lemma inv_exponent: "foldl (\<lambda>e i. 2 * e + (if i \<noteq> 2 \<and> i \<noteq> 4 then 1 else 0)) 1 (rev [0..<254]) = (2 ^ 255 - 21 :: nat)"
proof -
  let ?f = "\<lambda>(e :: nat) (i :: nat). 2 * e + (if i \<noteq> 2 \<and> i \<noteq> 4 then 1 else 0)"
  define E where "E = foldl ?f 1 (rev [5..<254])"
  have "E + 1 = (1 + 1) * 2 ^ length (rev [5..<254 :: nat])"
    unfolding E_def by (rule all_ones_exponent) simp
  then have E: "E + 1 = 2 ^ 250" by simp
  have "rev [0..<254] = rev [5..<254] @ [4, 3, 2, 1, 0 :: nat]"
  proof -
    have "rev [0..<5] = [4, 3, 2, 1, 0 :: nat]" by (simp add: upt_rec)
    with rev_upt_split [of 5 254] show ?thesis by (simp only: numeral_le_iff semiring_norm simp_thms)
  qed
  then have "foldl ?f 1 (rev [0..<254]) = foldl ?f E [4, 3, 2, 1, 0]"
    by (simp only: foldl_append E_def)
  also have "\<dots> = 32 * E + 11" by simp
  finally show ?thesis using E by simp
qed

lemma pow2523_exponent: "foldl (\<lambda>e i. 2 * e + (if i \<noteq> 1 then 1 else 0)) 1 (rev [0..<251]) = (2 ^ 252 - 3 :: nat)"
proof -
  let ?f = "\<lambda>(e :: nat) (i :: nat). 2 * e + (if i \<noteq> 1 then 1 else 0)"
  define E where "E = foldl ?f 1 (rev [2..<251])"
  have "E + 1 = (1 + 1) * 2 ^ length (rev [2..<251 :: nat])"
    unfolding E_def by (rule all_ones_exponent) simp
  then have E: "E + 1 = 2 ^ 250" by simp
  have "rev [0..<251] = rev [2..<251] @ [1, 0 :: nat]"
  proof -
    have "rev [0..<2] = [1, 0 :: nat]" by (simp add: upt_rec)
    with rev_upt_split [of 2 251] show ?thesis by (simp only: numeral_le_iff semiring_norm simp_thms)
  qed
  then have "foldl ?f 1 (rev [0..<251]) = foldl ?f E [1, 0]"
    by (simp only: foldl_append E_def)
  also have "\<dots> = 4 * E + 1" by simp
  finally show ?thesis using E by simp
qed

lemma mul_step_bound:
  assumes "length a = 16" and "\<forall>i<16. \<bar>a ! i\<bar> \<le> B" and "\<forall>i<16. \<bar>b ! i\<bar> \<le> B"
    and "set ijs \<subseteq> {..<16} \<times> {..<16}" and "\<forall>k<length t. \<bar>t ! k\<bar> \<le> m * B\<^sup>2" and "0 \<le> B"
  shows "\<forall>k<length t. \<bar>foldl (mul_step a b) t ijs ! k\<bar> \<le> (m + int (length ijs)) * B\<^sup>2"
  using assms(4,5)
proof (induction ijs arbitrary: t m)
  case (Cons ij ijs)
  obtain i j where ij: "ij = (i, j)" "i < 16" "j < 16" using Cons.prems(1) by (cases ij) auto
  have "\<bar>a ! i * b ! j\<bar> \<le> B\<^sup>2"
    using assms(2,3,6) ij unfolding abs_mult power2_eq_square by (intro mult_mono) auto
  moreover have "mul_step a b t ij ! k = (if k = i + j then t ! k + a ! i * b ! j else t ! k)" if "k < length t" for k
    using that by (simp add: ij(1) mul_step_def nth_list_update)
  ultimately have "\<forall>k<length t. \<bar>mul_step a b t ij ! k\<bar> \<le> (m + 1) * B\<^sup>2"
    using Cons.prems(2) by (fastforce simp: distrib_right)
  with Cons.IH [of "mul_step a b t ij" "m + 1"] Cons.prems(1) show ?case by (simp add: algebra_simps)
qed simp

text \<open>
  C26: the limb arithmetic is arithmetic in GF(2^255 - 19): the product of two elements has the
  product of their values, the inversion ladder raises to the power p - 2 and the square-root
  ladder to (p - 5) / 8.  During a multiplication of limbs below 2^24 in size, which covers
  sums and differences of carried elements, every partial column sum, also after folding the
  upper half down with factor 38, stays below 2^63, so 64-bit limbs do not overflow.
\<close>

theorem ed_field_arithmetic:
  assumes "length a = 16" and "length b = 16"
    and "\<forall>i<16. \<bar>a ! i\<bar> \<le> 2 ^ 24" and "\<forall>i<16. \<bar>b ! i\<bar> \<le> 2 ^ 24"
  shows "gf_val (ed_M a b) mod P25519 = (gf_val a * gf_val b) mod P25519 \<and>
         gf_val (ed_inv25519 a) mod P25519 = gf_val a ^ (2 ^ 255 - 21) mod P25519 \<and>
         gf_val (ed_pow2523 a) mod P25519 = gf_val a ^ (2 ^ 252 - 3) mod P25519 \<and>
         (\<forall>n k. k < 31 \<longrightarrow>
            39 * \<bar>foldl (mul_step a b) (replicate 31 0) (take n (List.product [0..<16] [0..<16])) ! k\<bar> < 2 ^ 63)"
proof -
  let ?ps = "List.product [0..<16] [0..<16 :: nat]"
  have "39 * \<bar>foldl (mul_step a b) (replicate 31 0) (take n ?ps) ! k\<bar> < 2 ^ 63" if "k < 31" for n k
  proof -
    have "set (take n ?ps) \<subseteq> {..<16} \<times> {..<16}"
      by (rule order_trans [OF set_take_subset]) auto
    then have "\<forall>k<length (replicate 31 0 :: int list).
        \<bar>foldl (mul_step a b) (replicate 31 0) (take n ?ps) ! k\<bar> \<le> (0 + int (length (take n ?ps))) * (2 ^ 24)\<^sup>2"
      using assms by (intro mul_step_bound) auto
    then have "\<bar>foldl (mul_step a b) (replicate 31 0) (take n ?ps) ! k\<bar> \<le> int (length (take n ?ps)) * 2 ^ 48"
      using that by simp
    also have "\<dots> \<le> 256 * 2 ^ 48" by (intro mult_right_mono) (auto simp: min_def)
    finally show ?thesis by simp
  qed
  then show ?thesis
    using ed_M_val [OF assms(1,2)]
      ladder_val [OF assms(1,1), of 1 "\<lambda>i. i \<noteq> 2 \<and> i \<noteq> 4" "rev [0..<254]"]
      ladder_val [OF assms(1,1), of 1 "\<lambda>i. i \<noteq> 1" "rev [0..<251]"]
    unfolding inv_exponent pow2523_exponent ed_inv25519_def [symmetric] ed_pow2523_def [symmetric]
    by (simp only: power_one_right simp_thms) blast
qed

theorem ed_field_arithmetic_witness:
  "gf_val (ed_M ed_D ed_D2) mod P25519 = (gf_val ed_D * gf_val ed_D2) mod P25519"
proof -
  have "list_all (\<lambda>x. \<bar>x\<bar> \<le> 2 ^ 24) ed_D" "list_all (\<lambda>x. \<bar>x\<bar> \<le> 2 ^ 24) ed_D2" "length ed_D = 16" "length ed_D2 = 16"
    by (simp_all add: ed_D_def ed_D2_def)
  then show ?thesis using ed_field_arithmetic [of ed_D ed_D2] by (simp add: list_all_length)
qed

end
