(* ===== verification/Bitchat_Identity.thy ===== *)
theory Bitchat_Identity
  imports Noise_Handshake Ed25519
begin

text \<open>
  \<^verbatim>\<open>src/bitchat/bitchat_identity.h\<close>: the bridge's own key pair, kept in flash, and the key
  pairs derived from it for Meshtastic users.  The flash store (NVS) is a parameter, a
  record of its operations; the stored blob is the 192 bytes of the C struct.  The
  properties: the identity survives a reboot, and a derived key pair is a well-formed
  function of the master key and the node id.
\<close>

section \<open>Key pairs\<close>

record keypair =
  noise_private :: bytes
  noise_public :: bytes
  sign_private :: bytes
  sign_public :: bytes
  fingerprint :: bytes

definition zero_keypair :: keypair where
  "zero_keypair = \<lparr>noise_private = replicate 32 0, noise_public = replicate 32 0,
     sign_private = replicate 64 0, sign_public = replicate 32 0, fingerprint = replicate 32 0\<rparr>"

text \<open>The struct as the bytes \<^verbatim>\<open>nvs_set_blob\<close> stores: arrays of bytes, so there is no padding.\<close>

definition keypair_bytes :: "keypair \<Rightarrow> bytes" where
  "keypair_bytes kp = noise_private kp @ noise_public kp @ sign_private kp @ sign_public kp @ fingerprint kp"

definition bytes_keypair :: "bytes \<Rightarrow> keypair" where
  "bytes_keypair b = \<lparr>noise_private = take 32 b, noise_public = take 32 (drop 32 b),
     sign_private = take 64 (drop 64 b), sign_public = take 32 (drop 128 b),
     fingerprint = take 32 (drop 160 b)\<rparr>"

definition keypair_wf :: "keypair \<Rightarrow> bool" where
  "keypair_wf kp \<longleftrightarrow> length (noise_private kp) = 32 \<and> length (noise_public kp) = 32 \<and>
     length (sign_private kp) = 64 \<and> length (sign_public kp) = 32 \<and> length (fingerprint kp) = 32"

section \<open>The bridge identity\<close>

datatype esp_err = ESP_OK | ESP_ERR_NVS_NO_FREE_PAGES | ESP_ERR_NVS_NEW_VERSION_FOUND | ESP_FAIL

text \<open>
  The NVS calls: initialise and erase the partition, open the namespace \<^verbatim>\<open>bc\<close>, read the
  blob \<^verbatim>\<open>kp\<close> into a buffer of \<open>n\<close> bytes (\<open>None\<close> for every result other than \<^verbatim>\<open>ESP_OK\<close>), write it, commit.
\<close>

record 'st kp_nvs =
  flash_init :: "'st \<Rightarrow> esp_err \<times> 'st"
  flash_erase :: "'st \<Rightarrow> 'st"
  kp_open :: "'st \<Rightarrow> bool"
  kp_get_blob :: "'st \<Rightarrow> nat \<Rightarrow> bytes option"
  kp_set_blob :: "bytes \<Rightarrow> 'st \<Rightarrow> 'st"
  kp_commit :: "'st \<Rightarrow> 'st"

definition init_flash :: "'st kp_nvs \<Rightarrow> 'st \<Rightarrow> esp_err \<times> 'st" where
  "init_flash nv st =
     (let (err, st) = flash_init nv st in
      if err = ESP_ERR_NVS_NO_FREE_PAGES \<or> err = ESP_ERR_NVS_NEW_VERSION_FOUND
      then flash_init nv (flash_erase nv st)
      else (err, st))"

text \<open>The blob is accepted when it was read and has the size of the struct.\<close>

definition load_keypair :: "'st kp_nvs \<Rightarrow> 'st \<Rightarrow> keypair option" where
  "load_keypair nv st =
     (if kp_open nv st then
        case kp_get_blob nv st 192 of
          Some b \<Rightarrow> if length b = 192 then Some (bytes_keypair b) else None
        | None \<Rightarrow> None
      else None)"

definition persist_keypair :: "'st kp_nvs \<Rightarrow> keypair \<Rightarrow> 'st \<Rightarrow> 'st" where
  "persist_keypair nv kp st =
     (if kp_open nv st then kp_commit nv (kp_set_blob nv (keypair_bytes kp) st) else st)"

text \<open>\<open>rnd\<close> and \<open>seed\<close> are what the random source returns; \<open>None\<close> is the return value false.\<close>

definition generate_keypair :: "crypto \<Rightarrow> bytes \<Rightarrow> bytes \<Rightarrow> keypair option" where
  "generate_keypair cr rnd seed =
     (case noise_gen_keypair cr rnd of
        Inl e \<Rightarrow> None
      | Inr (priv, pub) \<Rightarrow>
          let (spub, spriv) = ed25519_create_keypair cr seed in
          Some \<lparr>noise_private = priv, noise_public = pub, sign_private = spriv, sign_public = spub,
                fingerprint = noise_sha256 cr pub\<rparr>)"

definition bitchat_identity_init ::
  "'st kp_nvs \<Rightarrow> crypto \<Rightarrow> bytes \<Rightarrow> bytes \<Rightarrow> 'st \<Rightarrow> keypair option \<times> 'st" where
  "bitchat_identity_init nv cr rnd seed st =
     (let (err, st) = init_flash nv st;
          loaded = (if err \<noteq> ESP_OK then None else load_keypair nv st)
      in case loaded of
           Some kp \<Rightarrow> (Some kp, st)
         | None \<Rightarrow>
             (case generate_keypair cr rnd seed of
                None \<Rightarrow> (None, st)
              | Some kp \<Rightarrow> (Some kp, persist_keypair nv kp st)))"

definition bitchat_fingerprint_short :: "bytes \<Rightarrow> nat \<Rightarrow> bytes" where
  "bitchat_fingerprint_short fp out_len =
     snprintf out_len (hex2 (fp ! 0) @ hex2 (fp ! 1) @ hex2 (fp ! 2) @ hex2 (fp ! 3))"

section \<open>Virtual identities\<close>

definition VIRTUAL_ID_SALT :: bytes where
  "VIRTUAL_ID_SALT = ascii ''bitchat-virtual-id''"

definition derive_info :: "u32 \<Rightarrow> u8 \<Rightarrow> bytes" where
  "derive_info node_id purpose =
     [ucast (node_id AND 0xFF), ucast (drop_bit 8 node_id AND 0xFF),
      ucast (drop_bit 16 node_id AND 0xFF), ucast (drop_bit 24 node_id AND 0xFF), purpose]"

definition clamp_x25519 :: "bytes \<Rightarrow> bytes" where
  "clamp_x25519 k = k[0 := k ! 0 AND 248, 31 := (k ! 31 AND 127) OR 64]"

definition bitchat_derive_keypair :: "crypto \<Rightarrow> keypair \<Rightarrow> u32 \<Rightarrow> keypair option" where
  "bitchat_derive_keypair cr master node_id =
     (case mbedtls_hkdf (hmac_sha256 cr) (Some VIRTUAL_ID_SALT) (noise_private master) (Some (derive_info node_id 1)) 32 of
        Inl e \<Rightarrow> None
      | Inr noise_seed \<Rightarrow>
          let priv = clamp_x25519 noise_seed in
          case x25519 cr priv (x25519_base cr) of
            None \<Rightarrow> None
          | Some pub \<Rightarrow>
              case mbedtls_hkdf (hmac_sha256 cr) (Some VIRTUAL_ID_SALT) (noise_private master) (Some (derive_info node_id 2)) 32 of
                Inl e \<Rightarrow> None
              | Inr sign_seed \<Rightarrow>
                  let (spub, spriv) = ed25519_create_keypair cr sign_seed in
                  Some \<lparr>noise_private = priv, noise_public = pub, sign_private = spriv, sign_public = spub,
                        fingerprint = noise_sha256 cr pub\<rparr>)"

section \<open>Sizes\<close>

text \<open>What the identity relies on of the curve and of the digests: the sizes of their results.\<close>

definition crypto_sizes :: "crypto \<Rightarrow> bool" where
  "crypto_sizes cr \<longleftrightarrow> hmac_ok cr \<and> (\<forall>m. length (sha256 cr m) = 32) \<and>
     (\<forall>d u v. x25519 cr d u = Some v \<longrightarrow> length v = 32) \<and>
     (\<forall>r priv pub. ecdh_gen cr r = Some (priv, pub) \<longrightarrow> length priv = 32 \<and> length pub = 32)"

lemma length_ed_pack_point [simp]: "length (ed_pack_point p) = 32"
  by (simp add: ed_pack_point_def Let_def split: prod.splits)

lemma create_keypair_sizes:
  "length seed = 32 \<Longrightarrow> ed25519_create_keypair cr seed = (pk, sk) \<Longrightarrow>
   length pk = 32 \<and> sk = seed @ pk \<and> length sk = 64"
  by (auto simp: ed25519_create_keypair_def Let_def)

lemma bytes_keypair_bytes: "keypair_wf kp \<Longrightarrow> bytes_keypair (keypair_bytes kp) = kp"
  by (simp add: keypair_wf_def keypair_bytes_def bytes_keypair_def)

lemma length_keypair_bytes: "keypair_wf kp \<Longrightarrow> length (keypair_bytes kp) = 192"
  by (simp add: keypair_wf_def keypair_bytes_def)

lemma generate_keypair_wf:
  assumes "crypto_sizes cr" and "length seed = 32" and "generate_keypair cr rnd seed = Some kp"
  shows "keypair_wf kp"
  using assms by (auto simp: generate_keypair_def noise_gen_keypair_def noise_sha256_def crypto_sizes_def
      keypair_wf_def dest: create_keypair_sizes split: option.splits sum.splits prod.splits)

lemma bytes_keypair_wf: "length b = 192 \<Longrightarrow> keypair_wf (bytes_keypair b)"
  by (simp add: keypair_wf_def bytes_keypair_def)

lemma hkdf32:
  assumes "hmac_ok cr"
  shows "\<exists>okm. mbedtls_hkdf (hmac_sha256 cr) (Some salt) ikm info 32 = Inr okm \<and> length okm = 32"
proof -
  have "md_size (hmac_sha256 cr) = 32" "\<And>k m. length (md_hmac (hmac_sha256 cr) k m) = 32"
    using assms by (simp_all add: hmac_ok_def md_lawful_def)
  then show ?thesis
    by (auto simp: mbedtls_hkdf_def mbedtls_hkdf_extract_def mbedtls_hkdf_expand_def Let_def)
qed

lemma derive_info_put: "derive_info node_id purpose = put_u32_le node_id @ [purpose]"
proof -
  have "(ucast (w AND 0xFF) :: u8) = ucast (w :: u32)" for w
    by (rule bit_word_eqI) (auto simp: bit_simps bit_numeral_rec split: nat.splits)
  then show ?thesis by (simp add: derive_info_def put_u32_le_def)
qed

lemma derive_info_inj: "derive_info n p = derive_info n' p' \<longleftrightarrow> n = n' \<and> p = p'"
proof -
  have "put_u32_le n = put_u32_le n' \<longleftrightarrow> n = n'"
    by (metis get_put_u32_le)
  then show ?thesis by (auto simp: derive_info_put)
qed

section \<open>Properties\<close>

definition nvs_mounted :: "'st kp_nvs \<Rightarrow> 'st \<Rightarrow> bool" where
  "nvs_mounted nv st \<longleftrightarrow> flash_init nv st = (ESP_OK, st) \<and> kp_open nv st"

text \<open>
  The documented behaviour of NVS: initialising an initialised partition changes nothing,
  and a committed blob is read back by a buffer that is large enough.
\<close>

definition kp_nvs_lawful :: "'st kp_nvs \<Rightarrow> bool" where
  "kp_nvs_lawful nv \<longleftrightarrow>
     (\<forall>st s. flash_init nv st = (ESP_OK, s) \<longrightarrow> flash_init nv s = (ESP_OK, s)) \<and>
     (\<forall>st b. nvs_mounted nv st \<longrightarrow>
        nvs_mounted nv (kp_commit nv (kp_set_blob nv b st)) \<and>
        (\<forall>n \<ge> length b. kp_get_blob nv (kp_commit nv (kp_set_blob nv b st)) n = Some b))"

lemma identity_init_mounted:
  "nvs_mounted nv st \<Longrightarrow> load_keypair nv st = Some kp \<Longrightarrow> bitchat_identity_init nv cr rnd seed st = (Some kp, st)"
  by (simp add: bitchat_identity_init_def init_flash_def nvs_mounted_def)

lemma init_flash_mounted:
  "kp_nvs_lawful nv \<Longrightarrow> init_flash nv st = (ESP_OK, s) \<Longrightarrow> kp_open nv s \<Longrightarrow> nvs_mounted nv s"
  unfolding kp_nvs_lawful_def nvs_mounted_def init_flash_def
  by (auto simp: Let_def split: prod.splits if_splits)

lemma persist_then_load:
  assumes "kp_nvs_lawful nv" and "nvs_mounted nv st" and "keypair_wf kp"
  shows "nvs_mounted nv (persist_keypair nv kp st) \<and> load_keypair nv (persist_keypair nv kp st) = Some kp"
  using assms unfolding kp_nvs_lawful_def
  by (auto simp: persist_keypair_def load_keypair_def nvs_mounted_def bytes_keypair_bytes length_keypair_bytes)

text \<open>
  C31: the bridge keeps its identity across reboots.  When the flash works at the first
  start, every later start returns the key pair of the first one, whatever the random
  source returns then, and writes nothing.
\<close>

theorem identity_survives_reboot:
  assumes "kp_nvs_lawful nv" and "crypto_sizes cr" and "length seed = 32"
    and "init_flash nv st = (ESP_OK, s)" and "kp_open nv s"
    and "bitchat_identity_init nv cr rnd seed st = (Some kp, st')"
  shows "bitchat_identity_init nv cr' rnd' seed' st' = (Some kp, st')"
proof (cases "load_keypair nv s")
  case None
  then have g: "generate_keypair cr rnd seed = Some kp" and st': "st' = persist_keypair nv kp s"
    using assms(4,6) by (auto simp: bitchat_identity_init_def split: option.splits)
  have "keypair_wf kp" using generate_keypair_wf assms(2,3) g by blast
  then show ?thesis
    unfolding st' using persist_then_load init_flash_mounted assms(1,4,5) identity_init_mounted by metis
next
  case (Some k)
  then have "k = kp" "st' = s"
    using assms(4,6) by (auto simp: bitchat_identity_init_def)
  with Some show ?thesis
    using init_flash_mounted [OF assms(1,4,5)] identity_init_mounted by metis
qed

lemma clamp_bits:
  "((b :: u8) AND 248) AND 7 = 0" "((b AND 127) OR 64) AND 192 = 64"
proof -
  show "(b AND 248) AND 7 = 0"
    by (simp add: and.assoc)
  have "((b AND 127) OR 64) AND 192 = (b AND (127 AND 192)) OR (64 AND 192)"
    by (simp only: bit.conj_disj_distrib2 and.assoc)
  also have "\<dots> = (b AND 64) OR 64" by simp
  also have "\<dots> = 64" by (rule bit_word_eqI) (auto simp: bit_simps)
  finally show "((b AND 127) OR 64) AND 192 = 64" .
qed

lemma derive_keypair_result:
  assumes "crypto_sizes cr" and "\<And>d. length d = 32 \<Longrightarrow> x25519 cr d (x25519_base cr) \<noteq> None"
  shows "\<exists>kp. bitchat_derive_keypair cr master node_id = Some kp \<and> keypair_wf kp \<and>
    noise_private kp ! 0 AND 7 = 0 \<and> noise_private kp ! 31 AND 192 = 64 \<and>
    x25519 cr (noise_private kp) (x25519_base cr) = Some (noise_public kp) \<and>
    fingerprint kp = sha256 cr (noise_public kp) \<and>
    ed25519_create_keypair cr (take 32 (sign_private kp)) = (sign_public kp, sign_private kp) \<and>
    (\<forall>m. noise_private m = noise_private master \<longrightarrow> bitchat_derive_keypair cr m node_id = Some kp)"
proof -
  have ok: "hmac_ok cr" using assms(1) by (simp add: crypto_sizes_def)
  obtain ns ss where ns: "mbedtls_hkdf (hmac_sha256 cr) (Some VIRTUAL_ID_SALT) (noise_private master) (Some (derive_info node_id 1)) 32 = Inr ns"
      "length ns = 32"
    and ss: "mbedtls_hkdf (hmac_sha256 cr) (Some VIRTUAL_ID_SALT) (noise_private master) (Some (derive_info node_id 2)) 32 = Inr ss"
      "length ss = 32"
    using hkdf32 [OF ok] by metis
  have l: "length (clamp_x25519 ns) = 32" using ns(2) by (simp add: clamp_x25519_def)
  obtain pub where pub: "x25519 cr (clamp_x25519 ns) (x25519_base cr) = Some pub"
    using assms(2) [OF l] by blast
  obtain pk sk where ed: "ed25519_create_keypair cr ss = (pk, sk)" by fastforce
  note edl = create_keypair_sizes [OF ss(2) ed]
  have "clamp_x25519 ns ! 0 AND 7 = 0" "clamp_x25519 ns ! 31 AND 192 = 64"
    using ns(2) by (simp_all add: clamp_x25519_def clamp_bits)
  then show ?thesis
    using ns(1) ss pub ed edl l assms(1)
    by (auto simp: bitchat_derive_keypair_def keypair_wf_def crypto_sizes_def noise_sha256_def)
qed

text \<open>
  C32: a virtual identity is a well-formed function of the master's private key and the node
  id: the derived Curve25519 key is clamped as RFC 7748 asks, the public key is its multiple
  of the base point, the fingerprint is the digest of the public key, and the signing key
  holds its seed and its public key; other fields of the master play no part.
\<close>

theorem derive_keypair_correct:
  assumes "crypto_sizes cr" and "\<And>d. length d = 32 \<Longrightarrow> x25519 cr d (x25519_base cr) \<noteq> None"
  shows "\<exists>kp. bitchat_derive_keypair cr master node_id = Some kp \<and> keypair_wf kp \<and>
    noise_private kp ! 0 AND 7 = 0 \<and> noise_private kp ! 31 AND 192 = 64 \<and>
    x25519 cr (noise_private kp) (x25519_base cr) = Some (noise_public kp) \<and>
    fingerprint kp = sha256 cr (noise_public kp) \<and>
    ed25519_create_keypair cr (take 32 (sign_private kp)) = (sign_public kp, sign_private kp) \<and>
    (\<forall>m. noise_private m = noise_private master \<longrightarrow> bitchat_derive_keypair cr m node_id = Some kp)"
  using assms by (rule derive_keypair_result)

text \<open>A flash cell and a crypto library of the right sizes.\<close>

definition cell_kp_nvs :: "bytes option kp_nvs" where
  "cell_kp_nvs = \<lparr>flash_init = (\<lambda>st. (ESP_OK, st)), flash_erase = (\<lambda>_. None), kp_open = (\<lambda>_. True),
     kp_get_blob = (\<lambda>st n. case st of Some b \<Rightarrow> if length b \<le> n then Some b else None | None \<Rightarrow> None),
     kp_set_blob = (\<lambda>b _. Some b), kp_commit = (\<lambda>st. st)\<rparr>"

definition sized_crypto :: crypto where
  "sized_crypto = xor_crypto\<lparr>x25519 := (\<lambda>d u. Some (take 32 (d @ replicate 32 9))),
     ecdh_gen := (\<lambda>r. Some (take 32 (r @ replicate 32 0), take 32 (r @ replicate 32 0)))\<rparr>"

lemma sized_crypto_sizes: "crypto_sizes sized_crypto"
  using xor_crypto_hmac by (auto simp: crypto_sizes_def sized_crypto_def xor_crypto_def hmac_ok_def min_def)

lemma cell_kp_nvs_lawful: "kp_nvs_lawful cell_kp_nvs"
  by (simp add: kp_nvs_lawful_def cell_kp_nvs_def nvs_mounted_def)

lemma sized_crypto_derives: "\<exists>kp. bitchat_derive_keypair sized_crypto master node_id = Some kp"
proof -
  have "x25519 sized_crypto d (x25519_base sized_crypto) \<noteq> None" for d by (simp add: sized_crypto_def)
  with derive_keypair_result [OF sized_crypto_sizes, of master node_id] show ?thesis by blast
qed

theorem identity_survives_reboot_witness:
  "\<exists>kp st'. bitchat_identity_init cell_kp_nvs sized_crypto [1] (replicate 32 5) None = (Some kp, st') \<and>
     bitchat_identity_init cell_kp_nvs sized_crypto [2] (replicate 32 6) st' = (Some kp, st')"
proof -
  obtain kp st' where "bitchat_identity_init cell_kp_nvs sized_crypto [1] (replicate 32 5) None = (Some kp, st')"
    by (simp add: bitchat_identity_init_def init_flash_def load_keypair_def generate_keypair_def
        noise_gen_keypair_def cell_kp_nvs_def sized_crypto_def split_beta Let_def)
  with identity_survives_reboot [OF cell_kp_nvs_lawful sized_crypto_sizes length_replicate _ _ this]
  show ?thesis by (simp add: init_flash_def cell_kp_nvs_def)
qed

theorem derive_keypair_correct_witness:
  "\<exists>kp. bitchat_derive_keypair sized_crypto zero_keypair 7 = Some kp \<and> keypair_wf kp \<and> noise_private kp ! 0 AND 7 = 0"
  using derive_keypair_correct [OF sized_crypto_sizes, of zero_keypair 7] by (auto simp: sized_crypto_def)

end
