(* ===== verification/Ble_Packet.thy ===== *)
theory Ble_Packet
  imports Bitchat_Identity Time_Util
begin

text \<open>
  The wire format of \<^verbatim>\<open>src/bitchat/bitchat_ble.cpp\<close>: type-length-value fields, padding, packet
  headers and signatures, and the hash of the relay cache.  A buffer and its length are
  the list of its bytes.  The properties are round trips, and where padding does not come off.
\<close>

section \<open>Constants\<close>

definition BITCHAT_MAX_HOPS :: u8 where "BITCHAT_MAX_HOPS = 7"
definition BITCHAT_HEADER_V1_LEN :: nat where "BITCHAT_HEADER_V1_LEN = 14"
definition BITCHAT_HEADER_V2_LEN :: nat where "BITCHAT_HEADER_V2_LEN = 16"
definition BITCHAT_HEADER_LEN :: nat where "BITCHAT_HEADER_LEN = 14"
definition BITCHAT_SENDER_ID_LEN :: nat where "BITCHAT_SENDER_ID_LEN = 8"
definition BITCHAT_PKT_ANNOUNCE :: u8 where "BITCHAT_PKT_ANNOUNCE = 0x01"
definition BITCHAT_PKT_MESSAGE :: u8 where "BITCHAT_PKT_MESSAGE = 0x02"
definition BITCHAT_PKT_LEAVE :: u8 where "BITCHAT_PKT_LEAVE = 0x03"
definition BITCHAT_PKT_NOISE_HANDSHAKE :: u8 where "BITCHAT_PKT_NOISE_HANDSHAKE = 0x10"
definition BITCHAT_PKT_NOISE_ENCRYPTED :: u8 where "BITCHAT_PKT_NOISE_ENCRYPTED = 0x11"
definition BITCHAT_PKT_FRAGMENT :: u8 where "BITCHAT_PKT_FRAGMENT = 0x20"
definition BITCHAT_PKT_REQUEST_SYNC :: u8 where "BITCHAT_PKT_REQUEST_SYNC = 0x21"
definition BITCHAT_FLAG_HAS_RECIPIENT :: u8 where "BITCHAT_FLAG_HAS_RECIPIENT = 0x01"
definition BITCHAT_FLAG_HAS_SIGNATURE :: u8 where "BITCHAT_FLAG_HAS_SIGNATURE = 0x02"

lemmas pkt_types = BITCHAT_PKT_ANNOUNCE_def BITCHAT_PKT_MESSAGE_def BITCHAT_PKT_LEAVE_def
  BITCHAT_PKT_NOISE_HANDSHAKE_def BITCHAT_PKT_NOISE_ENCRYPTED_def BITCHAT_PKT_FRAGMENT_def BITCHAT_PKT_REQUEST_SYNC_def

lemmas pkt_consts = BITCHAT_MAX_HOPS_def BITCHAT_HEADER_V1_LEN_def BITCHAT_HEADER_V2_LEN_def BITCHAT_HEADER_LEN_def
  BITCHAT_SENDER_ID_LEN_def BITCHAT_FLAG_HAS_RECIPIENT_def BITCHAT_FLAG_HAS_SIGNATURE_def

section \<open>Type-length-value fields\<close>

text \<open>The length byte is the length of the value, at most 255 in every call.\<close>

definition tlv_encode :: "u8 \<Rightarrow> bytes \<Rightarrow> bytes" where
  "tlv_encode ty v = ty # of_nat (length v) # v"

function tlv_find :: "bytes \<Rightarrow> u8 \<Rightarrow> bytes option" where
  "tlv_find (t # l # rest) ty =
     (if unat l > length rest then None
      else if t = ty then Some (take (unat l) rest)
      else tlv_find (drop (unat l) rest) ty)"
| "tlv_find [] ty = None"
| "tlv_find [t] ty = None"
  by pat_completeness auto
termination by (relation "measure (\<lambda>(b, _). length b)") auto

section \<open>Padding\<close>

definition pad_target :: "nat \<Rightarrow> nat" where
  "pad_target data_len =
     (if data_len \<le> 256 then 256 else if data_len \<le> 512 then 512 else if data_len \<le> 1024 then 1024 else 2048)"

definition pad_packet :: "nat \<Rightarrow> bytes \<Rightarrow> bytes" where
  "pad_packet buf_size data =
     (let target = (if pad_target (length data) > buf_size then buf_size else pad_target (length data)) in
      if target \<le> length data then data
      else data @ replicate (target - length data) (of_nat (target - length data)))"

definition unpad_packet :: "bytes \<Rightarrow> bytes" where
  "unpad_packet buf =
     (if buf = [] then []
      else
        let pv = last buf; len = length buf in
        if pv = 0 \<or> unat pv > len then buf
        else if list_all (\<lambda>b. b = pv) (drop (len - unat pv) buf) then take (len - unat pv) buf
        else buf)"

section \<open>Packets\<close>

definition packet_header :: "u8 \<Rightarrow> u8 \<Rightarrow> u64 \<Rightarrow> nat \<Rightarrow> bytes" where
  "packet_header ty flags ts payload_len =
     [0x01, ty, BITCHAT_MAX_HOPS] @ put_u64_be ts @ [flags] @ put_u16_be (of_nat payload_len)"

definition packet_body :: "keypair \<Rightarrow> u8 \<Rightarrow> u8 \<Rightarrow> u64 \<Rightarrow> bytes \<Rightarrow> bytes" where
  "packet_body kp ty flags ts payload =
     packet_header ty flags ts (length payload) @ take BITCHAT_SENDER_ID_LEN (fingerprint kp) @ payload"

text \<open>The signature covers everything before it.\<close>

definition signed_packet :: "crypto \<Rightarrow> keypair \<Rightarrow> u8 \<Rightarrow> u8 \<Rightarrow> u64 \<Rightarrow> bytes \<Rightarrow> bytes" where
  "signed_packet cr kp ty flags ts payload =
     (let body = packet_body kp ty (flags OR BITCHAT_FLAG_HAS_SIGNATURE) ts payload
      in body @ ed25519_sign cr body (sign_private kp))"

section \<open>Parsing\<close>

record parsed_header =
  ph_type :: u8
  ph_ttl :: u8
  ph_flags :: u8
  ph_header_len :: nat
  ph_payload_len :: u32
  ph_offset :: nat  \<comment> \<open>where the payload begins\<close>

text \<open>\<open>None\<close> for a packet that is too short for its header and the sender id.\<close>

definition parse_header :: "bytes \<Rightarrow> parsed_header option" where
  "parse_header pkt =
     (if length pkt < 2 then None
      else
        let v2 = (pkt ! 0 \<ge> 0x02);
            header_len = (if v2 then BITCHAT_HEADER_V2_LEN else BITCHAT_HEADER_V1_LEN)
        in if length pkt < header_len + BITCHAT_SENDER_ID_LEN then None
           else
             let flags = pkt ! 11;
                 payload_len = (if v2 then get_u32_be (drop 12 pkt)
                                else push_bit 8 (ucast (pkt ! 12)) OR ucast (pkt ! 13))
             in Some \<lparr>ph_type = pkt ! 1, ph_ttl = pkt ! 2, ph_flags = flags, ph_header_len = header_len,
                      ph_payload_len = payload_len,
                      ph_offset = header_len + BITCHAT_SENDER_ID_LEN +
                                  (if flags AND BITCHAT_FLAG_HAS_RECIPIENT \<noteq> 0 then 8 else 0)\<rparr>)"

definition packet_timestamp_sec :: "bytes \<Rightarrow> u32" where
  "packet_timestamp_sec pkt =
     ucast (foldl (\<lambda>ts i. push_bit 8 ts OR ucast (pkt ! (3 + i))) (0 :: u64) [0..<8] div 1000)"

section \<open>The relay hash\<close>

definition relay_mix :: "u32 \<Rightarrow> u8 \<Rightarrow> u32" where
  "relay_mix h b = (push_bit 5 h + h) + ucast b"

definition relay_hash :: "bytes \<Rightarrow> u32" where
  "relay_hash pkt = foldl relay_mix 5381 (take 2 pkt @ drop 3 pkt)"

section \<open>Round trips\<close>

lemma tlv_find_here: "length v \<le> 255 \<Longrightarrow> tlv_find (tlv_encode ty v @ rest) ty = Some v"
  by (simp add: tlv_encode_def unat_of_nat)

lemma tlv_find_skip: "length v \<le> 255 \<Longrightarrow> ty \<noteq> ty' \<Longrightarrow> tlv_find (tlv_encode ty v @ rest) ty' = tlv_find rest ty'"
  by (simp add: tlv_encode_def unat_of_nat)

lemma tlv_find_short: "tlv_find b ty = Some v \<Longrightarrow> length v \<le> 255 \<and> length v + 2 \<le> length b \<and> set v \<subseteq> set b"
proof (induction b ty rule: tlv_find.induct)
  case (1 t l rest ty)
  have "unat l < 2 ^ LENGTH(8)" by (rule unsigned_less)
  then have l: "unat l \<le> 255" by simp
  show ?case
  proof (cases "unat l > length rest \<or> t = ty")
    case True
    with "1.prems" l show ?thesis by (auto split: if_splits dest: in_set_takeD)
  next
    case False
    then have "length v \<le> 255 \<and> length v + 2 \<le> length (drop (unat l) rest) \<and> set v \<subseteq> set (drop (unat l) rest)"
      using "1.IH" "1.prems" by auto
    then show ?thesis using set_drop_subset [of "unat l" rest] by auto
  qed
qed simp_all

lemma unpad_pad:
  assumes "0 < length data" and "length data < pad_target (length data)" and "length data < 512"
    and "pad_target (length data) \<le> buf_size"
  shows "unpad_packet (pad_packet buf_size data) = data"
proof -
  define n where "n = pad_target (length data) - length data"
  have "n + length data = pad_target (length data)" using assms(2) by (simp add: n_def)
  then have n: "0 < n" "n \<le> 255" using assms(1-3) by (simp_all add: pad_target_def split: if_splits del: length_greater_0_conv)
  then have u: "unat (of_nat n :: u8) = n" by (simp add: unat_of_nat)
  have p: "pad_packet buf_size data = data @ replicate n (of_nat n)"
    using assms(2,4) by (simp add: pad_packet_def n_def Let_def)
  have "last (data @ replicate n (of_nat n)) = (of_nat n :: u8)" using n(1) by simp
  moreover have "(of_nat n :: u8) \<noteq> 0" using u n(1) by (metis unat_0 less_numeral_extra(3))
  ultimately show ?thesis
    using n u by (simp add: p unpad_packet_def list_all_iff)
qed

lemma length_ed25519_sign [simp]: "length (ed25519_sign cr msg sk) = 64"
  by (simp add: ed25519_sign_def ed_reduce_def Let_def split_beta)

lemma length_packet_header [simp]: "length (packet_header ty flags ts n) = 14"
  by (simp add: packet_header_def)

lemma length_signed_packet:
  "length (fingerprint kp) = 32 \<Longrightarrow> length (signed_packet cr kp ty flags ts payload) = 86 + length payload"
  by (simp add: signed_packet_def packet_body_def Let_def pkt_consts)

lemma put_u16_be_value:
  assumes "n < 65536"
  shows "(push_bit 8 (ucast (put_u16_be (of_nat n) ! 0)) OR ucast (put_u16_be (of_nat n) ! 1) :: u32) = of_nat n"
proof -
  define w :: u16 where "w = of_nat n"
  have "push_bit 8 (ucast (ucast (drop_bit 8 w) :: u8)) OR ucast (ucast (w AND 0xFF) :: u8) = (ucast w :: u32)"
  proof (rule bit_word_eqI)
    fix k assume "k < LENGTH(32)"
    have m: "(0xFF :: u16) = mask 8" by (simp add: mask_eq_exp_minus_1)
    show "bit (push_bit 8 (ucast (ucast (drop_bit 8 w) :: u8)) OR ucast (ucast (w AND 0xFF) :: u8) :: u32) k = bit (ucast w :: u32) k"
      unfolding m using \<open>k < LENGTH(32)\<close>
      by (cases "k < 8") (auto simp: bit_simps bit_mask_iff dest: bit_imp_le_length)
  qed
  moreover have "(ucast w :: u32) = of_nat n"
    using assms by (simp add: w_def unsigned_of_nat take_bit_nat_eq_self)
  ultimately show ?thesis by (simp add: put_u16_be_def w_def)
qed

text \<open>What the receiver reads of a packet the sender built.\<close>

lemma parse_signed_packet:
  assumes "length (fingerprint kp) = 32" and "length payload < 65536" and "flags AND BITCHAT_FLAG_HAS_RECIPIENT = 0"
  shows "parse_header (signed_packet cr kp ty flags ts payload) =
    Some \<lparr>ph_type = ty, ph_ttl = BITCHAT_MAX_HOPS, ph_flags = flags OR BITCHAT_FLAG_HAS_SIGNATURE, ph_header_len = 14,
          ph_payload_len = of_nat (length payload), ph_offset = 22\<rparr>"
proof -
  let ?f = "flags OR BITCHAT_FLAG_HAS_SIGNATURE" and ?n = "length payload"
  let ?p = "signed_packet cr kp ty flags ts payload"
  obtain rest where p: "?p = packet_header ty ?f ts ?n @ rest" by (simp add: signed_packet_def packet_body_def Let_def)
  have h: "packet_header ty ?f ts ?n = [0x01, ty, BITCHAT_MAX_HOPS] @ put_u64_be ts @ [?f] @ put_u16_be (of_nat ?n)"
    by (simp add: packet_header_def)
  have "?p ! 0 = 0x01" "?p ! 1 = ty" "?p ! 2 = BITCHAT_MAX_HOPS" "?p ! 11 = ?f"
      "?p ! 12 = put_u16_be (of_nat ?n) ! 0" "?p ! 13 = put_u16_be (of_nat ?n) ! 1"
    unfolding p h by (simp_all add: nth_append nth_Cons')
  moreover have "?f AND BITCHAT_FLAG_HAS_RECIPIENT = 0"
  proof -
    have "?f AND BITCHAT_FLAG_HAS_RECIPIENT =
        (flags AND BITCHAT_FLAG_HAS_RECIPIENT) OR (BITCHAT_FLAG_HAS_SIGNATURE AND BITCHAT_FLAG_HAS_RECIPIENT)"
      by (rule bit.conj_disj_distrib2)
    also have "\<dots> = 0" using assms(3) by (simp add: pkt_consts)
    finally show ?thesis .
  qed
  moreover have "length ?p = 86 + ?n" using length_signed_packet [OF assms(1)] .
  moreover have "\<not> (2 :: u8) \<le> 1" by (simp add: word_le_nat_alt)
  ultimately show ?thesis
    using put_u16_be_value [OF assms(2)] by (simp add: parse_header_def pkt_consts Let_def)
qed

text \<open>
  C15: what the transport sends it can receive.  A signed and padded packet whose length before
  padding is below 512 and not exactly 256 comes out of the padding unchanged, and parses
  to the same type, sender, payload and signature.
\<close>

theorem packet_roundtrip:
  assumes "length (fingerprint kp) = 32" and "length payload \<le> 425" and "length payload \<noteq> 170"
  shows "let p = unpad_packet (pad_packet 2048 (signed_packet cr kp ty 0 ts payload)); n = length payload in
    parse_header p =
      Some \<lparr>ph_type = ty, ph_ttl = BITCHAT_MAX_HOPS, ph_flags = BITCHAT_FLAG_HAS_SIGNATURE, ph_header_len = 14,
            ph_payload_len = of_nat n, ph_offset = 22\<rparr> \<and>
    take 8 (drop 14 p) = take 8 (fingerprint kp) \<and> take n (drop 22 p) = payload \<and> length p = 22 + n + 64 \<and>
    drop (22 + n) p = ed25519_sign cr (take (22 + n) p) (sign_private kp)"
proof -
  let ?p = "signed_packet cr kp ty 0 ts payload" and ?b = "packet_body kp ty BITCHAT_FLAG_HAS_SIGNATURE ts payload"
  have l: "length ?p = 86 + length payload" by (rule length_signed_packet [OF assms(1)])
  have "unpad_packet (pad_packet 2048 ?p) = ?p"
    using assms(2,3) l by (intro unpad_pad) (auto simp: pad_target_def)
  moreover have "?p = ?b @ ed25519_sign cr ?b (sign_private kp)" by (simp add: signed_packet_def Let_def)
  moreover have "length ?b = 22 + length payload" using assms(1) by (simp add: packet_body_def pkt_consts)
  moreover have "take 8 (drop 14 ?b) = take 8 (fingerprint kp)" "drop 22 ?b = payload"
    using assms(1) by (simp_all add: packet_body_def pkt_consts)
  moreover have "parse_header ?p = Some \<lparr>ph_type = ty, ph_ttl = BITCHAT_MAX_HOPS, ph_flags = BITCHAT_FLAG_HAS_SIGNATURE,
      ph_header_len = 14, ph_payload_len = of_nat (length payload), ph_offset = 22\<rparr>"
    using parse_signed_packet [OF assms(1), of payload 0 cr ty ts] assms(2) by simp
  ultimately show ?thesis by (simp add: Let_def)
qed

text \<open>
  A packet that is sent without padding loses its last byte at the receiver when that byte
  is 1: the receiver takes it for one byte of padding.
\<close>

lemma unpad_last_one: "unpad_packet (pkt @ [1]) = pkt"
  by (simp add: unpad_packet_def)

text \<open>The hash ignores the hop count, so that a packet is recognised on its later hops.\<close>

lemma relay_hash_ttl: "relay_hash (pkt[2 := t]) = relay_hash pkt"
  by (simp add: relay_hash_def)

theorem packet_roundtrip_witness:
  "length (unpad_packet (pad_packet 2048 (signed_packet sized_crypto zero_keypair 2 0 5 [5, 2, 104, 105]))) = 90"
  using packet_roundtrip [of zero_keypair "[5, 2, 104, 105]" sized_crypto 2 5] by (simp add: zero_keypair_def Let_def)

end
