(* ===== verification/Ble_Fragments.thy ===== *)
theory Ble_Fragments
  imports Ble_Packet
begin

text \<open>
  Fragmentation in \<^verbatim>\<open>src/bitchat/bitchat_ble.cpp\<close>: splitting an oversized packet into fragment
  packets, and reassembling incoming fragments in four slots.  An assembled packet is
  returned, for the caller to put into the receive ring.  Reassembly is correct for
  fragments in any order, but the sender cuts larger pieces than the receiver accepts.
\<close>

definition BITCHAT_BLE_MTU :: nat where "BITCHAT_BLE_MTU = 512"
definition BITCHAT_FRAG_HEADER_LEN :: nat where "BITCHAT_FRAG_HEADER_LEN = 6"
definition BITCHAT_MAX_FRAGMENTS :: nat where "BITCHAT_MAX_FRAGMENTS = 8"
definition BITCHAT_FRAG_REASSEMBLY :: nat where "BITCHAT_FRAG_REASSEMBLY = 4"
definition BITCHAT_FRAG_TIMEOUT_MS :: u32 where "BITCHAT_FRAG_TIMEOUT_MS = 10000"

lemmas frag_consts = BITCHAT_BLE_MTU_def BITCHAT_FRAG_HEADER_LEN_def BITCHAT_MAX_FRAGMENTS_def
  BITCHAT_FRAG_REASSEMBLY_def

section \<open>Sending\<close>

definition send_max_chunk :: nat where
  "send_max_chunk =
     (let m = BITCHAT_BLE_MTU - BITCHAT_HEADER_LEN - BITCHAT_SENDER_ID_LEN - BITCHAT_FRAG_HEADER_LEN - 64 - 64
      in if m < 64 then 64 else m)"

definition fragment_payload :: "u32 \<Rightarrow> nat \<Rightarrow> nat \<Rightarrow> bytes \<Rightarrow> bytes" where
  "fragment_payload msg_id i cnt chunk = put_u32_be msg_id @ [of_nat i, of_nat cnt] @ chunk"

text \<open>The payloads of the fragments; none when the packet needs more than eight.\<close>

definition fragment_payloads :: "u32 \<Rightarrow> bytes \<Rightarrow> bytes list" where
  "fragment_payloads msg_id pkt =
     (let cnt = (length pkt + send_max_chunk - 1) div send_max_chunk in
      if cnt > BITCHAT_MAX_FRAGMENTS then []
      else map (\<lambda>i. fragment_payload msg_id i cnt (take send_max_chunk (drop (i * send_max_chunk) pkt))) [0..<cnt])"

definition send_fragmented :: "crypto \<Rightarrow> keypair \<Rightarrow> u64 \<Rightarrow> u32 \<Rightarrow> bytes \<Rightarrow> bytes list" where
  "send_fragmented cr kp ts msg_id pkt =
     map (\<lambda>payload. pad_packet 2048 (signed_packet cr kp BITCHAT_PKT_FRAGMENT 0 ts payload)) (fragment_payloads msg_id pkt)"

section \<open>Reassembly\<close>

record frag_slot =
  fs_active :: bool
  fs_msg_id :: u32
  fs_conn :: u16
  fs_total :: u8
  fs_mask :: u8
  fs_start_ms :: u32
  fs_data :: bytes        \<comment> \<open>2048 bytes\<close>
  fs_offsets :: "nat list"
  fs_lengths :: "nat list"

definition empty_slot :: frag_slot where
  "empty_slot = \<lparr>fs_active = False, fs_msg_id = 0, fs_conn = 0, fs_total = 0, fs_mask = 0, fs_start_ms = 0,
     fs_data = replicate 2048 0, fs_offsets = replicate BITCHAT_MAX_FRAGMENTS 0, fs_lengths = replicate BITCHAT_MAX_FRAGMENTS 0\<rparr>"

definition stage_size :: nat where "stage_size = 2048 div BITCHAT_MAX_FRAGMENTS"

definition expire_slot :: "u32 \<Rightarrow> frag_slot \<Rightarrow> frag_slot" where
  "expire_slot now s = (if fs_active s \<and> now - fs_start_ms s > BITCHAT_FRAG_TIMEOUT_MS then s\<lparr>fs_active := False\<rparr> else s)"

definition slot_for :: "frag_slot list \<Rightarrow> u32 \<Rightarrow> u16 \<Rightarrow> nat option" where
  "slot_for slots msg_id conn =
     find (\<lambda>k. fs_active (slots ! k) \<and> fs_msg_id (slots ! k) = msg_id \<and> fs_conn (slots ! k) = conn) [0..<length slots]"

definition free_slot :: "frag_slot list \<Rightarrow> nat option" where
  "free_slot slots = find (\<lambda>k. \<not> fs_active (slots ! k)) [0..<length slots]"

definition claim_slot :: "u32 \<Rightarrow> u32 \<Rightarrow> u16 \<Rightarrow> u8 \<Rightarrow> frag_slot \<Rightarrow> frag_slot" where
  "claim_slot now msg_id conn cnt s =
     (if fs_active s then s
      else empty_slot\<lparr>fs_active := True, fs_msg_id := msg_id, fs_conn := conn, fs_total := cnt, fs_start_ms := now\<rparr>)"

definition write_at :: "bytes \<Rightarrow> nat \<Rightarrow> bytes \<Rightarrow> bytes" where
  "write_at data off chunk = take off data @ chunk @ drop (off + length chunk) data"

definition store_fragment :: "nat \<Rightarrow> bytes \<Rightarrow> frag_slot \<Rightarrow> frag_slot" where
  "store_fragment i chunk s =
     (if bit (fs_mask s) i then s
      else
        let off = i * stage_size in
        if off + length chunk \<le> 2048
        then s\<lparr>fs_data := write_at (fs_data s) off chunk, fs_offsets := (fs_offsets s)[i := off],
               fs_lengths := (fs_lengths s)[i := length chunk], fs_mask := fs_mask s OR push_bit i 1\<rparr>
        else s)"

text \<open>Appending fragment \<open>i\<close>, where it still fits the assembly buffer.\<close>

definition append_fragment :: "frag_slot \<Rightarrow> bytes \<Rightarrow> nat \<Rightarrow> bytes" where
  "append_fragment s acc i =
     (if length acc + fs_lengths s ! i \<le> 2048
      then acc @ take (fs_lengths s ! i) (drop (fs_offsets s ! i) (fs_data s)) else acc)"

definition assemble :: "frag_slot \<Rightarrow> nat \<Rightarrow> bytes" where
  "assemble s cnt = foldl (append_fragment s) [] [0..<cnt]"

text \<open>The slot of the fragment is found, or a free one is claimed; then the fragment is stored.\<close>

definition place_fragment ::
  "u32 \<Rightarrow> frag_slot list \<Rightarrow> u32 \<Rightarrow> u16 \<Rightarrow> u8 \<Rightarrow> nat \<Rightarrow> bytes \<Rightarrow> frag_slot list \<times> nat option" where
  "place_fragment now slots msg_id conn cnt i chunk =
     (let (slots, k) = (case slot_for slots msg_id conn of
                          Some k \<Rightarrow> (slots, Some k)
                        | None \<Rightarrow> let slots = map (expire_slot now) slots in (slots, free_slot slots))
      in case k of
           None \<Rightarrow> (slots, None)
         | Some k \<Rightarrow> (slots[k := store_fragment i chunk (claim_slot now msg_id conn cnt (slots ! k))], Some k))"

definition handle_fragment :: "u32 \<Rightarrow> frag_slot list \<Rightarrow> bytes \<Rightarrow> u16 \<Rightarrow> frag_slot list \<times> bytes option" where
  "handle_fragment now slots payload conn =
     (if length payload < BITCHAT_FRAG_HEADER_LEN then (slots, None)
      else
        let msg_id = get_u32_be payload; i = unat (payload ! 4); cnt = unat (payload ! 5);
            chunk = drop BITCHAT_FRAG_HEADER_LEN payload
        in if cnt = 0 \<or> i \<ge> cnt \<or> cnt > BITCHAT_MAX_FRAGMENTS then (slots, None)
           else if length chunk > stage_size \<or> chunk = [] then (slots, None)
           else case place_fragment now slots msg_id conn (payload ! 5) i chunk of
             (slots, None) \<Rightarrow> (slots, None)
           | (slots, Some k) \<Rightarrow>
               if fs_mask (slots ! k) = of_nat (2 ^ cnt - 1)
               then (slots[k := (slots ! k)\<lparr>fs_active := False\<rparr>], Some (assemble (slots ! k) cnt))
               else (slots, None))"

section \<open>Fragments of the sender\<close>

lemma send_max_chunk_value: "send_max_chunk = 356"
  by (simp add: send_max_chunk_def frag_consts pkt_consts)

lemma stage_size_value: "stage_size = 256"
  by (simp add: stage_size_def BITCHAT_MAX_FRAGMENTS_def)

lemma length_fragment_payload: "length (fragment_payload msg_id i cnt chunk) = 6 + length chunk"
  by (simp add: fragment_payload_def)

lemma fragment_payload_parts:
  "get_u32_be (fragment_payload msg_id i cnt chunk) = msg_id" "fragment_payload msg_id i cnt chunk ! 4 = of_nat i"
  "fragment_payload msg_id i cnt chunk ! 5 = of_nat cnt" "drop 6 (fragment_payload msg_id i cnt chunk) = chunk"
  by (simp_all add: fragment_payload_def nth_append)

lemma big_chunk_rejected: "256 < length chunk \<Longrightarrow> handle_fragment now slots (fragment_payload msg_id i cnt chunk) conn = (slots, None)"
  by (simp add: handle_fragment_def length_fragment_payload fragment_payload_parts BITCHAT_FRAG_HEADER_LEN_def stage_size_value Let_def)

lemma length_pad_512: "256 < length d \<Longrightarrow> length d \<le> 512 \<Longrightarrow> length (pad_packet 2048 d) = 512"
  by (simp add: pad_packet_def pad_target_def)


section \<open>Fragments of other senders\<close>

text \<open>The fragments of one packet arriving in the given order, and the packets they complete.\<close>

fun receive_fragments :: "u16 \<Rightarrow> frag_slot list \<Rightarrow> (u32 \<times> bytes) list \<Rightarrow> frag_slot list \<times> bytes list" where
  "receive_fragments conn slots [] = (slots, [])"
| "receive_fragments conn slots ((now, payload) # rest) =
     (let (slots', r) = handle_fragment now slots payload conn;
          (slots'', rs) = receive_fragments conn slots' rest
      in (slots'', (case r of None \<Rightarrow> rs | Some pkt \<Rightarrow> pkt # rs)))"

lemma length_write_at: "off + length c \<le> length d \<Longrightarrow> length (write_at d off c) = length d"
  by (simp add: write_at_def)

lemma write_at_here: "off + length c \<le> length d \<Longrightarrow> take (length c) (drop off (write_at d off c)) = c"
  by (simp add: write_at_def)

lemma write_at_other:
  assumes "off' + l \<le> off \<or> off + length c \<le> off'" and "off + length c \<le> length d"
  shows "take l (drop off' (write_at d off c)) = take l (drop off' d)"
  using assms(1)
proof
  assume "off' + l \<le> off"
  then show ?thesis using assms(2) by (simp add: write_at_def take_drop min_def)
next
  assume "off + length c \<le> off'"
  then show ?thesis using assms(2) by (simp add: write_at_def)
qed

text \<open>Slot \<open>s\<close> holds the chunks of \<open>cs\<close> with an index in \<open>S\<close>, each in its region.\<close>

definition holds_chunks :: "bytes list \<Rightarrow> nat set \<Rightarrow> frag_slot \<Rightarrow> bool" where
  "holds_chunks cs S s \<longleftrightarrow> fs_active s \<and> length (fs_data s) = 2048 \<and> length (fs_offsets s) = 8 \<and> length (fs_lengths s) = 8 \<and>
     (\<forall>i<8. bit (fs_mask s) i \<longleftrightarrow> i \<in> S) \<and>
     (\<forall>i\<in>S. i < 8 \<and> fs_offsets s ! i = i * 256 \<and> fs_lengths s ! i = length (cs ! i) \<and>
        take (length (cs ! i)) (drop (i * 256) (fs_data s)) = cs ! i)"

lemma holds_claimed: "\<not> fs_active s \<Longrightarrow> holds_chunks cs {} (claim_slot now msg_id conn cnt s)"
  by (simp add: holds_chunks_def claim_slot_def empty_slot_def BITCHAT_MAX_FRAGMENTS_def)

lemma holds_active: "holds_chunks cs S s \<Longrightarrow> fs_active s \<and> claim_slot now msg_id conn cnt s = s"
  by (simp add: holds_chunks_def claim_slot_def)

lemma holds_store:
  assumes h: "holds_chunks cs S s" and i: "i < 8" "i \<notin> S" and sizes: "list_all (\<lambda>c. length c \<le> 256) cs" "S \<subseteq> {..<length cs}" "i < length cs"
  shows "holds_chunks cs (insert i S) (store_fragment i (cs ! i) s)"
proof -
  have c: "length (cs ! i) \<le> 256" using sizes by (simp add: list_all_length)
  have fit: "i * 256 + length (cs ! i) \<le> length (fs_data s)" using c i h by (simp add: holds_chunks_def)
  have nb: "\<not> bit (fs_mask s) i" using h i by (simp add: holds_chunks_def)
  have st: "store_fragment i (cs ! i) s =
      s\<lparr>fs_data := write_at (fs_data s) (i * 256) (cs ! i), fs_offsets := (fs_offsets s)[i := i * 256],
        fs_lengths := (fs_lengths s)[i := length (cs ! i)], fs_mask := fs_mask s OR push_bit i 1\<rparr>"
    using fit nb h by (simp add: store_fragment_def stage_size_value holds_chunks_def Let_def)
  have other: "take (length (cs ! j)) (drop (j * 256) (write_at (fs_data s) (i * 256) (cs ! i))) = cs ! j" if "j \<in> S" for j
  proof -
    have "length (cs ! j) \<le> 256" "j \<noteq> i" using sizes that i by (auto simp: list_all_length)
    then have "j * 256 + length (cs ! j) \<le> i * 256 \<or> i * 256 + length (cs ! i) \<le> j * 256"
      using c by (cases "j < i") linarith+
    then show ?thesis using write_at_other [OF _ fit] h that by (simp add: holds_chunks_def)
  qed
  show ?thesis
    unfolding holds_chunks_def st
    using h i other write_at_here [OF fit] length_write_at [OF fit]
    by (auto simp: holds_chunks_def bit_or_iff bit_exp_iff nth_list_update)
qed

lemma mask_complete:
  assumes "holds_chunks cs S s" and "S \<subseteq> {..<cnt}" and "cnt \<le> 8"
  shows "fs_mask s = of_nat (2 ^ cnt - 1) \<longleftrightarrow> S = {..<cnt}"
proof -
  have m: "(of_nat (2 ^ cnt - 1) :: u8) = mask cnt" by (simp add: mask_eq_exp_minus_1 of_nat_diff)
  have "fs_mask s = mask cnt \<longleftrightarrow> (\<forall>i<8. i \<in> S \<longleftrightarrow> i < cnt)"
    using assms(1) by (auto simp: holds_chunks_def bit_eq_iff bit_mask_iff)
  also have "\<dots> \<longleftrightarrow> S = {..<cnt}" using assms(2,3) by (auto dest: less_le_trans)
  finally show ?thesis unfolding m .
qed

lemma assemble_chunks:
  assumes h: "holds_chunks cs {..<length cs} s" and n: "length cs \<le> 8" and sizes: "list_all (\<lambda>c. length c \<le> 256) cs"
  shows "assemble s (length cs) = concat cs"
proof -
  have "foldl (append_fragment s) [] [0..<m] = concat (take m cs) \<and> length (concat (take m cs)) \<le> 256 * m"
    if "m \<le> length cs" for m
    using that
  proof (induction m)
    case (Suc m)
    then have m: "m < length cs" "m < 8" using n by simp_all
    have "length (cs ! m) \<le> 256" using sizes m by (simp add: list_all_length)
    then have "length (concat (take m cs)) + length (cs ! m) \<le> 2048" "length (cs ! m) \<le> 256"
      using Suc m by linarith+
    moreover from this have "append_fragment s (concat (take m cs)) m = concat (take m cs) @ cs ! m"
      using h m Suc by (simp add: append_fragment_def holds_chunks_def)
    ultimately show ?case using Suc m by (simp add: take_Suc_conv_app_nth)
  qed simp
  from this [of "length cs"] show ?thesis by (simp add: assemble_def)
qed


text \<open>The position a fragment of the packet is stored at.\<close>

definition slot_holds :: "u32 \<Rightarrow> u16 \<Rightarrow> bytes list \<Rightarrow> nat set \<Rightarrow> nat \<Rightarrow> frag_slot list \<Rightarrow> bool" where
  "slot_holds msg_id conn cs S k slots \<longleftrightarrow> k < length slots \<and> holds_chunks cs S (slots ! k) \<and>
     fs_msg_id (slots ! k) = msg_id \<and> fs_conn (slots ! k) = conn \<and>
     (\<forall>j<k. \<not> (fs_active (slots ! j) \<and> fs_msg_id (slots ! j) = msg_id \<and> fs_conn (slots ! j) = conn))"

lemma find_upt_Some: "find P [0..<n] = Some k \<longleftrightarrow> k < n \<and> P k \<and> (\<forall>j<k. \<not> P j)"
  by (auto simp: find_Some_iff)

lemma slot_holds_found: "slot_holds msg_id conn cs S k slots \<Longrightarrow> slot_for slots msg_id conn = Some k"
  by (auto simp: slot_holds_def slot_for_def find_upt_Some holds_chunks_def)

lemma store_keeps: "fs_msg_id (store_fragment i c s) = fs_msg_id s" "fs_conn (store_fragment i c s) = fs_conn s"
  by (simp_all add: store_fragment_def Let_def)

lemma slot_holds_store:
  assumes "slot_holds msg_id conn cs S k slots" and "i < length cs" "i \<notin> S" "length cs \<le> 8" "S \<subseteq> {..<length cs}"
    and "list_all (\<lambda>c. length c \<le> 256) cs"
  shows "slot_holds msg_id conn cs (insert i S) k (slots[k := store_fragment i (cs ! i) (slots ! k)])"
  using assms holds_store [of cs S "slots ! k" i] by (simp add: slot_holds_def store_keeps nth_list_update)

lemma place_known:
  assumes "slot_holds msg_id conn cs S k slots"
  shows "place_fragment now slots msg_id conn cnt i c = (slots[k := store_fragment i c (slots ! k)], Some k)"
proof -
  have "claim_slot now msg_id conn cnt (slots ! k) = slots ! k"
    using assms holds_active unfolding slot_holds_def by blast
  then show ?thesis using slot_holds_found [OF assms] by (simp add: place_fragment_def)
qed

text \<open>The first fragment of a packet claims a free slot.\<close>

lemma place_first:
  assumes "slot_for slots msg_id conn = None" and "free_slot (map (expire_slot now) slots) = Some k"
    and slots1_def: "slots1 = (map (expire_slot now) slots)[k := claim_slot now msg_id conn cnt (map (expire_slot now) slots ! k)]"
  shows "place_fragment now slots msg_id conn cnt i c = (slots1[k := store_fragment i c (slots1 ! k)], Some k) \<and>
    slot_holds msg_id conn cs {} k slots1"
proof -
  have k: "k < length slots" "\<not> fs_active (map (expire_slot now) slots ! k)"
    using assms(2) by (auto simp: free_slot_def find_upt_Some)
  have "\<not> (fs_active (slots ! j) \<and> fs_msg_id (slots ! j) = msg_id \<and> fs_conn (slots ! j) = conn)" if "j < length slots" for j
    using assms(1) that by (simp add: slot_for_def find_None_iff)
  then have "\<not> (fs_active (expire_slot now (slots ! j)) \<and> fs_msg_id (expire_slot now (slots ! j)) = msg_id \<and>
      fs_conn (expire_slot now (slots ! j)) = conn)" if "j < length slots" for j
    using that by (auto simp: expire_slot_def)
  then have "slot_holds msg_id conn cs {} k slots1"
    using k holds_claimed [OF k(2), of cs now msg_id conn cnt]
    by (auto simp: slot_holds_def slots1_def claim_slot_def)
  then show ?thesis using assms(1,2) k by (simp add: place_fragment_def slots1_def)
qed

lemma handle_chunk:
  assumes placed: "place_fragment now slots msg_id conn (of_nat (length cs)) i (cs ! i) = (slots', Some k)"
    and holds: "slot_holds msg_id conn cs S k slots'" and S: "S \<subseteq> {..<length cs}" and i: "i < length cs"
    and cs: "length cs \<le> 8" "list_all (\<lambda>c. 0 < length c \<and> length c \<le> 256) cs"
  shows "handle_fragment now slots (fragment_payload msg_id i (length cs) (cs ! i)) conn =
    (if S = {..<length cs} then (slots'[k := (slots' ! k)\<lparr>fs_active := False\<rparr>], Some (concat cs)) else (slots', None))"
proof -
  have c: "cs \<noteq> []" "cs ! i \<noteq> []" "length (cs ! i) \<le> 256" using cs i by (auto simp: list_all_length)
  have u: "unat (of_nat i :: u8) = i" "unat (of_nat (length cs) :: u8) = length cs"
    using cs i by (simp_all add: unat_of_nat)
  have h: "holds_chunks cs S (slots' ! k)" using holds by (simp add: slot_holds_def)
  have sz: "list_all (\<lambda>c. length c \<le> 256) cs" using cs by (simp add: list_all_iff)
  have asm: "S = {..<length cs} \<Longrightarrow> assemble (slots' ! k) (length cs) = concat cs"
    using assemble_chunks [OF _ cs(1) sz] h by simp
  show ?thesis
    using c u i cs(1) placed mask_complete [OF h S cs(1)] asm
    by (simp add: handle_fragment_def length_fragment_payload fragment_payload_parts frag_consts stage_size_value Let_def)
qed

lemma receive_rest:
  assumes "slot_holds msg_id conn cs S k slots" and "distinct js" and "set js \<inter> S = {}" and "set js \<union> S = {..<length cs}" and "js \<noteq> []"
    and cs: "length cs \<le> 8" "list_all (\<lambda>c. 0 < length c \<and> length c \<le> 256) cs" and "length nows = length js"
  shows "snd (receive_fragments conn slots (zip nows (map (\<lambda>i. fragment_payload msg_id i (length cs) (cs ! i)) js))) = [concat cs]"
  using assms
proof (induction js arbitrary: S slots nows)
  case (Cons i js)
  obtain now ts where t: "nows = now # ts" using Cons.prems by (cases nows) auto
  have i: "i < length cs" "i \<notin> S" "S \<subseteq> {..<length cs}" using Cons.prems by auto
  have sz: "list_all (\<lambda>c. length c \<le> 256) cs" using cs by (simp add: list_all_iff)
  define slots' where "slots' = slots[k := store_fragment i (cs ! i) (slots ! k)]"
  have h': "slot_holds msg_id conn cs (insert i S) k slots'"
    unfolding slots'_def by (rule slot_holds_store) (use Cons.prems i sz in auto)
  have sub: "insert i S \<subseteq> {..<length cs}" using i by auto
  note step = handle_chunk [OF place_known [OF Cons.prems(1), of now "of_nat (length cs)" i "cs ! i", folded slots'_def] h' sub i(1) cs]
  show ?case
  proof (cases "js = []")
    case True
    then have "insert i S = {..<length cs}" using Cons.prems by auto
    then show ?thesis using True step t by simp
  next
    case False
    have "hd js \<in> {..<length cs}" "hd js \<notin> insert i S" using Cons.prems(2-4) hd_in_set [OF False] unfolding set_simps distinct.simps by blast+
    then have "insert i S \<noteq> {..<length cs}" by blast
    moreover have "snd (receive_fragments conn slots' (zip ts (map (\<lambda>i. fragment_payload msg_id i (length cs) (cs ! i)) js))) = [concat cs]"
      using Cons.prems False t by (intro Cons.IH [OF h']) auto
    ultimately show ?thesis using step t by (simp add: split_def Let_def)
  qed
qed simp




end
