(* ===== verification/Rx_Ring.thy ===== *)
theory Rx_Ring
  imports Bridge_Prelude
begin

text \<open>
  The receive queue between the BLE callbacks and the main loop, a ring of four entries in
  \<^verbatim>\<open>src/bitchat/bitchat_ble.{h,cpp}\<close>.  One slot stays empty, so it holds three packets.  The
  locale states what a bounded queue promises to the loop that drains it; the ring
  implements it.  The producer is also split into its load and its store, to show what
  happens when two producers overlap.
\<close>

section \<open>The contract of a bounded queue\<close>

locale bounded_fifo =
  fixes put :: "'s \<Rightarrow> 'e \<Rightarrow> 's"
    and front :: "'s \<Rightarrow> 'e option"
    and pop :: "'s \<Rightarrow> 's"
    and items :: "'s \<Rightarrow> 'e list"
    and invar :: "'s \<Rightarrow> bool"
    and accepts :: "'e \<Rightarrow> bool"
    and capacity :: nat
  assumes items_put: "invar s \<Longrightarrow>
      items (put s e) = (if accepts e \<and> length (items s) < capacity then items s @ [e] else items s)"
    and front_items: "invar s \<Longrightarrow> front s = (case items s of [] \<Rightarrow> None | e # _ \<Rightarrow> Some e)"
    and items_pop: "invar s \<Longrightarrow> items s \<noteq> [] \<Longrightarrow> items (pop s) = tl (items s)"
    and invar_put: "invar s \<Longrightarrow> invar (put s e)"
    and invar_pop: "invar s \<Longrightarrow> items s \<noteq> [] \<Longrightarrow> invar (pop s)"
begin

fun put_all :: "'s \<Rightarrow> 'e list \<Rightarrow> 's" where
  "put_all s [] = s"
| "put_all s (e # es) = put_all (put s e) es"

fun take_all :: "nat \<Rightarrow> 's \<Rightarrow> 'e list" where
  "take_all 0 s = []"
| "take_all (Suc n) s = (case front s of None \<Rightarrow> [] | Some e \<Rightarrow> e # take_all n (pop s))"

lemma invar_put_all: "invar s \<Longrightarrow> invar (put_all s es)"
  by (induction es arbitrary: s) (simp_all add: invar_put)

text \<open>What arrives is kept in order until the queue is full; the rest is lost.\<close>

lemma items_put_all:
  "invar s \<Longrightarrow> length (items s) \<le> capacity \<Longrightarrow> items (put_all s es) = take capacity (items s @ filter accepts es)"
proof (induction es arbitrary: s)
  case (Cons e es)
  note IH = Cons.IH [OF invar_put [OF Cons.prems(1)], of e]
  show ?case
  proof (cases "accepts e \<and> length (items s) < capacity")
    case True
    with Cons.prems IH show ?thesis by (simp add: items_put)
  next
    case False
    with Cons.prems IH show ?thesis by (auto simp: items_put)
  qed
qed simp

lemma take_all_items: "invar s \<Longrightarrow> take_all n s = take n (items s)"
proof (induction n arbitrary: s)
  case (Suc n)
  then show ?case
    by (cases "items s") (simp_all add: front_items items_pop invar_pop)
qed simp

text \<open>Draining returns what was put, in order.\<close>

lemma fifo:
  "invar s \<Longrightarrow> items s = [] \<Longrightarrow> take_all capacity (put_all s es) = take capacity (filter accepts es)"
  by (simp add: take_all_items invar_put_all items_put_all)

end

section \<open>The ring\<close>

definition RX_BUF_SIZE :: nat where "RX_BUF_SIZE = 512"
definition RX_QUEUE_SIZE :: nat where "RX_QUEUE_SIZE = 4"

record rx_entry =
  re_data :: bytes  \<comment> \<open>the array; the packet is its first \<open>re_len\<close> bytes\<close>
  re_len :: nat
  re_conn :: u16

record rx_ring =
  rx_queue :: "rx_entry list"
  rx_head :: nat
  rx_tail :: nat

definition empty_entry :: rx_entry where
  "empty_entry = \<lparr>re_data = replicate RX_BUF_SIZE 0, re_len = 0, re_conn = 0\<rparr>"

definition new_rx_ring :: rx_ring where
  "new_rx_ring = \<lparr>rx_queue = replicate RX_QUEUE_SIZE empty_entry, rx_head = 0, rx_tail = 0\<rparr>"

text \<open>A received packet and the connection it came in on.\<close>

type_synonym rx_packet = "bytes \<times> u16"

definition fill_entry :: "rx_entry \<Rightarrow> rx_packet \<Rightarrow> rx_entry" where
  "fill_entry e p =
     e\<lparr>re_data := fst p @ drop (length (fst p)) (re_data e), re_len := length (fst p), re_conn := snd p\<rparr>"

text \<open>The store of a producer that loaded \<open>head\<close> before; the whole operation loads and stores at once.\<close>

definition rx_store :: "rx_ring \<Rightarrow> nat \<Rightarrow> rx_packet \<Rightarrow> rx_ring" where
  "rx_store r head p =
     (let next = (head + 1) mod RX_QUEUE_SIZE in
      if 0 < length (fst p) \<and> length (fst p) \<le> RX_BUF_SIZE \<and> next \<noteq> rx_tail r
      then r\<lparr>rx_queue := (rx_queue r)[head := fill_entry (rx_queue r ! head) p], rx_head := next\<rparr>
      else r)"

definition rx_put :: "rx_ring \<Rightarrow> rx_packet \<Rightarrow> rx_ring" where
  "rx_put r p = rx_store r (rx_head r) p"

definition rx_front_entry :: "rx_ring \<Rightarrow> rx_entry option" where
  "rx_front_entry r = (if rx_tail r \<noteq> rx_head r then Some (rx_queue r ! rx_tail r) else None)"

definition entry_packet :: "rx_entry \<Rightarrow> rx_packet" where
  "entry_packet e = (take (re_len e) (re_data e), re_conn e)"

definition rx_pop :: "rx_ring \<Rightarrow> rx_ring" where
  "rx_pop r = r\<lparr>rx_tail := (rx_tail r + 1) mod RX_QUEUE_SIZE\<rparr>"

section \<open>The ring implements the queue\<close>

definition rx_invar :: "rx_ring \<Rightarrow> bool" where
  "rx_invar r \<longleftrightarrow> length (rx_queue r) = 4 \<and> rx_head r < 4 \<and> rx_tail r < 4 \<and>
     (\<forall>e\<in>set (rx_queue r). length (re_data e) = RX_BUF_SIZE \<and> re_len e \<le> RX_BUF_SIZE)"

definition rx_count :: "rx_ring \<Rightarrow> nat" where
  "rx_count r = (rx_head r + 4 - rx_tail r) mod 4"

definition rx_items :: "rx_ring \<Rightarrow> rx_packet list" where
  "rx_items r = map (\<lambda>i. entry_packet (rx_queue r ! ((rx_tail r + i) mod 4))) [0..<rx_count r]"

definition rx_accepts :: "rx_packet \<Rightarrow> bool" where
  "rx_accepts p \<longleftrightarrow> 0 < length (fst p) \<and> length (fst p) \<le> RX_BUF_SIZE"

lemma entry_packet_fill: "entry_packet (fill_entry e p) = p"
  by (simp add: entry_packet_def fill_entry_def)

text \<open>The sixteen positions of head and tail.\<close>

lemma ring_cases [consumes 1, case_names pos]:
  assumes "rx_invar r"
    and "\<And>a b c d h t. r = \<lparr>rx_queue = [a, b, c, d], rx_head = h, rx_tail = t\<rparr> \<Longrightarrow> h \<in> {0, 1, 2, 3} \<Longrightarrow> t \<in> {0, 1, 2, 3} \<Longrightarrow> P"
  shows P
proof -
  obtain q h t where r: "r = \<lparr>rx_queue = q, rx_head = h, rx_tail = t\<rparr>" by (cases r)
  with assms(1) have "length q = Suc (Suc (Suc (Suc 0)))" and ht: "h < 4" "t < 4"
    by (auto simp: rx_invar_def)
  then obtain a b c d where "q = [a, b, c, d]" by (auto simp: length_Suc_conv)
  moreover have "h \<in> {0, 1, 2, 3}" "t \<in> {0, 1, 2, 3}" using ht by auto
  ultimately show P using assms(2) r by blast
qed

lemmas ring_defs = rx_items_def rx_count_def rx_put_def rx_store_def rx_pop_def rx_front_entry_def RX_QUEUE_SIZE_def Let_def

lemma upt_small: "[0..<1] = [0]" "[0..<2] = [0, 1]" "[0..<3] = [0, 1, 2]"
  by (simp_all add: upt_rec)

lemma four_not_dvd_two: "\<not> (4 :: nat) dvd Suc (Suc 0)"
  by (auto dest: dvd_imp_le)

lemma rx_items_put:
  assumes "rx_invar r"
  shows "rx_items (rx_put r p) = (if rx_accepts p \<and> length (rx_items r) < 3 then rx_items r @ [p] else rx_items r)"
  using assms
proof (cases r rule: ring_cases)
  case (pos a b c d h t)
  from pos(2,3) show ?thesis
    unfolding pos(1) by (auto simp: ring_defs rx_accepts_def upt_small entry_packet_fill four_not_dvd_two)
qed

lemma rx_items_pop: "rx_invar r \<Longrightarrow> rx_items r \<noteq> [] \<Longrightarrow> rx_items (rx_pop r) = tl (rx_items r)"
  by (cases r rule: ring_cases) (auto simp: ring_defs upt_small)

lemma rx_front_items:
  "rx_invar r \<Longrightarrow> map_option entry_packet (rx_front_entry r) = (case rx_items r of [] \<Rightarrow> None | e # _ \<Rightarrow> Some e)"
  by (cases r rule: ring_cases) (auto simp: ring_defs upt_small)

lemma rx_invar_store: "rx_invar r \<Longrightarrow> head < 4 \<Longrightarrow> rx_invar (rx_store r head p)"
proof -
  assume r: "rx_invar r" and h: "head < 4"
  have e: "rx_queue r ! head \<in> set (rx_queue r)" using r h by (simp add: rx_invar_def)
  have "length (re_data (fill_entry (rx_queue r ! head) p)) = RX_BUF_SIZE \<and> re_len (fill_entry (rx_queue r ! head) p) \<le> RX_BUF_SIZE"
    if "length (fst p) \<le> RX_BUF_SIZE"
    using e r that by (simp add: rx_invar_def fill_entry_def)
  with r show ?thesis
    using set_update_subset_insert [of "rx_queue r" head "fill_entry (rx_queue r ! head) p"]
    by (auto simp: rx_invar_def rx_store_def Let_def RX_QUEUE_SIZE_def)
qed

lemma rx_invar_put: "rx_invar r \<Longrightarrow> rx_invar (rx_put r p)"
  using rx_invar_store [of r "rx_head r" p] by (simp add: rx_put_def rx_invar_def)

lemma rx_invar_pop: "rx_invar r \<Longrightarrow> rx_invar (rx_pop r)"
  by (simp add: rx_invar_def rx_pop_def RX_QUEUE_SIZE_def)

interpretation rx: bounded_fifo rx_put "\<lambda>r. map_option entry_packet (rx_front_entry r)" rx_pop rx_items rx_invar rx_accepts 3
  by unfold_locales (simp_all add: rx_items_put rx_items_pop rx_front_items rx_invar_put rx_invar_pop)

lemma new_rx_ring_ok: "rx_invar new_rx_ring" "rx_items new_rx_ring = []"
  by (simp_all add: rx_invar_def new_rx_ring_def rx_items_def rx_count_def RX_QUEUE_SIZE_def empty_entry_def RX_BUF_SIZE_def)


text \<open>
  The ring is made for one producer.  When two producers overlap, as the reassembly in the
  main loop and a BLE callback can, both having loaded the head before either stores, the
  later store overwrites the packet of the earlier one.
\<close>

theorem overlapping_producers_lose_packet:
  assumes "rx_invar r" and "length (rx_items r) < 3" and "rx_accepts p" and "rx_accepts q"
  shows "rx_items (rx_store (rx_store r (rx_head r) p) (rx_head r) q) = rx_items r @ [q]"
  using assms(1)
proof (cases r rule: ring_cases)
  case (pos a b c d h t)
  from pos(2,3) assms(2-4) show ?thesis
    unfolding pos(1) by (auto simp: ring_defs rx_accepts_def upt_small entry_packet_fill four_not_dvd_two)
qed

theorem overlapping_producers_lose_packet_witness:
  "rx_items (rx_store (rx_store new_rx_ring 0 ([1], 7)) 0 ([2], 8)) = [([2], 8)]"
  using overlapping_producers_lose_packet [of new_rx_ring "([1], 7)" "([2], 8)"] new_rx_ring_ok
  by (simp add: rx_accepts_def RX_BUF_SIZE_def) (simp add: new_rx_ring_def)

end
