(* ===== verification/Recent_Cache.thy ===== *)
theory Recent_Cache
  imports Bridge_Prelude
begin

text \<open>
  The contract of the firmware's two deduplication caches, the message cache of the bridge
  and the relay cache of the BLE transport: a ring of (hash, timestamp) entries that
  behaves as the list of the most recent entries, newest first.  The locale states what a
  cache promises; its lemmas say when a recorded hash is still found.  The rings
  themselves are defined with their components, which interpret the locale.
\<close>

section \<open>Rings as lists of recent entries\<close>

record dedup_entry =
  de_hash :: u32
  de_timestamp_ms :: u32

definition ring_recent :: "'a list \<Rightarrow> nat \<Rightarrow> 'a list" where
  "ring_recent ring idx = rev (rotate idx ring)"

lemma ring_recent_put:
  assumes "idx < length ring"
  shows "ring_recent (ring[idx := x]) ((idx + 1) mod length ring) = x # butlast (ring_recent ring idx)"
proof -
  have split: "ring = take idx ring @ ring ! idx # drop (Suc idx) ring"
    using assms by (simp add: id_take_nth_drop)
  have rot: "rotate idx ring = ring ! idx # drop (Suc idx) ring @ take idx ring"
    using assms by (simp add: rotate_drop_take Cons_nth_drop_Suc)
  have upd: "ring[idx := x] = take idx ring @ x # drop (Suc idx) ring"
    using assms by (rule upd_conv_take_nth_drop)
  have "rotate ((idx + 1) mod length ring) (ring[idx := x]) = drop (Suc idx) ring @ take idx ring @ [x]"
  proof (cases "idx + 1 = length ring")
    case True
    then show ?thesis by (simp add: upd)
  next
    case False
    with assms have "idx + 1 < length ring" by simp
    then show ?thesis by (simp add: upd rotate_drop_take)
  qed
  then show ?thesis
    by (simp add: ring_recent_def rot butlast_append)
qed

lemma set_ring_recent [simp]: "set (ring_recent ring idx) = set ring"
  by (simp add: ring_recent_def)

lemma length_ring_recent [simp]: "length (ring_recent ring idx) = length ring"
  by (simp add: ring_recent_def)

section \<open>The contract\<close>

locale recent_cache =
  fixes is_dup :: "'s \<Rightarrow> u32 \<Rightarrow> u32 \<Rightarrow> bool"
    and record_entry :: "'s \<Rightarrow> u32 \<Rightarrow> u32 \<Rightarrow> 's"
    and recent :: "'s \<Rightarrow> (u32 \<times> u32) list"
    and invar :: "'s \<Rightarrow> bool"
    and capacity :: nat
    and ttl :: u32
  assumes recent_record: "invar s \<Longrightarrow>
      recent (record_entry s now h) = (h, now) # butlast (recent s)"
    and is_dup_recent: "invar s \<Longrightarrow>
      is_dup s now h \<longleftrightarrow> (\<exists>t. (h, t) \<in> set (recent s) \<and> now - t < ttl)"
    and length_recent: "invar s \<Longrightarrow> length (recent s) = capacity"
    and invar_record: "invar s \<Longrightarrow> invar (record_entry s now h)"
    and capacity_pos: "0 < capacity"
    and ttl_pos: "0 < ttl"
begin

fun record_all :: "'s \<Rightarrow> (u32 \<times> u32) list \<Rightarrow> 's" where
  "record_all s [] = s"
| "record_all s ((h, now) # es) = record_all (record_entry s now h) es"

lemma invar_record_all: "invar s \<Longrightarrow> invar (record_all s es)"
  by (induction s es rule: record_all.induct) (simp_all add: invar_record)

lemma recent_record_all:
  "invar s \<Longrightarrow> recent (record_all s es) = take capacity (rev es @ recent s)"
proof (induction s es rule: record_all.induct)
  case (1 s)
  then show ?case by (simp add: length_recent)
next
  case (2 s h now es)
  have "take capacity (rev es @ (h, now) # butlast (recent s)) =
        take capacity (rev es @ (h, now) # recent s)"
    using 2(2) capacity_pos by (simp add: length_recent butlast_conv_take take_Cons' min_def)
  with 2 show ?case by (simp add: invar_record recent_record)
qed

text \<open>A recorded hash is found again after fewer than \<open>capacity\<close> further records, within the window.\<close>

lemma found_within_window:
  assumes "invar s" and "length es < capacity" and "now' - now < ttl"
  shows "is_dup (record_all (record_entry s now h) es) now' h"
proof -
  have "(h, now) \<in> set (take capacity (rev es @ (h, now) # butlast (recent s)))"
    using assms(2) by (simp add: take_Cons')
  then show ?thesis
    using assms by (auto simp: is_dup_recent invar_record invar_record_all recent_record_all recent_record)
qed

text \<open>What is found was recorded, or was in the cache at the start.\<close>

lemma found_was_recorded:
  assumes "invar s" and "is_dup (record_all s es) now h"
  shows "\<exists>t. ((h, t) \<in> set es \<or> (h, t) \<in> set (recent s)) \<and> now - t < ttl"
proof -
  obtain t where "(h, t) \<in> set (take capacity (rev es @ recent s))" and t: "now - t < ttl"
    using assms by (auto simp: is_dup_recent invar_record_all recent_record_all)
  then have "(h, t) \<in> set es \<or> (h, t) \<in> set (recent s)"
    by (auto dest: in_set_takeD)
  with t show ?thesis by blast
qed

text \<open>After \<open>capacity\<close> records of other hashes the entry is gone.\<close>

lemma forgotten_after_capacity:
  assumes "invar s" and "capacity \<le> length es" and "h \<notin> fst ` set es"
  shows "\<not> is_dup (record_all s es) now h"
proof
  assume "is_dup (record_all s es) now h"
  then obtain t where "(h, t) \<in> set (take capacity (rev es @ recent s))"
    using assms(1) by (auto simp: is_dup_recent invar_record_all recent_record_all)
  then have "(h, t) \<in> set es"
    using assms(2) by (auto dest: in_set_takeD)
  with assms(3) show False by force
qed

end

end
