(* ===== verification/Ble_Link.thy ===== *)
theory Ble_Link
  imports Ble_Fragments Rx_Ring Recent_Cache Bridge_Message
begin

text \<open>
  The state of \<^verbatim>\<open>src/bitchat/bitchat_ble.{h,cpp}\<close> and its sending half: the peer table, the relay
  cache and every function that builds and sends a packet.  The NimBLE calls are
  the \<open>ble_out\<close> actions a function returns, in order; what the radio and the clocks answer
  is the argument \<open>env\<close>.  The random bytes of the chip are a stream, read from the
  position \<open>rnd_pos\<close>; the system clock is the field \<open>wall\<close>.  Each function reads
  \<^verbatim>\<open>millis()\<close> once.  The relay ring implements the \<open>recent_cache\<close> contract.
\<close>

section \<open>State\<close>

definition BITCHAT_MAX_CONNECTIONS :: nat where "BITCHAT_MAX_CONNECTIONS = 4"
definition BITCHAT_MAX_TEXT_LEN :: nat where "BITCHAT_MAX_TEXT_LEN = 240"
definition BITCHAT_MSG_CACHE_TTL_MS :: u32 where "BITCHAT_MSG_CACHE_TTL_MS = 30000"
definition RELAY_DEDUP_SIZE :: nat where "RELAY_DEDUP_SIZE = 64"
definition BITCHAT_TLV_NICKNAME :: u8 where "BITCHAT_TLV_NICKNAME = 0x01"
definition BITCHAT_TLV_NOISE_PUBKEY :: u8 where "BITCHAT_TLV_NOISE_PUBKEY = 0x02"
definition BITCHAT_TLV_SIGNING_PUBKEY :: u8 where "BITCHAT_TLV_SIGNING_PUBKEY = 0x03"
definition BITCHAT_TLV_TEXT :: u8 where "BITCHAT_TLV_TEXT = 0x05"
definition BITCHAT_TLV_MESSAGE_ID :: u8 where "BITCHAT_TLV_MESSAGE_ID = 0x00"
definition BITCHAT_TLV_CONTENT :: u8 where "BITCHAT_TLV_CONTENT = 0x01"
definition NOISE_PAYLOAD_PRIVATE_MSG :: u8 where "NOISE_PAYLOAD_PRIVATE_MSG = 0x01"
definition NOISE_PAYLOAD_READ_RECEIPT :: u8 where "NOISE_PAYLOAD_READ_RECEIPT = 0x02"
definition NOISE_PAYLOAD_DELIVERED :: u8 where "NOISE_PAYLOAD_DELIVERED = 0x03"

lemmas tlv_types = BITCHAT_TLV_NICKNAME_def BITCHAT_TLV_NOISE_PUBKEY_def BITCHAT_TLV_SIGNING_PUBKEY_def
  BITCHAT_TLV_TEXT_def BITCHAT_TLV_MESSAGE_ID_def BITCHAT_TLV_CONTENT_def

text \<open>A pointer to a NimBLE object is whether it is set; the connection handle tells the objects apart.\<close>

record peer_session =
  p_active :: bool
  p_conn_handle :: u16
  p_connect_time_ms :: u32
  p_ble_addr :: bytes
  p_peer_id :: bytes
  p_peer_id_known :: bool
  p_we_are_central :: bool
  p_announce_sent :: bool
  p_announce_rcvd :: bool
  p_nickname :: bytes
  p_sign_pubkey :: bytes
  p_sign_pubkey_known :: bool
  p_hs :: handshake_state
  p_client :: bool
  p_remote_chr :: bool

text \<open>The handshake state and the session after \<^verbatim>\<open>memset(.., 0, ..)\<close>.\<close>

definition zero_hs :: handshake_state where
  "zero_hs = \<lparr>hs_role = NOISE_ROLE_INITIATOR, hs_phase = NOISE_HS_IDLE,
     hs_ss = \<lparr>ss_ck = replicate 32 0, ss_h = replicate 32 0, ss_k = replicate 32 0, ss_n = 0, ss_has_key = False\<rparr>,
     hs_e_priv = replicate 32 0, hs_e_pub = replicate 32 0, hs_re_pub = replicate 32 0, hs_rs_pub = replicate 32 0,
     hs_s_priv = replicate 32 0, hs_s_pub = replicate 32 0, hs_send_cs = empty_cs, hs_recv_cs = empty_cs\<rparr>"

definition zero_session :: peer_session where
  "zero_session = \<lparr>p_active = False, p_conn_handle = 0, p_connect_time_ms = 0, p_ble_addr = replicate 6 0,
     p_peer_id = replicate 8 0, p_peer_id_known = False, p_we_are_central = False, p_announce_sent = False,
     p_announce_rcvd = False, p_nickname = [], p_sign_pubkey = replicate 32 0, p_sign_pubkey_known = False,
     p_hs = zero_hs, p_client = False, p_remote_chr = False\<rparr>"

record ble =
  ble_active :: bool
  ble_keypair :: keypair
  ble_server :: bool
  ble_msg_char :: bool
  ble_peers :: "peer_session list"
  ble_rx :: rx_ring
  ble_scanning :: bool
  ble_last_scan_ms :: u32
  ble_last_announce_ms :: u32
  ble_relay_dedup :: "dedup_entry list"
  ble_relay_dedup_idx :: nat
  ble_frag_slots :: "frag_slot list"
  ble_on_message :: bool  \<comment> \<open>whether the callback is registered\<close>
  wall :: "int \<times> int"
  rnd_pos :: nat

definition new_ble :: ble where
  "new_ble = \<lparr>ble_active = False, ble_keypair = zero_keypair, ble_server = False, ble_msg_char = False,
     ble_peers = replicate BITCHAT_MAX_CONNECTIONS zero_session, ble_rx = new_rx_ring, ble_scanning = False,
     ble_last_scan_ms = 0, ble_last_announce_ms = 0,
     ble_relay_dedup = replicate RELAY_DEDUP_SIZE \<lparr>de_hash = 0, de_timestamp_ms = 0\<rparr>, ble_relay_dedup_idx = 0,
     ble_frag_slots = replicate BITCHAT_FRAG_REASSEMBLY empty_slot, ble_on_message = False, wall = (0, 0), rnd_pos = 0\<rparr>"

text \<open>What the chip and the radio answer: the time, the MTU of a client and of the device, random bytes.\<close>

record ble_env =
  env_now :: u32
  env_client_mtu :: "u16 \<Rightarrow> int"
  env_device_mtu :: int
  env_random :: "nat \<Rightarrow> u8"

datatype nimble_property = WRITE | WRITE_NR | NOTIFY

datatype ble_out =
    Write_peer u16 bytes       \<comment> \<open>\<^verbatim>\<open>writeValue\<close> on the remote characteristic of a connection\<close>
  | Notify_all bytes           \<comment> \<open>\<^verbatim>\<open>setValue\<close> and \<^verbatim>\<open>notify\<close> on our own characteristic\<close>
  | Deliver_message bridge_message
  | Client_connect bytes
  | Client_disconnect u16
  | Client_abandon             \<comment> \<open>disconnecting a client that has no session\<close>
  | Client_delete
  | Subscribe u16
  | Scan_setup bool nat nat    \<comment> \<open>active, interval, window\<close>
  | Scan_start nat
  | Scan_stop
  | Adv_service bytes
  | Adv_scan_response bool
  | Advertise
  | Device_init bytes
  | Set_power int
  | Set_mtu nat
  | Create_server              \<comment> \<open>with its connection callbacks\<close>
  | Create_service bytes
  | Create_characteristic bytes "nimble_property list"   \<comment> \<open>with its write callback\<close>
  | Device_deinit

definition esp_fill_random :: "ble_env \<Rightarrow> nat \<Rightarrow> ble \<Rightarrow> bytes \<times> ble" where
  "esp_fill_random env n s = (map (\<lambda>i. env_random env (rnd_pos s + i)) [0..<n], s\<lparr>rnd_pos := rnd_pos s + n\<rparr>)"

abbreviation epoch_ms :: "ble_env \<Rightarrow> ble \<Rightarrow> u64" where
  "epoch_ms env s \<equiv> bitchat_epoch_ms (wall s) (env_now env)"

definition set_peer :: "nat \<Rightarrow> peer_session \<Rightarrow> ble \<Rightarrow> ble" where
  "set_peer i p s = s\<lparr>ble_peers := (ble_peers s)[i := p]\<rparr>"

section \<open>Peers\<close>

text \<open>A session is named by its index in the table.\<close>

definition find_peer :: "ble \<Rightarrow> u16 \<Rightarrow> nat option" where
  "find_peer s handle =
     find (\<lambda>i. p_active (ble_peers s ! i) \<and> p_conn_handle (ble_peers s ! i) = handle) [0..<length (ble_peers s)]"

definition new_session :: "u32 \<Rightarrow> u16 \<Rightarrow> bytes option \<Rightarrow> bool \<Rightarrow> peer_session" where
  "new_session now handle addr central =
     zero_session\<lparr>p_active := True, p_conn_handle := handle, p_we_are_central := central, p_connect_time_ms := now,
                  p_ble_addr := (case addr of Some a \<Rightarrow> a | None \<Rightarrow> replicate 6 0)\<rparr>"

definition alloc_peer :: "u32 \<Rightarrow> ble \<Rightarrow> u16 \<Rightarrow> bytes option \<Rightarrow> bool \<Rightarrow> (nat \<times> ble) option" where
  "alloc_peer now s handle addr central =
     (case find (\<lambda>i. \<not> p_active (ble_peers s ! i)) [0..<length (ble_peers s)] of
        None \<Rightarrow> None
      | Some i \<Rightarrow> Some (i, set_peer i (new_session now handle addr central) s))"

definition free_peer :: "ble \<Rightarrow> u16 \<Rightarrow> ble \<times> ble_out list" where
  "free_peer s handle =
     (case find_peer s handle of
        None \<Rightarrow> (s, [])
      | Some i \<Rightarrow> (set_peer i zero_session s,
                   if p_client (ble_peers s ! i) then [Client_disconnect handle, Client_delete] else []))"

definition active_peer_count :: "ble \<Rightarrow> nat" where
  "active_peer_count s = length (filter p_active (ble_peers s))"

section \<open>The relay cache\<close>

definition relay_is_dup :: "ble \<Rightarrow> u32 \<Rightarrow> u32 \<Rightarrow> bool" where
  "relay_is_dup s now h \<longleftrightarrow>
     list_ex (\<lambda>e. de_hash e = h \<and> now - de_timestamp_ms e < BITCHAT_MSG_CACHE_TTL_MS) (ble_relay_dedup s)"

definition relay_record :: "ble \<Rightarrow> u32 \<Rightarrow> u32 \<Rightarrow> ble" where
  "relay_record s now h =
     s\<lparr>ble_relay_dedup := (ble_relay_dedup s)[ble_relay_dedup_idx s := \<lparr>de_hash = h, de_timestamp_ms = now\<rparr>],
       ble_relay_dedup_idx := (ble_relay_dedup_idx s + 1) mod RELAY_DEDUP_SIZE\<rparr>"

section \<open>Sending to one peer\<close>

definition peer_mtu :: "ble_env \<Rightarrow> ble \<Rightarrow> peer_session \<Rightarrow> int" where
  "peer_mtu env s p =
     (let m = (if p_we_are_central p \<and> p_client p then env_client_mtu env (p_conn_handle p) - 3
               else if ble_server s then env_device_mtu env - 3 else 0)
      in if m > 0 then m else int BITCHAT_BLE_MTU)"

definition transmit :: "ble \<Rightarrow> peer_session \<Rightarrow> bytes \<Rightarrow> ble_out list" where
  "transmit s p data =
     (if p_we_are_central p \<and> p_remote_chr p then [Write_peer (p_conn_handle p) data]
      else if ble_msg_char s then [Notify_all data]
      else [])"

text \<open>
  Fragment packets carry the fragment type, so that sending one never fragments again.
  A message id is drawn only when the packet can be fragmented.
\<close>

definition send_to_peer :: "crypto \<Rightarrow> ble_env \<Rightarrow> ble \<Rightarrow> nat \<Rightarrow> bytes \<Rightarrow> ble \<times> ble_out list" where
  "send_to_peer cr env s i data =
     (let p = ble_peers s ! i in
      if int (length data) > peer_mtu env s p \<and> data ! 1 \<noteq> BITCHAT_PKT_FRAGMENT then
        if (length data + send_max_chunk - 1) div send_max_chunk > BITCHAT_MAX_FRAGMENTS then (s, [])
        else
          let (rnd, s) = esp_fill_random env 4 s
          in (s, concat (map (transmit s p)
                           (send_fragmented cr (ble_keypair s) (epoch_ms env s) (get_u32_le rnd) data)))
      else (s, transmit s p data))"

text \<open>One send after the other, to the peers of the table that satisfy the condition.\<close>

definition send_to_peers :: "crypto \<Rightarrow> ble_env \<Rightarrow> (peer_session \<Rightarrow> bool) \<Rightarrow> bytes \<Rightarrow> ble \<Rightarrow> ble \<times> ble_out list" where
  "send_to_peers cr env cond data s =
     run_all (\<lambda>s i. if cond (ble_peers s ! i) then send_to_peer cr env s i data else (s, [])) s [0..<length (ble_peers s)]"

section \<open>Packets\<close>

definition announce_tlvs :: "bytes \<Rightarrow> keypair \<Rightarrow> bytes" where
  "announce_tlvs nick kp =
     tlv_encode BITCHAT_TLV_NICKNAME (take 31 nick) @ tlv_encode BITCHAT_TLV_NOISE_PUBKEY (noise_public kp) @
     tlv_encode BITCHAT_TLV_SIGNING_PUBKEY (sign_public kp)"

definition send_announce :: "crypto \<Rightarrow> ble_env \<Rightarrow> ble \<Rightarrow> nat \<Rightarrow> ble \<times> ble_out list" where
  "send_announce cr env s i =
     (let packet = signed_packet cr (ble_keypair s) BITCHAT_PKT_ANNOUNCE 0 (epoch_ms env s)
                     (announce_tlvs BRIDGE_NAME (ble_keypair s));
          (s, outs) = send_to_peer cr env s i (pad_packet 512 packet)
      in (set_peer i ((ble_peers s ! i)\<lparr>p_announce_sent := True\<rparr>) s, outs))"

definition send_leave :: "crypto \<Rightarrow> ble_env \<Rightarrow> ble \<Rightarrow> ble \<times> ble_out list" where
  "send_leave cr env s =
     send_to_peers cr env p_active (signed_packet cr (ble_keypair s) BITCHAT_PKT_LEAVE 0 (epoch_ms env s) []) s"

definition send_handshake_packet :: "crypto \<Rightarrow> ble_env \<Rightarrow> ble \<Rightarrow> nat \<Rightarrow> bytes \<Rightarrow> ble \<times> ble_out list" where
  "send_handshake_packet cr env s i payload =
     send_to_peer cr env s i (signed_packet cr (ble_keypair s) BITCHAT_PKT_NOISE_HANDSHAKE 0 (epoch_ms env s) payload)"

text \<open>A broadcast: recorded in the relay cache before it is padded, then sent to every active peer.\<close>

definition broadcast :: "crypto \<Rightarrow> ble_env \<Rightarrow> nat \<Rightarrow> bytes \<Rightarrow> ble \<Rightarrow> ble \<times> ble_out list" where
  "broadcast cr env buf_size packet s =
     send_to_peers cr env p_active (pad_packet buf_size packet) (relay_record s (env_now env) (relay_hash packet))"

definition send_packet :: "crypto \<Rightarrow> ble_env \<Rightarrow> u8 \<Rightarrow> u8 \<Rightarrow> bytes \<Rightarrow> ble \<Rightarrow> ble \<times> ble_out list" where
  "send_packet cr env ty flags payload s =
     broadcast cr env 2048 (signed_packet cr (ble_keypair s) ty flags (epoch_ms env s) payload) s"

definition send_text_as :: "crypto \<Rightarrow> ble_env \<Rightarrow> bytes \<Rightarrow> keypair option \<Rightarrow> ble \<Rightarrow> ble \<times> ble_out list \<times> bool" where
  "send_text_as cr env txt identity s =
     (case identity of
        None \<Rightarrow> (s, [], False)
      | Some kp \<Rightarrow>
          if \<not> ble_active s then (s, [], False)
          else
            let payload = tlv_encode BITCHAT_TLV_TEXT (take BITCHAT_MAX_TEXT_LEN txt);
                (s', outs) = broadcast cr env 2048 (signed_packet cr kp BITCHAT_PKT_MESSAGE 0 (epoch_ms env s) payload) s
            in (s', outs, list_ex p_active (ble_peers s)))"

definition announce_virtual :: "crypto \<Rightarrow> ble_env \<Rightarrow> keypair option \<Rightarrow> bytes option \<Rightarrow> ble \<Rightarrow> ble \<times> ble_out list" where
  "announce_virtual cr env identity name s =
     (case identity of
        None \<Rightarrow> (s, [])
      | Some kp \<Rightarrow>
          if \<not> ble_active s then (s, [])
          else
            let nick = (case name of Some n \<Rightarrow> n | None \<Rightarrow> ascii ''mesh_user'')
            in broadcast cr env 512 (signed_packet cr kp BITCHAT_PKT_ANNOUNCE 0 (epoch_ms env s) (announce_tlvs nick kp)) s)"

text \<open>Encryption authenticates the header; it advances the send counter of the session even where it fails.\<close>

definition send_encrypted :: "crypto \<Rightarrow> ble_env \<Rightarrow> ble \<Rightarrow> nat \<Rightarrow> u8 \<Rightarrow> bytes \<Rightarrow> ble \<times> ble_out list" where
  "send_encrypted cr env s i noise_type inner =
     (if 1 + length inner > 512 then (s, [])
      else
        let pt = noise_type # inner;
            header = packet_header BITCHAT_PKT_NOISE_ENCRYPTED BITCHAT_FLAG_HAS_SIGNATURE (epoch_ms env s) (length pt + 16);
            (hs, r) = noise_hs_encrypt (p_hs (ble_peers s ! i)) header pt;
            s = set_peer i ((ble_peers s ! i)\<lparr>p_hs := hs\<rparr>) s
        in case r of
             Inl e \<Rightarrow> (s, [])
           | Inr ct \<Rightarrow>
               let body = header @ take BITCHAT_SENDER_ID_LEN (fingerprint (ble_keypair s)) @ ct
               in send_to_peer cr env s i (body @ ed25519_sign cr body (sign_private (ble_keypair s))))"

text \<open>The bridge's own text: encrypted where a session is up, else a signed public message.\<close>

definition send_text_to :: "crypto \<Rightarrow> ble_env \<Rightarrow> bytes \<Rightarrow> ble \<Rightarrow> nat \<Rightarrow> ble \<times> ble_out list" where
  "send_text_to cr env txt s i =
     (let p = ble_peers s ! i; content = take BITCHAT_MAX_TEXT_LEN txt in
      if \<not> p_active p then (s, [])
      else if hs_phase (p_hs p) = NOISE_HS_TRANSPORT then
        let (msg_id, s) = esp_fill_random env 16 s
        in send_encrypted cr env s i NOISE_PAYLOAD_PRIVATE_MSG
             (tlv_encode BITCHAT_TLV_MESSAGE_ID msg_id @ tlv_encode BITCHAT_TLV_CONTENT content)
      else
        send_to_peer cr env s i (pad_packet 2048
          (signed_packet cr (ble_keypair s) BITCHAT_PKT_MESSAGE 0 (epoch_ms env s) (tlv_encode BITCHAT_TLV_TEXT content))))"

definition ble_send_text :: "crypto \<Rightarrow> ble_env \<Rightarrow> bytes \<Rightarrow> ble \<Rightarrow> ble \<times> ble_out list \<times> bool" where
  "ble_send_text cr env txt s =
     (if \<not> ble_active s then (s, [], False)
      else
        let (s', outs) = run_all (send_text_to cr env txt) s [0..<length (ble_peers s)]
        in (s', outs, list_ex p_active (ble_peers s)))"

section \<open>Relaying\<close>

definition relay_packet :: "crypto \<Rightarrow> ble_env \<Rightarrow> ble \<Rightarrow> bytes \<Rightarrow> u16 \<Rightarrow> ble \<times> ble_out list" where
  "relay_packet cr env s pkt except_handle =
     (if length pkt < BITCHAT_HEADER_LEN then (s, [])
      else
        let h = relay_hash pkt in
        if relay_is_dup s (env_now env) h then (s, [])
        else
          let relay_buf = (take 2048 pkt)[2 := pkt ! 2 - 1]
          in send_to_peers cr env (\<lambda>p. p_active p \<and> p_conn_handle p \<noteq> except_handle) (pad_packet 2048 relay_buf)
               (relay_record s (env_now env) h))"

section \<open>Connections\<close>

definition on_connect :: "crypto \<Rightarrow> ble_env \<Rightarrow> ble \<Rightarrow> u16 \<Rightarrow> bytes \<Rightarrow> bool \<Rightarrow> ble \<times> ble_out list" where
  "on_connect cr env s handle addr central =
     (case alloc_peer (env_now env) s handle (Some addr) central of
        None \<Rightarrow> (s, [])
      | Some (i, s) \<Rightarrow> send_announce cr env s i)"

definition on_disconnect :: "ble \<Rightarrow> u16 \<Rightarrow> ble \<times> ble_out list" where
  "on_disconnect s handle = free_peer s handle"

section \<open>The relay cache implements the contract\<close>

definition relay_recent :: "ble \<Rightarrow> (u32 \<times> u32) list" where
  "relay_recent s = map (\<lambda>e. (de_hash e, de_timestamp_ms e)) (ring_recent (ble_relay_dedup s) (ble_relay_dedup_idx s))"

definition relay_invar :: "ble \<Rightarrow> bool" where
  "relay_invar s \<longleftrightarrow> length (ble_relay_dedup s) = RELAY_DEDUP_SIZE \<and> ble_relay_dedup_idx s < RELAY_DEDUP_SIZE"

interpretation relay_cache: recent_cache relay_is_dup relay_record relay_recent relay_invar RELAY_DEDUP_SIZE BITCHAT_MSG_CACHE_TTL_MS
proof
  fix s now h
  assume i: "relay_invar s"
  show "relay_recent (relay_record s now h) = (h, now) # butlast (relay_recent s)"
    using i ring_recent_put [of "ble_relay_dedup_idx s" "ble_relay_dedup s" "\<lparr>de_hash = h, de_timestamp_ms = now\<rparr>"]
    by (simp add: relay_recent_def relay_record_def relay_invar_def map_butlast)
  show "relay_is_dup s now h \<longleftrightarrow> (\<exists>t. (h, t) \<in> set (relay_recent s) \<and> now - t < BITCHAT_MSG_CACHE_TTL_MS)"
    by (auto simp: relay_is_dup_def relay_recent_def list_ex_iff)
  show "length (relay_recent s) = RELAY_DEDUP_SIZE" "relay_invar (relay_record s now h)"
    using i by (simp_all add: relay_recent_def relay_invar_def relay_record_def RELAY_DEDUP_SIZE_def)
qed (simp_all add: RELAY_DEDUP_SIZE_def BITCHAT_MSG_CACHE_TTL_MS_def)

section \<open>What sending changes\<close>

text \<open>Sending draws random bytes and changes nothing else.\<close>

definition drew_random :: "ble \<Rightarrow> ble \<Rightarrow> bool" where
  "drew_random s s' \<longleftrightarrow> (\<exists>n. s' = s\<lparr>rnd_pos := n\<rparr>)"

lemma drew_refl [simp]: "drew_random s s"
  unfolding drew_random_def by (rule exI [of _ "rnd_pos s"]) simp

lemma drew_trans: "drew_random s s' \<Longrightarrow> drew_random s' s'' \<Longrightarrow> drew_random s s''"
  by (auto simp: drew_random_def)

lemma drewD:
  assumes "drew_random s s'"
  shows "ble_active s' = ble_active s" "ble_keypair s' = ble_keypair s" "ble_server s' = ble_server s"
    "ble_msg_char s' = ble_msg_char s" "ble_peers s' = ble_peers s" "ble_rx s' = ble_rx s"
    "ble_relay_dedup s' = ble_relay_dedup s" "ble_relay_dedup_idx s' = ble_relay_dedup_idx s"
    "ble_frag_slots s' = ble_frag_slots s" "ble_on_message s' = ble_on_message s" "wall s' = wall s"
  using assms by (auto simp: drew_random_def)

lemma fill_random_drew: "drew_random s (snd (esp_fill_random env n s))"
  by (auto simp: esp_fill_random_def drew_random_def)

lemma send_to_peer_drew: "drew_random s (fst (send_to_peer cr env s i data))"
  using fill_random_drew [of s env 4] by (simp add: send_to_peer_def Let_def split_beta)

lemma send_to_peers_drew: "drew_random s (fst (send_to_peers cr env cond data s))"
  unfolding send_to_peers_def
  by (rule run_all_invar [where I = "drew_random s"]) (auto intro: drew_trans send_to_peer_drew)

text \<open>What a packet that fits the peer's MTU comes out as.\<close>

lemma send_to_peer_fits:
  "int (length data) \<le> peer_mtu env s (ble_peers s ! i) \<Longrightarrow>
   send_to_peer cr env s i data = (s, transmit s (ble_peers s ! i) data)"
  by (simp add: send_to_peer_def Let_def)

lemma send_to_peers_fits:
  assumes "list_all (\<lambda>p. int (length data) \<le> peer_mtu env s p) (filter cond (ble_peers s))"
  shows "send_to_peers cr env cond data s =
    (s, concat (map (\<lambda>p. transmit s p data) (filter cond (ble_peers s))))"
proof -
  have fit: "int (length data) \<le> peer_mtu env s (ble_peers s ! i)" if "i < length (ble_peers s)" "cond (ble_peers s ! i)" for i
    using assms that by (auto simp: list_all_iff)
  have "run_all (\<lambda>s i. if cond (ble_peers s ! i) then send_to_peer cr env s i data else (s, [])) s is =
      (s, concat (map (\<lambda>p. transmit s p data) (filter cond (map ((!) (ble_peers s)) is))))"
    if "set is \<subseteq> {..<length (ble_peers s)}" for "is"
    using that fit by (induction "is") (auto simp: send_to_peer_fits)
  from this [of "[0..<length (ble_peers s)]"] show ?thesis
    by (simp add: send_to_peers_def map_nth atLeast0LessThan)
qed

text \<open>The connections a transmission addresses by name.\<close>

fun written_to :: "ble_out \<Rightarrow> u16 option" where
  "written_to (Write_peer h _) = Some h"
| "written_to _ = None"

lemma transmit_written: "list_all (\<lambda>out. written_to out = None \<or> written_to out = Some (p_conn_handle p)) (transmit s p data)"
  by (simp add: transmit_def)

lemma send_to_peer_written:
  "list_all (\<lambda>out. written_to out = None \<or> written_to out = Some (p_conn_handle (ble_peers s ! i))) (snd (send_to_peer cr env s i data))"
  using transmit_written by (simp add: send_to_peer_def Let_def split_beta list_all_iff)

lemma send_to_peers_written:
  assumes "\<And>p. cond p \<Longrightarrow> p_conn_handle p \<noteq> h"
  shows "list_all (\<lambda>out. written_to out \<noteq> Some h) (snd (send_to_peers cr env cond data s))"
  unfolding send_to_peers_def
proof (rule run_all_outs)
  fix s i
  show "list_all (\<lambda>out. written_to out \<noteq> Some h) (snd (if cond (ble_peers s ! i) then send_to_peer cr env s i data else (s, [])))"
    using assms [of "ble_peers s ! i"] send_to_peer_written [of s i cr env data] by (auto simp: list_all_iff)
qed

section \<open>Relaying\<close>

lemma relay_dup_cong: "ble_relay_dedup s = ble_relay_dedup s' \<Longrightarrow> relay_is_dup s = relay_is_dup s'"
  by (auto simp: relay_is_dup_def fun_eq_iff)

lemma relay_hash_hop: "relay_hash ((take 2048 pkt)[2 := t]) = relay_hash (take 2048 pkt)"
  by (rule relay_hash_ttl)

lemma relay_record_frame [simp]:
  "ble_peers (relay_record s now h) = ble_peers s" "ble_msg_char (relay_record s now h) = ble_msg_char s"
  "ble_server (relay_record s now h) = ble_server s" "ble_active (relay_record s now h) = ble_active s"
  "ble_keypair (relay_record s now h) = ble_keypair s" "ble_rx (relay_record s now h) = ble_rx s"
  "ble_frag_slots (relay_record s now h) = ble_frag_slots s" "ble_on_message (relay_record s now h) = ble_on_message s"
  "wall (relay_record s now h) = wall s" "rnd_pos (relay_record s now h) = rnd_pos s"
  by (simp_all add: relay_record_def)

lemma transmit_cong: "ble_msg_char s = ble_msg_char s' \<Longrightarrow> transmit s = transmit s'"
  by (auto simp: transmit_def fun_eq_iff)

lemma peer_mtu_cong: "ble_server s = ble_server s' \<Longrightarrow> peer_mtu env s = peer_mtu env s'"
  by (auto simp: peer_mtu_def fun_eq_iff)

lemma relay_new:
  assumes "14 \<le> length pkt" and "length pkt \<le> 2048" and "\<not> relay_is_dup s (env_now env) (relay_hash pkt)"
  shows "relay_packet cr env s pkt h =
    send_to_peers cr env (\<lambda>p. p_active p \<and> p_conn_handle p \<noteq> h) (pad_packet 2048 (pkt[2 := pkt ! 2 - 1]))
      (relay_record s (env_now env) (relay_hash pkt))"
  using assms by (simp add: relay_packet_def pkt_consts Let_def)

lemma relay_dup: "relay_is_dup s (env_now env) (relay_hash pkt) \<Longrightarrow> relay_packet cr env s pkt h = (s, [])"
  by (simp add: relay_packet_def Let_def)


text \<open>A bridge with one peer it connected to, and an environment, for the examples.\<close>

definition one_peer :: ble where
  "one_peer = new_ble\<lparr>ble_active := True, ble_peers := [(new_session 0 9 None True)\<lparr>p_remote_chr := True\<rparr>]\<rparr>"

definition quiet_env :: ble_env where
  "quiet_env = \<lparr>env_now = 100000, env_client_mtu = (\<lambda>_. 512), env_device_mtu = 512, env_random = (\<lambda>_. 0)\<rparr>"

lemma one_peer_fresh: "\<not> relay_is_dup one_peer 100000 h" "relay_invar one_peer"
  by (simp_all add: relay_is_dup_def relay_invar_def one_peer_def new_ble_def RELAY_DEDUP_SIZE_def BITCHAT_MSG_CACHE_TTL_MS_def list_ex_iff)


end
