(* ===== verification/Bitchat_Ble.thy ===== *)
theory Bitchat_Ble
  imports Ble_Link
begin

text \<open>
  The receiving half of \<^verbatim>\<open>src/bitchat/bitchat_ble.cpp\<close>: dispatch of incoming packets, the
  handlers, scanning and connecting, and the main loop.  A packet is processed in the
  512-byte array of its ring entry; undefined behaviour is the result \<open>Inl\<close>.
\<close>

section \<open>Announces and messages\<close>

definition BITCHAT_HANDSHAKE_TIMEOUT_MS :: u32 where "BITCHAT_HANDSHAKE_TIMEOUT_MS = 15000"
definition BITCHAT_SCAN_RSSI_MIN :: int where "BITCHAT_SCAN_RSSI_MIN = -70"

type_synonym ble_step_result = "c_ub + ble \<times> ble_out list"

text \<open>A field of 32 bytes, as the checks on public keys require.\<close>

definition find_key :: "bytes \<Rightarrow> u8 \<Rightarrow> bytes option" where
  "find_key payload ty = (case tlv_find payload ty of Some v \<Rightarrow> if length v = 32 then Some v else None | None \<Rightarrow> None)"

definition learn_announce :: "bytes \<Rightarrow> peer_session \<Rightarrow> peer_session" where
  "learn_announce payload p =
     (let nick = (case tlv_find payload BITCHAT_TLV_NICKNAME of Some v \<Rightarrow> c_str (take 32 v) | None \<Rightarrow> []);
          p = (if nick \<noteq> [] then p\<lparr>p_nickname := strncpy 32 nick\<rparr> else p);
          p = (case find_key payload BITCHAT_TLV_SIGNING_PUBKEY of
                 Some k \<Rightarrow> p\<lparr>p_sign_pubkey := k, p_sign_pubkey_known := True\<rparr>
               | None \<Rightarrow> p)
      in p\<lparr>p_announce_rcvd := True\<rparr>)"

text \<open>The initiator's first handshake message.\<close>

definition start_handshake :: "crypto \<Rightarrow> ble_env \<Rightarrow> ble \<Rightarrow> nat \<Rightarrow> ble \<times> ble_out list" where
  "start_handshake cr env s i =
     (let (rnd, s) = esp_fill_random env 32 s;
          (hs, r) = noise_hs_init cr rnd NOISE_ROLE_INITIATOR (noise_private (ble_keypair s)) (noise_public (ble_keypair s));
          s = set_peer i ((ble_peers s ! i)\<lparr>p_hs := hs\<rparr>) s
      in case r of
           Inl e \<Rightarrow> (s, [])
         | Inr _ \<Rightarrow>
             let (hs, r) = noise_hs_write_msg1 cr hs;
                 s = set_peer i ((ble_peers s ! i)\<lparr>p_hs := hs\<rparr>) s
             in case r of Inl e \<Rightarrow> (s, []) | Inr out \<Rightarrow> send_handshake_packet cr env s i out)"

definition handle_announce :: "crypto \<Rightarrow> ble_env \<Rightarrow> ble \<Rightarrow> nat \<Rightarrow> bytes \<Rightarrow> ble \<times> ble_out list" where
  "handle_announce cr env s i payload =
     (let s = set_peer i (learn_announce payload (ble_peers s ! i)) s;
          (s, o1) = (if \<not> p_announce_sent (ble_peers s ! i) then send_announce cr env s i else (s, []));
          (s, o2) = (if p_we_are_central (ble_peers s ! i) \<and> hs_phase (p_hs (ble_peers s ! i)) = NOISE_HS_IDLE
                     then start_handshake cr env s i else (s, []))
      in (s, o1 @ o2))"

definition hex_name :: "bytes \<Rightarrow> bytes" where
  "hex_name sid = snprintf 32 (hex2 (sid ! 0) @ hex2 (sid ! 1) @ hex2 (sid ! 2) @ hex2 (sid ! 3))"

definition bitchat_message :: "u32 \<Rightarrow> bytes \<Rightarrow> bytes \<Rightarrow> bytes \<Rightarrow> bridge_message" where
  "bitchat_message now sid name txt =
     \<lparr>origin = BITCHAT, sender = \<lparr>meshtastic_node_id = 0, bitchat_fingerprint = sid @ replicate 24 0, display_name = name\<rparr>,
      mtext = c_str (take 511 txt), timestamp_ms = now\<rparr>"

definition deliver :: "ble \<Rightarrow> bridge_message \<Rightarrow> ble_out list" where
  "deliver s msg = (if ble_on_message s then [Deliver_message msg] else [])"

definition handle_message :: "ble_env \<Rightarrow> ble \<Rightarrow> nat \<Rightarrow> bytes \<Rightarrow> bytes \<Rightarrow> ble_out list" where
  "handle_message env s i payload sid =
     (case tlv_find payload BITCHAT_TLV_TEXT of
        None \<Rightarrow> []
      | Some txt \<Rightarrow>
          if txt = [] then []
          else
            let nick = p_nickname (ble_peers s ! i);
                name = (if nick \<noteq> [] then strncpy 31 nick
                        else case tlv_find payload BITCHAT_TLV_NICKNAME of
                               Some v \<Rightarrow> if v \<noteq> [] then c_str (take 31 v) else hex_name sid
                             | None \<Rightarrow> hex_name sid)
            in deliver s (bitchat_message (env_now env) sid name txt))"

section \<open>Handshakes and encrypted packets\<close>

definition handle_noise_handshake :: "crypto \<Rightarrow> ble_env \<Rightarrow> ble \<Rightarrow> nat \<Rightarrow> bytes \<Rightarrow> ble \<times> ble_out list" where
  "handle_noise_handshake cr env s i payload =
     (let hs = p_hs (ble_peers s ! i);
          update = (\<lambda>s hs. set_peer i ((ble_peers s ! i)\<lparr>p_hs := hs\<rparr>) s);
          reply = (\<lambda>s r. case r of Inl e \<Rightarrow> (s, []) | Inr out \<Rightarrow> send_handshake_packet cr env s i out)
      in case hs_phase hs of
           NOISE_HS_IDLE \<Rightarrow>
             let (rnd, s) = esp_fill_random env 32 s;
                 (hs, r) = noise_hs_init cr rnd NOISE_ROLE_RESPONDER (noise_private (ble_keypair s)) (noise_public (ble_keypair s));
                 s = update s hs
             in (case r of
                   Inl e \<Rightarrow> (s, [])
                 | Inr _ \<Rightarrow> let (hs, r) = noise_hs_read_msg1_write_msg2 cr hs payload in reply (update s hs) r)
         | NOISE_HS_AWAIT_MSG2 \<Rightarrow> let (hs, r) = noise_hs_read_msg2_write_msg3 cr hs payload in reply (update s hs) r
         | NOISE_HS_AWAIT_MSG3 \<Rightarrow> let (hs, r) = noise_hs_read_msg3 cr hs payload in (update s hs, [])
         | NOISE_HS_TRANSPORT \<Rightarrow> (s, [])
         | NOISE_HS_FAILED \<Rightarrow> (s, []))"

text \<open>
  A decrypted private message is delivered and acknowledged; the receipt is built in
  a 20-byte array, which a message id of more than 18 bytes overruns.
\<close>

definition handle_private_message :: "crypto \<Rightarrow> ble_env \<Rightarrow> ble \<Rightarrow> nat \<Rightarrow> bytes \<Rightarrow> ble_step_result" where
  "handle_private_message cr env s i inner =
     (case tlv_find inner BITCHAT_TLV_CONTENT of
        None \<Rightarrow> Inr (s, [])
      | Some content \<Rightarrow>
          if content = [] then Inr (s, [])
          else
            let p = ble_peers s ! i;
                name = (if p_nickname p \<noteq> [] then strncpy 31 (p_nickname p) else hex_name (p_peer_id p));
                delivered = deliver s (bitchat_message (env_now env) (p_peer_id p) name content)
            in case tlv_find inner BITCHAT_TLV_MESSAGE_ID of
                 None \<Rightarrow> Inr (s, delivered)
               | Some msg_id \<Rightarrow>
                   if msg_id = [] then Inr (s, delivered)
                   else if length msg_id > 18 then Inl Buffer_overflow
                   else
                     let (s, outs) = send_encrypted cr env s i NOISE_PAYLOAD_DELIVERED (tlv_encode BITCHAT_TLV_MESSAGE_ID msg_id)
                     in Inr (s, delivered @ outs))"

text \<open>The argument \<open>None\<close> is a ciphertext length above \<open>2\<^sup>3\<^sup>1\<close>, which decryption would read in full.\<close>

definition handle_encrypted :: "crypto \<Rightarrow> ble_env \<Rightarrow> ble \<Rightarrow> nat \<Rightarrow> bytes \<Rightarrow> bytes option \<Rightarrow> ble_step_result" where
  "handle_encrypted cr env s i header ciphertext =
     (let p = ble_peers s ! i in
      if hs_phase (p_hs p) \<noteq> NOISE_HS_TRANSPORT then Inr (s, [])
      else case ciphertext of
        None \<Rightarrow> Inl Buffer_overflow
      | Some ct \<Rightarrow>
          let (hs, r) = noise_hs_decrypt (p_hs p) header ct;
              s = set_peer i (p\<lparr>p_hs := hs\<rparr>) s
          in case r of
               Inl e \<Rightarrow> Inr (s, [])
             | Inr pt \<Rightarrow>
                 if pt = [] then Inr (s, [])
                 else if hd pt = NOISE_PAYLOAD_PRIVATE_MSG \<and> tl pt \<noteq> [] then handle_private_message cr env s i (tl pt)
                 else Inr (s, []))"

section \<open>Incoming packets\<close>

text \<open>
  The payload length is compared as a signed number; with the top bit set it is negative,
  passes the check, and the fields of the payload are not found.
\<close>

definition payload_of :: "bytes \<Rightarrow> parsed_header \<Rightarrow> bytes" where
  "payload_of pkt ph = take (nat (sint (ph_payload_len ph))) (drop (ph_offset ph) pkt)"

definition sender_of :: "bytes \<Rightarrow> parsed_header \<Rightarrow> bytes" where
  "sender_of pkt ph = take BITCHAT_SENDER_ID_LEN (drop (ph_header_len ph) pkt)"

text \<open>Whether the packet passes; a packet below 64 bytes has no room for the signature that is read from its end.\<close>

definition signature_ok :: "crypto \<Rightarrow> peer_session \<Rightarrow> bytes \<Rightarrow> parsed_header \<Rightarrow> c_ub + bool" where
  "signature_ok cr p pkt ph =
     (let verify = (\<lambda>key. ed25519_verify cr (drop (length pkt - 64) pkt) (take (length pkt - 64) pkt) key) in
      if ph_flags ph AND BITCHAT_FLAG_HAS_SIGNATURE = 0 then Inr True
      else if int (length pkt) < sint (of_nat (ph_offset ph) + ph_payload_len ph + 64) then Inr False
      else if ph_type ph = BITCHAT_PKT_ANNOUNCE then
        (case find_key (payload_of pkt ph) BITCHAT_TLV_SIGNING_PUBKEY of Some key \<Rightarrow> Inr (verify key) | None \<Rightarrow> Inr True)
      else if p_sign_pubkey_known p then
        if length pkt < 64 then Inl Buffer_overflow else Inr (verify (p_sign_pubkey p))
      else Inr True)"

definition put_rx :: "ble \<Rightarrow> bytes \<Rightarrow> u16 \<Rightarrow> ble" where
  "put_rx s data conn = s\<lparr>ble_rx := rx_put (ble_rx s) (data, conn)\<rparr>"

text \<open>The handler of each type, and whether the packet is then considered for relaying.\<close>

definition dispatch :: "crypto \<Rightarrow> ble_env \<Rightarrow> ble \<Rightarrow> nat \<Rightarrow> bytes \<Rightarrow> bytes \<Rightarrow> parsed_header \<Rightarrow> u16 \<Rightarrow> ble_step_result" where
  "dispatch cr env s i rx_buf pkt ph conn =
     (let payload = payload_of pkt ph; ty = ph_type ph; negative = sint (ph_payload_len ph) < 0 in
      if ty = BITCHAT_PKT_ANNOUNCE then Inr (handle_announce cr env s i payload)
      else if ty = BITCHAT_PKT_MESSAGE then Inr (s, handle_message env s i payload (sender_of pkt ph))
      else if ty = BITCHAT_PKT_NOISE_HANDSHAKE then
        Inr (handle_noise_handshake cr env s i (if negative then drop (ph_offset ph) rx_buf else payload))
      else if ty = BITCHAT_PKT_NOISE_ENCRYPTED then
        handle_encrypted cr env s i (take (ph_header_len ph) pkt) (if negative then None else Some payload)
      else if ty = BITCHAT_PKT_FRAGMENT then
        (case handle_fragment (env_now env) (ble_frag_slots s) payload conn of
           (slots, None) \<Rightarrow> Inr (s\<lparr>ble_frag_slots := slots\<rparr>, [])
         | (slots, Some assembled) \<Rightarrow> Inr (put_rx (s\<lparr>ble_frag_slots := slots\<rparr>) assembled conn, []))
      else if ty = BITCHAT_PKT_REQUEST_SYNC then Inr (send_announce cr env s i)
      else Inr (s, []))"

definition sync_packet_clock :: "bytes \<Rightarrow> ble \<Rightarrow> ble" where
  "sync_packet_clock pkt s =
     (if length pkt \<ge> 11 \<and> packet_timestamp_sec pkt > 0 then
        let (sec, set) = time_sync_from_epoch (fst (wall s)) (packet_timestamp_sec pkt)
        in if set then s\<lparr>wall := (sec, 0)\<rparr> else s
      else s)"

text \<open>The session of the connection, created where there is none.\<close>

definition session_for :: "ble_env \<Rightarrow> ble \<Rightarrow> u16 \<Rightarrow> (nat \<times> ble) option" where
  "session_for env s conn =
     (case find_peer s conn of
        Some i \<Rightarrow> Some (i, s)
      | None \<Rightarrow> alloc_peer (env_now env) s conn None False)"

definition learn_peer_id :: "bytes \<Rightarrow> peer_session \<Rightarrow> peer_session" where
  "learn_peer_id sid p = (if p_peer_id_known p then p else p\<lparr>p_peer_id := sid, p_peer_id_known := True\<rparr>)"

definition relayed_type :: "u8 \<Rightarrow> bool" where
  "relayed_type ty \<longleftrightarrow> ty = BITCHAT_PKT_ANNOUNCE \<or> ty = BITCHAT_PKT_MESSAGE"

text \<open>The packet of a session, once it is known to be well-formed.\<close>

definition process_packet :: "crypto \<Rightarrow> ble_env \<Rightarrow> ble \<Rightarrow> nat \<Rightarrow> bytes \<Rightarrow> bytes \<Rightarrow> parsed_header \<Rightarrow> u16 \<Rightarrow> ble_step_result" where
  "process_packet cr env s i rx_buf pkt ph conn =
     (case signature_ok cr (ble_peers s ! i) pkt ph of
        Inl e \<Rightarrow> Inl e
      | Inr False \<Rightarrow> Inr (s, [])
      | Inr True \<Rightarrow>
          (case dispatch cr env s i rx_buf pkt ph conn of
             Inl e \<Rightarrow> Inl e
           | Inr (s, outs) \<Rightarrow>
               if ph_ttl ph > 1 \<and> relayed_type (ph_type ph) then
                 let (s, outs') = relay_packet cr env s pkt conn in Inr (s, outs @ outs')
               else Inr (s, outs)))"

definition process_incoming :: "crypto \<Rightarrow> ble_env \<Rightarrow> ble \<Rightarrow> rx_entry \<Rightarrow> ble_step_result" where
  "process_incoming cr env s e =
     (let pkt = unpad_packet (take (re_len e) (re_data e)) in
      if length pkt < 2 then Inr (s, [])
      else
        let s = sync_packet_clock pkt s in
        case parse_header pkt of
          None \<Rightarrow> Inr (s, [])
        | Some ph \<Rightarrow>
            if int (ph_offset ph) + sint (ph_payload_len ph) > int (length pkt) then Inr (s, [])
            else case session_for env s (re_conn e) of
              None \<Rightarrow> Inr (s, [])
            | Some (i, s) \<Rightarrow>
                let s = set_peer i (learn_peer_id (sender_of pkt ph) (ble_peers s ! i)) s
                in process_packet cr env s i (re_data e) pkt ph (re_conn e))"

section \<open>Scanning and connecting\<close>

definition BITCHAT_SERVICE_UUID :: bytes where "BITCHAT_SERVICE_UUID = ascii ''F47B5E2D-4A9E-4C5A-9B3F-8E1D2C3A4B5C''"
definition BITCHAT_MSG_CHAR_UUID :: bytes where "BITCHAT_MSG_CHAR_UUID = ascii ''A1B2C3D4-E5F6-4A5B-8C9D-0E1F2A3B4C5D''"

definition init_ble_server :: "bytes \<Rightarrow> ble \<Rightarrow> ble \<times> ble_out list" where
  "init_ble_server name s =
     (s\<lparr>ble_server := True, ble_msg_char := True\<rparr>,
      [Device_init name, Set_power 9, Set_mtu BITCHAT_BLE_MTU, Create_server, Create_service BITCHAT_SERVICE_UUID,
       Create_characteristic BITCHAT_MSG_CHAR_UUID [WRITE, WRITE_NR, NOTIFY]])"

definition start_advertising :: "ble_out list" where
  "start_advertising = [Adv_service BITCHAT_SERVICE_UUID, Adv_scan_response True, Advertise]"

definition start_scanning :: "u32 \<Rightarrow> ble \<Rightarrow> ble \<times> ble_out list" where
  "start_scanning now s =
     (if ble_scanning s then (s, []) else (s\<lparr>ble_scanning := True, ble_last_scan_ms := now\<rparr>, [Scan_setup True 100 80, Scan_start (10 * 1000)]))"

definition scan_complete :: "ble \<Rightarrow> ble \<times> ble_out list" where
  "scan_complete s = (s\<lparr>ble_scanning := False\<rparr>, [Advertise])"

text \<open>What the stack answers to a connection attempt.\<close>

datatype connect_answer = Connect_failed | No_service | No_characteristic | Connected u16 bool

definition connect_to_peripheral :: "crypto \<Rightarrow> ble_env \<Rightarrow> ble \<Rightarrow> bytes \<Rightarrow> connect_answer \<Rightarrow> ble \<times> ble_out list" where
  "connect_to_peripheral cr env s addr answer =
     (case answer of
        Connect_failed \<Rightarrow> (s, [Client_connect addr, Client_delete])
      | No_service \<Rightarrow> (s, [Client_connect addr, Client_abandon, Client_delete])
      | No_characteristic \<Rightarrow> (s, [Client_connect addr, Client_abandon, Client_delete])
      | Connected handle can_notify \<Rightarrow>
          let (s, outs) = on_connect cr env s handle addr True;
              s = (case find_peer s handle of
                     None \<Rightarrow> s
                   | Some i \<Rightarrow> set_peer i ((ble_peers s ! i)\<lparr>p_client := True, p_remote_chr := True\<rparr>) s)
          in (s, Client_connect addr # outs @ (if can_notify then [Subscribe handle] else [])))"

definition on_scan_result :: "crypto \<Rightarrow> ble_env \<Rightarrow> ble \<Rightarrow> bool \<Rightarrow> int \<Rightarrow> bytes \<Rightarrow> connect_answer \<Rightarrow> ble \<times> ble_out list" where
  "on_scan_result cr env s advertises rssi addr answer =
     (if \<not> advertises then (s, [])
      else if rssi < BITCHAT_SCAN_RSSI_MIN then (s, [])
      else if list_ex (\<lambda>p. p_active p \<and> p_ble_addr p = addr) (ble_peers s) then (s, [])
      else if active_peer_count s \<ge> BITCHAT_MAX_CONNECTIONS then (s, [])
      else
        let (s, outs) = connect_to_peripheral cr env (s\<lparr>ble_scanning := False\<rparr>) addr answer
        in (s, Scan_stop # outs @ start_advertising))"

text \<open>The callbacks of the peripheral role.\<close>

definition server_on_connect :: "crypto \<Rightarrow> ble_env \<Rightarrow> ble \<Rightarrow> u16 \<Rightarrow> bytes \<Rightarrow> ble \<times> ble_out list" where
  "server_on_connect cr env s handle addr =
     (let (s, outs) = on_connect cr env s handle addr False in (s, outs @ [Advertise]))"

definition server_on_disconnect :: "ble \<Rightarrow> u16 \<Rightarrow> ble \<times> ble_out list" where
  "server_on_disconnect s handle = (let (s, outs) = on_disconnect s handle in (s, outs @ [Advertise]))"

section \<open>Life cycle\<close>

text \<open>The self-test and the identity come first; \<open>rnd\<close> and \<open>seed\<close> are for a new identity.\<close>

definition ble_begin :: "'st kp_nvs \<Rightarrow> crypto \<Rightarrow> ble_env \<Rightarrow> bytes \<Rightarrow> bytes \<Rightarrow> ble \<times> 'st \<Rightarrow> (ble \<times> 'st) \<times> ble_out list \<times> bool" where
  "ble_begin nv cr env rnd seed = (\<lambda>(s, st).
     if take 4 (fst (ed25519_create_keypair cr (replicate 32 0))) \<noteq> [0x3b, 0x6a, 0x27, 0xbc] then ((s, st), [], False)
     else case bitchat_identity_init nv cr rnd seed st of
       (None, st) \<Rightarrow> ((s, st), [], False)
     | (Some kp, st) \<Rightarrow>
         let name = snprintf 16 (ascii ''bc-'' @ bitchat_fingerprint_short (fingerprint kp) 16);
             (s, init) = init_ble_server name (s\<lparr>ble_keypair := kp\<rparr>);
             (s, outs) = start_scanning (env_now env) (s\<lparr>ble_active := True\<rparr>)
         in ((s, st), init @ start_advertising @ outs, True))"

definition ble_end :: "crypto \<Rightarrow> ble_env \<Rightarrow> ble \<Rightarrow> ble \<times> ble_out list" where
  "ble_end cr env s =
     (if ble_active s then
        let (s, outs) = send_leave cr env s
        in (s\<lparr>ble_active := False, ble_server := False, ble_msg_char := False\<rparr>, outs @ [Device_deinit])
      else (s, []))"

definition prepend_outs :: "ble_out list \<Rightarrow> ble_step_result \<Rightarrow> ble_step_result" where
  "prepend_outs outs r = (case r of Inl f \<Rightarrow> Inl f | Inr (s, outs') \<Rightarrow> Inr (s, outs @ outs'))"

text \<open>
  Draining the receive ring: every packet is processed in its entry, which is released
  afterwards.  A reassembled packet joins the ring, so that the loop runs until nothing is left.
\<close>

partial_function (option) drain_rx :: "crypto \<Rightarrow> ble_env \<Rightarrow> ble \<Rightarrow> ble_step_result option" where
  "drain_rx cr env s =
     (case rx_front_entry (ble_rx s) of
        None \<Rightarrow> Some (Inr (s, []))
      | Some e \<Rightarrow>
          (case process_incoming cr env s e of
             Inl f \<Rightarrow> Some (Inl f)
           | Inr (s', outs) \<Rightarrow>
               Option.bind (drain_rx cr env (s'\<lparr>ble_rx := rx_pop (ble_rx s')\<rparr>)) (\<lambda>r. Some (prepend_outs outs r))))"

definition expire_handshake :: "u32 \<Rightarrow> ble \<Rightarrow> nat \<Rightarrow> ble \<times> ble_out list" where
  "expire_handshake now s i =
     (let p = ble_peers s ! i in
      if p_active p \<and> hs_phase (p_hs p) \<noteq> NOISE_HS_TRANSPORT \<and> hs_phase (p_hs p) \<noteq> NOISE_HS_IDLE \<and>
         now - p_connect_time_ms p > BITCHAT_HANDSHAKE_TIMEOUT_MS
      then free_peer s (p_conn_handle p) else (s, []))"

definition reannounce :: "crypto \<Rightarrow> ble_env \<Rightarrow> ble \<Rightarrow> nat \<Rightarrow> ble \<times> ble_out list" where
  "reannounce cr env s i =
     (if p_active (ble_peers s ! i) \<and> p_announce_sent (ble_peers s ! i) then send_announce cr env s i else (s, []))"

text \<open>The periodic part of the loop.\<close>

definition housekeeping :: "crypto \<Rightarrow> ble_env \<Rightarrow> ble \<Rightarrow> ble \<times> ble_out list" where
  "housekeeping cr env s =
     (let now = env_now env; peers = [0..<length (ble_peers s)];
          (s, o1) = (if now - ble_last_scan_ms s > 15000 \<and> active_peer_count s < BITCHAT_MAX_CONNECTIONS
                     then start_scanning now s else (s, []));
          (s, o2) = run_all (expire_handshake now) s peers;
          (s, o3) = (if now - ble_last_announce_ms s > BITCHAT_ANNOUNCE_INTERVAL_MS
                     then run_all (reannounce cr env) (s\<lparr>ble_last_announce_ms := now\<rparr>) peers else (s, []))
      in (s, o1 @ o2 @ o3))"

definition ble_loop :: "crypto \<Rightarrow> ble_env \<Rightarrow> ble \<Rightarrow> (ble \<times> ble_out list) run" where
  "ble_loop cr env s =
     (if \<not> ble_active s then Some (Inr (s, []))
      else case drain_rx cr env s of
             None \<Rightarrow> None
           | Some (Inl f) \<Rightarrow> Some (Inl f)
           | Some (Inr (s, outs)) \<Rightarrow> let (s, outs') = housekeeping cr env s in Some (Inr (s, outs @ outs')))"

end
