(* ===== verification/Ble_Invariant.thy ===== *)
theory Ble_Invariant
  imports Bitchat_Ble
begin

text \<open>
  The invariant of the BLE transport and the termination of its receive loop.  The handlers
  other than reassembly only touch the peer table, the relay cache and the random
  stream; \<open>link_step\<close> says so, and its transitivity carries the proofs.
\<close>

section \<open>The peer table\<close>

definition session_ok :: "peer_session \<Rightarrow> bool" where
  "session_ok p \<longleftrightarrow> length (p_peer_id p) = 8 \<and> length (p_sign_pubkey p) = 32 \<and> is_cstr (p_nickname p) \<and> length (p_nickname p) \<le> 32"

text \<open>Who is connected: the flag and the handle of every slot.\<close>

definition links :: "ble \<Rightarrow> (bool \<times> u16) list" where
  "links s = map (\<lambda>p. (p_active p, p_conn_handle p)) (ble_peers s)"

definition link_step :: "ble \<Rightarrow> ble \<Rightarrow> bool" where
  "link_step s s' \<longleftrightarrow> links s' = links s \<and> ble_rx s' = ble_rx s \<and> ble_frag_slots s' = ble_frag_slots s \<and>
     ble_active s' = ble_active s \<and> ble_keypair s' = ble_keypair s \<and>
     (relay_invar s \<longrightarrow> relay_invar s') \<and> (list_all session_ok (ble_peers s) \<longrightarrow> list_all session_ok (ble_peers s'))"

lemma link_refl [simp]: "link_step s s"
  by (simp add: link_step_def)

lemma link_trans: "link_step s s' \<Longrightarrow> link_step s' s'' \<Longrightarrow> link_step s s''"
  by (simp add: link_step_def)

lemma links_length: "links s' = links s \<Longrightarrow> length (ble_peers s') = length (ble_peers s)"
  unfolding links_def by (rule map_eq_imp_length_eq)

lemma link_length: "link_step s s' \<Longrightarrow> length (ble_peers s') = length (ble_peers s)"
  unfolding link_step_def by (blast intro: links_length)

lemma link_drew: "drew_random s s' \<Longrightarrow> link_step s s'"
  by (auto simp: link_step_def links_def drew_random_def relay_invar_def)

lemma link_record: "link_step s (relay_record s now h)"
  using relay_cache.invar_record by (simp add: link_step_def links_def)

lemma link_set_peer:
  assumes "p_active p = p_active (ble_peers s ! i)" and "p_conn_handle p = p_conn_handle (ble_peers s ! i)"
    and "list_all session_ok (ble_peers s) \<Longrightarrow> i < length (ble_peers s) \<Longrightarrow> session_ok p"
  shows "link_step s (set_peer i p s)"
proof (cases "i < length (ble_peers s)")
  case True
  then have "map (\<lambda>p. (p_active p, p_conn_handle p)) ((ble_peers s)[i := p]) = map (\<lambda>p. (p_active p, p_conn_handle p)) (ble_peers s)"
    using assms(1,2) by (simp add: map_update list_update_same_conv)
  moreover have "list_all session_ok ((ble_peers s)[i := p])" if "list_all session_ok (ble_peers s)"
    using that assms(3) True by (auto simp: list_all_length nth_list_update)
  ultimately show ?thesis by (simp add: link_step_def links_def set_peer_def relay_invar_def)
qed (simp add: link_step_def links_def set_peer_def relay_invar_def list_update_beyond)

lemma link_run_all: "(\<And>s i. link_step s (fst (f s i))) \<Longrightarrow> link_step s (fst (run_all f s is))"
  by (rule run_all_invar [where I = "link_step s"]) (auto intro: link_trans)

lemma link_set_hs: "link_step s (set_peer i ((ble_peers s ! i)\<lparr>p_hs := hs\<rparr>) s)"
  by (rule link_set_peer) (auto simp: session_ok_def list_all_length)

section \<open>The handlers\<close>

lemma link_send_to_peer: "link_step s (fst (send_to_peer cr env s i data))"
  by (rule link_drew) (rule send_to_peer_drew)

lemma link_send_to_peers: "link_step s (fst (send_to_peers cr env cond data s))"
  by (rule link_drew) (rule send_to_peers_drew)

lemma link_random: "link_step s (snd (esp_fill_random env n s))"
  by (rule link_drew) (rule fill_random_drew)

lemma link_send_announce: "link_step s (fst (send_announce cr env s i))"
proof -
  have "link_step s' (set_peer i ((ble_peers s' ! i)\<lparr>p_announce_sent := True\<rparr>) s')" for s'
    by (rule link_set_peer) (auto simp: session_ok_def list_all_length)
  then show ?thesis
    by (simp add: send_announce_def split_beta Let_def) (rule link_trans [OF link_send_to_peer])
qed

lemma link_send_handshake: "link_step s (fst (send_handshake_packet cr env s i payload))"
  by (simp add: send_handshake_packet_def link_send_to_peer)

lemma link_send_encrypted: "link_step s (fst (send_encrypted cr env s i ty inner))"
  unfolding send_encrypted_def
  by (auto simp: Let_def split_beta link_set_hs intro: link_trans [OF link_set_hs link_send_to_peer] split: sum.split)

lemma link_relay_packet: "link_step s (fst (relay_packet cr env s pkt h))"
  unfolding relay_packet_def by (auto simp: Let_def intro: link_trans [OF link_record link_send_to_peers])

lemma link_broadcast: "link_step s (fst (broadcast cr env n packet s))"
  unfolding broadcast_def by (rule link_trans [OF link_record link_send_to_peers])

lemma link_learn_announce: "link_step s (set_peer i (learn_announce payload (ble_peers s ! i)) s)"
proof (rule link_set_peer)
  assume "list_all session_ok (ble_peers s)" and "i < length (ble_peers s)"
  then have "session_ok (ble_peers s ! i)" by (simp add: list_all_length)
  moreover have "length k = 32" if "find_key payload ty = Some k" for ty k
    using that by (auto simp: find_key_def split: option.splits if_splits)
  moreover have "length (strncpy 32 n) \<le> 32" for n by (rule length_strncpy)
  ultimately show "session_ok (learn_announce payload (ble_peers s ! i))"
    by (simp add: learn_announce_def session_ok_def Let_def split: option.split)
qed (simp_all add: learn_announce_def Let_def split: option.split)

lemmas link_hs_steps = link_set_hs link_trans [OF link_set_hs link_send_handshake] link_trans [OF link_random link_set_hs]
  link_trans [OF link_trans [OF link_random link_set_hs] link_set_hs]
  link_trans [OF link_trans [OF link_trans [OF link_random link_set_hs] link_set_hs] link_send_handshake]

lemma link_start_handshake: "link_step s (fst (start_handshake cr env s i))"
  unfolding start_handshake_def by (auto simp: Let_def split_beta intro: link_hs_steps split: sum.split)

lemma link_handle_announce: "link_step s (fst (handle_announce cr env s i payload))"
  unfolding handle_announce_def
  by (auto simp: Let_def split_beta intro: link_learn_announce link_trans [OF link_learn_announce link_send_announce]
      link_trans [OF link_learn_announce link_start_handshake]
      link_trans [OF link_trans [OF link_learn_announce link_send_announce] link_start_handshake])

lemma link_handle_noise_handshake: "link_step s (fst (handle_noise_handshake cr env s i payload))"
  unfolding handle_noise_handshake_def
  by (auto simp: Let_def split_beta intro: link_hs_steps split: NoiseHSPhase.split sum.split)

lemma link_handle_encrypted:
  assumes "handle_encrypted cr env s i header ct = Inr (s', outs)"
  shows "link_step s s'"
proof -
  have priv: "link_step s'' s'" if "handle_private_message cr env s'' i inner = Inr (s', outs)" for s'' inner
    using that link_send_encrypted [of s'' cr env i]
    by (auto simp: handle_private_message_def Let_def split_beta split: option.splits if_splits)
  show ?thesis
    using assms by (auto simp: handle_encrypted_def Let_def split_beta intro: link_set_hs link_trans [OF link_set_hs priv]
        split: option.splits sum.splits if_splits)
qed

section \<open>The invariant\<close>

lemma list_all_update: "list_all P xs \<Longrightarrow> P x \<Longrightarrow> list_all P (xs[i := x])"
  using set_update_subset_insert [of xs i x] by (auto simp: list_all_iff)

definition slot_ok :: "frag_slot \<Rightarrow> bool" where
  "slot_ok s \<longleftrightarrow> length (fs_data s) = 2048 \<and> length (fs_offsets s) = 8 \<and> length (fs_lengths s) = 8"

definition distinct_links :: "(bool \<times> u16) list \<Rightarrow> bool" where
  "distinct_links ls \<longleftrightarrow>
     (\<forall>i<length ls. \<forall>j<length ls. fst (ls ! i) \<and> fst (ls ! j) \<and> snd (ls ! i) = snd (ls ! j) \<longrightarrow> i = j)"

definition ble_invar :: "ble \<Rightarrow> bool" where
  "ble_invar s \<longleftrightarrow> length (ble_peers s) = BITCHAT_MAX_CONNECTIONS \<and> list_all session_ok (ble_peers s) \<and>
     distinct_links (links s) \<and> relay_invar s \<and> rx_invar (ble_rx s) \<and>
     length (ble_frag_slots s) = BITCHAT_FRAG_REASSEMBLY \<and> list_all slot_ok (ble_frag_slots s)"

lemma invar_link: "ble_invar s \<Longrightarrow> link_step s s' \<Longrightarrow> ble_invar s'"
  using link_length [of s s'] by (auto simp: ble_invar_def link_step_def)

lemma distinct_links_update:
  assumes "distinct_links ls" and "i < length ls" and "a \<Longrightarrow> \<not> fst (ls ! i)" and "a \<Longrightarrow> (True, h) \<notin> set ls"
  shows "distinct_links (ls[i := (a, h)])"
  unfolding distinct_links_def
proof (intro allI impI)
  fix j k
  assume j: "j < length (ls[i := (a, h)])" and k: "k < length (ls[i := (a, h)])"
    and eq: "fst (ls[i := (a, h)] ! j) \<and> fst (ls[i := (a, h)] ! k) \<and> snd (ls[i := (a, h)] ! j) = snd (ls[i := (a, h)] ! k)"
  have other: "\<not> (fst (ls ! m) \<and> snd (ls ! m) = h)" if "a" "m < length ls" for m
    using assms(4) [OF \<open>a\<close>] that nth_mem [of m ls] by (cases "ls ! m") auto
  show "j = k"
    using assms(1) other j k eq by (cases "j = i"; cases "k = i") (auto simp: distinct_links_def nth_list_update)
qed

lemma session_ok_zero: "session_ok zero_session" "session_ok (new_session now h addr c)"
  by (simp_all add: session_ok_def zero_session_def new_session_def)

text \<open>A new session is put into a free slot; it keeps the handles apart when the handle is not in use.\<close>

lemma invar_alloc:
  assumes "ble_invar s" and "alloc_peer now s h addr c = Some (i, s')" and "find_peer s h = None"
  shows "ble_invar s' \<and> i < length (ble_peers s') \<and> ble_peers s' ! i = new_session now h addr c \<and>
    ble_rx s' = ble_rx s \<and> ble_frag_slots s' = ble_frag_slots s"
proof -
  have i: "i < length (ble_peers s)" "\<not> p_active (ble_peers s ! i)" and s': "s' = set_peer i (new_session now h addr c) s"
    using assms(2) by (auto simp: alloc_peer_def find_upt_Some split: option.splits)
  have "(True, h) \<notin> set (links s)"
    using assms(3) by (auto simp: find_peer_def find_None_iff links_def in_set_conv_nth)
  then have "distinct_links ((links s)[i := (True, h)])"
    using assms(1) i by (intro distinct_links_update) (simp_all add: ble_invar_def links_def)
  moreover have "links s' = (links s)[i := (True, h)]"
    by (simp add: s' links_def set_peer_def map_update new_session_def)
  moreover have "list_all session_ok (ble_peers s')"
    using assms(1) session_ok_zero(2) by (simp add: s' set_peer_def ble_invar_def list_all_update)
  ultimately show ?thesis
    using assms(1) i by (simp add: ble_invar_def s' set_peer_def relay_invar_def)
qed

lemma invar_free_peer: "ble_invar s \<Longrightarrow> ble_invar (fst (free_peer s h))"
proof -
  assume inv: "ble_invar s"
  show ?thesis
  proof (cases "find_peer s h")
    case (Some i)
    have i: "i < length (ble_peers s)" using Some by (auto simp: find_peer_def find_upt_Some)
    have "links (set_peer i zero_session s) = (links s)[i := (False, 0)]"
      by (simp add: links_def set_peer_def map_update zero_session_def)
    moreover have "distinct_links ((links s)[i := (False, 0)])"
      using inv i by (intro distinct_links_update) (simp_all add: ble_invar_def links_def)
    moreover have "list_all session_ok (ble_peers (set_peer i zero_session s))"
      using inv session_ok_zero(1) by (simp add: set_peer_def ble_invar_def list_all_update)
    ultimately show ?thesis
      using inv Some by (simp add: free_peer_def ble_invar_def set_peer_def relay_invar_def)
  qed (simp add: free_peer_def inv)
qed

section \<open>Reassembly\<close>

text \<open>The bytes a slot holds.\<close>

definition slot_bytes :: "frag_slot \<Rightarrow> nat" where
  "slot_bytes s = (if fs_active s then sum_list (fs_lengths s) else 0)"

definition slots_bytes :: "frag_slot list \<Rightarrow> nat" where
  "slots_bytes slots = sum_list (map slot_bytes slots)"

lemma slots_bytes_update: "k < length slots \<Longrightarrow> slots_bytes (slots[k := s]) + slot_bytes (slots ! k) = slots_bytes slots + slot_bytes s"
  using elem_le_sum_list [of k "map slot_bytes slots"] by (simp add: slots_bytes_def map_update sum_list_update)

lemma slots_bytes_expire: "slots_bytes (map (expire_slot now) slots) \<le> slots_bytes slots"
  unfolding slots_bytes_def map_map by (rule sum_list_mono) (simp add: slot_bytes_def expire_slot_def)

lemma slot_bytes_store:
  assumes "slot_ok s" and "i < 8"
  shows "slot_bytes (store_fragment i c (claim_slot now msg_id conn cnt s)) \<le> slot_bytes s + length c"
proof -
  have store: "slot_bytes (store_fragment i c s) \<le> slot_bytes s + length c" if "slot_ok s" for s
    using that assms(2) by (simp add: store_fragment_def slot_bytes_def slot_ok_def sum_list_update Let_def)
  have "slot_bytes (claim_slot now msg_id conn cnt s) = slot_bytes s" "slot_ok (claim_slot now msg_id conn cnt s)"
    using assms(1) by (simp_all add: claim_slot_def slot_bytes_def slot_ok_def empty_slot_def BITCHAT_MAX_FRAGMENTS_def)
  then show ?thesis using store by metis
qed

lemma slot_ok_store: "slot_ok s \<Longrightarrow> slot_ok (store_fragment i c (claim_slot now msg_id conn cnt s))"
  by (simp add: store_fragment_def claim_slot_def slot_ok_def empty_slot_def BITCHAT_MAX_FRAGMENTS_def write_at_def Let_def)

lemma slot_for_bound: "slot_for slots msg_id conn = Some k \<Longrightarrow> k < length slots"
  by (simp add: slot_for_def find_upt_Some)

lemma free_slot_bound: "free_slot slots = Some k \<Longrightarrow> k < length slots"
  by (simp add: free_slot_def find_upt_Some)

lemma store_claim_active: "fs_active (store_fragment i c (claim_slot now msg_id conn cnt s))"
  by (simp add: store_fragment_def claim_slot_def Let_def)

lemma place_fragment_bytes:
  assumes "list_all slot_ok slots" and "i < 8" and "place_fragment now slots msg_id conn cnt i c = (slots', r)"
  shows "list_all slot_ok slots' \<and> length slots' = length slots \<and> slots_bytes slots' \<le> slots_bytes slots + length c \<and>
    (\<forall>k. r = Some k \<longrightarrow> k < length slots' \<and> fs_active (slots' ! k))"
proof -
  define base where "base = (if slot_for slots msg_id conn = None then map (expire_slot now) slots else slots)"
  have b: "list_all slot_ok base" "length base = length slots" "slots_bytes base \<le> slots_bytes slots"
    using assms(1) slots_bytes_expire [of now slots]
    by (auto simp: base_def list_all_length slot_ok_def expire_slot_def)
  show ?thesis
  proof (cases r)
    case None
    then have "slots' = base" using assms(3)
      by (auto simp: place_fragment_def base_def Let_def split: option.splits prod.splits)
    with None b show ?thesis by simp
  next
    case (Some k)
    then have k: "k < length base" and s': "slots' = base[k := store_fragment i c (claim_slot now msg_id conn cnt (base ! k))]"
      using assms(3) slot_for_bound [of slots msg_id conn k] free_slot_bound [of base k]
      by (auto simp: place_fragment_def base_def Let_def split: option.splits prod.splits)
    have ok: "slot_ok (base ! k)" using b k by (simp add: list_all_length)
    have "slots_bytes slots' \<le> slots_bytes base + length c"
      using slots_bytes_update [OF k, of "store_fragment i c (claim_slot now msg_id conn cnt (base ! k))"]
        slot_bytes_store [OF ok assms(2), of c now msg_id conn cnt] unfolding s' by linarith
    moreover have "list_all slot_ok slots'"
      using b slot_ok_store [OF ok] by (simp add: s' list_all_update)
    ultimately show ?thesis using b k Some s' store_claim_active by simp
  qed
qed

lemma assemble_bytes:
  assumes "cnt \<le> length (fs_lengths s)"
  shows "length (assemble s cnt) \<le> sum_list (fs_lengths s)"
proof -
  have "length (foldl (append_fragment s) [] [0..<m]) \<le> sum_list (take m (fs_lengths s))" if "m \<le> length (fs_lengths s)" for m
    using that
  proof (induction m)
    case (Suc m)
    then have "sum_list (take (Suc m) (fs_lengths s)) = sum_list (take m (fs_lengths s)) + fs_lengths s ! m"
      by (simp add: take_Suc_conv_app_nth)
    moreover have "length (append_fragment s acc m) \<le> length acc + fs_lengths s ! m" for acc
      by (simp add: append_fragment_def)
    ultimately show ?case using Suc by (simp del: take_Suc) (meson Suc_leD add_le_mono1 le_trans)
  qed simp
  moreover have "sum_list (take cnt (fs_lengths s)) \<le> sum_list (fs_lengths s)"
    by (metis append_take_drop_id le_add1 sum_list_append)
  ultimately show ?thesis using assms unfolding assemble_def by (meson le_trans)
qed

text \<open>Reassembly gives out no more bytes than it has taken in.\<close>

lemma handle_fragment_bytes:
  assumes "list_all slot_ok slots" and "handle_fragment now slots payload conn = (slots', r)"
  shows "list_all slot_ok slots' \<and> length slots' = length slots \<and>
    slots_bytes slots' + (case r of None \<Rightarrow> 0 | Some a \<Rightarrow> length a) \<le> slots_bytes slots + length payload"
proof -
  let ?i = "unat (payload ! 4)" and ?cnt = "unat (payload ! 5)" and ?c = "drop BITCHAT_FRAG_HEADER_LEN payload"
  let ?place = "place_fragment now slots (get_u32_be payload) conn (payload ! 5) ?i ?c"
  consider "slots' = slots" "r = None"
    | s1 k where "?place = (s1, k)" "?i < ?cnt" "?cnt \<le> 8" "k = None \<or> fs_mask (s1 ! the k) \<noteq> of_nat (2 ^ ?cnt - 1)" "slots' = s1" "r = None"
    | s1 k where "?place = (s1, Some k)" "?i < ?cnt" "?cnt \<le> 8" "slots' = s1[k := (s1 ! k)\<lparr>fs_active := False\<rparr>]" "r = Some (assemble (s1 ! k) ?cnt)"
    using assms(2) by (auto simp: handle_fragment_def Let_def BITCHAT_MAX_FRAGMENTS_def split: if_splits option.splits prod.splits)
  then show ?thesis
  proof cases
    case 1
    then show ?thesis using assms(1) by simp
  next
    case (2 s1 k)
    then have "?i < 8" by linarith
    from place_fragment_bytes [OF assms(1) this 2(1)] 2(5,6) show ?thesis by auto
  next
    case (3 s1 k)
    then have "?i < 8" by linarith
    from place_fragment_bytes [OF assms(1) this 3(1)]
    have p: "list_all slot_ok s1" "length s1 = length slots" "slots_bytes s1 \<le> slots_bytes slots + length payload" "k < length s1" "fs_active (s1 ! k)"
      by auto
    have ok: "slot_ok (s1 ! k)" using p by (simp add: list_all_length)
    have "length (assemble (s1 ! k) ?cnt) \<le> slot_bytes (s1 ! k)"
      using assemble_bytes [of ?cnt "s1 ! k"] ok 3(3) p(5) by (simp add: slot_bytes_def slot_ok_def)
    moreover have "slots_bytes slots' + slot_bytes (s1 ! k) = slots_bytes s1"
      using slots_bytes_update [OF p(4), of "(s1 ! k)\<lparr>fs_active := False\<rparr>"] 3 by (simp add: slot_bytes_def)
    moreover have "list_all slot_ok slots'" using p(1) ok 3 by (simp add: list_all_update slot_ok_def)
    ultimately show ?thesis using 3 p by simp
  qed
qed

section \<open>Processing a packet\<close>

lemma unpad_prefix: "\<exists>n. unpad_packet buf = take n buf"
  unfolding unpad_packet_def Let_def by (metis take_all order_refl take_eq_Nil)

lemma length_unpad: "length (unpad_packet buf) \<le> length buf"
  using unpad_prefix [of buf] by force

lemma parse_header_bounds:
  assumes "parse_header pkt = Some ph"
  shows "length (sender_of pkt ph) = 8" "length (payload_of pkt ph) + 22 \<le> length pkt \<or> payload_of pkt ph = []"
    "22 \<le> length pkt"
  using assms by (auto simp: parse_header_def sender_of_def payload_of_def pkt_consts Let_def split: if_splits)

lemma link_learn_peer_id:
  "length sid = 8 \<Longrightarrow> link_step s (set_peer i (learn_peer_id sid (ble_peers s ! i)) s)"
  by (rule link_set_peer) (auto simp: learn_peer_id_def session_ok_def list_all_length)

lemma sync_packet_clock_frame: "link_step s (sync_packet_clock pkt s)"
  by (auto simp: sync_packet_clock_def link_step_def links_def relay_invar_def split: prod.split)

text \<open>What a handler does to the receive ring and to the reassembly slots.\<close>

definition rx_effect :: "ble \<Rightarrow> ble \<Rightarrow> nat \<Rightarrow> bool" where
  "rx_effect s s' n \<longleftrightarrow> ble_invar s' \<and> ble_keypair s' = ble_keypair s \<and>
     (ble_rx s' = ble_rx s \<and> slots_bytes (ble_frag_slots s') \<le> slots_bytes (ble_frag_slots s) + n \<or>
      (\<exists>a conn. ble_rx s' = rx_put (ble_rx s) (a, conn) \<and>
                slots_bytes (ble_frag_slots s') + length a < slots_bytes (ble_frag_slots s) + n))"

lemma rx_effect_link: "ble_invar s \<Longrightarrow> link_step s s' \<Longrightarrow> rx_effect s s' n"
  using invar_link [of s s'] by (simp add: rx_effect_def link_step_def)

lemma rx_effect_trans: "rx_effect s s' n \<Longrightarrow> link_step s' s'' \<Longrightarrow> rx_effect s s'' n"
  using invar_link [of s' s''] by (auto simp: rx_effect_def link_step_def)

lemma rx_effect_after: "link_step s s' \<Longrightarrow> rx_effect s' s'' n \<Longrightarrow> rx_effect s s'' n"
  by (auto simp: rx_effect_def link_step_def)

lemma rx_effect_mono: "rx_effect s s' n \<Longrightarrow> n \<le> m \<Longrightarrow> rx_effect s s' m"
  by (force simp: rx_effect_def)

lemma fragment_effect:
  assumes "ble_invar s" and "handle_fragment now (ble_frag_slots s) payload conn = (slots, r)"
  shows "rx_effect s (case r of None \<Rightarrow> s\<lparr>ble_frag_slots := slots\<rparr> | Some a \<Rightarrow> put_rx (s\<lparr>ble_frag_slots := slots\<rparr>) a conn) (length payload + 1)"
proof -
  have "list_all slot_ok (ble_frag_slots s)" using assms(1) by (simp add: ble_invar_def)
  from handle_fragment_bytes [OF this assms(2)]
  have b: "list_all slot_ok slots" "length slots = length (ble_frag_slots s)"
      "slots_bytes slots + (case r of None \<Rightarrow> 0 | Some a \<Rightarrow> length a) \<le> slots_bytes (ble_frag_slots s) + length payload"
    by auto
  have "ble_invar (s\<lparr>ble_frag_slots := slots\<rparr>)" "ble_invar (put_rx (s\<lparr>ble_frag_slots := slots\<rparr>) a conn)" for a
    using assms(1) b rx_invar_put by (simp_all add: ble_invar_def links_def relay_invar_def put_rx_def)
  then show ?thesis using b(3) by (cases r) (auto simp: rx_effect_def put_rx_def)
qed

lemma dispatch_effect:
  assumes "ble_invar s" and "dispatch cr env s i rx_buf pkt ph conn = Inr (s', outs)"
  shows "rx_effect s s' (length (payload_of pkt ph) + 1)"
proof -
  note link = rx_effect_link [OF assms(1)]
  have pair: "link_step s s'" if "handle_announce cr env s i payload = (s', outs) \<or>
      handle_noise_handshake cr env s i payload = (s', outs) \<or> send_announce cr env s i = (s', outs)" for payload
    using that link_handle_announce link_handle_noise_handshake link_send_announce by (metis fst_conv)
  consider "link_step s s'"
    | slots r where "handle_fragment (env_now env) (ble_frag_slots s) (payload_of pkt ph) conn = (slots, r)"
        "s' = (case r of None \<Rightarrow> s\<lparr>ble_frag_slots := slots\<rparr> | Some a \<Rightarrow> put_rx (s\<lparr>ble_frag_slots := slots\<rparr>) a conn)"
    using assms(2) pair link_handle_encrypted [of cr env s i]
    by (auto simp: dispatch_def Let_def split: if_splits option.splits prod.splits)
  then show ?thesis
  proof cases
    case (2 slots r)
    show ?thesis unfolding 2(2) by (rule fragment_effect [OF assms(1) 2(1)])
  qed (rule link)
qed

lemma process_packet_effect:
  assumes "ble_invar s" and "process_packet cr env s i rx_buf pkt ph conn = Inr (s', outs)"
  shows "rx_effect s s' (length (payload_of pkt ph) + 1)"
proof -
  consider "s' = s"
    | s1 o1 where "dispatch cr env s i rx_buf pkt ph conn = Inr (s1, o1)" "s' = s1"
    | s1 o1 where "dispatch cr env s i rx_buf pkt ph conn = Inr (s1, o1)" "s' = fst (relay_packet cr env s1 pkt conn)"
    using assms(2) by (auto simp: process_packet_def Let_def split_beta split: sum.splits bool.splits if_splits prod.splits)
  then show ?thesis
  proof cases
    case 1
    then show ?thesis using rx_effect_link [OF assms(1) link_refl] by simp
  next
    case 2
    then show ?thesis using dispatch_effect [OF assms(1)] by blast
  next
    case (3 s1 o1)
    then show ?thesis using rx_effect_trans [OF dispatch_effect [OF assms(1) 3(1)] link_relay_packet] by simp
  qed
qed

lemma session_for_effect:
  assumes "ble_invar s" and "session_for env s conn = Some (i, s')"
  shows "ble_invar s' \<and> ble_rx s' = ble_rx s \<and> ble_frag_slots s' = ble_frag_slots s \<and> ble_keypair s' = ble_keypair s"
proof (cases "find_peer s conn")
  case None
  then have a: "alloc_peer (env_now env) s conn None False = Some (i, s')" using assms(2) by (simp add: session_for_def)
  then have "ble_keypair s' = ble_keypair s" by (auto simp: alloc_peer_def set_peer_def split: option.splits)
  then show ?thesis using None a invar_alloc [OF assms(1)] by auto
next
  case (Some j)
  then show ?thesis using assms by (simp add: session_for_def)
qed

lemma process_incoming_effect:
  assumes inv: "ble_invar s" and step: "process_incoming cr env s e = Inr (s', outs)"
  shows "rx_effect s s' (min (re_len e) (length (re_data e)))"
proof -
  define pkt where "pkt = unpad_packet (take (re_len e) (re_data e))"
  have len: "length pkt \<le> min (re_len e) (length (re_data e))"
    using length_unpad [of "take (re_len e) (re_data e)"] by (simp add: pkt_def min.commute)
  define s0 where "s0 = sync_packet_clock pkt s"
  have l0: "link_step s s0" unfolding s0_def by (rule sync_packet_clock_frame)
  have i0: "ble_invar s0" by (rule invar_link [OF inv l0])
  consider "link_step s s'"
    | ph i s1 where "parse_header pkt = Some ph" "session_for env s0 (re_conn e) = Some (i, s1)"
        "process_packet cr env (set_peer i (learn_peer_id (sender_of pkt ph) (ble_peers s1 ! i)) s1) i (re_data e) pkt ph (re_conn e) = Inr (s', outs)"
    using step l0 by (auto simp: process_incoming_def pkt_def [symmetric] s0_def [symmetric] Let_def split: if_splits option.splits prod.splits)
  then show ?thesis
  proof cases
    case 1
    then show ?thesis by (rule rx_effect_link [OF inv])
  next
    case (2 ph i s1)
    let ?s2 = "set_peer i (learn_peer_id (sender_of pkt ph) (ble_peers s1 ! i)) s1"
    have s1: "ble_invar s1" "ble_rx s1 = ble_rx s" "ble_frag_slots s1 = ble_frag_slots s" "ble_keypair s1 = ble_keypair s"
      using session_for_effect [OF i0 2(2)] l0 by (simp_all add: link_step_def)
    have l2: "link_step s1 ?s2" by (rule link_learn_peer_id) (rule parse_header_bounds(1) [OF 2(1)])
    have "rx_effect s1 s' (length (payload_of pkt ph) + 1)"
      by (rule rx_effect_after [OF l2 process_packet_effect [OF invar_link [OF s1(1) l2] 2(3)]])
    moreover have "length (payload_of pkt ph) + 1 \<le> length pkt" using parse_header_bounds(2,3) [OF 2(1)] by auto
    ultimately have "rx_effect s1 s' (min (re_len e) (length (re_data e)))"
      using len by (blast intro: rx_effect_mono le_trans)
    then show ?thesis using s1 by (simp add: rx_effect_def)
  qed
qed

section \<open>The receive loop\<close>

text \<open>The bytes waiting in the ring, a packet counting one more, and in the slots.\<close>

definition pending_bytes :: "ble \<Rightarrow> nat" where
  "pending_bytes s = sum_list (map (\<lambda>p. length (fst p) + 1) (rx_items (ble_rx s))) + slots_bytes (ble_frag_slots s)"

lemma rx_front_cons:
  assumes "rx_invar r" and "rx_front_entry r = Some e"
  shows "rx_items r = entry_packet e # tl (rx_items r)"
  using rx_front_items [OF assms(1)] assms(2) by (auto split: list.splits)

lemma drain_step:
  assumes inv: "ble_invar s" and front: "rx_front_entry (ble_rx s) = Some e" and step: "process_incoming cr env s e = Inr (s', outs)"
  defines "t \<equiv> s'\<lparr>ble_rx := rx_pop (ble_rx s')\<rparr>"
  shows "ble_invar t \<and> pending_bytes t < pending_bytes s \<and> ble_keypair t = ble_keypair s"
proof -
  define n where "n = length (fst (entry_packet e))"
  have r: "rx_invar (ble_rx s)" using inv by (simp add: ble_invar_def)
  have items: "rx_items (ble_rx s) = entry_packet e # tl (rx_items (ble_rx s))" by (rule rx_front_cons [OF r front])
  then have ne: "rx_items (ble_rx s) \<noteq> []" by (metis list.distinct(1))
  have eff: "rx_effect s s' n"
    using process_incoming_effect [OF inv step] by (simp add: n_def entry_packet_def min.commute)
  then have inv': "ble_invar s'" and r': "rx_invar (ble_rx s')" by (simp_all add: rx_effect_def ble_invar_def)
  have "ble_invar t" using inv' rx_invar_pop [OF r'] by (simp add: t_def ble_invar_def links_def relay_invar_def)
  moreover have "pending_bytes t < pending_bytes s"
  proof -
    let ?tl = "sum_list (map (\<lambda>p. length (fst p) + 1) (tl (rx_items (ble_rx s))))"
    have before: "pending_bytes s = n + 1 + ?tl + slots_bytes (ble_frag_slots s)"
      unfolding pending_bytes_def by (subst items) (simp add: n_def)
    have same: "rx_items (ble_rx s') = rx_items (ble_rx s) \<Longrightarrow>
        pending_bytes t = ?tl + slots_bytes (ble_frag_slots s')"
      using ne rx_items_pop [OF r'] by (simp add: pending_bytes_def t_def)
    from eff consider
        "ble_rx s' = ble_rx s" "slots_bytes (ble_frag_slots s') \<le> slots_bytes (ble_frag_slots s) + n"
      | a conn where "ble_rx s' = rx_put (ble_rx s) (a, conn)" "slots_bytes (ble_frag_slots s') + length a < slots_bytes (ble_frag_slots s) + n"
      by (auto simp: rx_effect_def)
    then show ?thesis
    proof cases
      case 1
      then show ?thesis using same before by simp
    next
      case (2 a conn)
      show ?thesis
      proof (cases "rx_items (ble_rx s') = rx_items (ble_rx s)")
        case True
        then show ?thesis using same before 2 by simp
      next
        case False
        then have app: "rx_items (ble_rx s') = rx_items (ble_rx s) @ [(a, conn)]"
          using 2(1) rx_items_put [OF r, of "(a, conn)"] by (auto split: if_splits)
        have "rx_items (ble_rx t) = tl (rx_items (ble_rx s)) @ [(a, conn)]"
          using rx_items_pop [OF r'] app ne by (simp add: t_def)
        then have "pending_bytes t = ?tl + length a + 1 + slots_bytes (ble_frag_slots s')"
          by (simp add: pending_bytes_def t_def)
        then show ?thesis using before 2(2) by linarith
      qed
    qed
  qed
  moreover have "ble_keypair t = ble_keypair s" using eff by (simp add: t_def rx_effect_def)
  ultimately show ?thesis by blast
qed

lemma handle_encrypted_fault: "handle_encrypted cr env s i hdr payload = Inl f \<Longrightarrow> f = Buffer_overflow"
  by (auto simp: handle_encrypted_def handle_private_message_def Let_def split_beta split: if_splits option.splits sum.splits)

lemma dispatch_fault: "dispatch cr env s i rx_buf pkt ph conn = Inl f \<Longrightarrow> f = Buffer_overflow"
  by (auto simp: dispatch_def Let_def dest: handle_encrypted_fault split: if_splits option.splits prod.splits)

lemma process_packet_fault: "process_packet cr env s i rx_buf pkt ph conn = Inl f \<Longrightarrow> f = Buffer_overflow"
  by (auto simp: process_packet_def signature_ok_def Let_def split_beta dest: dispatch_fault
      split: if_splits option.splits sum.splits bool.splits)

lemma process_incoming_fault: "process_incoming cr env s e = Inl f \<Longrightarrow> f = Buffer_overflow"
  by (auto simp: process_incoming_def Let_def dest: process_packet_fault split: if_splits option.splits prod.splits)

lemma drain_returns:
  assumes "ble_invar s"
  shows "\<exists>r. drain_rx cr env s = Some r \<and>
    (case r of Inl e \<Rightarrow> e = Buffer_overflow | Inr (s', outs) \<Rightarrow> ble_invar s' \<and> rx_items (ble_rx s') = [] \<and> ble_keypair s' = ble_keypair s)"
  using assms
proof (induction s rule: measure_induct_rule [of pending_bytes])
  case (less s)
  show ?case
  proof (cases "rx_front_entry (ble_rx s)")
    case None
    then have "rx_items (ble_rx s) = []"
      using rx_front_items [of "ble_rx s"] less.prems by (simp add: ble_invar_def split: list.splits)
    then show ?thesis using None less.prems by (subst drain_rx.simps) simp
  next
    case front: (Some e)
    show ?thesis
    proof (cases "process_incoming cr env s e")
      case (Inl f)
      then show ?thesis using front process_incoming_fault [OF Inl] by (subst drain_rx.simps) simp
    next
      case (Inr x)
      obtain s' outs where x: "x = (s', outs)" by (cases x)
      define t where "t = s'\<lparr>ble_rx := rx_pop (ble_rx s')\<rparr>"
      have "ble_invar t" "pending_bytes t < pending_bytes s" and key: "ble_keypair t = ble_keypair s"
        using drain_step [OF less.prems front] Inr x by (simp_all add: t_def)
      from less.IH [OF this(2,1)] obtain r where "drain_rx cr env t = Some r"
        and "case r of Inl e \<Rightarrow> e = Buffer_overflow | Inr (s', outs) \<Rightarrow> ble_invar s' \<and> rx_items (ble_rx s') = [] \<and> ble_keypair s' = ble_keypair t" by blast
      then show ?thesis
        using front Inr x key by (subst drain_rx.simps) (auto simp: t_def [symmetric] prepend_outs_def split: sum.splits)
    qed
  qed
qed

text \<open>
  C18: the receive loop ends.  Reassembled packets are put back into the ring the loop is
  emptying, and they may themselves be fragments; still the loop returns from every state that
  satisfies the invariant, it leaves an empty ring, and the invariant holds again, unless
  a packet makes the firmware overrun a buffer.
\<close>

theorem drain_terminates:
  assumes "ble_invar s"
  shows "\<exists>r. drain_rx cr env s = Some r \<and>
    (case r of Inl e \<Rightarrow> e = Buffer_overflow | Inr (s', outs) \<Rightarrow> ble_invar s' \<and> rx_items (ble_rx s') = [])"
  using drain_returns [OF assms, of cr env] by (auto split: sum.splits)

section \<open>Reachable states\<close>

text \<open>
  What can happen to the transport: its own operations, the callbacks of the BLE stack, and the
  system clock being set.  The stack gives a new connection a handle that no live connection has.
\<close>

inductive ble_step :: "'st kp_nvs \<Rightarrow> crypto \<Rightarrow> ble \<Rightarrow> ble_out list \<Rightarrow> ble \<Rightarrow> bool" for nv cr where
  step_register: "ble_step nv cr s [] (s\<lparr>ble_on_message := True\<rparr>)"
| step_begin: "ble_begin nv cr env rnd seed (s, st) = ((s', st'), outs, ok) \<Longrightarrow> ble_step nv cr s outs s'"
| step_end: "ble_end cr env s = (s', outs) \<Longrightarrow> ble_step nv cr s outs s'"
| step_receive: "ble_step nv cr s [] (put_rx s data conn)"
| step_loop: "ble_loop cr env s = Some (Inr (s', outs)) \<Longrightarrow> ble_step nv cr s outs s'"
| step_send_text: "ble_send_text cr env txt s = (s', outs, ok) \<Longrightarrow> ble_step nv cr s outs s'"
| step_send_text_as: "send_text_as cr env txt identity s = (s', outs, ok) \<Longrightarrow> ble_step nv cr s outs s'"
| step_announce: "announce_virtual cr env identity name s = (s', outs) \<Longrightarrow> ble_step nv cr s outs s'"
| step_connect: "find_peer s handle = None \<Longrightarrow> server_on_connect cr env s handle addr = (s', outs) \<Longrightarrow> ble_step nv cr s outs s'"
| step_disconnect: "server_on_disconnect s handle = (s', outs) \<Longrightarrow> ble_step nv cr s outs s'"
| step_client_disconnect: "on_disconnect s handle = (s', outs) \<Longrightarrow> ble_step nv cr s outs s'"
| step_scan_result: "(\<And>handle notify. answer = Connected handle notify \<Longrightarrow> find_peer s handle = None) \<Longrightarrow>
    on_scan_result cr env s advertises rssi addr answer = (s', outs) \<Longrightarrow> ble_step nv cr s outs s'"
| step_scan_complete: "scan_complete s = (s', outs) \<Longrightarrow> ble_step nv cr s outs s'"
| step_clock: "ble_step nv cr s [] (s\<lparr>wall := tv\<rparr>)"

inductive ble_reachable :: "'st kp_nvs \<Rightarrow> crypto \<Rightarrow> ble \<Rightarrow> bool" for nv cr where
  initial: "ble_reachable nv cr new_ble"
| step: "ble_reachable nv cr s \<Longrightarrow> ble_step nv cr s outs s' \<Longrightarrow> ble_reachable nv cr s'"

inductive_cases ble_stepE: "ble_step nv cr s outs s'"

lemma ble_invar_new: "ble_invar new_ble"
  by (simp add: ble_invar_def new_ble_def links_def distinct_links_def relay_invar_def new_rx_ring_ok slot_ok_def empty_slot_def
      session_ok_zero BITCHAT_MAX_FRAGMENTS_def RELAY_DEDUP_SIZE_def list_all_iff zero_session_def session_ok_def)

lemma invar_flags:
  "ble_invar s \<Longrightarrow> ble_invar (s\<lparr>ble_on_message := m\<rparr>)" "ble_invar s \<Longrightarrow> ble_invar (s\<lparr>wall := tv\<rparr>)"
  "ble_invar s \<Longrightarrow> ble_invar (s\<lparr>ble_scanning := c\<rparr>)" "ble_invar s \<Longrightarrow> ble_invar (s\<lparr>ble_last_announce_ms := t\<rparr>)"
  "ble_invar s \<Longrightarrow> ble_invar (s\<lparr>ble_active := False, ble_server := False, ble_msg_char := False\<rparr>)"
  "ble_invar s \<Longrightarrow> ble_invar (s\<lparr>ble_keypair := kp, ble_server := True, ble_msg_char := True, ble_active := True\<rparr>)"
  by (simp_all add: ble_invar_def links_def relay_invar_def)

lemma invar_put_rx: "ble_invar s \<Longrightarrow> ble_invar (put_rx s data conn)"
  using rx_invar_put by (simp add: ble_invar_def put_rx_def links_def relay_invar_def)

lemma invar_start_scanning: "ble_invar s \<Longrightarrow> ble_invar (fst (start_scanning now s))"
  by (simp add: start_scanning_def ble_invar_def links_def relay_invar_def)

lemma invar_on_connect: "ble_invar s \<Longrightarrow> find_peer s h = None \<Longrightarrow> ble_invar (fst (on_connect cr env s h addr c))"
  using invar_alloc [of s "env_now env" h "Some addr" c]
  by (auto simp: on_connect_def intro: invar_link [OF _ link_send_announce] split: option.split)

lemma invar_connect_to:
  assumes "ble_invar s" and "\<And>handle notify. answer = Connected handle notify \<Longrightarrow> find_peer s handle = None"
  shows "ble_invar (fst (connect_to_peripheral cr env s addr answer))"
proof (cases answer)
  case (Connected handle notify)
  have "ble_invar (fst (on_connect cr env s handle addr True))" using assms Connected by (intro invar_on_connect) auto
  moreover have "link_step s' (set_peer i ((ble_peers s' ! i)\<lparr>p_client := True, p_remote_chr := True\<rparr>) s')" for s' i
    by (rule link_set_peer) (auto simp: session_ok_def list_all_length)
  ultimately show ?thesis
    using Connected by (auto simp: connect_to_peripheral_def Let_def split_beta intro: invar_link split: option.split)
qed (use assms in \<open>simp_all add: connect_to_peripheral_def\<close>)

lemma find_peer_scanning [simp]: "find_peer (s\<lparr>ble_scanning := c\<rparr>) h = find_peer s h"
  by (simp add: find_peer_def)

lemma invar_scan_result:
  assumes "ble_invar s" and "\<And>handle notify. answer = Connected handle notify \<Longrightarrow> find_peer s handle = None"
  shows "ble_invar (fst (on_scan_result cr env s adv rssi addr answer))"
  using assms(1) invar_connect_to [OF invar_flags(3) [OF assms(1), of False], of answer cr env addr] assms(2)
  by (simp add: on_scan_result_def Let_def split_beta)

text \<open>Speaking and announcing leave the connections alone.\<close>

lemma link_ble_send_text: "link_step s (fst (ble_send_text cr env t s))"
proof -
  have "link_step s' (fst (send_text_to cr env t s' i))" for s' i
    unfolding send_text_to_def
    by (auto simp: Let_def split_beta link_send_to_peer intro: link_trans [OF link_random link_send_encrypted])
  then show ?thesis
    by (auto simp: ble_send_text_def Let_def split_beta intro: link_run_all)
qed

lemma link_send_text_as: "link_step s (fst (send_text_as cr env t kp s))"
  by (simp add: send_text_as_def Let_def split_beta link_broadcast split: option.split)

lemma link_announce_virtual: "link_step s (fst (announce_virtual cr env kp name s))"
  by (simp add: announce_virtual_def Let_def split_beta link_broadcast split: option.split)

lemma invar_housekeeping: "ble_invar s \<Longrightarrow> ble_invar (fst (housekeeping cr env s))"
proof -
  assume inv: "ble_invar s"
  have expire: "ble_invar (fst (run_all (expire_handshake now) s' is))" if "ble_invar s'" for s' now "is"
    using that by (rule run_all_invar [where I = ble_invar, rotated]) (auto simp: expire_handshake_def Let_def intro: invar_free_peer)
  have announce: "ble_invar (fst (run_all (reannounce cr env) s' is))" if "ble_invar s'" for s' "is"
    using that by (rule invar_link [OF _ link_run_all]) (simp add: reannounce_def link_send_announce)
  show ?thesis
    using expire announce invar_flags(4) invar_start_scanning inv by (auto simp: housekeeping_def Let_def split_beta)
qed

lemma ble_invar_loop:
  assumes "ble_invar s" and "ble_loop cr env s = Some (Inr (s', outs))"
  shows "ble_invar s'"
proof (cases "ble_active s")
  case True
  with assms(2) obtain s1 o1 where "drain_rx cr env s = Some (Inr (s1, o1))" "s' = fst (housekeeping cr env s1)"
    by (auto simp: ble_loop_def split_beta split: option.splits sum.splits)
  then show ?thesis using drain_returns [OF assms(1), of cr env] invar_housekeeping by auto
qed (use assms in \<open>simp add: ble_loop_def\<close>)

lemma key_free_peer [simp]: "ble_keypair (fst (free_peer s h)) = ble_keypair s"
  by (simp add: free_peer_def set_peer_def split: option.split)

lemma key_run_all: "(\<And>s i. ble_keypair (fst (f s i)) = ble_keypair s) \<Longrightarrow> ble_keypair (fst (run_all f s is)) = ble_keypair s"
  by (rule run_all_invar [where I = "\<lambda>s'. ble_keypair s' = ble_keypair s"]) auto

lemma key_link: "link_step s s' \<Longrightarrow> ble_keypair s' = ble_keypair s"
  by (simp add: link_step_def)

lemma key_housekeeping: "ble_keypair (fst (housekeeping cr env s)) = ble_keypair s"
proof -
  have "ble_keypair (fst (run_all (expire_handshake now) s' is)) = ble_keypair s'" for s' now "is"
    by (rule key_run_all) (simp add: expire_handshake_def Let_def)
  moreover have "ble_keypair (fst (run_all (reannounce cr env) s' is)) = ble_keypair s'" for s' "is"
    by (rule key_run_all) (simp add: reannounce_def key_link [OF link_send_announce])
  ultimately show ?thesis by (simp add: housekeeping_def start_scanning_def Let_def split_beta)
qed

text \<open>The loop keeps the identity.\<close>

lemma key_loop:
  assumes "ble_invar s" and "ble_loop cr env s = Some (Inr (s', outs))"
  shows "ble_keypair s' = ble_keypair s"
proof (cases "ble_active s")
  case True
  with assms(2) obtain s1 o1 where "drain_rx cr env s = Some (Inr (s1, o1))" "s' = fst (housekeeping cr env s1)"
    by (auto simp: ble_loop_def split_beta split: option.splits sum.splits)
  then show ?thesis using drain_returns [OF assms(1), of cr env] by (simp add: key_housekeeping)
qed (use assms in \<open>simp add: ble_loop_def\<close>)

lemma invar_step:
  assumes "ble_invar s" and "ble_step nv cr s outs s'"
  shows "ble_invar s'"
  using assms(2,1)
proof cases
  case (step_begin env rnd seed st st' ok)
  then show ?thesis
    using assms(1) invar_start_scanning invar_flags(6)
    by (auto simp: ble_begin_def Let_def init_ble_server_def split_beta split: if_splits option.splits prod.splits)
next
  case (step_end env)
  then show ?thesis
    using assms(1) invar_link [OF assms(1) link_send_to_peers] invar_flags(5)
    by (auto simp: ble_end_def send_leave_def Let_def split_beta split: if_splits)
next
  case (step_loop env)
  then show ?thesis using ble_invar_loop [OF assms(1)] by simp
next
  case (step_send_text env what ok)
  then show ?thesis using invar_link [OF assms(1) link_ble_send_text] by (metis fst_conv)
next
  case (step_send_text_as env what identity ok)
  then show ?thesis using invar_link [OF assms(1) link_send_text_as] by (metis fst_conv)
next
  case (step_announce env identity name)
  then show ?thesis using invar_link [OF assms(1) link_announce_virtual] by (metis fst_conv)
next
  case (step_connect handle env addr)
  then show ?thesis using invar_on_connect [OF assms(1)] by (auto simp: server_on_connect_def split_beta)
next
  case (step_disconnect handle)
  then show ?thesis using invar_free_peer [OF assms(1)] by (auto simp: server_on_disconnect_def on_disconnect_def split_beta)
next
  case (step_client_disconnect handle)
  then show ?thesis using invar_free_peer [OF assms(1), of handle] by (simp add: on_disconnect_def)
next
  case (step_scan_result answer env adv rssi addr)
  then show ?thesis using invar_scan_result [OF assms(1), of answer cr env adv rssi addr] by simp
next
  case step_scan_complete
  then show ?thesis using assms(1) invar_flags(3) by (auto simp: scan_complete_def)
qed (use assms(1) invar_flags invar_put_rx in auto)



theorem drain_terminates_witness: "\<exists>r. drain_rx sized_crypto quiet_env new_ble = Some r"
  using drain_terminates [OF ble_invar_new, of sized_crypto quiet_env] by blast

end
