(* ===== verification/Ble_Radio.thy ===== *)
theory Ble_Radio
  imports Ble_Invariant
begin

text \<open>
  What crosses the radio: a packet one bridge sends, as another bridge processes it.  The
  properties say when a message arrives, what the signature check protects, and where the
  transport loses or corrupts what it is given.
\<close>

section \<open>Receiving a signed packet\<close>

definition sent_header :: "u8 \<Rightarrow> bytes \<Rightarrow> parsed_header" where
  "sent_header ty payload =
     \<lparr>ph_type = ty, ph_ttl = BITCHAT_MAX_HOPS, ph_flags = BITCHAT_FLAG_HAS_SIGNATURE, ph_header_len = 14,
      ph_payload_len = of_nat (length payload), ph_offset = 22\<rparr>"

lemma sent_header_sel:
  "ph_type (sent_header ty payload) = ty" "1 < ph_ttl (sent_header ty payload) \<longleftrightarrow> True"
  by (simp_all add: sent_header_def pkt_consts)

lemma sint_small: "n < 65536 \<Longrightarrow> sint (of_nat n :: u32) = int n"
  by (simp add: signed_of_nat signed_take_bit_int_eq_self)

lemma signed_packet_parts:
  assumes kp: "length (fingerprint kp) = 32" and n: "length payload < 65000"
    and pkt_def: "pkt = signed_packet cr kp ty 0 ts payload" and ph_def: "ph = sent_header ty payload"
    and body_def: "body = packet_body kp ty BITCHAT_FLAG_HAS_SIGNATURE ts payload"
  shows "parse_header pkt = Some ph" "sender_of pkt ph = take 8 (fingerprint kp)" "payload_of pkt ph = payload"
    "length pkt = 86 + length payload" "drop (length pkt - 64) pkt = ed25519_sign cr body (sign_private kp)"
    "take (length pkt - 64) pkt = body" "take 14 pkt = packet_header ty BITCHAT_FLAG_HAS_SIGNATURE ts (length payload)"
    "sint (of_nat (ph_offset ph) + ph_payload_len ph + 64 :: u32) = int (length pkt)"
proof -
  have pkt: "pkt = body @ ed25519_sign cr body (sign_private kp)" by (simp add: pkt_def body_def signed_packet_def Let_def)
  have lb: "length body = 22 + length payload" using kp by (simp add: body_def packet_body_def pkt_consts)
  show "parse_header pkt = Some ph"
    using parse_signed_packet [OF kp, of payload 0 cr ty ts] n by (simp add: pkt_def ph_def sent_header_def)
  show "length pkt = 86 + length payload" "drop (length pkt - 64) pkt = ed25519_sign cr body (sign_private kp)" "take (length pkt - 64) pkt = body"
    using lb by (simp_all add: pkt)
  show "sint (of_nat (ph_offset ph) + ph_payload_len ph + 64 :: u32) = int (length pkt)"
    using sint_small [of "22 + length payload + 64"] n lb by (simp add: pkt ph_def sent_header_def add.commute)
  show "sender_of pkt ph = take 8 (fingerprint kp)" "payload_of pkt ph = payload"
    "take 14 pkt = packet_header ty BITCHAT_FLAG_HAS_SIGNATURE ts (length payload)"
    using kp n by (simp_all add: pkt body_def packet_body_def sender_of_def payload_of_def ph_def sent_header_def pkt_consts sint_small)
qed

lemma find_peer_sync [simp]: "find_peer (sync_packet_clock pkt s) h = find_peer s h" "ble_peers (sync_packet_clock pkt s) = ble_peers s"
  by (auto simp: find_peer_def sync_packet_clock_def split: prod.splits)

text \<open>The state in which the handler of a packet starts.\<close>

definition before_dispatch :: "bytes \<Rightarrow> bytes \<Rightarrow> nat \<Rightarrow> ble \<Rightarrow> ble" where
  "before_dispatch pkt sid i s = set_peer i (learn_peer_id sid (ble_peers s ! i)) (sync_packet_clock pkt s)"

definition verified_by :: "crypto \<Rightarrow> peer_session \<Rightarrow> bytes \<Rightarrow> bytes \<Rightarrow> bool" where
  "verified_by cr p sig msg \<longleftrightarrow> \<not> p_sign_pubkey_known p \<or> ed25519_verify cr sig msg (p_sign_pubkey p)"

lemma learn_peer_id_keys [simp]:
  "p_sign_pubkey_known (learn_peer_id sid p) = p_sign_pubkey_known p" "p_sign_pubkey (learn_peer_id sid p) = p_sign_pubkey p"
  "p_nickname (learn_peer_id sid p) = p_nickname p" "p_hs (learn_peer_id sid p) = p_hs p"
  "p_active (learn_peer_id sid p) = p_active p" "p_conn_handle (learn_peer_id sid p) = p_conn_handle p"
  by (simp_all add: learn_peer_id_def)

lemma find_peer_bound: "find_peer s h = Some i \<Longrightarrow> i < length (ble_peers s)"
  by (simp add: find_peer_def find_upt_Some)

lemma before_peer:
  "find_peer s h = Some i \<Longrightarrow> ble_peers (before_dispatch pkt sid i s) ! i = learn_peer_id sid (ble_peers s ! i)"
  using find_peer_bound [of s h i] by (simp add: before_dispatch_def set_peer_def)

text \<open>The packet has a header and its payload is inside it.\<close>

definition well_formed :: "bytes \<Rightarrow> parsed_header \<Rightarrow> bool" where
  "well_formed pkt ph \<longleftrightarrow> parse_header pkt = Some ph \<and> int (ph_offset ph) + sint (ph_payload_len ph) \<le> int (length pkt)"

abbreviation received :: "rx_entry \<Rightarrow> bytes" where
  "received e \<equiv> unpad_packet (take (re_len e) (re_data e))"

text \<open>A well-formed packet on a known connection reaches the signature check.\<close>

lemma process_known:
  assumes "well_formed (received e) ph" and i: "find_peer s (re_conn e) = Some i"
  shows "process_incoming cr env s e =
    process_packet cr env (before_dispatch (received e) (sender_of (received e) ph) i s) i (re_data e) (received e) ph (re_conn e)"
proof -
  have "session_for env (sync_packet_clock (received e) s) (re_conn e) = Some (i, sync_packet_clock (received e) s)"
    using i by (simp add: session_for_def)
  moreover have "\<not> length (received e) < 2"
    using assms(1) parse_header_bounds(3) [of "received e" ph] by (simp add: well_formed_def)
  ultimately show ?thesis
    using assms(1) by (simp add: process_incoming_def well_formed_def before_dispatch_def Let_def)
qed

lemma well_formed_sent:
  assumes kp: "length (fingerprint kp) = 32" and n: "length payload < 65000" and pkt_def: "pkt = signed_packet cr' kp ty 0 ts payload"
  shows "well_formed pkt (sent_header ty payload)"
  using signed_packet_parts(1,4) [OF kp n pkt_def refl refl] n
  by (simp add: well_formed_def) (simp add: sent_header_def sint_small)

lemma link_before: "length sid = 8 \<Longrightarrow> link_step s (before_dispatch pkt sid i s)"
  using link_trans [OF sync_packet_clock_frame link_learn_peer_id [of sid "sync_packet_clock pkt s" i]] by (simp add: before_dispatch_def)

lemma process_signed:
  assumes kp: "length (fingerprint kp) = 32" and n: "length payload < 65000"
    and e: "unpad_packet (take (re_len e) (re_data e)) = pkt"
    and i: "find_peer s (re_conn e) = Some i" and ty: "ty \<noteq> BITCHAT_PKT_ANNOUNCE"
    and pkt_def: "pkt = signed_packet cr' kp ty 0 ts payload" and body_def: "body = packet_body kp ty BITCHAT_FLAG_HAS_SIGNATURE ts payload"
    and s1_def: "s1 = before_dispatch pkt (take 8 (fingerprint kp)) i s"
  shows "process_incoming cr env s e =
    (if verified_by cr (ble_peers s ! i) (ed25519_sign cr' body (sign_private kp)) body
     then case dispatch cr env s1 i (re_data e) pkt (sent_header ty payload) (re_conn e) of
            Inl f \<Rightarrow> Inl f
          | Inr (s', outs) \<Rightarrow>
              if relayed_type ty then let (s'', outs') = relay_packet cr env s' pkt (re_conn e) in Inr (s'', outs @ outs')
              else Inr (s', outs)
     else Inr (s1, []))"
proof -
  let ?ph = "sent_header ty payload" and ?ok = "verified_by cr (ble_peers s ! i) (ed25519_sign cr' body (sign_private kp)) body"
  note parts = signed_packet_parts [OF kp n pkt_def refl body_def]
  have sent: "process_incoming cr env s e = process_packet cr env s1 i (re_data e) pkt ?ph (re_conn e)"
    using process_known [of e ?ph s i cr env] i well_formed_sent [OF kp n pkt_def] parts(2) by (simp add: e s1_def)
  have sig: "signature_ok cr (ble_peers s1 ! i) pkt ?ph = Inr ?ok"
    using parts ty before_peer [OF i] by (simp add: signature_ok_def verified_by_def s1_def sent_header_def pkt_consts Let_def)
  have "process_incoming cr env s e = process_packet cr env s1 i (re_data e) pkt ?ph (re_conn e)"
    by (rule sent)
  also have "\<dots> = (if ?ok then case dispatch cr env s1 i (re_data e) pkt ?ph (re_conn e) of
            Inl f \<Rightarrow> Inl f
          | Inr (s', outs) \<Rightarrow>
              if relayed_type ty then let (s'', outs') = relay_packet cr env s' pkt (re_conn e) in Inr (s'', outs @ outs')
              else Inr (s', outs)
     else Inr (s1, []))"
    unfolding process_packet_def sig sent_header_sel simp_thms by simp
  finally show ?thesis .
qed

section \<open>Public messages\<close>

definition shown_name :: "peer_session \<Rightarrow> bytes \<Rightarrow> bytes" where
  "shown_name p sid = (if p_nickname p \<noteq> [] then strncpy 31 (p_nickname p) else hex_name sid)"

lemma before_frame [simp]: "ble_on_message (before_dispatch pkt sid i s) = ble_on_message s"
  by (auto simp: before_dispatch_def set_peer_def sync_packet_clock_def split: prod.splits)

lemma handle_text:
  assumes "0 < length txt" and "length txt \<le> 240" and "is_cstr txt" and "ble_on_message s"
  shows "handle_message env s i (tlv_encode BITCHAT_TLV_TEXT txt) sid =
    [Deliver_message \<lparr>origin = BITCHAT,
       sender = \<lparr>meshtastic_node_id = 0, bitchat_fingerprint = sid @ replicate 24 0, display_name = shown_name (ble_peers s ! i) sid\<rparr>,
       mtext = txt, timestamp_ms = env_now env\<rparr>]"
proof -
  have "tlv_find (tlv_encode BITCHAT_TLV_TEXT txt) BITCHAT_TLV_TEXT = Some txt"
    using tlv_find_here [of "txt" BITCHAT_TLV_TEXT "[]"] assms(2) by simp
  moreover have "tlv_find (tlv_encode BITCHAT_TLV_TEXT txt) BITCHAT_TLV_NICKNAME = None"
    using tlv_find_skip [of "txt" BITCHAT_TLV_TEXT BITCHAT_TLV_NICKNAME "[]"] assms(2) by (simp add: tlv_types)
  ultimately show ?thesis
    using assms by (simp add: handle_message_def bitchat_message_def deliver_def shown_name_def Let_def)
qed

text \<open>The packet a text goes out as, how it is sent, and what its receiver does.\<close>

definition text_packet :: "crypto \<Rightarrow> keypair \<Rightarrow> u64 \<Rightarrow> bytes \<Rightarrow> bytes" where
  "text_packet cr kp ts txt = pad_packet 2048 (signed_packet cr kp BITCHAT_PKT_MESSAGE 0 ts (tlv_encode BITCHAT_TLV_TEXT txt))"

lemma text_packet_padding:
  assumes "length (fingerprint kp) = 32" and "length txt \<le> 167"
  shows "length (text_packet cr kp ts txt) = 256"
proof -
  have "length (signed_packet cr kp BITCHAT_PKT_MESSAGE 0 ts (tlv_encode BITCHAT_TLV_TEXT txt)) = 88 + length txt"
    using length_signed_packet [OF assms(1)] by (simp add: tlv_encode_def)
  then show ?thesis using assms(2) by (simp add: text_packet_def pad_packet_def pad_target_def Let_def)
qed

text \<open>A packet of exactly 256 bytes, with a text of 168, is sent without padding.\<close>

lemma text_packet_unpadded:
  assumes "length (fingerprint kp) = 32" and "length txt \<le> 240" and "length txt \<noteq> 168"
  shows "unpad_packet (text_packet cr kp ts txt) = signed_packet cr kp BITCHAT_PKT_MESSAGE 0 ts (tlv_encode BITCHAT_TLV_TEXT txt)"
    "length (text_packet cr kp ts txt) \<le> 512"
proof -
  let ?pkt = "signed_packet cr kp BITCHAT_PKT_MESSAGE 0 ts (tlv_encode BITCHAT_TLV_TEXT txt)"
  have len: "length ?pkt = 88 + length txt" using length_signed_packet [OF assms(1)] by (simp add: tlv_encode_def)
  show "unpad_packet (text_packet cr kp ts txt) = ?pkt"
    unfolding text_packet_def using len assms(2,3) by (intro unpad_pad) (auto simp: pad_target_def)
  show "length (text_packet cr kp ts txt) \<le> 512"
    using len assms(2) by (simp add: text_packet_def pad_packet_def pad_target_def Let_def)
qed

lemma text_sent:
  assumes kp: "length (fingerprint kp) = 32" and what: "length txt \<le> 167"
    and a: "ble_active a" "list_all (\<lambda>p. 256 \<le> peer_mtu env a p) (filter p_active (ble_peers a))"
  shows "\<exists>a'. send_text_as cr env txt (Some kp) a =
    (a', concat (map (\<lambda>p. transmit a p (text_packet cr kp (epoch_ms env a) txt)) (filter p_active (ble_peers a))), list_ex p_active (ble_peers a))"
proof -
  define pkt where "pkt = signed_packet cr kp BITCHAT_PKT_MESSAGE 0 (epoch_ms env a) (tlv_encode BITCHAT_TLV_TEXT txt)"
  define data where "data = text_packet cr kp (epoch_ms env a) txt"
  let ?a' = "relay_record a (env_now env) (relay_hash pkt)"
  have "length data = 256" unfolding data_def by (rule text_packet_padding [OF kp what])
  moreover have "take BITCHAT_MAX_TEXT_LEN txt = txt" using what by (simp add: BITCHAT_MAX_TEXT_LEN_def)
  ultimately show ?thesis
    using a peer_mtu_cong [of ?a' a env] transmit_cong [of ?a' a]
    by (simp add: send_text_as_def broadcast_def pkt_def [symmetric] data_def [unfolded text_packet_def, folded pkt_def, symmetric]
        text_packet_def send_to_peers_fits)
qed

text \<open>Sending, relaying and the periodic work deliver nothing to the bridge.\<close>

definition silent :: "ble_out list \<Rightarrow> bool" where
  "silent = list_all (\<lambda>out. \<forall>m. out \<noteq> Deliver_message m)"

lemma silent_simps [simp]: "silent []" "silent (xs @ ys) \<longleftrightarrow> silent xs \<and> silent ys"
  by (simp_all add: silent_def)

lemma silent_run_all: "(\<And>s i. silent (snd (f s i))) \<Longrightarrow> silent (snd (run_all f s is))"
  unfolding silent_def by (rule run_all_outs)

lemma silent_transmit [simp]: "silent (transmit s p data)"
  by (simp add: transmit_def silent_def)

lemma silent_send_to_peer [simp]: "silent (snd (send_to_peer cr env s i data))"
proof -
  have "silent (concat (map (transmit t p) xs))" for t p xs by (induction xs) simp_all
  then show ?thesis by (simp add: send_to_peer_def Let_def split_beta)
qed

lemma silent_send_to_peers [simp]: "silent (snd (send_to_peers cr env cond data s))"
  unfolding send_to_peers_def by (rule silent_run_all) simp

lemma silent_relay [simp]: "silent (snd (relay_packet cr env s pkt h))"
  by (simp add: relay_packet_def Let_def)

lemma silent_housekeeping: "silent (snd (housekeeping cr env s))"
proof -
  have "silent (snd (expire_handshake now s i))" for now s i
    by (simp add: expire_handshake_def free_peer_def Let_def silent_def split: option.split)
  moreover have "silent (snd (reannounce cr env s i))" for s i
    by (simp add: reannounce_def send_announce_def Let_def split_beta)
  moreover have "silent (snd (start_scanning now s))" for now s by (simp add: start_scanning_def silent_def)
  ultimately show ?thesis by (simp add: housekeeping_def Let_def split_beta silent_run_all)
qed

lemma text_received:
  assumes kp: "length (fingerprint kp) = 32" and what: "0 < length txt" "length txt \<le> 240" "length txt \<noteq> 168" "is_cstr txt"
    and b: "ble_on_message b" "find_peer b h = Some i" and e: "entry_packet e = (text_packet cr' kp ts txt, h)"
    and body: "body = packet_body kp BITCHAT_PKT_MESSAGE BITCHAT_FLAG_HAS_SIGNATURE ts (tlv_encode BITCHAT_TLV_TEXT txt)"
    and ver: "verified_by cr (ble_peers b ! i) (ed25519_sign cr' body (sign_private kp)) body"
  shows "\<exists>b' relayed. process_incoming cr env b e = Inr (b', Deliver_message
      \<lparr>origin = BITCHAT,
       sender = \<lparr>meshtastic_node_id = 0, bitchat_fingerprint = take 8 (fingerprint kp) @ replicate 24 0,
                 display_name = shown_name (ble_peers b ! i) (take 8 (fingerprint kp))\<rparr>,
       mtext = txt, timestamp_ms = env_now env\<rparr> # relayed) \<and> link_step b b' \<and> silent relayed"
proof -
  let ?payload = "tlv_encode BITCHAT_TLV_TEXT txt" and ?ty = BITCHAT_PKT_MESSAGE and ?sid = "take 8 (fingerprint kp)"
  define pkt where "pkt = signed_packet cr' kp ?ty 0 ts ?payload"
  have small: "length ?payload < 65000" using what by (simp add: tlv_encode_def)
  note parts = signed_packet_parts [OF kp small pkt_def refl body]
  have e': "received e = pkt" "re_conn e = h"
    using e text_packet_unpadded(1) [OF kp what(2,3), of cr' ts] by (simp_all add: entry_packet_def pkt_def)
  have "dispatch cr env s1 i (re_data e) pkt (sent_header ?ty ?payload) h = Inr (s1, handle_message env s1 i ?payload ?sid)" for s1
    using parts(2,3) by (simp add: dispatch_def sent_header_def pkt_types Let_def)
  then have "process_incoming cr env b e =
      (let s1 = before_dispatch pkt ?sid i b; (s2, relayed) = relay_packet cr env s1 pkt h
       in Inr (s2, handle_message env s1 i ?payload ?sid @ relayed))"
    using process_signed [OF kp small e'(1) _ _ pkt_def body refl, of b i cr env] ver b(2) e'(2)
    by (simp add: pkt_types relayed_type_def Let_def)
  moreover have "handle_message env (before_dispatch pkt ?sid i b) i ?payload ?sid =
      [Deliver_message \<lparr>origin = BITCHAT,
         sender = \<lparr>meshtastic_node_id = 0, bitchat_fingerprint = ?sid @ replicate 24 0, display_name = shown_name (ble_peers b ! i) ?sid\<rparr>,
         mtext = txt, timestamp_ms = env_now env\<rparr>]"
    using handle_text [OF what(1,2,4)] b before_peer [OF b(2)] by (simp add: shown_name_def)
  moreover have "link_step b (fst (relay_packet cr env (before_dispatch pkt ?sid i b) pkt h))"
    by (rule link_trans [OF link_before link_relay_packet]) (use kp in simp)
  ultimately show ?thesis by (simp add: Let_def split_beta)
qed

text \<open>
  A text of 1 to 167 bytes that a bridge speaks as a virtual identity goes out to every active
  peer as one packet, and another bridge that receives the packet hands exactly this text
  to its own side, with the first eight bytes of the identity's fingerprint and the name it knows for the connection;
  the signature has to verify with the key of the connection, where one is known.
\<close>

theorem text_crosses_radio:
  assumes kp: "length (fingerprint kp) = 32" and what: "0 < length txt" "length txt \<le> 167" "is_cstr txt"
    and a: "ble_active a" "list_all (\<lambda>p. 256 \<le> peer_mtu env a p) (filter p_active (ble_peers a))"
    and b: "ble_on_message b" "find_peer b h = Some i"
    and data: "data = text_packet cr kp (epoch_ms env a) txt" and e: "entry_packet e = (data, h)"
    and body: "body = packet_body kp BITCHAT_PKT_MESSAGE BITCHAT_FLAG_HAS_SIGNATURE (epoch_ms env a) (tlv_encode BITCHAT_TLV_TEXT txt)"
    and ver: "verified_by cr (ble_peers b ! i) (ed25519_sign cr body (sign_private kp)) body"
  shows "\<exists>a' b' relayed.
    send_text_as cr env txt (Some kp) a =
      (a', concat (map (\<lambda>p. transmit a p data) (filter p_active (ble_peers a))), list_ex p_active (ble_peers a)) \<and>
    process_incoming cr env' b e = Inr (b', Deliver_message
      \<lparr>origin = BITCHAT,
       sender = \<lparr>meshtastic_node_id = 0, bitchat_fingerprint = take 8 (fingerprint kp) @ replicate 24 0,
                 display_name = shown_name (ble_peers b ! i) (take 8 (fingerprint kp))\<rparr>,
       mtext = txt, timestamp_ms = env_now env'\<rparr> # relayed)"
  using text_sent [OF kp what(2) a, of cr] text_received [OF kp what(1) _ _ what(3) b e [unfolded data] body ver, of env'] what(2)
  unfolding data by fastforce

section \<open>Whose key is checked\<close>

text \<open>The signing key of every session.\<close>

definition keys :: "ble \<Rightarrow> (bool \<times> bytes) list" where
  "keys s = map (\<lambda>p. (p_sign_pubkey_known p, p_sign_pubkey p)) (ble_peers s)"

lemma keys_set_peer:
  "p_sign_pubkey_known p = p_sign_pubkey_known (ble_peers s ! i) \<Longrightarrow> p_sign_pubkey p = p_sign_pubkey (ble_peers s ! i) \<Longrightarrow>
   keys (set_peer i p s) = keys s"
  by (cases "i < length (ble_peers s)") (simp_all add: keys_def set_peer_def map_update list_update_same_conv list_update_beyond)

lemma keys_drew: "drew_random s s' \<Longrightarrow> keys s' = keys s"
  by (simp add: keys_def drewD)

lemma keys_send_to_peer [simp]: "keys (fst (send_to_peer cr env s i data)) = keys s"
  by (rule keys_drew) (rule send_to_peer_drew)

lemma keys_random [simp]: "keys (snd (esp_fill_random env n s)) = keys s"
  by (rule keys_drew) (rule fill_random_drew)

lemma keys_send_announce [simp]: "keys (fst (send_announce cr env s i)) = keys s"
  by (simp add: send_announce_def Let_def split_beta keys_set_peer)

lemma keys_start_handshake [simp]: "keys (fst (start_handshake cr env s i)) = keys s"
  by (auto simp: start_handshake_def send_handshake_packet_def Let_def split_beta keys_set_peer split: sum.split)

lemma keys_handle_announce: "keys (fst (handle_announce cr env s i payload)) = keys (set_peer i (learn_announce payload (ble_peers s ! i)) s)"
  by (simp add: handle_announce_def Let_def split_beta)

lemma keys_relay [simp]: "keys (fst (relay_packet cr env s pkt h)) = keys s"
  using keys_drew [OF send_to_peers_drew] by (simp add: relay_packet_def Let_def keys_def)

lemma announced_key:
  assumes "length (noise_public kp) = 32" and "length (sign_public kp) = 32"
  shows "find_key (announce_tlvs nick kp) BITCHAT_TLV_SIGNING_PUBKEY = Some (sign_public kp)"
proof -
  have "tlv_find (announce_tlvs nick kp) BITCHAT_TLV_SIGNING_PUBKEY = Some (sign_public kp)"
    using assms tlv_find_here [of "sign_public kp" BITCHAT_TLV_SIGNING_PUBKEY "[]"]
    by (simp add: announce_tlvs_def tlv_find_skip tlv_types)
  then show ?thesis using assms(2) by (simp add: find_key_def)
qed

lemma find_peer_links: "links s' = links s \<Longrightarrow> find_peer s' h = find_peer s h"
proof -
  assume l: "links s' = links s"
  have "p_active (ble_peers s' ! i) = p_active (ble_peers s ! i) \<and> p_conn_handle (ble_peers s' ! i) = p_conn_handle (ble_peers s ! i)"
    if "i < length (ble_peers s)" for i
    using arg_cong [OF l, of "\<lambda>ls. ls ! i"] that links_length [OF l] by (simp add: links_def)
  then show ?thesis
    unfolding find_peer_def links_length [OF l] by (intro find_cong) auto
qed

text \<open>An announce of any identity, once it passes the check, replaces the key of the connection.\<close>

lemma process_announce_key:
  assumes wf: "well_formed (received e) ph" and ty: "ph_type ph = BITCHAT_PKT_ANNOUNCE" and i: "find_peer s (re_conn e) = Some i"
    and sig: "signature_ok cr (ble_peers s ! i) (received e) ph = Inr True"
    and key: "find_key (payload_of (received e) ph) BITCHAT_TLV_SIGNING_PUBKEY = Some K"
  shows "\<exists>s' outs. process_incoming cr env s e = Inr (s', outs) \<and> find_peer s' (re_conn e) = Some i \<and>
    p_sign_pubkey_known (ble_peers s' ! i) \<and> p_sign_pubkey (ble_peers s' ! i) = K"
proof -
  define pkt where "pkt = received e"
  define s1 where "s1 = before_dispatch pkt (sender_of pkt ph) i s"
  define s2 where "s2 = fst (handle_announce cr env s1 i (payload_of pkt ph))"
  define s3 where "s3 = (if ph_ttl ph > 1 then fst (relay_packet cr env s2 pkt (re_conn e)) else s2)"
  have sig1: "signature_ok cr p pkt ph = Inr True" for p using sig ty by (simp add: signature_ok_def pkt_def Let_def split: if_splits)
  have d: "dispatch cr env s1 i (re_data e) pkt ph (re_conn e) = Inr (handle_announce cr env s1 i (payload_of pkt ph))"
    using ty by (simp add: dispatch_def Let_def)
  have "process_incoming cr env s e = process_packet cr env s1 i (re_data e) pkt ph (re_conn e)"
    using process_known [OF wf i, of cr env] by (simp add: pkt_def s1_def)
  then have step: "\<exists>outs. process_incoming cr env s e = Inr (s3, outs)"
    using d ty by (simp add: process_packet_def sig1 relayed_type_def s2_def s3_def split_beta Let_def) (metis prod.collapse)
  have "length (sender_of pkt ph) = 8" using wf parse_header_bounds(1) by (simp add: well_formed_def pkt_def)
  then have "link_step s s1" unfolding s1_def by (rule link_before)
  then have "link_step s s3"
    unfolding s3_def s2_def by (auto intro: link_trans [OF _ link_handle_announce] link_trans [OF link_trans [OF _ link_handle_announce] link_relay_packet])
  then have links: "links s3 = links s" by (simp add: link_step_def)
  then have found: "find_peer s3 (re_conn e) = Some i" using find_peer_links i by metis
  have "keys s3 ! i = keys (set_peer i (learn_announce (payload_of pkt ph) (ble_peers s1 ! i)) s1) ! i"
    by (simp add: s3_def s2_def keys_handle_announce)
  moreover have "i < length (ble_peers s1)" "i < length (ble_peers s3)"
    using find_peer_bound [OF i] links_length [OF links] by (simp_all add: s1_def before_dispatch_def set_peer_def)
  ultimately have "(p_sign_pubkey_known (ble_peers s3 ! i), p_sign_pubkey (ble_peers s3 ! i)) = (True, K)"
    using key by (simp add: keys_def set_peer_def learn_announce_def pkt_def Let_def)
  then show ?thesis using step found by blast
qed

text \<open>A packet that claims a signature which \<open>K\<close> does not verify.\<close>

definition forged :: "crypto \<Rightarrow> bytes \<Rightarrow> bytes \<Rightarrow> parsed_header \<Rightarrow> bool" where
  "forged cr K pkt ph \<longleftrightarrow> ph_flags ph AND BITCHAT_FLAG_HAS_SIGNATURE \<noteq> 0 \<and> ph_type ph \<noteq> BITCHAT_PKT_ANNOUNCE \<and> 64 \<le> length pkt \<and>
     \<not> ed25519_verify cr (drop (length pkt - 64) pkt) (take (length pkt - 64) pkt) K"

lemma process_forged:
  assumes wf: "well_formed (received e) ph" and i: "find_peer s (re_conn e) = Some i"
    and known: "p_sign_pubkey_known (ble_peers s ! i)" and bad: "forged cr (p_sign_pubkey (ble_peers s ! i)) (received e) ph"
  shows "\<exists>s'. process_incoming cr env s e = Inr (s', []) \<and> link_step s s' \<and> keys s' = keys s"
proof -
  let ?s1 = "before_dispatch (received e) (sender_of (received e) ph) i s"
  have "signature_ok cr (ble_peers ?s1 ! i) (received e) ph = Inr False"
    using known bad before_peer [OF i] by (simp add: signature_ok_def forged_def Let_def)
  then have "process_incoming cr env s e = Inr (?s1, [])" by (simp add: process_known [OF wf i] process_packet_def)
  moreover have "length (sender_of (received e) ph) = 8" using wf parse_header_bounds(1) by (simp add: well_formed_def)
  then have "link_step s ?s1" by (rule link_before)
  moreover have "keys ?s1 = keys s"
  proof -
    have "keys ?s1 = keys (sync_packet_clock (received e) s)" unfolding before_dispatch_def by (rule keys_set_peer) simp_all
    then show ?thesis by (simp add: keys_def)
  qed
  ultimately show ?thesis by blast
qed


text \<open>
  C39: the key a signature is checked with belongs to the connection, not to the speaker, and an announce need not be signed to set
  it.  After any announce that passes the check, a message of another identity on the same connection, whose signature
  the announced key does not verify, is dropped.  So a bridge that announces several virtual identities is heard by
  another bridge only as the last of them, and an unsigned announce silences the peer it names.
\<close>

theorem other_identity_silenced:
  assumes wf: "well_formed (received e) ph" and ty: "ph_type ph = BITCHAT_PKT_ANNOUNCE" and i: "find_peer s (re_conn e) = Some i"
    and sig: "signature_ok cr (ble_peers s ! i) (received e) ph = Inr True"
    and key: "find_key (payload_of (received e) ph) BITCHAT_TLV_SIGNING_PUBKEY = Some K"
    and wf': "well_formed (received e') ph'" and conn: "re_conn e' = re_conn e" and bad: "forged cr K (received e') ph'"
  shows "\<exists>s' outs s''. process_incoming cr env s e = Inr (s', outs) \<and> process_incoming cr env' s' e' = Inr (s'', []) \<and> link_step s' s''"
proof -
  obtain s' outs where s': "process_incoming cr env s e = Inr (s', outs)" "find_peer s' (re_conn e) = Some i"
      "p_sign_pubkey_known (ble_peers s' ! i)" "p_sign_pubkey (ble_peers s' ! i) = K"
    using process_announce_key [OF wf ty i sig key] by blast
  then show ?thesis using process_forged [OF wf', of s' i cr env'] conn bad by auto
qed

section \<open>Packets without padding\<close>

text \<open>
  Handshake messages and encrypted messages are sent without padding, and the receiver
  removes what looks like padding all the same: when the last byte of the signature is 1, the packet loses it and is dropped as too
  short for its signature.
\<close>

theorem unpadded_packet_lost:
  assumes kp: "length (fingerprint kp) = 32" and n: "length payload < 65000" and ty: "ty \<noteq> BITCHAT_PKT_ANNOUNCE"
    and e: "take (re_len e) (re_data e) = packet_body kp ty BITCHAT_FLAG_HAS_SIGNATURE ts payload @ sig"
    and sig: "length sig = 64" "last sig = 1" and i: "find_peer s (re_conn e) = Some i"
  shows "\<exists>s'. process_incoming cr env s e = Inr (s', []) \<and> link_step s s'"
proof -
  let ?body = "packet_body kp ty BITCHAT_FLAG_HAS_SIGNATURE ts payload" and ?ph = "sent_header ty payload"
  define q where "q = ?body @ butlast sig"
  define pkt where "pkt = signed_packet cr kp ty 0 ts payload"
  note parts = signed_packet_parts [OF kp n pkt_def refl refl]
  have "sig \<noteq> []" using sig(1) by auto
  then have "?body @ sig = q @ [1]" using sig(2) append_butlast_last_id [of sig] by (simp add: q_def)
  then have rec: "received e = q" unfolding e using unpad_last_one [of q] by simp
  have lb: "length ?body = 22 + length payload" using kp by (simp add: packet_body_def pkt_consts)
  then have len: "length q = 85 + length payload" using sig(1) by (simp add: q_def)
  have "take (22 + length payload) pkt = ?body" using parts(4,6) by simp
  then have "?body ! k = pkt ! k" if "k < 22" for k using that nth_take [of k "22 + length payload" pkt] by simp
  then have nth: "q ! k = pkt ! k" if "k < 22" for k using that lb by (simp add: q_def nth_append)
  have "get_u32_be (drop 12 q) = get_u32_be (drop 12 pkt)" using len parts(4) nth by (simp add: get_u32_be_def)
  then have "parse_header q = Some ?ph"
    using parts(1) parts(4) len nth by (simp add: parse_header_def pkt_consts Let_def split: if_splits)
  then have wf: "well_formed (received e) ?ph"
    using len n by (simp add: rec well_formed_def) (simp add: sent_header_def sint_small)
  have "signature_ok cr p (received e) ?ph = Inr False" for p
    using len parts(4,8) by (simp add: rec signature_ok_def sent_header_def pkt_consts Let_def)
  then have "process_incoming cr env s e = Inr (before_dispatch q (sender_of q ?ph) i s, [])"
    by (simp add: process_known [OF wf i] process_packet_def rec)
  moreover have "link_step s (before_dispatch q (sender_of q ?ph) i s)"
    by (rule link_before) (use len in \<open>simp add: sender_of_def sent_header_def pkt_consts\<close>)
  ultimately show ?thesis by blast
qed

section \<open>Private messages\<close>

text \<open>The packet that carries a plaintext encrypted under \<open>cs\<close>.\<close>

definition encrypted_packet :: "crypto \<Rightarrow> keypair \<Rightarrow> u64 \<Rightarrow> cipher_state \<Rightarrow> bytes \<Rightarrow> bytes" where
  "encrypted_packet cr kp ts cs pt =
     (let header = packet_header BITCHAT_PKT_NOISE_ENCRYPTED BITCHAT_FLAG_HAS_SIGNATURE ts (length pt + 16)
      in signed_packet cr kp BITCHAT_PKT_NOISE_ENCRYPTED 0 ts (sealed (cs_k cs) (cs_n cs) header pt))"

lemma send_encrypted_packet:
  assumes "hs_phase (p_hs (ble_peers s ! i)) = NOISE_HS_TRANSPORT" and "length inner < 512"
  shows "\<exists>s'. send_encrypted cr env s i ty inner =
      send_to_peer cr env s' i (encrypted_packet cr (ble_keypair s) (epoch_ms env s) (hs_send_cs (p_hs (ble_peers s ! i))) (ty # inner)) \<and>
    s' = set_peer i ((ble_peers s ! i)\<lparr>p_hs := (p_hs (ble_peers s ! i))
           \<lparr>hs_send_cs := (hs_send_cs (p_hs (ble_peers s ! i)))\<lparr>cs_n := cs_n (hs_send_cs (p_hs (ble_peers s ! i))) + 1\<rparr>\<rparr>\<rparr>) s"
  using assms by (simp add: send_encrypted_def noise_hs_encrypt_def cs_encrypt_sealed encrypted_packet_def signed_packet_def
      packet_body_def set_peer_def Let_def)

text \<open>What the receiver does with such a packet, when its counter matches.\<close>

lemma process_encrypted:
  assumes kp: "length (fingerprint kp) = 32" and pt: "length pt < 60000" "pt \<noteq> []"
    and e: "unpad_packet (take (re_len e) (re_data e)) = pkt" and pkt_def: "pkt = encrypted_packet cr' kp ts cs pt"
    and i: "find_peer s (re_conn e) = Some i"
    and tr: "hs_phase (p_hs (ble_peers s ! i)) = NOISE_HS_TRANSPORT" "hs_recv_cs (p_hs (ble_peers s ! i)) = cs"
    and ver: "verified_by cr (ble_peers s ! i) (drop (length pkt - 64) pkt) (take (length pkt - 64) pkt)"
    and s1_def: "s1 = before_dispatch pkt (take 8 (fingerprint kp)) i s"
    and s2_def: "s2 = set_peer i ((ble_peers s1 ! i)\<lparr>p_hs := (p_hs (ble_peers s ! i))\<lparr>hs_recv_cs := cs\<lparr>cs_n := cs_n cs + 1\<rparr>\<rparr>\<rparr>) s1"
  shows "process_incoming cr env s e =
    (if hd pt = NOISE_PAYLOAD_PRIVATE_MSG \<and> tl pt \<noteq> [] then handle_private_message cr env s2 i (tl pt) else Inr (s2, []))"
proof -
  let ?ty = BITCHAT_PKT_NOISE_ENCRYPTED
  define header where "header = packet_header ?ty BITCHAT_FLAG_HAS_SIGNATURE ts (length pt + 16)"
  define ct where "ct = sealed (cs_k cs) (cs_n cs) header pt"
  have pkt: "pkt = signed_packet cr' kp ?ty 0 ts ct" by (simp add: pkt_def encrypted_packet_def header_def ct_def Let_def)
  have n: "length ct = length pt + 16" "length ct < 65000" using pt by (simp_all add: ct_def)
  define body where "body = packet_body kp ?ty BITCHAT_FLAG_HAS_SIGNATURE ts ct"
  note parts = signed_packet_parts [OF kp n(2) pkt refl body_def]
  have "\<not> sint (of_nat (length ct) :: u32) < 0" using sint_small [of "length ct"] n by simp
  then have d: "dispatch cr env s1 i (re_data e) pkt (sent_header ?ty ct) (re_conn e) = handle_encrypted cr env s1 i header (Some ct)"
    using parts(3,7) n(1) by (simp add: dispatch_def sent_header_def pkt_types header_def Let_def)
  have p1: "ble_peers s1 ! i = learn_peer_id (take 8 (fingerprint kp)) (ble_peers s ! i)" unfolding s1_def by (rule before_peer [OF i])
  have "noise_hs_decrypt (p_hs (ble_peers s ! i)) header ct =
      ((p_hs (ble_peers s ! i))\<lparr>hs_recv_cs := cs\<lparr>cs_n := cs_n cs + 1\<rparr>\<rparr>, Inr pt)"
    using tr by (simp add: noise_hs_decrypt_def ct_def cs_decrypt_sealed)
  then have h: "handle_encrypted cr env s1 i header (Some ct) =
      (if hd pt = NOISE_PAYLOAD_PRIVATE_MSG \<and> tl pt \<noteq> [] then handle_private_message cr env s2 i (tl pt) else Inr (s2, []))"
    using p1 tr pt(2) by (simp add: handle_encrypted_def s2_def Let_def)
  have v: "verified_by cr (ble_peers s ! i) (ed25519_sign cr' body (sign_private kp)) body" using ver parts(5,6) by simp
  show ?thesis
    using process_signed [OF kp n(2) e i _ pkt body_def s1_def, of cr env] v d h
    by (simp add: pkt_types relayed_type_def split: sum.split)
qed

lemma private_fields:
  assumes "length msg_id \<le> 255" and "length content \<le> 255"
  shows "tlv_find (tlv_encode BITCHAT_TLV_MESSAGE_ID msg_id @ tlv_encode BITCHAT_TLV_CONTENT content) BITCHAT_TLV_CONTENT = Some content"
    "tlv_find (tlv_encode BITCHAT_TLV_MESSAGE_ID msg_id @ tlv_encode BITCHAT_TLV_CONTENT content) BITCHAT_TLV_MESSAGE_ID = Some msg_id"
  using assms tlv_find_here [of content BITCHAT_TLV_CONTENT "[]"] by (simp_all add: tlv_find_skip tlv_find_here tlv_types)

lemma ack_private:
  assumes "length msg_id = 16" and "0 < length content" and "length content \<le> 240" and "is_cstr content" and "ble_on_message s"
    and tr: "hs_phase (p_hs (ble_peers s ! i)) = NOISE_HS_TRANSPORT"
    and fit: "121 \<le> peer_mtu env s (ble_peers s ! i)" and i: "i < length (ble_peers s)" and fp: "length (fingerprint (ble_keypair s)) = 32"
  shows "\<exists>s'. handle_private_message cr env s i (tlv_encode BITCHAT_TLV_MESSAGE_ID msg_id @ tlv_encode BITCHAT_TLV_CONTENT content) =
      Inr (s', Deliver_message
        \<lparr>origin = BITCHAT,
         sender = \<lparr>meshtastic_node_id = 0, bitchat_fingerprint = p_peer_id (ble_peers s ! i) @ replicate 24 0,
                   display_name = shown_name (ble_peers s ! i) (p_peer_id (ble_peers s ! i))\<rparr>,
         mtext = content, timestamp_ms = env_now env\<rparr> #
        transmit s (ble_peers s ! i) (encrypted_packet cr (ble_keypair s) (epoch_ms env s) (hs_send_cs (p_hs (ble_peers s ! i)))
          (NOISE_PAYLOAD_DELIVERED # tlv_encode BITCHAT_TLV_MESSAGE_ID msg_id))) \<and>
    hs_recv_cs (p_hs (ble_peers s' ! i)) = hs_recv_cs (p_hs (ble_peers s ! i))"
proof -
  let ?ack = "tlv_encode BITCHAT_TLV_MESSAGE_ID msg_id" and ?p = "ble_peers s ! i"
  let ?pkt = "encrypted_packet cr (ble_keypair s) (epoch_ms env s) (hs_send_cs (p_hs ?p)) (NOISE_PAYLOAD_DELIVERED # ?ack)"
  have "length ?ack = 18" using assms(1) by (simp add: tlv_encode_def)
  then obtain s' where s': "send_encrypted cr env s i NOISE_PAYLOAD_DELIVERED ?ack = send_to_peer cr env s' i ?pkt"
      "s' = set_peer i (?p\<lparr>p_hs := (p_hs ?p)\<lparr>hs_send_cs := (hs_send_cs (p_hs ?p))\<lparr>cs_n := cs_n (hs_send_cs (p_hs ?p)) + 1\<rparr>\<rparr>\<rparr>) s"
    using send_encrypted_packet [OF tr, of ?ack cr env NOISE_PAYLOAD_DELIVERED] by auto
  have "length ?pkt = 121" using fp \<open>length ?ack = 18\<close> by (simp add: encrypted_packet_def length_signed_packet Let_def)
  moreover have "peer_mtu env s' (ble_peers s' ! i) = peer_mtu env s ?p" "transmit s' (ble_peers s' ! i) = transmit s ?p"
    using i by (auto simp: s'(2) set_peer_def peer_mtu_def transmit_def fun_eq_iff)
  ultimately have "send_to_peer cr env s' i ?pkt = (s', transmit s ?p ?pkt)"
    using fit send_to_peer_fits [of ?pkt env s' i cr] by simp
  moreover have "hs_recv_cs (p_hs (ble_peers s' ! i)) = hs_recv_cs (p_hs ?p)" using i by (simp add: s'(2) set_peer_def)
  moreover have "c_str (take 511 content) = content" using assms(3,4) by simp
  ultimately show ?thesis
    using private_fields [of msg_id content] assms(1-5) s'(1)
    by (auto simp: handle_private_message_def bitchat_message_def deliver_def shown_name_def Let_def)
qed

text \<open>The two halves of sending a private message.\<close>

lemma send_private:
  assumes fp: "length (fingerprint (ble_keypair a)) = 32" and what: "length txt \<le> 240"
    and a: "i < length (ble_peers a)" "p_active (ble_peers a ! i)" "hs_phase (p_hs (ble_peers a ! i)) = NOISE_HS_TRANSPORT"
    and mtu: "123 + int (length txt) \<le> peer_mtu env a (ble_peers a ! i)"
    and cs_def: "cs = hs_send_cs (p_hs (ble_peers a ! i))"
    and id_def: "msg_id = fst (esp_fill_random env 16 a)"
    and pkt_def: "pkt = encrypted_packet cr (ble_keypair a) (epoch_ms env a) cs
      (NOISE_PAYLOAD_PRIVATE_MSG # tlv_encode BITCHAT_TLV_MESSAGE_ID msg_id @ tlv_encode BITCHAT_TLV_CONTENT txt)"
  shows "\<exists>a'. send_text_to cr env txt a i = (a', transmit a (ble_peers a ! i) pkt) \<and>
    hs_send_cs (p_hs (ble_peers a' ! i)) = cs\<lparr>cs_n := cs_n cs + 1\<rparr>"
proof -
  let ?inner = "tlv_encode BITCHAT_TLV_MESSAGE_ID msg_id @ tlv_encode BITCHAT_TLV_CONTENT txt" and ?pa = "ble_peers a ! i"
  have inner: "length ?inner = 20 + length txt" by (simp add: tlv_encode_def id_def esp_fill_random_def)
  define a1 where "a1 = snd (esp_fill_random env 16 a)"
  have dr: "drew_random a a1" unfolding a1_def by (rule fill_random_drew)
  note a1 = drewD [OF dr]
  obtain a' where a': "send_encrypted cr env a1 i NOISE_PAYLOAD_PRIVATE_MSG ?inner = send_to_peer cr env a' i pkt"
      "a' = set_peer i (?pa\<lparr>p_hs := (p_hs ?pa)\<lparr>hs_send_cs := cs\<lparr>cs_n := cs_n cs + 1\<rparr>\<rparr>\<rparr>) a1"
    using send_encrypted_packet [of a1 i ?inner cr env NOISE_PAYLOAD_PRIVATE_MSG] a(3) inner what unfolding pkt_def cs_def a1 by auto
  have len: "length pkt = 123 + length txt"
    using fp inner by (simp add: pkt_def encrypted_packet_def length_signed_packet Let_def)
  have "peer_mtu env a' (ble_peers a' ! i) = peer_mtu env a ?pa" "transmit a' (ble_peers a' ! i) = transmit a ?pa"
    using a(1) by (auto simp: a'(2) a1 set_peer_def peer_mtu_def transmit_def fun_eq_iff)
  then have "send_to_peer cr env a' i pkt = (a', transmit a ?pa pkt)"
    using mtu len send_to_peer_fits [of pkt env a' i cr] by simp
  then have "send_text_to cr env txt a i = (a', transmit a ?pa pkt)"
    using a a' what by (simp add: send_text_to_def a1_def [symmetric] id_def [symmetric] split_beta BITCHAT_MAX_TEXT_LEN_def Let_def)
  moreover have "hs_send_cs (p_hs (ble_peers a' ! i)) = cs\<lparr>cs_n := cs_n cs + 1\<rparr>" using a(1) by (simp add: a'(2) a1 set_peer_def)
  ultimately show ?thesis by blast
qed

lemma receive_private:
  assumes fp: "length (fingerprint kp) = 32" "length (fingerprint (ble_keypair b)) = 32"
    and what: "0 < length txt" "length txt \<le> 240" "is_cstr txt" and idl: "length msg_id = 16"
    and mtu: "121 \<le> peer_mtu env b (ble_peers b ! j)"
    and b: "ble_on_message b" "find_peer b (re_conn e) = Some j" "hs_phase (p_hs (ble_peers b ! j)) = NOISE_HS_TRANSPORT"
    and cs: "hs_recv_cs (p_hs (ble_peers b ! j)) = cs"
    and pkt_def: "pkt = encrypted_packet cr' kp ts cs
      (NOISE_PAYLOAD_PRIVATE_MSG # tlv_encode BITCHAT_TLV_MESSAGE_ID msg_id @ tlv_encode BITCHAT_TLV_CONTENT txt)"
    and e: "received e = pkt"
    and ver: "verified_by cr (ble_peers b ! j) (drop (length pkt - 64) pkt) (take (length pkt - 64) pkt)"
    and sid: "sid = p_peer_id (learn_peer_id (take 8 (fingerprint kp)) (ble_peers b ! j))"
  shows "\<exists>b' ts'. process_incoming cr env b e = Inr (b', Deliver_message
        \<lparr>origin = BITCHAT,
         sender = \<lparr>meshtastic_node_id = 0, bitchat_fingerprint = sid @ replicate 24 0, display_name = shown_name (ble_peers b ! j) sid\<rparr>,
         mtext = txt, timestamp_ms = env_now env\<rparr> #
      transmit b (ble_peers b ! j) (encrypted_packet cr (ble_keypair b) ts' (hs_send_cs (p_hs (ble_peers b ! j)))
        (NOISE_PAYLOAD_DELIVERED # tlv_encode BITCHAT_TLV_MESSAGE_ID msg_id))) \<and>
    hs_recv_cs (p_hs (ble_peers b' ! j)) = cs\<lparr>cs_n := cs_n cs + 1\<rparr>"
proof -
  let ?inner = "tlv_encode BITCHAT_TLV_MESSAGE_ID msg_id @ tlv_encode BITCHAT_TLV_CONTENT txt" and ?pb = "ble_peers b ! j"
  define s1 where "s1 = before_dispatch pkt (take 8 (fingerprint kp)) j b"
  define s2 where "s2 = set_peer j ((ble_peers s1 ! j)\<lparr>p_hs := (p_hs ?pb)\<lparr>hs_recv_cs := cs\<lparr>cs_n := cs_n cs + 1\<rparr>\<rparr>\<rparr>) s1"
  have p1: "ble_peers s1 ! j = learn_peer_id (take 8 (fingerprint kp)) ?pb" unfolding s1_def by (rule before_peer [OF b(2)])
  have step: "process_incoming cr env b e = handle_private_message cr env s2 j ?inner"
    using process_encrypted [OF fp(1) _ _ e pkt_def b(2,3) cs ver s1_def s2_def, of env] idl what by (simp add: tlv_encode_def)
  have frame: "ble_keypair s2 = ble_keypair b" "ble_server s2 = ble_server b" "ble_msg_char s2 = ble_msg_char b"
      "length (ble_peers s2) = length (ble_peers b)" "ble_on_message s2 = ble_on_message b"
    by (auto simp: s2_def s1_def before_dispatch_def set_peer_def sync_packet_clock_def split: prod.splits)
  have p2: "ble_peers s2 ! j = (learn_peer_id (take 8 (fingerprint kp)) ?pb)\<lparr>p_hs := (p_hs ?pb)\<lparr>hs_recv_cs := cs\<lparr>cs_n := cs_n cs + 1\<rparr>\<rparr>\<rparr>"
    using find_peer_bound [OF b(2)] p1 by (simp add: s2_def s1_def before_dispatch_def set_peer_def)
  have same: "peer_mtu env s2 (ble_peers s2 ! j) = peer_mtu env b ?pb" "transmit s2 (ble_peers s2 ! j) = transmit b ?pb"
      "shown_name (ble_peers s2 ! j) sid = shown_name ?pb sid" "p_peer_id (ble_peers s2 ! j) = sid"
    by (auto simp: p2 frame peer_mtu_def transmit_def shown_name_def learn_peer_id_def sid fun_eq_iff)
  show ?thesis
    using ack_private [OF idl what, of s2 j env cr] b fp(2) mtu find_peer_bound [OF b(2)] unfolding step frame same
    by (auto simp: p2 same frame)
qed


section \<open>Overruns\<close>

text \<open>
  C40: a peer with a session can overrun a buffer of the bridge.  The receipt for a private message is
  built in an array of 20 bytes; a message id of 19 to 255 bytes, in an otherwise ordinary message, does not fit.
\<close>

theorem long_message_id_overflows:
  assumes "length (fingerprint kp) = 32" and "0 < length txt" "length txt \<le> 255" and "18 < length msg_id" "length msg_id \<le> 255"
    and "find_peer b (re_conn e) = Some j" "hs_phase (p_hs (ble_peers b ! j)) = NOISE_HS_TRANSPORT"
    and "hs_recv_cs (p_hs (ble_peers b ! j)) = cs"
    and pkt_def: "pkt = encrypted_packet cr' kp ts cs
      (NOISE_PAYLOAD_PRIVATE_MSG # tlv_encode BITCHAT_TLV_MESSAGE_ID msg_id @ tlv_encode BITCHAT_TLV_CONTENT txt)"
    and "received e = pkt"
    and "verified_by cr (ble_peers b ! j) (drop (length pkt - 64) pkt) (take (length pkt - 64) pkt)"
  shows "process_incoming cr env b e = Inl Buffer_overflow"
proof -
  let ?inner = "tlv_encode BITCHAT_TLV_MESSAGE_ID msg_id @ tlv_encode BITCHAT_TLV_CONTENT txt"
  have "handle_private_message cr env s j ?inner = Inl Buffer_overflow" for s
    using private_fields [of msg_id "txt"] assms(2-5) by (auto simp: handle_private_message_def Let_def)
  moreover have "length (NOISE_PAYLOAD_PRIVATE_MSG # ?inner) < 60000" using assms by (simp add: tlv_encode_def)
  ultimately show ?thesis
    using process_encrypted [OF assms(1) _ _ assms(10) pkt_def assms(6-8,11) refl refl, of env] by (simp add: tlv_encode_def)
qed

text \<open>
  A header of version 2 can claim a payload of \<open>2\<^sup>3\<^sup>1\<close> bytes or more in a short packet.
  The length is compared as a signed number and passes; on a connection with an established session
  an unsigned packet of this form, which needs no key, makes decryption run over a length no buffer has.
\<close>

theorem huge_length_overflows:
  assumes wf: "well_formed (received e) ph" and huge: "0x80000000 \<le> ph_payload_len ph" and ty: "ph_type ph = BITCHAT_PKT_NOISE_ENCRYPTED"
    and unsigned: "ph_flags ph AND BITCHAT_FLAG_HAS_SIGNATURE = 0"
    and i: "find_peer s (re_conn e) = Some i" and tr: "hs_phase (p_hs (ble_peers s ! i)) = NOISE_HS_TRANSPORT"
  shows "process_incoming cr env s e = Inl Buffer_overflow"
proof -
  have "sint (ph_payload_len ph) < 0"
  proof (rule ccontr)
    assume "\<not> sint (ph_payload_len ph) < 0"
    moreover have "sint (ph_payload_len ph) < 2 ^ 31" using sint_lt [of "ph_payload_len ph"] by simp
    ultimately have "uint (ph_payload_len ph) = sint (ph_payload_len ph)" by (simp add: uint_sint take_bit_int_eq_self)
    then show False using huge \<open>sint (ph_payload_len ph) < 2 ^ 31\<close> by (simp add: word_le_def)
  qed
  moreover have "signature_ok cr p (received e) ph = Inr True" for p using unsigned by (simp add: signature_ok_def Let_def)
  ultimately show ?thesis
    using ty tr before_peer [OF i]
    by (simp add: process_known [OF wf i] process_packet_def dispatch_def handle_encrypted_def pkt_types Let_def)
qed

section \<open>Examples\<close>

text \<open>A digest for which every signature ends in zeros, and the entry that holds a packet.\<close>

definition quiet_crypto :: crypto where
  "quiet_crypto = sized_crypto\<lparr>sha512 := (\<lambda>_. replicate 64 0)\<rparr>"

definition rx_of :: "bytes \<Rightarrow> u16 \<Rightarrow> rx_entry" where
  "rx_of pkt h = \<lparr>re_data = pkt, re_len = length pkt, re_conn = h\<rparr>"

lemma reduce_zero: "ed_reduce (replicate 64 0) = replicate 32 0"
  by code_simp

lemma add_zero_products:
  assumes "length x = 64"
  shows "foldl (\<lambda>x (i, j). x[i + j := x ! (i + j) + uint (replicate 64 (0 :: u8) ! i) * uint ((d :: bytes) ! j)]) x
    (List.product [0..<32] [0..<32]) = x"
proof -
  have "foldl (\<lambda>x (i, j). x[i + j := x ! (i + j) + uint (replicate 64 (0 :: u8) ! i) * uint (d ! j)]) x ps = x"
    if "set ps \<subseteq> {..<32} \<times> {..<32}" for ps
    using that by (induction ps) auto
  then show ?thesis by (simp add: atLeast0LessThan)
qed

lemma sign_quiet: "drop 32 (ed25519_sign quiet_crypto msg sk) = replicate 32 0"
proof -
  have q: "sha512 quiet_crypto m = replicate 64 0" for m by (simp add: quiet_crypto_def)
  have r: "ed_reduce (map uint (take 64 (replicate 64 (0 :: u8)))) = replicate 32 0" using reduce_zero by simp
  have "drop 32 (ed25519_sign quiet_crypto msg sk) = ed_reduce (map uint (replicate 32 (0 :: u8)) @ replicate 32 0)"
    unfolding ed25519_sign_def q r Let_def by (subst add_zero_products) simp_all
  also have "\<dots> = ed_reduce (replicate 64 0)" by (simp add: replicate_add [symmetric])
  finally show ?thesis by (simp add: reduce_zero)
qed

lemma unpad_quiet: "unpad_packet (signed_packet quiet_crypto kp ty flags ts payload) = signed_packet quiet_crypto kp ty flags ts payload"
proof -
  have "last (ed25519_sign quiet_crypto m sk) = 0" for m sk
    using last_drop [of 32 "ed25519_sign quiet_crypto m sk"] by (simp add: sign_quiet)
  moreover have "ed25519_sign quiet_crypto m sk \<noteq> []" for m sk using length_ed25519_sign [of quiet_crypto m sk] by force
  ultimately show ?thesis by (simp add: signed_packet_def unpad_packet_def Let_def)
qed

text \<open>Two bridges that are connected, without and with an established session.\<close>

definition listener :: ble where
  "listener = one_peer\<lparr>ble_on_message := True\<rparr>"

definition in_session :: ble where
  "in_session = listener\<lparr>ble_peers := [(ble_peers one_peer ! 0)\<lparr>p_hs := zero_hs\<lparr>hs_phase := NOISE_HS_TRANSPORT\<rparr>\<rparr>]\<rparr>"

lemmas example_defs = in_session_def listener_def one_peer_def new_ble_def new_session_def zero_session_def find_peer_def
  rx_of_def peer_mtu_def BITCHAT_BLE_MTU_def zero_keypair_def zero_hs_def verified_by_def

theorem text_crosses_radio_witness:
  "\<exists>b' relayed. process_incoming quiet_crypto quiet_env listener
      (rx_of (text_packet quiet_crypto zero_keypair (epoch_ms quiet_env one_peer) [104, 105]) 9) =
    Inr (b', Deliver_message
      \<lparr>origin = BITCHAT, sender = \<lparr>meshtastic_node_id = 0, bitchat_fingerprint = replicate 32 0,
                                  display_name = shown_name (ble_peers listener ! 0) (replicate 8 0)\<rparr>,
       mtext = [104, 105], timestamp_ms = 100000\<rparr> # relayed)"
proof -
  let ?data = "text_packet quiet_crypto zero_keypair (epoch_ms quiet_env one_peer) [104, 105]"
  have k: "length (fingerprint zero_keypair) = 32" "take 8 (fingerprint zero_keypair) = replicate 8 0"
    by (simp_all add: zero_keypair_def)
  have p: "ble_active one_peer" "list_all (\<lambda>p. 256 \<le> peer_mtu quiet_env one_peer p) (filter p_active (ble_peers one_peer))"
      "ble_on_message listener" "find_peer listener 9 = Some 0" "entry_packet (rx_of ?data 9) = (?data, 9)"
      "verified_by quiet_crypto (ble_peers listener ! 0) x y" for x y
    by (simp_all add: example_defs entry_packet_def)
  show ?thesis
    using text_crosses_radio [OF k(1) _ _ _ p(1-4) refl p(5) refl p(6), where env' = quiet_env] unfolding k(2)
    by (auto simp: quiet_env_def replicate_add [symmetric])
qed

theorem long_message_id_overflows_witness:
  "process_incoming quiet_crypto quiet_env in_session
     (rx_of (encrypted_packet quiet_crypto zero_keypair 0 empty_cs
        (NOISE_PAYLOAD_PRIVATE_MSG # tlv_encode BITCHAT_TLV_MESSAGE_ID (replicate 19 7) @ tlv_encode BITCHAT_TLV_CONTENT [104])) 9) =
   Inl Buffer_overflow"
  by (rule long_message_id_overflows [OF _ _ _ _ _ _ _ _ refl, where j = 0])
    (simp_all add: example_defs encrypted_packet_def unpad_quiet Let_def)


text \<open>A message with a signature of no key, and an announce without signature, as bytes.\<close>

definition forged_message :: bytes where
  "forged_message = [1, 2, 7] @ replicate 8 0 @ [2, 0, 3] @ replicate 8 0 @ [5, 1, 104] @ replicate 64 255"

definition bare_announce :: bytes where
  "bare_announce = [1, 1, 7] @ replicate 8 0 @ [0, 0, 34] @ replicate 8 0 @ [3, 32] @ replicate 31 9 @ [0]"

definition message_header :: parsed_header where
  "message_header = \<lparr>ph_type = 2, ph_ttl = 7, ph_flags = 2, ph_header_len = 14, ph_payload_len = 3, ph_offset = 22\<rparr>"

definition announce_header :: parsed_header where
  "announce_header = \<lparr>ph_type = 1, ph_ttl = 7, ph_flags = 0, ph_header_len = 14, ph_payload_len = 34, ph_offset = 22\<rparr>"

lemma forged_example:
  "well_formed (received (rx_of forged_message 9)) message_header" "forged cr K (received (rx_of forged_message 9)) message_header"
proof -
  have u: "received (rx_of forged_message 9) = forged_message" by code_simp
  show "well_formed (received (rx_of forged_message 9)) message_header" by code_simp
  have "drop (length forged_message - 64) forged_message ! 63 = 255" "64 \<le> length forged_message" by code_simp+
  then show "forged cr K (received (rx_of forged_message 9)) message_header"
    unfolding u by (simp add: forged_def ed25519_verify_def message_header_def pkt_consts pkt_types)
qed


theorem other_identity_silenced_witness:
  "\<exists>s' outs s''. process_incoming quiet_crypto quiet_env listener (rx_of bare_announce 9) = Inr (s', outs) \<and>
     process_incoming quiet_crypto quiet_env s' (rx_of forged_message 9) = Inr (s'', [])"
proof -
  have a: "well_formed (received (rx_of bare_announce 9)) announce_header" "ph_type announce_header = BITCHAT_PKT_ANNOUNCE"
      "find_key (payload_of (received (rx_of bare_announce 9)) announce_header) BITCHAT_TLV_SIGNING_PUBKEY = Some (replicate 31 9 @ [0])"
    by code_simp+
  have b: "signature_ok quiet_crypto p (received (rx_of bare_announce 9)) announce_header = Inr True" for p
    by (simp add: signature_ok_def announce_header_def Let_def)
  have c: "find_peer listener (re_conn (rx_of bare_announce 9)) = Some 0" "re_conn (rx_of forged_message 9) = re_conn (rx_of bare_announce 9)"
    by (simp_all add: example_defs)
  show ?thesis using other_identity_silenced [OF a(1,2) c(1) b a(3) forged_example(1) c(2) forged_example(2)] by blast
qed

theorem unpadded_packet_lost_witness:
  "\<exists>s'. process_incoming quiet_crypto quiet_env listener
     (rx_of (packet_body zero_keypair BITCHAT_PKT_NOISE_HANDSHAKE BITCHAT_FLAG_HAS_SIGNATURE 0 (replicate 32 5) @ replicate 63 0 @ [1]) 9) = Inr (s', [])"
proof -
  let ?e = "rx_of (packet_body zero_keypair BITCHAT_PKT_NOISE_HANDSHAKE BITCHAT_FLAG_HAS_SIGNATURE 0 (replicate 32 5) @ replicate 63 0 @ [1]) 9"
  have "length (fingerprint zero_keypair) = 32" "find_peer listener (re_conn ?e) = Some 0" by (simp_all add: example_defs)
  then show ?thesis
    using unpadded_packet_lost [of zero_keypair "replicate 32 5" BITCHAT_PKT_NOISE_HANDSHAKE ?e 0 "replicate 63 0 @ [1]" listener 0 quiet_crypto quiet_env]
    by (auto simp: rx_of_def pkt_types)
qed

theorem huge_length_overflows_witness:
  "process_incoming quiet_crypto quiet_env in_session
     (rx_of ([2, 0x11, 7] @ replicate 8 0 @ [0, 0x80, 0, 0, 0] @ replicate 8 0) 9) = Inl Buffer_overflow"
proof -
  let ?e = "rx_of ([2, 0x11, 7] @ replicate 8 0 @ [0, 0x80, 0, 0, 0] @ replicate 8 0) 9"
  let ?ph = "\<lparr>ph_type = 0x11, ph_ttl = 7, ph_flags = 0, ph_header_len = 16, ph_payload_len = 0x80000000, ph_offset = 24\<rparr>"
  have "well_formed (received ?e) ?ph" by code_simp
  then show ?thesis
    by (rule huge_length_overflows [where i = 0]) (simp_all add: example_defs pkt_types)
qed

end
