(* ===== verification/Identity_Mapper.thy ===== *)
theory Identity_Mapper
  imports Name_Cache
begin

text \<open>
  \<^verbatim>\<open>src/bridge/identity_mapper.{h,cpp}\<close>: the persistent name cache of the bridge.  The entry
  arrays and their counters are lists of at most \<open>MAX_IDENTITY_ENTRIES\<close> entries.  The
  flash store (NVS) is a parameter, a record of its operations over a store of any type.
  Both tables implement the \<open>name_cache\<close> contract.
\<close>

section \<open>State\<close>

definition MAX_IDENTITY_ENTRIES :: nat where "MAX_IDENTITY_ENTRIES = 16"
definition IDENTITY_SAVE_DEBOUNCE_MS :: u32 where "IDENTITY_SAVE_DEBOUNCE_MS = 30000"

record mesh_entry =
  me_node_id :: u32
  me_long_name :: bytes
  me_short_name :: bytes

record ble_entry =
  be_fingerprint :: bytes  \<comment> \<open>8 bytes\<close>
  be_nickname :: bytes

record identity_mapper =
  mesh_names :: "mesh_entry list"
  ble_names :: "ble_entry list"
  last_save_ms :: u32
  dirty :: bool

record bitchat_identity =
  bi_fingerprint :: bytes
  bi_noise_pubkey :: bytes
  bi_sign_pubkey :: bytes
  bi_display_name :: bytes

record meshtastic_identity =
  mi_node_id :: u32
  mi_short_name :: bytes
  mi_long_name :: bytes

definition new_identity_mapper :: identity_mapper where
  "new_identity_mapper = \<lparr>mesh_names = [], ble_names = [], last_save_ms = 0, dirty = False\<rparr>"

text \<open>
  The NVS operations the mapper calls.  \<open>nvs_get_mesh st n\<close> reads a blob of at most \<open>n\<close>
  entries, and is \<open>None\<close> for every result other than \<^verbatim>\<open>ESP_OK\<close>.
\<close>

record 'st nvs =
  nvs_open_rw :: "'st \<Rightarrow> bool"
  nvs_open_ro :: "'st \<Rightarrow> bool"
  nvs_set_mesh :: "mesh_entry list \<Rightarrow> 'st \<Rightarrow> 'st"
  nvs_set_mesh_n :: "u8 \<Rightarrow> 'st \<Rightarrow> 'st"
  nvs_set_ble :: "ble_entry list \<Rightarrow> 'st \<Rightarrow> 'st"
  nvs_set_ble_n :: "u8 \<Rightarrow> 'st \<Rightarrow> 'st"
  nvs_commit :: "'st \<Rightarrow> 'st"
  nvs_get_mesh :: "'st \<Rightarrow> nat \<Rightarrow> mesh_entry list option"
  nvs_get_mesh_n :: "'st \<Rightarrow> u8 option"
  nvs_get_ble :: "'st \<Rightarrow> nat \<Rightarrow> ble_entry list option"
  nvs_get_ble_n :: "'st \<Rightarrow> u8 option"

section \<open>Operations\<close>

text \<open>\<^verbatim>\<open>get_mesh_name\<close> and \<^verbatim>\<open>get_ble_name\<close>; the null pointer is \<open>None\<close>.\<close>

definition get_mesh_name :: "identity_mapper \<Rightarrow> u32 \<Rightarrow> bytes option" where
  "get_mesh_name s node_id =
     map_option me_long_name
       (find (\<lambda>e. me_node_id e = node_id \<and> me_long_name e \<noteq> []) (mesh_names s))"

definition get_ble_name :: "identity_mapper \<Rightarrow> bytes \<Rightarrow> bytes option" where
  "get_ble_name s fingerprint =
     map_option be_nickname
       (find (\<lambda>e. be_fingerprint e = take 8 fingerprint \<and> be_nickname e \<noteq> []) (ble_names s))"

definition save :: "'st nvs \<Rightarrow> u32 \<Rightarrow> identity_mapper \<times> 'st \<Rightarrow> identity_mapper \<times> 'st" where
  "save api now = (\<lambda>(s, st).
     if \<not> dirty s then (s, st)
     else if \<not> nvs_open_rw api st then (s, st)
     else (let st = nvs_set_mesh api (mesh_names s) st;
               st = nvs_set_mesh_n api (of_nat (length (mesh_names s))) st;
               st = nvs_set_ble api (ble_names s) st;
               st = nvs_set_ble_n api (of_nat (length (ble_names s))) st;
               st = nvs_commit api st
           in (s\<lparr>dirty := False, last_save_ms := now\<rparr>, st)))"

definition save_if_needed :: "'st nvs \<Rightarrow> u32 \<Rightarrow> identity_mapper \<times> 'st \<Rightarrow> identity_mapper \<times> 'st" where
  "save_if_needed api now = (\<lambda>(s, st).
     if \<not> dirty s then (s, st)
     else if last_save_ms s \<noteq> 0 \<and> now - last_save_ms s < IDENTITY_SAVE_DEBOUNCE_MS then (s, st)
     else save api now (s, st))"

definition set_mesh_fields :: "bytes option \<Rightarrow> bytes option \<Rightarrow> mesh_entry \<Rightarrow> mesh_entry" where
  "set_mesh_fields long_name short_name e =
     e\<lparr>me_long_name := (case long_name of None \<Rightarrow> me_long_name e | Some n \<Rightarrow> strncpy 39 n),
       me_short_name := (case short_name of None \<Rightarrow> me_short_name e | Some n \<Rightarrow> strncpy 4 n)\<rparr>"

definition update_mesh_name ::
  "'st nvs \<Rightarrow> u32 \<Rightarrow> identity_mapper \<times> 'st \<Rightarrow> u32 \<Rightarrow> bytes option \<Rightarrow> bytes option \<Rightarrow> identity_mapper \<times> 'st" where
  "update_mesh_name api now = (\<lambda>(s, st) node_id long_name short_name.
     case update_first (\<lambda>e. me_node_id e = node_id) (set_mesh_fields long_name short_name) (mesh_names s) of
       Some es \<Rightarrow> save_if_needed api now (s\<lparr>mesh_names := es, dirty := True\<rparr>, st)
     | None \<Rightarrow>
         if length (mesh_names s) < MAX_IDENTITY_ENTRIES then
           save_if_needed api now
             (s\<lparr>mesh_names := mesh_names s @ [set_mesh_fields long_name short_name
                                \<lparr>me_node_id = node_id, me_long_name = [], me_short_name = []\<rparr>],
                dirty := True\<rparr>, st)
         else (s, st))"

definition set_ble_fields :: "bytes option \<Rightarrow> ble_entry \<Rightarrow> ble_entry" where
  "set_ble_fields nickname e =
     e\<lparr>be_nickname := (case nickname of None \<Rightarrow> be_nickname e | Some n \<Rightarrow> strncpy 32 n)\<rparr>"

definition update_ble_name ::
  "'st nvs \<Rightarrow> u32 \<Rightarrow> identity_mapper \<times> 'st \<Rightarrow> bytes \<Rightarrow> bytes option \<Rightarrow> identity_mapper \<times> 'st" where
  "update_ble_name api now = (\<lambda>(s, st) fingerprint nickname.
     case update_first (\<lambda>e. be_fingerprint e = take 8 fingerprint) (set_ble_fields nickname) (ble_names s) of
       Some es \<Rightarrow> save_if_needed api now (s\<lparr>ble_names := es, dirty := True\<rparr>, st)
     | None \<Rightarrow>
         if length (ble_names s) < MAX_IDENTITY_ENTRIES then
           save_if_needed api now
             (s\<lparr>ble_names := ble_names s @ [set_ble_fields nickname
                               \<lparr>be_fingerprint = take 8 fingerprint, be_nickname = []\<rparr>],
                dirty := True\<rparr>, st)
         else (s, st))"

definition mesh_to_bitchat :: "identity_mapper \<Rightarrow> u32 \<Rightarrow> bitchat_identity" where
  "mesh_to_bitchat s node_id =
     \<lparr>bi_fingerprint = replicate 32 0, bi_noise_pubkey = replicate 32 0, bi_sign_pubkey = replicate 32 0,
      bi_display_name = (case get_mesh_name s node_id of
         Some name \<Rightarrow> snprintf 32 name
       | None \<Rightarrow> snprintf 32 (ascii ''mesh_'' @ hex8 node_id))\<rparr>"

definition bitchat_to_mesh :: "identity_mapper \<Rightarrow> bytes \<Rightarrow> meshtastic_identity" where
  "bitchat_to_mesh s fingerprint =
     (case get_ble_name s fingerprint of
        Some name \<Rightarrow> \<lparr>mi_node_id = 0, mi_short_name = strncpy 4 name, mi_long_name = snprintf 40 name\<rparr>
      | None \<Rightarrow> \<lparr>mi_node_id = 0, mi_short_name = snprintf 5 (ascii ''BC''),
                 mi_long_name = snprintf 40 (ascii ''Bitchat User'')\<rparr>)"

text \<open>
  A blob shorter than the count leaves the array slots behind it as they are, which are
  zero beyond the entries held so far.
\<close>

definition read_entries :: "nat \<Rightarrow> 'e list \<Rightarrow> 'e \<Rightarrow> 'e list \<Rightarrow> 'e list" where
  "read_entries count blob blank old =
     take count (blob @ drop (length blob) (old @ replicate MAX_IDENTITY_ENTRIES blank))"

definition empty_mesh_entry :: mesh_entry where
  "empty_mesh_entry = \<lparr>me_node_id = 0, me_long_name = [], me_short_name = []\<rparr>"

definition empty_ble_entry :: ble_entry where
  "empty_ble_entry = \<lparr>be_fingerprint = replicate 8 0, be_nickname = []\<rparr>"

definition load :: "'st nvs \<Rightarrow> 'st \<Rightarrow> identity_mapper \<Rightarrow> identity_mapper" where
  "load api st s =
     (if \<not> nvs_open_ro api st then s
      else
        (let s = (case nvs_get_mesh_n api st of
                    Some count \<Rightarrow>
                      if unat count \<le> MAX_IDENTITY_ENTRIES then
                        (case nvs_get_mesh api st (unat count) of
                           Some blob \<Rightarrow>
                             s\<lparr>mesh_names := read_entries (unat count) blob empty_mesh_entry (mesh_names s)\<rparr>
                         | None \<Rightarrow> s)
                      else s
                  | None \<Rightarrow> s)
         in (case nvs_get_ble_n api st of
               Some count \<Rightarrow>
                 if unat count \<le> MAX_IDENTITY_ENTRIES then
                   (case nvs_get_ble api st (unat count) of
                      Some blob \<Rightarrow>
                        s\<lparr>ble_names := read_entries (unat count) blob empty_ble_entry (ble_names s)\<rparr>
                    | None \<Rightarrow> s)
                 else s
             | None \<Rightarrow> s)))"

section \<open>The tables implement the contract\<close>

lemma save_names [simp]:
  "mesh_names (fst (save api now (s, st))) = mesh_names s"
  "ble_names (fst (save api now (s, st))) = ble_names s"
  by (simp_all add: save_def Let_def)

lemma save_if_needed_names [simp]:
  "mesh_names (fst (save_if_needed api now (s, st))) = mesh_names s"
  "ble_names (fst (save_if_needed api now (s, st))) = ble_names s"
  by (simp_all add: save_if_needed_def)

lemma set_mesh_fields_simps [simp]:
  "me_node_id (set_mesh_fields l h e) = me_node_id e"
  "me_long_name (set_mesh_fields l h e) = (case l of None \<Rightarrow> me_long_name e | Some n \<Rightarrow> strncpy 39 n)"
  by (simp_all add: set_mesh_fields_def)

lemma set_ble_fields_simps [simp]:
  "be_fingerprint (set_ble_fields n e) = be_fingerprint e"
  "be_nickname (set_ble_fields n e) = (case n of None \<Rightarrow> be_nickname e | Some n \<Rightarrow> strncpy 32 n)"
  by (simp_all add: set_ble_fields_def)

lemma get_mesh_name_table: "get_mesh_name s k = table_lookup me_node_id me_long_name (mesh_names s) k"
  by (simp add: get_mesh_name_def table_lookup_def)

lemma get_ble_name_table:
  "get_ble_name s k = table_lookup be_fingerprint be_nickname (ble_names s) (take 8 k)"
  by (simp add: get_ble_name_def table_lookup_def)

lemma mesh_names_update:
  "mesh_names (fst (update_mesh_name api now (s, st) k l h)) =
   table_put MAX_IDENTITY_ENTRIES me_node_id (set_mesh_fields l h)
     (set_mesh_fields l h \<lparr>me_node_id = k, me_long_name = [], me_short_name = []\<rparr>) k (mesh_names s)"
  by (simp add: update_mesh_name_def table_put_def split: option.split)

lemma ble_names_update:
  "ble_names (fst (update_ble_name api now (s, st) k n)) =
   table_put MAX_IDENTITY_ENTRIES be_fingerprint (set_ble_fields n)
     (set_ble_fields n \<lparr>be_fingerprint = take 8 k, be_nickname = []\<rparr>) (take 8 k) (ble_names s)"
  by (simp add: update_ble_name_def table_put_def split: option.split)

text \<open>An update event carries the clock reading of its call and the arguments.\<close>

record mesh_event =
  mv_now :: u32
  mv_node :: u32
  mv_long :: "bytes option"
  mv_short :: "bytes option"

record ble_event =
  bv_now :: u32
  bv_fingerprint :: bytes
  bv_nickname :: "bytes option"

definition learn_mesh :: "'st nvs \<Rightarrow> identity_mapper \<times> 'st \<Rightarrow> mesh_event \<Rightarrow> identity_mapper \<times> 'st" where
  "learn_mesh api s i = update_mesh_name api (mv_now i) s (mv_node i) (mv_long i) (mv_short i)"

definition learn_ble :: "'st nvs \<Rightarrow> identity_mapper \<times> 'st \<Rightarrow> ble_event \<Rightarrow> identity_mapper \<times> 'st" where
  "learn_ble api s i = update_ble_name api (bv_now i) s (bv_fingerprint i) (bv_nickname i)"

interpretation mesh_table: name_cache "\<lambda>s. get_mesh_name (fst s)" "learn_mesh api"
  "\<lambda>s. map me_node_id (mesh_names (fst s))" mv_node mv_long MAX_IDENTITY_ENTRIES 39 for api
proof unfold_locales
  fix s :: "identity_mapper \<times> 'a" and i :: mesh_event
  assume d: "distinct (map me_node_id (mesh_names (fst s)))"
    and room: "mv_node i \<in> set (map me_node_id (mesh_names (fst s))) \<or>
               length (map me_node_id (mesh_names (fst s))) < MAX_IDENTITY_ENTRIES"
  obtain m st where s: "s = (m, st)" by force
  show "get_mesh_name (fst (learn_mesh api s i)) (mv_node i) =
    (case mv_long i of None \<Rightarrow> get_mesh_name (fst s) (mv_node i) | Some n \<Rightarrow> shown (strncpy 39 n))"
    using d room unfolding s learn_mesh_def get_mesh_name_table mesh_names_update
    by (subst lookup_table_put_same [where n = "map_option (strncpy 39) (mv_long i)"])
      (auto split: option.split)
next
  fix s :: "identity_mapper \<times> 'a" and k and i :: mesh_event
  assume "k \<noteq> mv_node i"
  then show "get_mesh_name (fst (learn_mesh api s i)) k = get_mesh_name (fst s) k"
    by (cases s) (simp add: learn_mesh_def get_mesh_name_table mesh_names_update lookup_table_put_other)
next
  fix s :: "identity_mapper \<times> 'a" and i :: mesh_event
  show "map me_node_id (mesh_names (fst (learn_mesh api s i))) =
    (if mv_node i \<in> set (map me_node_id (mesh_names (fst s))) \<or>
        MAX_IDENTITY_ENTRIES \<le> length (map me_node_id (mesh_names (fst s)))
     then map me_node_id (mesh_names (fst s)) else map me_node_id (mesh_names (fst s)) @ [mv_node i])"
    by (cases s) (simp add: learn_mesh_def mesh_names_update keys_table_put)
next
  fix s :: "identity_mapper \<times> 'a" and k
  assume "k \<notin> set (map me_node_id (mesh_names (fst s)))"
  then show "get_mesh_name (fst s) k = None"
    by (simp add: get_mesh_name_table table_lookup_unknown)
qed

interpretation ble_table: name_cache
  "\<lambda>s k. table_lookup be_fingerprint be_nickname (ble_names (fst s)) k" "learn_ble api"
  "\<lambda>s. map be_fingerprint (ble_names (fst s))" "\<lambda>i. take 8 (bv_fingerprint i)" bv_nickname
  MAX_IDENTITY_ENTRIES 32 for api
proof unfold_locales
  fix s :: "identity_mapper \<times> 'a" and i :: ble_event
  assume d: "distinct (map be_fingerprint (ble_names (fst s)))"
    and room: "take 8 (bv_fingerprint i) \<in> set (map be_fingerprint (ble_names (fst s))) \<or>
               length (map be_fingerprint (ble_names (fst s))) < MAX_IDENTITY_ENTRIES"
  obtain m st where s: "s = (m, st)" by force
  show "table_lookup be_fingerprint be_nickname (ble_names (fst (learn_ble api s i))) (take 8 (bv_fingerprint i)) =
    (case bv_nickname i of
       None \<Rightarrow> table_lookup be_fingerprint be_nickname (ble_names (fst s)) (take 8 (bv_fingerprint i))
     | Some n \<Rightarrow> shown (strncpy 32 n))"
    using d room unfolding s learn_ble_def ble_names_update
    by (subst lookup_table_put_same [where n = "map_option (strncpy 32) (bv_nickname i)"])
      (auto split: option.split)
next
  fix s :: "identity_mapper \<times> 'a" and k and i :: ble_event
  assume "k \<noteq> take 8 (bv_fingerprint i)"
  then show "table_lookup be_fingerprint be_nickname (ble_names (fst (learn_ble api s i))) k =
             table_lookup be_fingerprint be_nickname (ble_names (fst s)) k"
    by (cases s) (simp add: learn_ble_def ble_names_update lookup_table_put_other)
next
  fix s :: "identity_mapper \<times> 'a" and i :: ble_event
  show "map be_fingerprint (ble_names (fst (learn_ble api s i))) =
    (if take 8 (bv_fingerprint i) \<in> set (map be_fingerprint (ble_names (fst s))) \<or>
        MAX_IDENTITY_ENTRIES \<le> length (map be_fingerprint (ble_names (fst s)))
     then map be_fingerprint (ble_names (fst s))
     else map be_fingerprint (ble_names (fst s)) @ [take 8 (bv_fingerprint i)])"
    by (cases s) (simp add: learn_ble_def ble_names_update keys_table_put)
next
  fix s :: "identity_mapper \<times> 'a" and k
  assume "k \<notin> set (map be_fingerprint (ble_names (fst s)))"
  then show "table_lookup be_fingerprint be_nickname (ble_names (fst s)) k = None"
    by (simp add: table_lookup_unknown)
qed

section \<open>Names after a run of updates\<close>

lemma learn_all_foldl: "name_cache.learn_all (learn_mesh api) s evs = foldl (learn_mesh api) s evs"
  by (induction evs arbitrary: s) (simp_all add: mesh_table.learn_all.simps)

lemma keep_latest:
  "\<forall>j\<in>set after. mv_node j = k \<longrightarrow> mv_long j = None \<Longrightarrow> mesh_table.latest k after r = r"
  unfolding mesh_table.latest_def by (induction after arbitrary: r) auto

lemma latest_last:
  assumes "mv_long i = Some n" and "\<forall>j\<in>set after. mv_node j = mv_node i \<longrightarrow> mv_long j = None"
  shows "mesh_table.latest (mv_node i) (before @ i # after) r = shown (strncpy 39 n)"
  using keep_latest [OF assms(2)] by (simp add: mesh_table.latest_def assms(1))

text \<open>
  Starting from an empty mapper, as long as at most 16 different nodes have announced
  themselves, a lookup returns the last long name the node gave (cut to 39 bytes), whatever
  the order of the updates, their short names, and the saves to flash in between; an empty
  name is reported as unknown.
\<close>

theorem get_mesh_name_last_update:
  assumes "card (mv_node ` set (before @ i # after)) \<le> MAX_IDENTITY_ENTRIES"
    and "mv_long i = Some n"
    and "\<forall>j\<in>set after. mv_node j = mv_node i \<longrightarrow> mv_long j = None"
  shows "get_mesh_name (fst (foldl (learn_mesh api) (new_identity_mapper, st) (before @ i # after))) (mv_node i) =
         (if strncpy 39 n = [] then None else Some (strncpy 39 n))"
  using mesh_table.lookup_learn_all [of "(new_identity_mapper, st)" "before @ i # after" api "mv_node i"]
    assms(1) latest_last [OF assms(2,3), of before]
  by (simp add: learn_all_foldl new_identity_mapper_def shown_def)

section \<open>Persistence\<close>

text \<open>
  What the mapper relies on of NVS: a committed value is read back, unless it is longer than
  the reader's buffer, and the four keys do not interfere.
\<close>

definition nvs_lawful :: "'st nvs \<Rightarrow> bool" where
  "nvs_lawful api \<longleftrightarrow>
     (\<forall>st m n. nvs_get_mesh api (nvs_set_mesh api m st) n = (if length m \<le> n then Some m else None)) \<and>
     (\<forall>st c. nvs_get_mesh_n api (nvs_set_mesh_n api c st) = Some c) \<and>
     (\<forall>st m n. nvs_get_ble api (nvs_set_ble api m st) n = (if length m \<le> n then Some m else None)) \<and>
     (\<forall>st c. nvs_get_ble_n api (nvs_set_ble_n api c st) = Some c) \<and>
     (\<forall>st m. nvs_get_mesh api (nvs_set_ble api m st) = nvs_get_mesh api st) \<and>
     (\<forall>st c. nvs_get_mesh api (nvs_set_mesh_n api c st) = nvs_get_mesh api st) \<and>
     (\<forall>st c. nvs_get_mesh api (nvs_set_ble_n api c st) = nvs_get_mesh api st) \<and>
     (\<forall>st m. nvs_get_mesh_n api (nvs_set_ble api m st) = nvs_get_mesh_n api st) \<and>
     (\<forall>st c. nvs_get_mesh_n api (nvs_set_ble_n api c st) = nvs_get_mesh_n api st) \<and>
     (\<forall>st c. nvs_get_ble api (nvs_set_ble_n api c st) = nvs_get_ble api st) \<and>
     (\<forall>st. nvs_get_mesh api (nvs_commit api st) = nvs_get_mesh api st) \<and>
     (\<forall>st. nvs_get_mesh_n api (nvs_commit api st) = nvs_get_mesh_n api st) \<and>
     (\<forall>st. nvs_get_ble api (nvs_commit api st) = nvs_get_ble api st) \<and>
     (\<forall>st. nvs_get_ble_n api (nvs_commit api st) = nvs_get_ble_n api st)"

lemma read_entries_all: "read_entries (length blob) blob blank old = blob"
  by (simp add: read_entries_def)

lemma unat_count: "n \<le> MAX_IDENTITY_ENTRIES \<Longrightarrow> unat (of_nat n :: u8) = n"
  by (simp add: unat_of_nat MAX_IDENTITY_ENTRIES_def)

lemma load_after_sets:
  assumes law: "nvs_lawful api" and open_ro: "\<forall>st. nvs_open_ro api st"
    and bound: "length ms \<le> MAX_IDENTITY_ENTRIES" "length bs \<le> MAX_IDENTITY_ENTRIES"
  shows "load api (nvs_commit api (nvs_set_ble_n api (of_nat (length bs)) (nvs_set_ble api bs
           (nvs_set_mesh_n api (of_nat (length ms)) (nvs_set_mesh api ms st))))) s =
         s\<lparr>mesh_names := ms, ble_names := bs\<rparr>"
  using law open_ro bound unfolding nvs_lawful_def load_def
  by (simp add: unat_count read_entries_all)

text \<open>
  C33: when the mapper saves, a later boot that loads from the same flash store gets back
  both tables entry by entry, provided NVS opens and returns what was stored in it.
\<close>

theorem load_after_save:
  assumes "nvs_lawful api" and "\<forall>st. nvs_open_ro api st" and "nvs_open_rw api st" and "dirty s"
    and "length (mesh_names s) \<le> MAX_IDENTITY_ENTRIES" and "length (ble_names s) \<le> MAX_IDENTITY_ENTRIES"
  shows "load api (snd (save api now (s, st))) new_identity_mapper =
         new_identity_mapper\<lparr>mesh_names := mesh_names s, ble_names := ble_names s\<rparr>"
  using assms(3,4) load_after_sets [OF assms(1,2,5,6)] by (simp add: save_def Let_def)

text \<open>A store that behaves: four cells.\<close>

definition cell_nvs :: "(mesh_entry list \<times> u8 \<times> ble_entry list \<times> u8) nvs" where
  "cell_nvs =
    \<lparr>nvs_open_rw = (\<lambda>_. True), nvs_open_ro = (\<lambda>_. True),
     nvs_set_mesh = (\<lambda>m (_, mn, b, bn). (m, mn, b, bn)),
     nvs_set_mesh_n = (\<lambda>mn (m, _, b, bn). (m, mn, b, bn)),
     nvs_set_ble = (\<lambda>b (m, mn, _, bn). (m, mn, b, bn)),
     nvs_set_ble_n = (\<lambda>bn (m, mn, b, _). (m, mn, b, bn)),
     nvs_commit = (\<lambda>st. st),
     nvs_get_mesh = (\<lambda>(m, _, _, _) n. if length m \<le> n then Some m else None),
     nvs_get_mesh_n = (\<lambda>(_, mn, _, _). Some mn),
     nvs_get_ble = (\<lambda>(_, _, b, _) n. if length b \<le> n then Some b else None),
     nvs_get_ble_n = (\<lambda>(_, _, _, bn). Some bn)\<rparr>"

lemma cell_nvs_lawful: "nvs_lawful cell_nvs"
  unfolding nvs_lawful_def cell_nvs_def by auto

theorem get_mesh_name_last_update_witness:
  "get_mesh_name (fst (foldl (learn_mesh cell_nvs) (new_identity_mapper, ([], 0, [], 0))
     [\<lparr>mv_now = 1, mv_node = 7, mv_long = Some [65], mv_short = None\<rparr>,
      \<lparr>mv_now = 2, mv_node = 9, mv_long = Some [66], mv_short = None\<rparr>,
      \<lparr>mv_now = 3, mv_node = 7, mv_long = Some [67], mv_short = None\<rparr>])) 7 = Some [67]"
  using get_mesh_name_last_update [of
      "[\<lparr>mv_now = 1, mv_node = 7, mv_long = Some [65], mv_short = None\<rparr>,
        \<lparr>mv_now = 2, mv_node = 9, mv_long = Some [66], mv_short = None\<rparr>]"
      "\<lparr>mv_now = 3, mv_node = 7, mv_long = Some [67], mv_short = None\<rparr>" "[]" "[67]" cell_nvs "([], 0, [], 0)"]
  by (simp add: MAX_IDENTITY_ENTRIES_def strncpy_def card_insert_if)

theorem load_after_save_witness:
  "load cell_nvs (snd (save cell_nvs 5
      (new_identity_mapper\<lparr>mesh_names := [\<lparr>me_node_id = 7, me_long_name = [65], me_short_name = []\<rparr>],
                           dirty := True\<rparr>, ([], 0, [], 0)))) new_identity_mapper =
   new_identity_mapper\<lparr>mesh_names := [\<lparr>me_node_id = 7, me_long_name = [65], me_short_name = []\<rparr>]\<rparr>"
  using load_after_save [OF cell_nvs_lawful, of "([], 0, [], 0)"
      "new_identity_mapper\<lparr>mesh_names := [\<lparr>me_node_id = 7, me_long_name = [65], me_short_name = []\<rparr>],
                           dirty := True\<rparr>" 5]
  by (simp add: new_identity_mapper_def cell_nvs_def MAX_IDENTITY_ENTRIES_def)

end
