(* ===== verification/Virtual_Identity.thy ===== *)
theory Virtual_Identity
  imports Bitchat_Identity "HOL-Library.Multiset" "HOL-Library.Sublist"
begin

text \<open>
  \<^verbatim>\<open>src/bridge/virtual_identity.h\<close>: the registry of the key pairs under which Meshtastic
  users speak in Bitchat.  The vector of the source is the list of identities; an index
  stands for a returned pointer.  The free heap is read through a parameter: \<open>heap k\<close> is
  what the \<open>k\<close>-th reading within the operation returns, so that every sequence of readings is
  covered.  An operation returns the identities it evicts, in the order in which the
  eviction callback sees them.  Every operation reads \<^verbatim>\<open>millis()\<close> once.
\<close>

section \<open>State\<close>

definition VIRT_ID_MAX_SLOTS :: nat where "VIRT_ID_MAX_SLOTS = 32"
definition VIRT_ID_HEAP_RESERVE_BYTES :: u32 where "VIRT_ID_HEAP_RESERVE_BYTES = 40960"
definition VIRT_ID_HEAP_CRITICAL_BYTES :: u32 where "VIRT_ID_HEAP_CRITICAL_BYTES = 25600"
definition VIRT_ID_TIMEOUT_MS :: u32 where "VIRT_ID_TIMEOUT_MS = 600000"

record virtual_identity =
  vi_node_id :: u32
  vi_keypair :: keypair
  vi_last_seen_ms :: u32
  vi_display_name :: bytes

text \<open>\<^verbatim>\<open>sizeof(VirtualIdentity)\<close>: two 32-bit fields, the 192 bytes of keys and the name.\<close>

definition sizeof_VirtualIdentity :: nat where "sizeof_VirtualIdentity = 240"

section \<open>Operations\<close>

definition virt_index :: "virtual_identity list \<Rightarrow> u32 \<Rightarrow> nat option" where
  "virt_index ids node_id = find (\<lambda>i. vi_node_id (ids ! i) = node_id) [0..<length ids]"

definition find_virtual :: "virtual_identity list \<Rightarrow> u32 \<Rightarrow> virtual_identity option" where
  "find_virtual ids node_id = find (\<lambda>v. vi_node_id v = node_id) ids"

definition virt_at :: "virtual_identity list \<Rightarrow> int \<Rightarrow> virtual_identity option" where
  "virt_at ids i = (if 0 \<le> i \<and> i < int (length ids) then Some (ids ! nat i) else None)"

definition virt_current_max :: "u32 \<Rightarrow> virtual_identity list \<Rightarrow> nat" where
  "virt_current_max free_heap ids =
     (if free_heap < VIRT_ID_HEAP_RESERVE_BYTES then length ids
      else
        let headroom_slots = unat (free_heap - VIRT_ID_HEAP_RESERVE_BYTES) div sizeof_VirtualIdentity;
            total = length ids + headroom_slots
        in if total < VIRT_ID_MAX_SLOTS then total else VIRT_ID_MAX_SLOTS)"

definition can_grow :: "u32 \<Rightarrow> virtual_identity list \<Rightarrow> bool" where
  "can_grow free_heap ids \<longleftrightarrow> \<not> VIRT_ID_MAX_SLOTS \<le> length ids \<and> free_heap > VIRT_ID_HEAP_RESERVE_BYTES"

text \<open>What stays and what is evicted.\<close>

fun expire_stale :: "u32 \<Rightarrow> u32 \<Rightarrow> virtual_identity list \<Rightarrow> virtual_identity list \<times> virtual_identity list" where
  "expire_stale timeout_ms now [] = ([], [])"
| "expire_stale timeout_ms now (it # ids) =
     (let (kept, evicted) = expire_stale timeout_ms now ids in
      if now - vi_last_seen_ms it > timeout_ms then (kept, it # evicted) else (it # kept, evicted))"

definition lru_index :: "virtual_identity list \<Rightarrow> nat" where
  "lru_index ids =
     foldl (\<lambda>lru it. if vi_last_seen_ms (ids ! it) < vi_last_seen_ms (ids ! lru) then it else lru) 0 [0..<length ids]"

definition evict_lru :: "virtual_identity list \<Rightarrow> virtual_identity list \<times> virtual_identity list" where
  "evict_lru ids =
     (if ids = [] then ([], [])
      else let lru = lru_index ids in (take lru ids @ drop (Suc lru) ids, [ids ! lru]))"

definition make_room ::
  "(nat \<Rightarrow> u32) \<Rightarrow> u32 \<Rightarrow> virtual_identity list \<Rightarrow> virtual_identity list \<times> virtual_identity list \<times> bool" where
  "make_room heap now ids =
     (if can_grow (heap 0) ids then (ids, [], True)
      else
        let (ids, expired) = expire_stale VIRT_ID_TIMEOUT_MS now ids;
            (ids, lru) = (if \<not> can_grow (heap 1) ids \<and> ids \<noteq> [] then evict_lru ids else (ids, []))
        in (ids, expired @ lru, can_grow (heap 2) ids))"

definition get_or_create ::
  "crypto \<Rightarrow> (nat \<Rightarrow> u32) \<Rightarrow> u32 \<Rightarrow> u32 \<Rightarrow> keypair \<Rightarrow> virtual_identity list \<Rightarrow>
   virtual_identity list \<times> virtual_identity list \<times> nat option" where
  "get_or_create cr heap now node_id master ids =
     (case virt_index ids node_id of
        Some i \<Rightarrow> (ids[i := (ids ! i)\<lparr>vi_last_seen_ms := now\<rparr>], [], Some i)
      | None \<Rightarrow>
          let (ids, evicted, room) = make_room heap now ids in
          if \<not> room then (ids, evicted, None)
          else case bitchat_derive_keypair cr master node_id of
            None \<Rightarrow> (ids, evicted, None)
          | Some kp \<Rightarrow>
              (ids @ [\<lparr>vi_node_id = node_id, vi_keypair = kp, vi_last_seen_ms = now, vi_display_name = []\<rparr>],
               evicted, Some (length ids)))"

lemma lru_fold:
  fixes ids :: "virtual_identity list"
  assumes "l < length ids" and "\<forall>k\<in>set ks. k < length ids"
  defines "r \<equiv> foldl (\<lambda>lru it. if vi_last_seen_ms (ids ! it) < vi_last_seen_ms (ids ! lru) then it else lru) l ks"
  shows "r < length ids \<and> (\<forall>k\<in>insert l (set ks). vi_last_seen_ms (ids ! r) \<le> vi_last_seen_ms (ids ! k))"
  using assms(1,2) unfolding r_def
proof (induction ks arbitrary: l)
  case (Cons k ks)
  define m where "m = (if vi_last_seen_ms (ids ! k) < vi_last_seen_ms (ids ! l) then k else l)"
  have m: "m < length ids" "vi_last_seen_ms (ids ! m) \<le> vi_last_seen_ms (ids ! k)"
    "vi_last_seen_ms (ids ! m) \<le> vi_last_seen_ms (ids ! l)"
    using Cons.prems by (auto simp: m_def)
  have "\<forall>j\<in>set ks. j < length ids" using Cons.prems by simp
  from Cons.IH [OF m(1) this] m(2,3) show ?case
    by (auto simp: m_def [symmetric] intro: order.trans)
qed simp

lemma lru_index_least:
  assumes "ids \<noteq> []"
  shows "lru_index ids < length ids" "v \<in> set ids \<Longrightarrow> vi_last_seen_ms (ids ! lru_index ids) \<le> vi_last_seen_ms v"
  using lru_fold [of 0 ids "[0..<length ids]"] assms by (auto simp: lru_index_def in_set_conv_nth)

lemma length_evict_lru [simp]: "length (fst (evict_lru ids)) = length ids - 1"
  using lru_index_least(1) [of ids] by (auto simp: evict_lru_def Let_def)

text \<open>The shedding loop and the number of identities it evicts.\<close>

function shed :: "(nat \<Rightarrow> u32) \<Rightarrow> virtual_identity list \<Rightarrow> virtual_identity list \<times> virtual_identity list \<times> nat" where
  "shed heap ids =
     (if ids \<noteq> [] \<and> heap 0 < VIRT_ID_HEAP_RESERVE_BYTES then
        let (rest, gone) = evict_lru ids;
            (ids', evicted, n) = shed (\<lambda>k. heap (Suc k)) rest
        in (ids', gone @ evicted, n + 1)
      else (ids, [], 0))"
  by pat_completeness auto
termination
  by (relation "measure (\<lambda>(_, ids). length ids)") (auto simp: length_evict_lru dest: arg_cong [where f = "\<lambda>p. length (fst p)"])

declare shed.simps [simp del]

definition check_memory_pressure ::
  "(nat \<Rightarrow> u32) \<Rightarrow> virtual_identity list \<Rightarrow> virtual_identity list \<times> virtual_identity list \<times> nat" where
  "check_memory_pressure heap ids =
     (if heap 0 \<ge> VIRT_ID_HEAP_CRITICAL_BYTES \<or> ids = [] then (ids, [], 0)
      else shed (\<lambda>k. heap (Suc k)) ids)"

section \<open>What the operations keep\<close>

lemma evict_lru_split:
  assumes "ids \<noteq> []"
  shows "\<exists>us v vs. ids = us @ v # vs \<and> evict_lru ids = (us @ vs, [v]) \<and>
    (\<forall>w\<in>set ids. vi_last_seen_ms v \<le> vi_last_seen_ms w)"
  using assms lru_index_least [OF assms] id_take_nth_drop [OF lru_index_least(1) [OF assms]]
  by (auto simp: evict_lru_def Let_def)

lemma expire_stale_filter:
  "expire_stale t now ids =
     (filter (\<lambda>v. \<not> now - vi_last_seen_ms v > t) ids, filter (\<lambda>v. now - vi_last_seen_ms v > t) ids)"
  by (induction ids) (auto simp: Let_def)

text \<open>The kept identities are the old list with the evicted ones struck out.\<close>

definition struck :: "virtual_identity list \<Rightarrow> virtual_identity list \<Rightarrow> virtual_identity list \<Rightarrow> bool" where
  "struck ids kept evicted \<longleftrightarrow> subseq kept ids \<and> mset ids = mset kept + mset evicted"

lemma struck_refl [simp]: "struck ids ids []"
  by (simp add: struck_def)

lemma struck_trans: "struck a b e \<Longrightarrow> struck b c f \<Longrightarrow> struck a c (e @ f)"
  by (auto simp: struck_def ac_simps intro: subseq_order.trans)

lemma struck_evict_lru: "struck ids (fst (evict_lru ids)) (snd (evict_lru ids))"
proof (cases "ids = []")
  case False
  with evict_lru_split [OF False] show ?thesis
    by (auto simp del: subseq_append' simp: struck_def intro!: list_emb_append_mono list_emb_Cons)
qed (simp add: evict_lru_def)

lemma struck_expire_stale: "struck ids (fst (expire_stale t now ids)) (snd (expire_stale t now ids))"
  by (induction ids) (auto simp: struck_def Let_def split_beta)

lemma make_room_struck: "make_room heap now ids = (kept, evicted, room) \<Longrightarrow> struck ids kept evicted"
  using struck_expire_stale [of ids VIRT_ID_TIMEOUT_MS now]
    struck_evict_lru [of "fst (expire_stale VIRT_ID_TIMEOUT_MS now ids)"]
  by (auto simp: make_room_def Let_def split_beta dest: struck_trans split: if_splits)

lemma make_room_room: "make_room heap now ids = (kept, evicted, True) \<Longrightarrow> length kept < VIRT_ID_MAX_SLOTS"
  by (auto simp: make_room_def can_grow_def Let_def split: if_splits prod.splits)

lemma struck_set: "struck ids kept evicted \<Longrightarrow> set kept \<subseteq> set ids"
  by (auto simp: struck_def elim: list_emb_set)

lemma struck_distinct: "struck ids kept evicted \<Longrightarrow> distinct (map f ids) \<Longrightarrow> distinct (map f kept)"
  unfolding struck_def by (metis subseq_map subseq_conv_nths distinct_nthsI)

lemma struck_evicted: "struck ids kept evicted \<Longrightarrow> set evicted \<subseteq> set ids"
  by (metis struck_def mset_subset_eq_add_right set_mset_mono set_mset_mset)

lemma struck_length: "struck ids kept evicted \<Longrightarrow> length ids = length kept + length evicted"
  by (metis struck_def size_mset size_union)

lemma virt_index_Some:
  "virt_index ids n = Some i \<Longrightarrow> i < length ids \<and> vi_node_id (ids ! i) = n"
  by (auto simp: virt_index_def find_Some_iff)

lemma virt_index_None: "virt_index ids n = None \<longleftrightarrow> n \<notin> vi_node_id ` set ids"
  by (auto simp: virt_index_def find_None_iff) (metis in_set_conv_nth)

lemma shed_result:
  "shed heap ids = (kept, evicted, n) \<Longrightarrow>
   struck ids kept evicted \<and> n = length evicted \<and>
   (\<forall>k < n. heap k < VIRT_ID_HEAP_RESERVE_BYTES) \<and> (kept = [] \<or> VIRT_ID_HEAP_RESERVE_BYTES \<le> heap n)"
proof (induction heap ids arbitrary: kept evicted n rule: shed.induct)
  case (1 heap ids)
  show ?case
  proof (cases "ids \<noteq> [] \<and> heap 0 < VIRT_ID_HEAP_RESERVE_BYTES")
    case True
    obtain rest gone where e: "evict_lru ids = (rest, gone)" by fastforce
    obtain evicted' n' where r: "shed (\<lambda>k. heap (Suc k)) rest = (kept, evicted', n')"
        and ev: "evicted = gone @ evicted'" and n: "n = n' + 1"
      using "1.prems" True e by (subst (asm) shed.simps) (auto simp: Let_def split: prod.splits)
    have "length gone = 1" using evict_lru_split [of ids] True e by auto
    moreover have "struck ids rest gone" using struck_evict_lru [of ids] e by simp
    moreover note "1.IH" [OF True e [symmetric] refl r]
    ultimately show ?thesis
      using True ev n by (auto simp: less_Suc_eq_0_disj intro: struck_trans)
  next
    case False
    with "1.prems" show ?thesis by (subst (asm) shed.simps) auto
  qed
qed

section \<open>The registry invariant\<close>

definition registry_invar :: "crypto \<Rightarrow> keypair \<Rightarrow> virtual_identity list \<Rightarrow> bool" where
  "registry_invar cr master ids \<longleftrightarrow>
     length ids \<le> VIRT_ID_MAX_SLOTS \<and> distinct (map vi_node_id ids) \<and>
     (\<forall>v\<in>set ids. bitchat_derive_keypair cr master (vi_node_id v) = Some (vi_keypair v) \<and>
                  length (vi_display_name v) < 40)"

text \<open>The registries the bridge can come to: it looks nodes up, names them and sheds them.\<close>

inductive registry_reachable :: "crypto \<Rightarrow> keypair \<Rightarrow> virtual_identity list \<Rightarrow> bool" for cr master where
  registry_start: "registry_reachable cr master []"
| registry_get: "registry_reachable cr master ids \<Longrightarrow>
    registry_reachable cr master (fst (get_or_create cr heap now node_id master ids))"
| registry_shed: "registry_reachable cr master ids \<Longrightarrow>
    registry_reachable cr master (fst (check_memory_pressure heap ids))"
| registry_name: "registry_reachable cr master ids \<Longrightarrow> i < length ids \<Longrightarrow>
    registry_reachable cr master (ids[i := (ids ! i)\<lparr>vi_display_name := strncpy 39 name\<rparr>])"

lemma registry_invar_struck:
  "registry_invar cr master ids \<Longrightarrow> struck ids kept evicted \<Longrightarrow> registry_invar cr master kept"
  using struck_set [of ids kept evicted] struck_length [of ids kept evicted]
  by (auto simp: registry_invar_def struck_distinct)

lemma registry_invar_update:
  assumes "registry_invar cr master ids" and "i < length ids"
    and "vi_node_id v = vi_node_id (ids ! i)" and "vi_keypair v = vi_keypair (ids ! i)" and "length (vi_display_name v) < 40"
  shows "registry_invar cr master (ids[i := v])"
proof -
  have "map vi_node_id (ids[i := v]) = map vi_node_id ids"
    using assms(2,3) by (metis map_update list_update_id nth_map)
  moreover have "set (ids[i := v]) \<subseteq> insert v (set ids)" by (rule set_update_subset_insert)
  ultimately show ?thesis
    using assms unfolding registry_invar_def by (auto simp: subset_iff)
qed

lemma registry_invar_get:
  assumes "registry_invar cr master ids"
  shows "registry_invar cr master (fst (get_or_create cr heap now node_id master ids))"
proof (cases "virt_index ids node_id")
  case None
  obtain kept evicted room where m: "make_room heap now ids = (kept, evicted, room)" by (metis prod_cases3)
  note k = registry_invar_struck [OF assms make_room_struck [OF m]]
  have "node_id \<notin> vi_node_id ` set kept"
    using None struck_set [OF make_room_struck [OF m]] by (auto simp: virt_index_None)
  with k None m make_room_room [of heap now ids kept evicted] show ?thesis
    by (auto simp: get_or_create_def registry_invar_def split: option.splits)
next
  case (Some i)
  then show ?thesis
    using assms virt_index_Some [OF Some] nth_mem [of i ids]
    by (auto simp: get_or_create_def registry_invar_def [of cr master ids] intro!: registry_invar_update [OF assms])
qed

lemma registry_invar_shed:
  "registry_invar cr master ids \<Longrightarrow> registry_invar cr master (fst (check_memory_pressure heap ids))"
  using shed_result [of "\<lambda>k. heap (Suc k)" ids]
  by (cases "shed (\<lambda>k. heap (Suc k)) ids") (auto simp: check_memory_pressure_def intro: registry_invar_struck)

text \<open>
  Whatever the heap readings are, the registry never holds more than its 32 slots, it
  holds one identity per Meshtastic node, and every key pair in it is the one derived from
  the master key for its node, so that a node evicted and created again keeps its keys.
\<close>

theorem registry_invariant:
  assumes "registry_reachable cr master ids"
  shows "length ids \<le> 32 \<and> distinct (map vi_node_id ids) \<and>
    (\<forall>v\<in>set ids. bitchat_derive_keypair cr master (vi_node_id v) = Some (vi_keypair v) \<and> length (vi_display_name v) < 40)"
proof -
  have "registry_invar cr master ids"
    using assms
  proof induction
    case registry_start
    show ?case by (simp add: registry_invar_def)
  next
    case (registry_name ids i name)
    then show ?case
      by (auto intro!: registry_invar_update le_less_trans [OF length_strncpy])
  qed (auto intro: registry_invar_get registry_invar_shed)
  then show ?thesis by (simp add: registry_invar_def VIRT_ID_MAX_SLOTS_def)
qed

theorem registry_invariant_witness:
  "length (fst (get_or_create sized_crypto (\<lambda>_. 50000) 5 7 zero_keypair [])) \<le> 32"
  using registry_invariant [OF registry_get [OF registry_start, of sized_crypto zero_keypair "\<lambda>_. 50000" 5 7]] by blast

section \<open>Lookup, eviction and memory pressure\<close>

lemma make_room_False:
  assumes "length ids \<le> VIRT_ID_MAX_SLOTS" and "make_room heap now ids = (kept, evicted, False)"
  shows "heap 2 \<le> VIRT_ID_HEAP_RESERVE_BYTES"
proof -
  let ?e = "fst (expire_stale VIRT_ID_TIMEOUT_MS now ids)"
  have l: "length ?e \<le> VIRT_ID_MAX_SLOTS"
    using struck_length [OF struck_expire_stale [of ids VIRT_ID_TIMEOUT_MS now]] assms(1) by simp
  have "length kept < VIRT_ID_MAX_SLOTS \<or> can_grow (heap 1) kept \<or> kept = []"
    using assms(2) l length_evict_lru [of ?e]
    by (auto simp: make_room_def Let_def split_beta VIRT_ID_MAX_SLOTS_def split: if_splits)
  then have "length kept < VIRT_ID_MAX_SLOTS" by (auto simp: can_grow_def VIRT_ID_MAX_SLOTS_def)
  moreover have "\<not> can_grow (heap 2) kept"
    using assms(2) by (auto simp: make_room_def Let_def split_beta split: if_splits)
  ultimately show ?thesis by (simp add: can_grow_def not_less)
qed

lemma get_or_create_result:
  assumes "length ids \<le> VIRT_ID_MAX_SLOTS"
    and "get_or_create cr heap now node_id master ids = (ids', evicted, r)"
  shows "(case r of
      Some i \<Rightarrow> i < length ids' \<and> vi_node_id (ids' ! i) = node_id \<and> vi_last_seen_ms (ids' ! i) = now \<and>
        (if node_id \<in> vi_node_id ` set ids
         then evicted = [] \<and> i < length ids \<and> ids' = ids[i := (ids ! i)\<lparr>vi_last_seen_ms := now\<rparr>]
         else struck ids (butlast ids') evicted \<and> i = length (butlast ids') \<and>
              bitchat_derive_keypair cr master node_id = Some (vi_keypair (ids' ! i)))
    | None \<Rightarrow> node_id \<notin> vi_node_id ` set ids \<and> struck ids ids' evicted \<and>
        (heap 2 \<le> VIRT_ID_HEAP_RESERVE_BYTES \<or> bitchat_derive_keypair cr master node_id = None)) \<and>
    (evicted \<noteq> [] \<longrightarrow> heap 0 \<le> VIRT_ID_HEAP_RESERVE_BYTES \<or> length ids = VIRT_ID_MAX_SLOTS)"
proof (cases "virt_index ids node_id")
  case None
  obtain kept ev room where m: "make_room heap now ids = (kept, ev, room)" by (metis prod_cases3)
  note st = make_room_struck [OF m]
  have low: "\<not> room \<Longrightarrow> heap 2 \<le> VIRT_ID_HEAP_RESERVE_BYTES"
    using make_room_False [OF assms(1)] m by simp
  have ev: "ev \<noteq> [] \<Longrightarrow> heap 0 \<le> VIRT_ID_HEAP_RESERVE_BYTES \<or> length ids = VIRT_ID_MAX_SLOTS"
    using m assms(1) by (auto simp: make_room_def can_grow_def not_less split: if_splits)
  have n: "node_id \<notin> vi_node_id ` set ids" using None by (simp add: virt_index_None)
  show ?thesis
  proof (cases "room \<and> bitchat_derive_keypair cr master node_id \<noteq> None")
    case True
    then obtain kp where kp: "bitchat_derive_keypair cr master node_id = Some kp" by blast
    with True None m assms(2) have "ids' = kept @ [\<lparr>vi_node_id = node_id, vi_keypair = kp, vi_last_seen_ms = now, vi_display_name = []\<rparr>]"
        "evicted = ev" "r = Some (length kept)"
      by (simp_all add: get_or_create_def)
    with n st ev kp show ?thesis by simp
  next
    case False
    with None m assms(2) have "ids' = kept" "evicted = ev" "r = None"
      by (auto simp: get_or_create_def split: option.splits)
    with n st ev low False show ?thesis by auto
  qed
next
  case (Some i)
  with assms(2) have "ids' = ids[i := (ids ! i)\<lparr>vi_last_seen_ms := now\<rparr>]" "evicted = []" "r = Some i"
    by (simp_all add: get_or_create_def)
  with virt_index_Some [OF Some] show ?thesis by (auto simp: image_iff)
qed


text \<open>With heap to spare every lookup succeeds.\<close>

lemma get_or_create_succeeds:
  assumes inv: "registry_invar cr master ids" and "VIRT_ID_HEAP_RESERVE_BYTES < heap 2"
    and kp: "bitchat_derive_keypair cr master node_id = Some kp"
    and g: "get_or_create cr heap now node_id master ids = (ids', evicted, r)"
  shows "\<exists>i. r = Some i \<and> i < length ids' \<and> vi_node_id (ids' ! i) = node_id \<and> vi_keypair (ids' ! i) = kp \<and>
    vi_last_seen_ms (ids' ! i) = now \<and> set evicted \<subseteq> set ids"
proof -
  have "length ids \<le> VIRT_ID_MAX_SLOTS" using inv by (simp add: registry_invar_def)
  note res = get_or_create_result [OF this g]
  obtain i where r: "r = Some i" using res assms(2) kp by (cases r) auto
  have k: "vi_keypair (ids' ! i) = kp" if "node_id \<in> vi_node_id ` set ids"
  proof -
    have i: "i < length ids" "ids' = ids[i := (ids ! i)\<lparr>vi_last_seen_ms := now\<rparr>]" "vi_node_id (ids' ! i) = node_id"
      using res unfolding r option.case if_P [OF that] by blast+
    have "ids' ! i = (ids ! i)\<lparr>vi_last_seen_ms := now\<rparr>" using i(1,2) by simp
    with i(3) have "vi_node_id (ids ! i) = node_id" "vi_keypair (ids' ! i) = vi_keypair (ids ! i)" by simp_all
    with i(1) inv kp show ?thesis by (auto simp: registry_invar_def dest: nth_mem)
  qed
  show ?thesis
  proof (cases "node_id \<in> vi_node_id ` set ids")
    case True
    with k have "vi_keypair (ids' ! i) = kp" by blast
    moreover have "i < length ids'" "vi_node_id (ids' ! i) = node_id" "vi_last_seen_ms (ids' ! i) = now" "evicted = []"
      using res unfolding r option.case if_P [OF True] by blast+
    ultimately show ?thesis unfolding r by simp
  next
    case False
    have "i < length ids'" "vi_node_id (ids' ! i) = node_id" "vi_last_seen_ms (ids' ! i) = now"
        "struck ids (butlast ids') evicted" "bitchat_derive_keypair cr master node_id = Some (vi_keypair (ids' ! i))"
      using res unfolding r option.case if_not_P [OF False] by blast+
    with kp struck_evicted show ?thesis unfolding r by simp
  qed
qed

text \<open>
  Shedding under memory pressure returns, having evicted the identities it counts and
  struck them out of the list.  It evicts only after a reading below the critical mark and
  further readings below the reserve, and stops at the first reading that reaches the
  reserve or when no identity is left.
\<close>

theorem check_memory_pressure_correct:
  assumes "check_memory_pressure heap ids = (kept, evicted, n)"
  shows "struck ids kept evicted \<and> n = length evicted \<and>
    (0 < n \<longrightarrow> heap 0 < VIRT_ID_HEAP_CRITICAL_BYTES \<and> (\<forall>k < n. heap (Suc k) < VIRT_ID_HEAP_RESERVE_BYTES)) \<and>
    (heap 0 < VIRT_ID_HEAP_CRITICAL_BYTES \<longrightarrow> kept = [] \<or> VIRT_ID_HEAP_RESERVE_BYTES \<le> heap (Suc n))"
  using assms shed_result [of "\<lambda>k. heap (Suc k)" ids kept evicted n]
  by (auto simp: check_memory_pressure_def not_le split: if_splits)

text \<open>
  While no identity was last seen after the present reading of the clock, that is
  until \<^verbatim>\<open>millis()\<close> wraps, the evicted identity is one that has been idle the longest.
\<close>

theorem evict_lru_longest_idle:
  assumes "ids \<noteq> []" and "\<forall>v\<in>set ids. vi_last_seen_ms v \<le> now"
  shows "\<exists>us v vs. ids = us @ v # vs \<and> evict_lru ids = (us @ vs, [v]) \<and>
    (\<forall>w\<in>set ids. now - vi_last_seen_ms w \<le> now - vi_last_seen_ms v)"
proof -
  obtain us v vs where e: "ids = us @ v # vs" "evict_lru ids = (us @ vs, [v])"
    and least: "\<forall>w\<in>set ids. vi_last_seen_ms v \<le> vi_last_seen_ms w"
    using evict_lru_split [OF assms(1)] by blast
  have "now - vi_last_seen_ms w \<le> now - vi_last_seen_ms v" if "w \<in> set ids" for w
  proof -
    have "vi_last_seen_ms v \<le> vi_last_seen_ms w" "vi_last_seen_ms w \<le> now" "vi_last_seen_ms v \<le> now"
      using that least assms(2) e(1) by auto
    then show ?thesis by (simp add: word_le_nat_alt unat_sub diff_le_mono2)
  qed
  with e show ?thesis by blast
qed

text \<open>
  When the heap stays at or below the reserve, a message from a node without an
  identity costs other nodes theirs and still gets none: an identity is evicted, although
  the eviction cannot make room.
\<close>

theorem low_heap_evicts_for_nothing:
  assumes "\<forall>k. heap k \<le> VIRT_ID_HEAP_RESERVE_BYTES" and "node_id \<notin> vi_node_id ` set ids" and "ids \<noteq> []"
  shows "\<exists>ids' evicted. get_or_create cr heap now node_id master ids = (ids', evicted, None) \<and>
    evicted \<noteq> [] \<and> struck ids ids' evicted"
proof -
  have g: "\<not> can_grow (heap k) l" for k l using assms(1) by (simp add: can_grow_def not_less)
  obtain kept ev room where m: "make_room heap now ids = (kept, ev, room)" by (metis prod_cases3)
  have "\<not> room" using m g by (auto simp: make_room_def Let_def split_beta)
  moreover have "ev \<noteq> []"
    using m g assms(3) evict_lru_split [of ids]
    by (auto simp: make_room_def Let_def split_beta expire_stale_filter filter_empty_conv split: if_splits)
  ultimately show ?thesis
    using m assms(2) make_room_struck [OF m] by (simp add: get_or_create_def virt_index_None [symmetric])
qed

section \<open>Instances\<close>

definition idle_at :: "u32 \<Rightarrow> u32 \<Rightarrow> virtual_identity" where
  "idle_at node ms = \<lparr>vi_node_id = node, vi_keypair = zero_keypair, vi_last_seen_ms = ms, vi_display_name = []\<rparr>"


theorem check_memory_pressure_correct_witness:
  "\<exists>kept evicted n. check_memory_pressure (\<lambda>k. if k < 2 then 20000 else 50000) [idle_at 6 5, idle_at 7 2] = (kept, evicted, n) \<and>
     struck [idle_at 6 5, idle_at 7 2] kept evicted \<and> n = length evicted"
  using check_memory_pressure_correct [of "\<lambda>k. if k < 2 then 20000 else 50000" "[idle_at 6 5, idle_at 7 2]"]
  by (cases "check_memory_pressure (\<lambda>k. if k < 2 then 20000 else 50000) [idle_at 6 5, idle_at 7 2]") blast

theorem evict_lru_longest_idle_witness:
  "\<exists>us v vs. [idle_at 6 5, idle_at 7 2] = us @ v # vs \<and> evict_lru [idle_at 6 5, idle_at 7 2] = (us @ vs, [v]) \<and>
     (\<forall>w\<in>set [idle_at 6 5, idle_at 7 2]. 9 - vi_last_seen_ms w \<le> 9 - vi_last_seen_ms v)"
  by (rule evict_lru_longest_idle) (simp_all add: idle_at_def)

theorem low_heap_evicts_for_nothing_witness:
  "\<exists>ids' evicted. get_or_create sized_crypto (\<lambda>_. 30000) 9 8 zero_keypair [idle_at 6 5, idle_at 7 2] = (ids', evicted, None) \<and>
     evicted \<noteq> [] \<and> struck [idle_at 6 5, idle_at 7 2] ids' evicted"
  by (rule low_heap_evicts_for_nothing) (simp_all add: idle_at_def VIRT_ID_HEAP_RESERVE_BYTES_def)

end
