(* ===== verification/Bridge_Chunks.thy ===== *)
theory Bridge_Chunks
  imports Mesh_Proto "HOL-Library.Sublist"
begin

text \<open>
  The splitting of a long Bitchat message into Meshtastic packets,
  \<^verbatim>\<open>_split_into_chunks\<close> of \<^verbatim>\<open>src/bridge/bridge_manager.cpp\<close>, without its effects on the queue and on the
  deduplication cache, which \<^verbatim>\<open>Bridge_Manager\<close> adds.  The lengths are natural numbers: the position
  never passes the end of the body, so no difference of the source is negative except
  \<^verbatim>\<open>max_slice\<close>, which is raised to 16 in that case.
\<close>

definition BRIDGE_CHUNK_MAX_CHUNKS :: nat where "BRIDGE_CHUNK_MAX_CHUNKS = 4"

definition max_slice :: "bytes \<Rightarrow> nat" where
  "max_slice sender_prefix =
     (let m = MESH_DATA_MAX - (length sender_prefix + 9) in if m < 16 then 16 else m)"

text \<open>A UTF-8 continuation byte.\<close>

definition is_continuation :: "u8 \<Rightarrow> bool" where
  "is_continuation b \<longleftrightarrow> b \<ge> 0x80 \<and> b < 0xC0"

text \<open>The walk back from the split position to the start of a character.\<close>

fun walk_back :: "bytes \<Rightarrow> nat \<Rightarrow> nat \<Rightarrow> nat" where
  "walk_back body pos 0 = 0"
| "walk_back body pos (Suc k) =
     (if is_continuation (body ! (pos + Suc k)) then walk_back body pos k else Suc k)"

definition chunks_needed :: "nat \<Rightarrow> nat \<Rightarrow> nat" where
  "chunks_needed width body_len =
     (let needed = (body_len + width - 1) div width;
          needed = (if needed > BRIDGE_CHUNK_MAX_CHUNKS then BRIDGE_CHUNK_MAX_CHUNKS else needed)
      in if needed < 1 then 1 else needed)"

text \<open>How many bytes chunk \<open>i\<close> takes from \<open>pos\<close> on, and whether it gets the truncation marker.\<close>

definition chunk_take :: "nat \<Rightarrow> bytes \<Rightarrow> nat \<Rightarrow> nat \<Rightarrow> nat \<times> bool" where
  "chunk_take width body pos i =
     (let remaining = length body - pos in
      if i < BRIDGE_CHUNK_MAX_CHUNKS - 1 \<and> remaining > width then
        let t = walk_back body pos width in (if t = 0 then width else t, False)
      else if remaining > width then
        let t = walk_back body pos (width - 4) in (if t = 0 then width - 4 else t, True)
      else (remaining, False))"

definition chunk_text :: "bytes \<Rightarrow> nat \<Rightarrow> nat \<Rightarrow> bytes \<Rightarrow> bool \<Rightarrow> bytes" where
  "chunk_text sender_prefix i needed part will_truncate =
     snprintf 240 (sender_prefix @ ascii '' ('' @ dec_nat (i + 1) @ ascii ''/'' @ dec_nat needed @ ascii ''): '' @
                   part @ (if will_truncate then ascii '' ...'' else []))"

text \<open>The loop from chunk \<open>i\<close> on: the slice of each chunk and whether it is marked.\<close>

function slices :: "nat \<Rightarrow> nat \<Rightarrow> bytes \<Rightarrow> nat \<Rightarrow> nat \<Rightarrow> (bytes \<times> bool) list" where
  "slices width needed body i pos =
     (if i < needed then
        let (t, will_truncate) = chunk_take width body pos i
        in (take t (drop pos body), will_truncate) # slices width needed body (i + 1) (pos + t)
      else [])"
  by pat_completeness auto
termination
  by (relation "measure (\<lambda>(_, needed, _, i, _). needed - i)") auto

declare slices.simps [simp del]

definition split_slices :: "bytes \<Rightarrow> bytes \<Rightarrow> (bytes \<times> bool) list" where
  "split_slices sender_prefix body =
     slices (max_slice sender_prefix) (chunks_needed (max_slice sender_prefix) (length body)) body 0 0"

definition split_chunks :: "bytes \<Rightarrow> bytes \<Rightarrow> bytes list" where
  "split_chunks sender_prefix body =
     (let parts = split_slices sender_prefix body in
      map (\<lambda>(i, part, tr). chunk_text sender_prefix i (length parts) part tr) (enumerate 0 parts))"

section \<open>The slices\<close>

lemma walk_back_le: "walk_back body pos k \<le> k"
  by (induction body pos k rule: walk_back.induct) auto

lemma walk_back_ascii: "\<forall>b\<in>set body. \<not> is_continuation b \<Longrightarrow> pos + k < length body \<Longrightarrow> walk_back body pos k = k"
  by (cases k) auto

lemma walk_back_boundary:
  "walk_back body pos k \<noteq> 0 \<Longrightarrow> \<not> is_continuation (body ! (pos + walk_back body pos k))"
  by (induction body pos k rule: walk_back.induct) auto

lemma max_slice_bounds: "16 \<le> max_slice p" "length p \<le> 79 \<Longrightarrow> max_slice p + length p + 9 = 233"
  by (auto simp: max_slice_def MESH_DATA_MAX_def Let_def)

lemma chunks_needed_bounds: "1 \<le> chunks_needed sl n" "chunks_needed sl n \<le> 4"
  by (auto simp: chunks_needed_def BRIDGE_CHUNK_MAX_CHUNKS_def Let_def)

lemma slices_step:
  "i < needed \<Longrightarrow> chunk_take sl body pos i = (t, tr) \<Longrightarrow>
   slices sl needed body i pos = (take t (drop pos body), tr) # slices sl needed body (Suc i) (pos + t)"
  by (subst slices.simps) simp

lemma slices_end: "\<not> i < needed \<Longrightarrow> slices sl needed body i pos = []"
  by (subst slices.simps) simp

text \<open>Induction over the turns of the loop.\<close>

lemma slices_cases [case_names finished turn]:
  assumes "\<And>i pos. \<not> i < needed \<Longrightarrow> P i pos"
    and "\<And>i pos t tr. i < needed \<Longrightarrow> chunk_take sl body pos i = (t, tr) \<Longrightarrow> P (Suc i) (pos + t) \<Longrightarrow> P i pos"
  shows "P i pos"
proof (induction "needed - i" arbitrary: i pos)
  case 0
  then show ?case using assms(1) by simp
next
  case (Suc n i p)
  obtain t tr where "chunk_take sl body p i = (t, tr)" by fastforce
  moreover have "n = needed - Suc i" "i < needed" using Suc.hyps(2) by simp_all
  ultimately show ?case using Suc.hyps(1) assms(2) by blast
qed

lemma length_slices: "length (slices sl needed body i pos) = needed - i"
  by (rule slices_cases [of needed _ sl body]) (auto simp: slices_end slices_step)

lemma chunk_take_le:
  assumes "4 \<le> sl" and "chunk_take sl body pos i = (t, tr)"
  shows "t \<le> length body - pos" and "t + (if tr then 4 else 0) \<le> sl"
  using assms walk_back_le [of body pos sl] walk_back_le [of body pos "sl - 4"]
  by (auto simp: chunk_take_def Let_def split: if_splits)

text \<open>The slices are consecutive pieces of the body.\<close>

lemma slices_prefix:
  "\<exists>rest. drop pos body = concat (map fst (slices sl needed body i pos)) @ rest"
proof (rule slices_cases [of needed _ sl body])
  fix i pos t tr
  assume i: "i < needed" "chunk_take sl body pos i = (t, tr)"
    and "\<exists>rest. drop (pos + t) body = concat (map fst (slices sl needed body (Suc i) (pos + t))) @ rest"
  moreover have "drop pos body = take t (drop pos body) @ drop (pos + t) body"
    by (metis append_take_drop_id drop_drop add.commute)
  ultimately show "\<exists>rest. drop pos body = concat (map fst (slices sl needed body i pos)) @ rest"
    by (auto simp: slices_step)
qed (simp add: slices_end)

lemma slices_sizes:
  assumes "4 \<le> sl"
  shows "\<forall>(s, tr)\<in>set (slices sl needed body i pos). length s + (if tr then 4 else 0) \<le> sl"
proof (induction i pos rule: slices_cases [of needed _ sl body])
  case (turn i pos t tr)
  with chunk_take_le [OF assms turn(2)] show ?case
    by (auto simp: slices_step split: if_splits)
qed (simp add: slices_end)

lemma slices_ascii:
  assumes "\<forall>b\<in>set body. \<not> is_continuation b" and "needed \<le> 4" and "0 < sl"
  shows "pos \<le> length body \<longrightarrow> length body - pos \<le> (needed - i) * sl \<longrightarrow>
    concat (map fst (slices sl needed body i pos)) = drop pos body \<and>
    (\<forall>tr\<in>snd ` set (slices sl needed body i pos). \<not> tr)"
proof (rule slices_cases [of needed _ sl body])
  fix i pos t tr
  assume i: "i < needed" "chunk_take sl body pos i = (t, tr)"
    and IH: "pos + t \<le> length body \<longrightarrow> length body - (pos + t) \<le> (needed - Suc i) * sl \<longrightarrow>
      concat (map fst (slices sl needed body (Suc i) (pos + t))) = drop (pos + t) body \<and>
      (\<forall>tr\<in>snd ` set (slices sl needed body (Suc i) (pos + t)). \<not> tr)"
  show "pos \<le> length body \<longrightarrow> length body - pos \<le> (needed - i) * sl \<longrightarrow>
      concat (map fst (slices sl needed body i pos)) = drop pos body \<and>
      (\<forall>tr\<in>snd ` set (slices sl needed body i pos). \<not> tr)"
  proof (intro impI)
    assume p: "pos \<le> length body" "length body - pos \<le> (needed - i) * sl"
    have m: "(needed - i) * sl = (needed - Suc i) * sl + sl"
      using i(1) by (metis Suc_diff_Suc mult_Suc add.commute)
    have "t \<le> length body - pos \<and> \<not> tr \<and> length body - (pos + t) \<le> (needed - Suc i) * sl"
    proof (cases "length body - pos > sl")
      case True
      then have "\<not> needed - Suc i = 0" using p(2) m by (metis add_0 mult_0 not_less)
      then have "i < 3" using assms(2) by simp
      moreover have "walk_back body pos sl = sl"
        using True assms(1) by (intro walk_back_ascii) auto
      ultimately show ?thesis
        using True i(2) p m assms(3) by (auto simp: chunk_take_def BRIDGE_CHUNK_MAX_CHUNKS_def)
    qed (use i(2) in \<open>auto simp: chunk_take_def\<close>)
    with IH p have "concat (map fst (slices sl needed body (Suc i) (pos + t))) = drop (pos + t) body"
        "\<forall>tr\<in>snd ` set (slices sl needed body (Suc i) (pos + t)). \<not> tr" "\<not> tr"
      by auto
    moreover have "drop pos body = take t (drop pos body) @ drop (pos + t) body"
      by (metis append_take_drop_id drop_drop add.commute)
    ultimately show "concat (map fst (slices sl needed body i pos)) = drop pos body \<and>
        (\<forall>tr\<in>snd ` set (slices sl needed body i pos). \<not> tr)"
      by (simp add: slices_step [OF i])
  qed
qed (simp add: slices_end)

lemma chunks_needed_enough:
  assumes "0 < sl" and "n \<le> 4 * sl"
  shows "n \<le> chunks_needed sl n * sl"
proof -
  have "n \<le> (n + sl - 1) div sl * sl"
    using assms(1) dividend_less_div_times [of sl "n + sl - 1"] by simp
  then show ?thesis
    using assms by (auto simp: chunks_needed_def BRIDGE_CHUNK_MAX_CHUNKS_def Let_def not_less)
qed

section \<open>Properties\<close>

lemma dec_nat_digit: "n < 10 \<Longrightarrow> dec_nat n = [48 + of_nat n]"
  by (simp add: dec_nat.simps)

lemma digit_not_zero: "n < 10 \<Longrightarrow> (48 + of_nat n :: u8) \<noteq> 0"
proof -
  assume "n < 10"
  then have "\<not> 256 dvd 48 + n" by (auto dest: dvd_imp_le)
  then have "(of_nat (48 + n) :: u8) \<noteq> 0" by (subst word_of_nat_eq_0_iff) simp
  then show ?thesis by simp
qed

lemma in_enumerate_slices:
  "(i, part, tr) \<in> set (enumerate 0 (split_slices p body)) \<Longrightarrow>
   i < 4 \<and> (part, tr) \<in> set (split_slices p body) \<and> length (split_slices p body) \<le> 4"
  using chunks_needed_bounds(2) [of "max_slice p" "length body"]
  by (auto simp: in_set_enumerate_eq split_slices_def length_slices) (metis nth_mem length_slices diff_zero)

text \<open>What a chunk holds when nothing is cut off: the prefix, its number, and the slice.\<close>

definition full_chunk :: "bytes \<Rightarrow> nat \<Rightarrow> nat \<Rightarrow> bytes \<Rightarrow> bool \<Rightarrow> bytes" where
  "full_chunk p i needed part tr =
     p @ ascii '' ('' @ [48 + of_nat (i + 1)] @ ascii ''/'' @ [48 + of_nat needed] @ ascii ''): '' @ part @
     (if tr then ascii '' ...'' else [])"

lemma length_full_chunk: "length (full_chunk p i n part tr) = length p + 8 + length part + (if tr then 4 else 0)"
  by (simp add: full_chunk_def ascii_def)

lemma is_cstr_full_chunk:
  "is_cstr p \<Longrightarrow> is_cstr part \<Longrightarrow> i < 9 \<Longrightarrow> n < 10 \<Longrightarrow> is_cstr (full_chunk p i n part tr)"
  using digit_not_zero [of "i + 1"] digit_not_zero [of n] by (simp add: full_chunk_def ascii_def)

lemma split_slices_prefix: "\<exists>rest. body = concat (map fst (split_slices p body)) @ rest"
  using slices_prefix [of 0 body] by (auto simp: split_slices_def)

lemma split_slices_cstr: "is_cstr body \<Longrightarrow> (part, tr) \<in> set (split_slices p body) \<Longrightarrow> is_cstr part"
proof -
  assume b: "is_cstr body" and part: "(part, tr) \<in> set (split_slices p body)"
  obtain rest where "body = concat (map fst (split_slices p body)) @ rest"
    using split_slices_prefix by blast
  then have "set (concat (map fst (split_slices p body))) \<subseteq> set body" by (metis Un_upper1 set_append)
  moreover have "set part \<subseteq> set (concat (map fst (split_slices p body)))" using part by force
  ultimately show "is_cstr part" using b unfolding is_cstr_def by blast
qed

lemma split_slices_sizes:
  "length p \<le> 79 \<Longrightarrow> (part, tr) \<in> set (split_slices p body) \<Longrightarrow> length p + 9 + length part + (if tr then 4 else 0) \<le> 233"
  using slices_sizes [of "max_slice p"] max_slice_bounds [of p] by (fastforce simp: split_slices_def)

lemma chunk_text_full:
  assumes "is_cstr p" and "is_cstr part" and "i < 9" and "n < 10"
    and "length p + 8 + length part + (if tr then 4 else 0) < 240"
  shows "chunk_text p i n part tr = full_chunk p i n part tr"
proof -
  have "chunk_text p i n part tr = snprintf 240 (full_chunk p i n part tr)"
    using assms(3,4) by (simp add: chunk_text_def full_chunk_def dec_nat_digit)
  also have "\<dots> = full_chunk p i n part tr"
    using is_cstr_full_chunk [OF assms(1-4), of tr] assms(5) length_full_chunk [of p i n part tr]
    by (simp add: snprintf_def)
  finally show ?thesis .
qed

lemma chunks_fit:
  assumes "is_cstr p" and "is_cstr body" and "length p \<le> 79"
  shows "1 \<le> length (split_chunks p body) \<and> length (split_chunks p body) \<le> 4 \<and>
    (\<forall>c\<in>set (split_chunks p body). length c < MESH_DATA_MAX) \<and>
    split_chunks p body =
      map (\<lambda>(i, part, tr). full_chunk p i (length (split_slices p body)) part tr) (enumerate 0 (split_slices p body))"
proof -
  let ?n = "length (split_slices p body)"
  have full: "chunk_text p i ?n part tr = full_chunk p i ?n part tr \<and> length (full_chunk p i ?n part tr) < MESH_DATA_MAX"
    if "(i, part, tr) \<in> set (enumerate 0 (split_slices p body))" for i part tr
  proof -
    note e = in_enumerate_slices [OF that]
    have "is_cstr part" using split_slices_cstr [OF assms(2)] e by blast
    moreover have "length p + 9 + length part + (if tr then 4 else 0) \<le> 233"
      using split_slices_sizes [OF assms(3)] e by blast
    ultimately show ?thesis
      using e assms(1) chunk_text_full [of p part i ?n tr]
      by (auto simp: length_full_chunk MESH_DATA_MAX_def split: if_splits)
  qed
  then have "split_chunks p body = map (\<lambda>(i, part, tr). full_chunk p i ?n part tr) (enumerate 0 (split_slices p body))"
    by (auto simp: split_chunks_def Let_def)
  moreover have "1 \<le> ?n" "?n \<le> 4"
    using chunks_needed_bounds [of "max_slice p" "length body"] by (auto simp: split_slices_def length_slices)
  ultimately show ?thesis using full by auto
qed

text \<open>
  C34: every chunk of a long message fits the payload of one Meshtastic packet, and is the
  sender prefix, its number, the number of chunks, its slice of the body and, where the
  body was cut, the marker: the character buffer of the queue cuts nothing off.
\<close>

theorem chunks_fit_packet:
  assumes "is_cstr p" and "is_cstr body" and "length p \<le> 79"
  shows "1 \<le> length (split_chunks p body) \<and> length (split_chunks p body) \<le> 4 \<and>
    (\<forall>c\<in>set (split_chunks p body). length c < MESH_DATA_MAX) \<and>
    split_chunks p body =
      map (\<lambda>(i, part, tr). full_chunk p i (length (split_slices p body)) part tr) (enumerate 0 (split_slices p body))"
  by (rule chunks_fit [OF assms])

text \<open>
  A body of single-byte characters that fits four slices is sent completely: the
  slices of the chunks put together are the body, and no chunk is marked as truncated.
\<close>

lemma chunks_carry_ascii:
  assumes "\<forall>b\<in>set body. b < 0x80" and "length body \<le> 4 * max_slice p"
  shows "concat (map fst (split_slices p body)) = body \<and> (\<forall>(part, tr)\<in>set (split_slices p body). \<not> tr)"
proof -
  have "\<forall>b\<in>set body. \<not> is_continuation b" using assms(1) by (auto simp: is_continuation_def)
  from slices_ascii [OF this, of "chunks_needed (max_slice p) (length body)" "max_slice p" 0 0]
  show ?thesis
    using chunks_needed_bounds [of "max_slice p" "length body"] max_slice_bounds(1) [of p]
      chunks_needed_enough [of "max_slice p" "length body"] assms(2)
    by (fastforce simp: split_slices_def)
qed

text \<open>A body in which at most three continuation bytes follow each other and none comes first, as in UTF-8.\<close>

definition utf8_like :: "bytes \<Rightarrow> bool" where
  "utf8_like body \<longleftrightarrow> (\<forall>i < length body. is_continuation (body ! i) \<longrightarrow>
     (\<exists>j < i. i \<le> j + 3 \<and> \<not> is_continuation (body ! j)))"

lemma walk_back_zero: "walk_back body pos k = 0 \<Longrightarrow> 0 < j \<Longrightarrow> j \<le> k \<Longrightarrow> is_continuation (body ! (pos + j))"
  by (induction body pos k rule: walk_back.induct) (auto simp: le_Suc_eq split: if_splits)

lemma walk_back_utf8:
  assumes "utf8_like body" and "4 \<le> k" and "pos + k < length body"
  shows "walk_back body pos k \<noteq> 0"
proof
  assume z: "walk_back body pos k = 0"
  then have "is_continuation (body ! (pos + k))" using assms(2) walk_back_zero [of body pos k k] by simp
  then obtain j where "j < pos + k" "pos + k \<le> j + 3" "\<not> is_continuation (body ! j)"
    using assms(1,3) unfolding utf8_like_def by blast
  moreover from this have "0 < j - pos" "j - pos \<le> k" "pos + (j - pos) = j" using assms(2) by linarith+
  ultimately show False using walk_back_zero [OF z, of "j - pos"] by metis
qed

lemma chunk_take_boundary:
  assumes "utf8_like body" and "8 \<le> sl" and "chunk_take sl body pos i = (t, tr)" and "pos + t < length body"
  shows "\<not> is_continuation (body ! (pos + t))"
proof -
  have "walk_back body pos k \<noteq> 0 \<and> \<not> is_continuation (body ! (pos + walk_back body pos k))"
    if "4 \<le> k" "pos + k < length body" for k
    using walk_back_utf8 [OF assms(1) that] walk_back_boundary by blast
  from this [of sl] this [of "sl - 4"] show ?thesis
    using assms(2-4) le_diff_conv2 [of 4 sl 4] by (auto simp: chunk_take_def Let_def split: if_splits)
qed

lemma slices_utf8:
  assumes "utf8_like body" and "8 \<le> sl"
  shows "(pos < length body \<longrightarrow> \<not> is_continuation (body ! pos)) \<longrightarrow>
    (\<forall>(part, tr)\<in>set (slices sl needed body i pos). part \<noteq> [] \<longrightarrow> \<not> is_continuation (hd part))"
proof (induction i pos rule: slices_cases [of needed _ sl body])
  case (turn i pos t tr)
  have "hd (take t (drop pos body)) = body ! pos" if "take t (drop pos body) \<noteq> []"
    using that by (cases "pos < length body") (auto simp: hd_drop_conv_nth)
  moreover have "pos < length body" if "take t (drop pos body) \<noteq> []" using that by (cases "pos < length body") auto
  ultimately show ?case
    using turn chunk_take_boundary [OF assms turn(2)] by (fastforce simp: slices_step)
qed (simp add: slices_end)

text \<open>
  No chunk begins in the middle of a character: when the body is UTF-8, the first byte of every
  slice is the first byte of a character.
\<close>

theorem chunks_respect_utf8:
  assumes "utf8_like body"
  shows "\<forall>(part, tr)\<in>set (split_slices p body). part \<noteq> [] \<longrightarrow> \<not> is_continuation (hd part)"
proof -
  have "0 < length body \<longrightarrow> \<not> is_continuation (body ! 0)"
    using assms unfolding utf8_like_def by blast
  then show ?thesis
    unfolding split_slices_def using slices_utf8 [OF assms, of "max_slice p" 0] max_slice_bounds(1) [of p] by simp
qed

lemma nth_pairs: "i < 2 * n \<Longrightarrow> concat (replicate n [a, b]) ! i = (if even i then a else b)"
proof (induction n arbitrary: i)
  case (Suc n)
  consider "i = 0" | "i = 1" | j where "i = Suc (Suc j)" "j < 2 * n"
    using Suc.prems by (metis One_nat_def Suc_less_eq mult_Suc_right add_2_eq_Suc not0_implies_Suc)
  then show ?case using Suc.IH by cases auto
qed simp

lemma length_pairs: "length (concat (replicate n [a, b])) = 2 * n"
  by (induction n) simp_all

text \<open>Where the walk back stops in a run of two-byte characters.\<close>

lemma walk_back_pairs:
  assumes "body = concat (replicate n [0xC3, 0xA9])" and "pos + Suc (Suc k) < 2 * n" and "even (pos + Suc k)"
  shows "walk_back body pos (Suc (Suc k)) = Suc k"
proof -
  have "body ! (pos + Suc (Suc k)) = 0xA9" "body ! (pos + Suc k) = 0xC3"
    using assms by (simp_all add: nth_pairs)
  then show ?thesis by (simp add: is_continuation_def)
qed

lemma utf8_like_pairs: "utf8_like (concat (replicate n [0xC3, 0xA9]))"
  unfolding utf8_like_def
proof (intro allI impI)
  fix i assume i: "i < length (concat (replicate n [0xC3, 0xA9 :: u8]))" "is_continuation (concat (replicate n [0xC3, 0xA9]) ! i)"
  then have "odd i" by (auto simp: nth_pairs length_pairs is_continuation_def split: if_splits)
  with i show "\<exists>j < i. i \<le> j + 3 \<and> \<not> is_continuation (concat (replicate n [0xC3, 0xA9]) ! j)"
    by (intro exI [of _ "i - 1"]) (auto simp: nth_pairs length_pairs is_continuation_def elim: oddE)
qed

lemma pairs_slices:
  assumes "body = concat (replicate 213 [0xC3, 0xA9])"
  shows "slices 213 2 body 0 0 = [(take 212 body, False), (take 212 (drop 212 body), False)]"
proof -
  have l: "length body = 426" using assms length_pairs [of 213] by simp
  have w: "walk_back body 0 213 = 212" "walk_back body 212 213 = 212"
    using walk_back_pairs [OF assms, of 0 211] walk_back_pairs [OF assms, of 212 211] by simp_all
  have t: "chunk_take 213 body 0 0 = (212, False)" "chunk_take 213 body 212 (Suc 0) = (212, False)"
    using l w by (simp_all add: chunk_take_def BRIDGE_CHUNK_MAX_CHUNKS_def)
  show ?thesis
    using slices_step [OF _ t(1), of 2] slices_step [OF _ t(2), of 2] by (simp add: slices_end)
qed

text \<open>
  A message can lose characters without any sign of it.  With an eleven-byte sender
  prefix a slice holds 213 bytes; 213 two-byte characters are counted as two chunks, but each slice gives a
  byte back to respect the character boundary, so that the last character is in neither
  chunk, and neither carries the truncation marker.
\<close>

theorem chunks_lose_character:
  "(let p = ascii ''[B] abcdefg''; body = concat (replicate 213 [0xC3, 0xA9]) in
    utf8_like body \<and> length body \<le> 4 * max_slice p \<and> map snd (split_slices p body) = [False, False] \<and>
    body = concat (map fst (split_slices p body)) @ [0xC3, 0xA9])"
proof -
  define p where "p = ascii ''[B] abcdefg''"
  define body :: bytes where "body = concat (replicate 213 [0xC3, 0xA9])"
  have l: "length body = 426" using length_pairs [of 213] by (simp add: body_def)
  have m: "max_slice p = 213" by (simp add: max_slice_def MESH_DATA_MAX_def p_def ascii_def)
  have "chunks_needed 213 426 = 2" by (simp add: chunks_needed_def BRIDGE_CHUNK_MAX_CHUNKS_def)
  then have s: "split_slices p body = [(take 212 body, False), (take 212 (drop 212 body), False)]"
    by (simp add: split_slices_def m l pairs_slices [OF body_def])
  have "body = concat (replicate 212 [0xC3, 0xA9]) @ [0xC3, 0xA9]"
  proof -
    have "replicate 213 [0xC3, 0xA9 :: u8] = replicate 212 [0xC3, 0xA9] @ [[0xC3, 0xA9]]"
      using replicate_append_same [of 212 "[0xC3, 0xA9 :: u8]"] replicate_Suc [of 212 "[0xC3, 0xA9 :: u8]"] by simp
    then show ?thesis by (simp only: body_def concat_append) simp
  qed
  then have "drop 424 body = [0xC3, 0xA9]" using length_pairs [of 212 "0xC3 :: u8" "0xA9"] by simp
  moreover have "body = take 212 body @ take 212 (drop 212 body) @ drop 424 body"
    using append_take_drop_id [of 212 body] append_take_drop_id [of 212 "drop 212 body"] by simp
  ultimately show ?thesis
    unfolding p_def [symmetric] body_def [symmetric] Let_def using s m l utf8_like_pairs [of 213, folded body_def] by simp
qed

theorem chunks_fit_packet_witness:
  "list_all (\<lambda>c. length c < MESH_DATA_MAX) (split_chunks (ascii ''[B] amy'') (replicate 300 97))"
  using chunks_fit_packet [of "ascii ''[B] amy''" "replicate 300 97"] by (simp add: is_cstr_def ascii_def list_all_iff)

lemma chunks_carry_ascii_example:
  "concat (map fst (split_slices (ascii ''[B] amy'') (replicate 300 97))) = replicate 300 97"
  using chunks_carry_ascii [of "replicate 300 97" "ascii ''[B] amy''"]
  by (simp add: max_slice_def MESH_DATA_MAX_def ascii_def)

theorem chunks_respect_utf8_witness:
  "\<not> list_ex (\<lambda>(part, tr). part \<noteq> [] \<and> is_continuation (hd part))
     (split_slices (ascii ''[B] amy'') (concat (replicate 150 [0xC3, 0xA9])))"
  using chunks_respect_utf8 [OF utf8_like_pairs [of 150], of "ascii ''[B] amy''"] by (auto simp: list_ex_iff)

end
