(* ===== verification/Bridge_Manager.thy ===== *)
theory Bridge_Manager
  imports Recent_Cache Identity_Mapper Virtual_Identity Bridge_Chunks Bridge_Message
begin

text \<open>
  \<^verbatim>\<open>src/bridge/bridge_manager.{h,cpp}\<close>: the bridge between the two transports.  Its state is the
  record \<open>bridge\<close>; the flash store of the identity mapper is passed beside it.  What a
  handler asks of the transports is the list of \<open>bridge_out\<close> actions it returns, in
  order; what the transports deliver and answer are arguments.  Every handler reads
  \<^verbatim>\<open>millis()\<close> once.  The deduplication ring implements the \<open>recent_cache\<close> contract.
\<close>

section \<open>State\<close>

definition DEDUP_CACHE_SIZE :: nat where "DEDUP_CACHE_SIZE = 64"
definition DEDUP_TTL_MS :: u32 where "DEDUP_TTL_MS = 60000"
definition BRIDGE_CHUNK_DELAY_MS :: u32 where "BRIDGE_CHUNK_DELAY_MS = 1500"
definition VIRTUAL_ANNOUNCE_STAGGER_MS :: u32 where "VIRTUAL_ANNOUNCE_STAGGER_MS = 200"
definition VIRT_ID_MEMORY_CHECK_MS :: u32 where "VIRT_ID_MEMORY_CHECK_MS = 10000"
definition MSG_PREFIX_MESH :: bytes where "MSG_PREFIX_MESH = ascii ''[M] ''"
definition MSG_PREFIX_BLE :: bytes where "MSG_PREFIX_BLE = ascii ''[B] ''"
definition BRIDGE_SHORT_NAME :: bytes where "BRIDGE_SHORT_NAME = ascii ''BBR''"

record bridge =
  master_kp :: "keypair option"
  id_mapper :: identity_mapper
  virt_registry :: "virtual_identity list"
  last_virt_announce_cycle_ms :: u32
  last_virt_announce_step_ms :: u32
  virt_announce_idx :: int
  last_mem_check_ms :: u32
  msg_count :: u32
  mesh_retry_ms :: u32
  mesh_retry_interval :: u32
  mesh_was_connected :: bool
  pending_chunks :: "bytes list"
  pending_total :: nat
  pending_next :: nat
  pending_send_at_ms :: u32
  dedup :: "dedup_entry list"
  dedup_idx :: nat

definition new_bridge :: "keypair option \<Rightarrow> bridge" where
  "new_bridge kp =
     \<lparr>master_kp = kp, id_mapper = new_identity_mapper, virt_registry = [],
      last_virt_announce_cycle_ms = 0, last_virt_announce_step_ms = 0, virt_announce_idx = -1,
      last_mem_check_ms = 0, msg_count = 0, mesh_retry_ms = 0, mesh_retry_interval = 5000,
      mesh_was_connected = False, pending_chunks = replicate BRIDGE_CHUNK_MAX_CHUNKS [],
      pending_total = 0, pending_next = 0, pending_send_at_ms = 0,
      dedup = replicate DEDUP_CACHE_SIZE \<lparr>de_hash = 0, de_timestamp_ms = 0\<rparr>, dedup_idx = 0\<rparr>"

text \<open>The calls of the two interfaces.\<close>

datatype bridge_out =
    Bc_begin
  | Bc_send_text bytes
  | Bc_send_text_as bytes keypair
  | Bc_announce_virtual keypair "bytes option"
  | Mesh_connect
  | Mesh_send_text bytes
  | Mesh_send_node_info u32 bytes bytes

section \<open>Deduplication\<close>

definition is_duplicate :: "bridge \<Rightarrow> u32 \<Rightarrow> u32 \<Rightarrow> bool" where
  "is_duplicate s now h \<longleftrightarrow> list_ex (\<lambda>e. de_hash e = h \<and> now - de_timestamp_ms e < DEDUP_TTL_MS) (dedup s)"

definition record_hash :: "bridge \<Rightarrow> u32 \<Rightarrow> u32 \<Rightarrow> bridge" where
  "record_hash s now h =
     s\<lparr>dedup := (dedup s)[dedup_idx s := \<lparr>de_hash = h, de_timestamp_ms = now\<rparr>],
       dedup_idx := (dedup_idx s + 1) mod DEDUP_CACHE_SIZE\<rparr>"

text \<open>The hash of a message the bridge itself sends: only the text is set.\<close>

definition local_hash :: "bytes \<Rightarrow> u32" where
  "local_hash txt = msg_hash (empty_message\<lparr>mtext := strncpy 511 txt\<rparr>)"

section \<open>Formatting\<close>

definition resolve_sender :: "bridge \<Rightarrow> bridge_message \<Rightarrow> bytes" where
  "resolve_sender s msg =
     (let known = (if origin msg = MESHTASTIC \<and> meshtastic_node_id (sender msg) \<noteq> 0
                   then get_mesh_name (id_mapper s) (meshtastic_node_id (sender msg))
                   else if origin msg = BITCHAT \<and> has_bitchat_fingerprint (sender msg)
                   then get_ble_name (id_mapper s) (bitchat_fingerprint (sender msg))
                   else None)
      in case known of
           Some n \<Rightarrow> n
         | None \<Rightarrow> if display_name (sender msg) \<noteq> [] then display_name (sender msg) else ascii ''unknown'')"

definition origin_prefix :: "bridge_message \<Rightarrow> bytes" where
  "origin_prefix msg = (if origin msg = MESHTASTIC then MSG_PREFIX_MESH else MSG_PREFIX_BLE)"

definition format_bridged_text :: "bridge \<Rightarrow> bridge_message \<Rightarrow> nat \<Rightarrow> bytes" where
  "format_bridged_text s msg out_len =
     snprintf out_len (origin_prefix msg @ resolve_sender s msg @ ascii '': '' @ mtext msg)"

section \<open>Eviction notices\<close>

definition eviction_name :: "virtual_identity \<Rightarrow> bytes" where
  "eviction_name vi = (if vi_display_name vi \<noteq> [] then vi_display_name vi else ascii ''a Meshtastic user'')"

definition eviction_ble_msg :: "virtual_identity \<Rightarrow> bytes" where
  "eviction_ble_msg vi =
     snprintf 128 (eviction_name vi @ ascii '' has gone idle and left the chat. New messages from them will appear under '' @
                   BRIDGE_NAME @ ascii ''.'')"

definition eviction_mesh_msg :: "virtual_identity \<Rightarrow> bytes" where
  "eviction_mesh_msg vi =
     snprintf 128 (ascii ''[B] Bridge released identity for '' @ eviction_name vi @
                   ascii '' (memory pressure). Messages will still be bridged under '' @ BRIDGE_NAME @ ascii ''.'')"

definition on_identity_evicted :: "u32 \<Rightarrow> bridge \<Rightarrow> virtual_identity \<Rightarrow> bridge \<times> bridge_out list" where
  "on_identity_evicted now s vi =
     (let s = record_hash s now (local_hash (eviction_ble_msg vi));
          s = record_hash s now (local_hash (eviction_mesh_msg vi))
      in (s, [Bc_send_text_as (eviction_ble_msg vi) (vi_keypair vi), Mesh_send_text (eviction_mesh_msg vi)]))"

fun evict_notices :: "u32 \<Rightarrow> bridge \<Rightarrow> virtual_identity list \<Rightarrow> bridge \<times> bridge_out list" where
  "evict_notices now s [] = (s, [])"
| "evict_notices now s (vi # vis) =
     (let (s, outs) = on_identity_evicted now s vi;
          (s, outs') = evict_notices now s vis
      in (s, outs @ outs'))"

section \<open>Meshtastic to Bitchat\<close>

definition learn_mesh_sender :: "'st nvs \<Rightarrow> u32 \<Rightarrow> bridge \<times> 'st \<Rightarrow> bridge_message \<Rightarrow> bridge \<times> 'st" where
  "learn_mesh_sender nv now = (\<lambda>(s, st) msg.
     if meshtastic_node_id (sender msg) \<noteq> 0 \<and> display_name (sender msg) \<noteq> [] then
       let (im, st) = update_mesh_name nv now (id_mapper s, st) (meshtastic_node_id (sender msg))
                        (Some (display_name (sender msg))) None
       in (s\<lparr>id_mapper := im\<rparr>, st)
     else (s, st))"

text \<open>The message spoken by the virtual identity at index \<open>i\<close>.\<close>

definition send_as_virtual :: "u32 \<Rightarrow> bridge \<Rightarrow> nat \<Rightarrow> bridge_message \<Rightarrow> bridge \<times> bridge_out list" where
  "send_as_virtual now s i msg =
     (let vi = virt_registry s ! i;
          named = (display_name (sender msg) \<noteq> [] \<and> vi_display_name vi = []);
          vi = (if named then vi\<lparr>vi_display_name := strncpy 39 (display_name (sender msg))\<rparr> else vi);
          s = s\<lparr>virt_registry := (virt_registry s)[i := vi]\<rparr>;
          s = record_hash s now (local_hash (mtext msg))
      in (s\<lparr>msg_count := msg_count s + 1\<rparr>,
          (if named then [Bc_announce_virtual (vi_keypair vi) (Some (vi_display_name vi))] else []) @
          [Bc_send_text_as (mtext msg) (vi_keypair vi)]))"

text \<open>The fallback: the message spoken by the bridge, with a prefix.\<close>

definition send_as_bridge :: "u32 \<Rightarrow> bridge \<Rightarrow> bridge_message \<Rightarrow> bridge \<times> bridge_out list" where
  "send_as_bridge now s msg =
     (let txt = format_bridged_text s msg 512;
          s = record_hash s now (local_hash txt)
      in (s\<lparr>msg_count := msg_count s + 1\<rparr>, [Bc_send_text txt]))"

definition route_to_bitchat ::
  "crypto \<Rightarrow> (nat \<Rightarrow> u32) \<Rightarrow> u32 \<Rightarrow> bridge \<Rightarrow> bridge_message \<Rightarrow> bridge \<times> bridge_out list" where
  "route_to_bitchat cr heap now s msg =
     (case master_kp s of
        None \<Rightarrow> send_as_bridge now s msg
      | Some master \<Rightarrow>
          if meshtastic_node_id (sender msg) = 0 then send_as_bridge now s msg
          else
            let (ids, evicted, r) = get_or_create cr heap now (meshtastic_node_id (sender msg)) master (virt_registry s);
                (s, notices) = evict_notices now (s\<lparr>virt_registry := ids\<rparr>) evicted;
                (s, outs) = (case r of Some i \<Rightarrow> send_as_virtual now s i msg | None \<Rightarrow> send_as_bridge now s msg)
            in (s, notices @ outs))"

definition on_meshtastic_message ::
  "crypto \<Rightarrow> 'st nvs \<Rightarrow> (nat \<Rightarrow> u32) \<Rightarrow> u32 \<Rightarrow> bridge \<times> 'st \<Rightarrow> bridge_message \<Rightarrow> (bridge \<times> 'st) \<times> bridge_out list" where
  "on_meshtastic_message cr nv heap now = (\<lambda>(s, st) msg.
     let h = msg_hash msg in
     if is_duplicate s now h then ((s, st), [])
     else
       let (s, st) = learn_mesh_sender nv now (record_hash s now h, st) msg;
           (s, outs) = route_to_bitchat cr heap now s msg
       in ((s, st), outs))"

section \<open>Bitchat to Meshtastic\<close>

definition learn_ble_sender :: "'st nvs \<Rightarrow> u32 \<Rightarrow> bridge \<times> 'st \<Rightarrow> bridge_message \<Rightarrow> bridge \<times> 'st" where
  "learn_ble_sender nv now = (\<lambda>(s, st) msg.
     if display_name (sender msg) \<noteq> [] \<and> has_bitchat_fingerprint (sender msg) then
       let (im, st) = update_ble_name nv now (id_mapper s, st) (bitchat_fingerprint (sender msg))
                        (Some (display_name (sender msg)))
       in (s\<lparr>id_mapper := im\<rparr>, st)
     else (s, st))"

definition strstr :: "bytes \<Rightarrow> bytes \<Rightarrow> nat option" where
  "strstr hay needle = find (\<lambda>i. take (length needle) (drop i hay) = needle) [0..<length hay + 1]"

fun record_chunk_hashes :: "u32 \<Rightarrow> bridge \<Rightarrow> bytes list \<Rightarrow> bridge" where
  "record_chunk_hashes now s [] = s"
| "record_chunk_hashes now s (c # cs) = record_chunk_hashes now (record_hash s now (local_hash c)) cs"

definition split_into_chunks :: "u32 \<Rightarrow> bridge \<Rightarrow> bytes \<Rightarrow> bytes \<Rightarrow> bridge" where
  "split_into_chunks now s sender_prefix body =
     (let chunks = split_chunks sender_prefix body;
          s = record_chunk_hashes now s chunks
      in s\<lparr>pending_chunks := chunks @ drop (length chunks) (pending_chunks s),
           pending_total := length chunks, pending_next := 0, pending_send_at_ms := now\<rparr>)"

text \<open>Separating the sender prefix from the body at the first colon and space.\<close>

definition split_prefix :: "bridge_message \<Rightarrow> bytes \<Rightarrow> bytes \<times> bytes" where
  "split_prefix msg bridged =
     (case strstr bridged (ascii '': '') of
        Some plen \<Rightarrow> (take (if plen \<ge> 80 then 79 else plen) bridged, drop (plen + 2) bridged)
      | None \<Rightarrow> (snprintf 80 (origin_prefix msg), bridged))"

definition on_bitchat_message ::
  "'st nvs \<Rightarrow> u32 \<Rightarrow> bridge \<times> 'st \<Rightarrow> bridge_message \<Rightarrow> (bridge \<times> 'st) \<times> bridge_out list" where
  "on_bitchat_message nv now = (\<lambda>(s, st) msg.
     let h = msg_hash msg in
     if is_duplicate s now h then ((s, st), [])
     else
       let (s, st) = learn_ble_sender nv now (record_hash s now h, st) msg;
           bridged = format_bridged_text s msg 512
       in if length bridged \<le> MESH_DATA_MAX then
            let s = record_hash s now (local_hash bridged)
            in ((s\<lparr>msg_count := msg_count s + 1\<rparr>, st), [Mesh_send_text bridged])
          else
            let (sender_prefix, body) = split_prefix msg bridged;
                s = split_into_chunks now s sender_prefix body
            in ((s\<lparr>msg_count := msg_count s + 1\<rparr>, st), []))"

definition drain_pending_chunks :: "u32 \<Rightarrow> bool \<Rightarrow> bridge \<Rightarrow> bridge \<times> bridge_out list" where
  "drain_pending_chunks now mesh_connected s =
     (if pending_next s \<ge> pending_total s then (s, [])
      else if sint (now - pending_send_at_ms s) < 0 then (s, [])
      else if \<not> mesh_connected then (s\<lparr>pending_next := pending_total s\<rparr>, [])
      else (s\<lparr>pending_next := pending_next s + 1, pending_send_at_ms := now + BRIDGE_CHUNK_DELAY_MS\<rparr>,
            [Mesh_send_text (pending_chunks s ! pending_next s)]))"

section \<open>The loop\<close>

definition start_announce_cycle :: "u32 \<Rightarrow> bridge \<Rightarrow> bridge" where
  "start_announce_cycle now s =
     (if virt_announce_idx s < 0 \<and> now - last_virt_announce_cycle_ms s > BITCHAT_ANNOUNCE_INTERVAL_MS
      then s\<lparr>virt_announce_idx := 0, last_virt_announce_cycle_ms := now, last_virt_announce_step_ms := 0\<rparr>
      else s)"

definition announce_step :: "u32 \<Rightarrow> bridge \<Rightarrow> bridge \<times> bridge_out list" where
  "announce_step now s =
     (if master_kp s = None then (s, [])
      else
        let s = start_announce_cycle now s in
        if virt_announce_idx s \<ge> 0 \<and> now - last_virt_announce_step_ms s \<ge> VIRTUAL_ANNOUNCE_STAGGER_MS then
          if virt_announce_idx s < int (length (virt_registry s)) then
            let vi = virt_registry s ! nat (virt_announce_idx s) in
            (s\<lparr>last_virt_announce_step_ms := now, virt_announce_idx := virt_announce_idx s + 1\<rparr>,
             [Bc_announce_virtual (vi_keypair vi) (if vi_display_name vi \<noteq> [] then Some (vi_display_name vi) else None)])
          else (s\<lparr>virt_announce_idx := -1\<rparr>, [])
        else (s, []))"

definition memory_step :: "(nat \<Rightarrow> u32) \<Rightarrow> u32 \<Rightarrow> bridge \<Rightarrow> bridge \<times> bridge_out list" where
  "memory_step heap now s =
     (if now - last_mem_check_ms s > VIRT_ID_MEMORY_CHECK_MS then
        let (ids, evicted, _) = check_memory_pressure heap (virt_registry s)
        in evict_notices now (s\<lparr>last_mem_check_ms := now, virt_registry := ids\<rparr>) evicted
      else (s, []))"

definition publish_node_num :: "keypair \<Rightarrow> u32" where
  "publish_node_num kp =
     (let n = foldl (\<lambda>n i. n OR push_bit (i * 8) (ucast (fingerprint kp ! i))) 0 [0, 1, 2, 3];
          n = n AND 0x7FFFFFFF;
          n = (if n = 0 then 1 else n)
      in if n = MESH_BROADCAST then n XOR 0x12345678 else n)"

definition publish_bridge_node_info :: "bridge \<Rightarrow> bridge_out list" where
  "publish_bridge_node_info s =
     (case master_kp s of
        None \<Rightarrow> []
      | Some kp \<Rightarrow> [Mesh_send_node_info (publish_node_num kp) BRIDGE_NAME BRIDGE_SHORT_NAME])"

definition next_backoff :: "u32 \<Rightarrow> u32" where
  "next_backoff interval = (if interval < 300000 then interval * 2 else 300000)"

text \<open>
  What the transports do during one turn of the loop: the messages each delivers through its
  callback, with the heap readings of each handler, and what the connection reports.
\<close>

record loop_env =
  mesh_delivers :: "(bridge_message \<times> (nat \<Rightarrow> u32)) list"
  bitchat_delivers :: "bridge_message list"
  heap_at_check :: "nat \<Rightarrow> u32"
  connected_now :: bool
  connect_ok :: bool
  connect_delivers :: "(bridge_message \<times> (nat \<Rightarrow> u32)) list"
  connected_at_drain :: bool

definition deliver_mesh ::
  "crypto \<Rightarrow> 'st nvs \<Rightarrow> u32 \<Rightarrow> bridge \<times> 'st \<Rightarrow> (bridge_message \<times> (nat \<Rightarrow> u32)) list \<Rightarrow> (bridge \<times> 'st) \<times> bridge_out list" where
  "deliver_mesh cr nv now = run_all (\<lambda>x (msg, heap). on_meshtastic_message cr nv heap now x msg)"

definition deliver_bitchat ::
  "'st nvs \<Rightarrow> u32 \<Rightarrow> bridge \<times> 'st \<Rightarrow> bridge_message list \<Rightarrow> (bridge \<times> 'st) \<times> bridge_out list" where
  "deliver_bitchat nv now = run_all (on_bitchat_message nv now)"

definition reconnect_step ::
  "crypto \<Rightarrow> 'st nvs \<Rightarrow> loop_env \<Rightarrow> u32 \<Rightarrow> bridge \<times> 'st \<Rightarrow> (bridge \<times> 'st) \<times> bridge_out list" where
  "reconnect_step cr nv env now = (\<lambda>(s, st).
     if \<not> connected_now env then
       let s = s\<lparr>mesh_was_connected := False\<rparr> in
       if now - mesh_retry_ms s > mesh_retry_interval s then
         let ((s, st), outs) = deliver_mesh cr nv now (s\<lparr>mesh_retry_ms := now\<rparr>, st) (connect_delivers env)
         in ((s\<lparr>mesh_retry_interval := (if connect_ok env then 5000 else next_backoff (mesh_retry_interval s))\<rparr>, st),
             Mesh_connect # outs)
       else ((s, st), [])
     else
       let s = s\<lparr>mesh_retry_interval := 5000\<rparr> in
       if \<not> mesh_was_connected s
       then ((s\<lparr>mesh_was_connected := True\<rparr>, st), publish_bridge_node_info s)
       else ((s, st), []))"

definition bridge_loop ::
  "crypto \<Rightarrow> 'st nvs \<Rightarrow> loop_env \<Rightarrow> u32 \<Rightarrow> bridge \<times> 'st \<Rightarrow> (bridge \<times> 'st) \<times> bridge_out list" where
  "bridge_loop cr nv env now x =
     (let (x, o1) = deliver_mesh cr nv now x (mesh_delivers env);
          ((s, st), o2) = deliver_bitchat nv now x (bitchat_delivers env);
          (s, o3) = announce_step now s;
          (s, o4) = memory_step (heap_at_check env) now s;
          ((s, st), o5) = reconnect_step cr nv env now (s, st);
          (s, o6) = drain_pending_chunks now (connected_at_drain env) s
      in ((s, st), o1 @ o2 @ o3 @ o4 @ o5 @ o6))"

text \<open>Start-up: \<open>bitchat_ok\<close> is what \<^verbatim>\<open>_bitchat.begin()\<close> returns; the result of \<^verbatim>\<open>_mesh.connect()\<close> is not used.\<close>

definition bridge_begin ::
  "crypto \<Rightarrow> 'st nvs \<Rightarrow> bool \<Rightarrow> (bridge_message \<times> (nat \<Rightarrow> u32)) list \<Rightarrow> u32 \<Rightarrow> bridge \<times> 'st \<Rightarrow>
   (bridge \<times> 'st) \<times> bridge_out list \<times> bool" where
  "bridge_begin cr nv bitchat_ok delivers now = (\<lambda>(s, st).
     let s = s\<lparr>id_mapper := load nv st (id_mapper s)\<rparr> in
     if \<not> bitchat_ok then ((s, st), [Bc_begin], False)
     else let (x, outs) = deliver_mesh cr nv now (s, st) delivers
          in (x, Bc_begin # Mesh_connect # outs, True))"

section \<open>The deduplication cache\<close>

definition dedup_recent :: "bridge \<Rightarrow> (u32 \<times> u32) list" where
  "dedup_recent s = map (\<lambda>e. (de_hash e, de_timestamp_ms e)) (ring_recent (dedup s) (dedup_idx s))"

definition dedup_invar :: "bridge \<Rightarrow> bool" where
  "dedup_invar s \<longleftrightarrow> length (dedup s) = DEDUP_CACHE_SIZE \<and> dedup_idx s < DEDUP_CACHE_SIZE"

interpretation bridge_cache: recent_cache is_duplicate record_hash dedup_recent dedup_invar DEDUP_CACHE_SIZE DEDUP_TTL_MS
proof unfold_locales
  fix s :: bridge and now h
  assume i: "dedup_invar s"
  then show "dedup_recent (record_hash s now h) = (h, now) # butlast (dedup_recent s)"
    using ring_recent_put [of "dedup_idx s" "dedup s" "\<lparr>de_hash = h, de_timestamp_ms = now\<rparr>"]
    by (simp add: dedup_recent_def dedup_invar_def record_hash_def map_butlast)
  show "is_duplicate s now h \<longleftrightarrow> (\<exists>t. (h, t) \<in> set (dedup_recent s) \<and> now - t < DEDUP_TTL_MS)"
    by (auto simp: is_duplicate_def dedup_recent_def list_ex_iff)
  show "length (dedup_recent s) = DEDUP_CACHE_SIZE"
    using i by (simp add: dedup_recent_def dedup_invar_def)
  show "dedup_invar (record_hash s now h)"
    using i by (simp add: dedup_invar_def record_hash_def DEDUP_CACHE_SIZE_def)
qed (simp_all add: DEDUP_CACHE_SIZE_def DEDUP_TTL_MS_def)

text \<open>The ring of \<open>s'\<close> is that of \<open>s\<close> after the records \<open>es\<close>; the other fields are free.\<close>

definition recorded :: "bridge \<Rightarrow> (u32 \<times> u32) list \<Rightarrow> bridge \<Rightarrow> bool" where
  "recorded s es s' \<longleftrightarrow> dedup s' = dedup (bridge_cache.record_all s es) \<and> dedup_idx s' = dedup_idx (bridge_cache.record_all s es)"

lemma record_all_cong:
  "dedup s = dedup s' \<Longrightarrow> dedup_idx s = dedup_idx s' \<Longrightarrow>
   dedup (bridge_cache.record_all s es) = dedup (bridge_cache.record_all s' es) \<and>
   dedup_idx (bridge_cache.record_all s es) = dedup_idx (bridge_cache.record_all s' es)"
  by (induction es arbitrary: s s') (auto simp: record_hash_def)

lemma record_all_append: "bridge_cache.record_all s (es @ fs) = bridge_cache.record_all (bridge_cache.record_all s es) fs"
  by (induction es arbitrary: s) auto

lemma recorded_trans: "recorded s es s' \<Longrightarrow> recorded s' fs s'' \<Longrightarrow> recorded s (es @ fs) s''"
  unfolding recorded_def record_all_append using record_all_cong by metis

lemma recorded_same: "dedup s' = dedup s \<Longrightarrow> dedup_idx s' = dedup_idx s \<Longrightarrow> recorded s [] s'"
  by (simp add: recorded_def)

lemma recorded_hash: "recorded s [(h, now)] (record_hash s now h)"
  by (simp add: recorded_def)

lemma recorded_frame: "recorded s es s' \<Longrightarrow> dedup s'' = dedup s' \<Longrightarrow> dedup_idx s'' = dedup_idx s' \<Longrightarrow> recorded s es s''"
  by (simp add: recorded_def)

lemma is_duplicate_cong: "dedup s = dedup s' \<Longrightarrow> is_duplicate s now h = is_duplicate s' now h"
  by (simp add: is_duplicate_def)

lemma recorded_duplicate:
  assumes "dedup_invar s" and "recorded s ((h, now) # es) s'" and "length es < DEDUP_CACHE_SIZE" and "now' - now < DEDUP_TTL_MS"
  shows "is_duplicate s' now' h"
  using bridge_cache.found_within_window [OF assms(1,3,4)] assms(2)
  by (simp add: recorded_def is_duplicate_def)

section \<open>What the handlers record\<close>

lemma record_hash_frame [simp]:
  "master_kp (record_hash s now h) = master_kp s" "virt_registry (record_hash s now h) = virt_registry s"
  "id_mapper (record_hash s now h) = id_mapper s" "msg_count (record_hash s now h) = msg_count s"
  "pending_chunks (record_hash s now h) = pending_chunks s" "pending_total (record_hash s now h) = pending_total s"
  "pending_next (record_hash s now h) = pending_next s" "mesh_retry_interval (record_hash s now h) = mesh_retry_interval s"
  by (simp_all add: record_hash_def)

lemma evict_notices_recorded:
  "\<exists>es. recorded s es (fst (evict_notices now s vis)) \<and> length es = 2 * length vis"
proof (induction vis arbitrary: s)
  case Nil
  show ?case by (intro exI [of _ "[]"]) (simp add: recorded_def)
next
  case (Cons vi vis)
  let ?a = "local_hash (eviction_ble_msg vi)" and ?b = "local_hash (eviction_mesh_msg vi)"
  let ?s = "record_hash (record_hash s now ?a) now ?b"
  obtain es where es: "recorded ?s es (fst (evict_notices now ?s vis))" "length es = 2 * length vis"
    using Cons.IH by blast
  have "recorded s ([(?a, now)] @ [(?b, now)]) ?s"
    by (rule recorded_trans [OF recorded_hash recorded_hash])
  from recorded_trans [OF this es(1)] es(2) show ?case
    by (intro exI [of _ "((?a, now) # (?b, now) # es)"]) (simp add: on_identity_evicted_def Let_def split_beta)
qed

lemma evict_notices_frame [simp]:
  "virt_registry (fst (evict_notices now s vis)) = virt_registry s" "master_kp (fst (evict_notices now s vis)) = master_kp s"
  "id_mapper (fst (evict_notices now s vis)) = id_mapper s" "msg_count (fst (evict_notices now s vis)) = msg_count s"
  by (induction vis arbitrary: s) (simp_all add: on_identity_evicted_def Let_def split_beta)

lemma send_as_virtual_recorded: "\<exists>e. recorded s [e] (fst (send_as_virtual now s i msg))"
  by (intro exI [of _ "(local_hash (mtext msg), now)"])
    (simp add: send_as_virtual_def Let_def recorded_def record_hash_def)

lemma send_as_bridge_recorded: "\<exists>e. recorded s [e] (fst (send_as_bridge now s msg))"
  by (intro exI [of _ "(local_hash (format_bridged_text s msg 512), now)"])
    (simp add: send_as_bridge_def Let_def recorded_def record_hash_def)

lemma get_or_create_evicted_le:
  assumes "get_or_create cr heap now node master ids = (ids', evicted, r)"
  shows "length evicted \<le> length ids"
proof (cases "virt_index ids node")
  case None
  obtain kept ev room where m: "make_room heap now ids = (kept, ev, room)" by (metis prod_cases3)
  then have "evicted = ev" using assms None by (auto simp: get_or_create_def split: if_splits option.splits)
  with struck_length [OF make_room_struck [OF m]] show ?thesis by simp
qed (use assms in \<open>auto simp: get_or_create_def\<close>)

lemma route_virtual:
  assumes "master_kp s = Some master" and "meshtastic_node_id (sender msg) \<noteq> 0"
    and "get_or_create cr heap now (meshtastic_node_id (sender msg)) master (virt_registry s) = (ids, evicted, r)"
    and "evict_notices now (s\<lparr>virt_registry := ids\<rparr>) evicted = (s1, notices)"
  shows "route_to_bitchat cr heap now s msg =
    (let out = (case r of Some i \<Rightarrow> send_as_virtual now s1 i msg | None \<Rightarrow> send_as_bridge now s1 msg)
     in (fst out, notices @ snd out))"
  using assms by (cases r) (simp_all add: route_to_bitchat_def Let_def split: prod.split)

lemma route_recorded:
  "\<exists>es. recorded s es (fst (route_to_bitchat cr heap now s msg)) \<and> length es \<le> 2 * length (virt_registry s) + 1"
proof -
  have fallback: ?thesis if "route_to_bitchat cr heap now s msg = send_as_bridge now s msg"
    using that send_as_bridge_recorded [of s now msg] by force
  show ?thesis
  proof (cases "master_kp s")
    case None
    then show ?thesis by (intro fallback) (simp add: route_to_bitchat_def)
  next
    case (Some master)
    show ?thesis
    proof (cases "meshtastic_node_id (sender msg) = 0")
      case True
      with Some show ?thesis by (intro fallback) (simp add: route_to_bitchat_def)
    next
      case False
      obtain ids evicted r where g: "get_or_create cr heap now (meshtastic_node_id (sender msg)) master (virt_registry s) = (ids, evicted, r)"
        by (metis prod_cases3)
      obtain s1 notices where n: "evict_notices now (s\<lparr>virt_registry := ids\<rparr>) evicted = (s1, notices)" by fastforce
      obtain es where es: "recorded (s\<lparr>virt_registry := ids\<rparr>) es s1" "length es = 2 * length evicted"
        using evict_notices_recorded [of "s\<lparr>virt_registry := ids\<rparr>" now evicted] n by auto
      have "recorded s [] (s\<lparr>virt_registry := ids\<rparr>)" by (simp add: recorded_same)
      note r1 = recorded_trans [OF this es(1)]
      define out where "out = (case r of Some i \<Rightarrow> send_as_virtual now s1 i msg | None \<Rightarrow> send_as_bridge now s1 msg)"
      obtain e where "recorded s1 [e] (fst out)"
        using send_as_virtual_recorded send_as_bridge_recorded by (cases r) (simp add: out_def, blast)+
      from recorded_trans [OF r1 this] es(2) get_or_create_evicted_le [OF g]
      have "recorded s (es @ [e]) (fst out) \<and> length (es @ [e]) \<le> 2 * length (virt_registry s) + 1" by simp
      moreover have "fst (route_to_bitchat cr heap now s msg) = fst out"
        using route_virtual [OF Some False g n] by (simp add: out_def Let_def)
      ultimately show ?thesis by metis
    qed
  qed
qed

lemma id_mapper_self: "\<exists>im. s = s\<lparr>id_mapper := im\<rparr>" for s :: bridge
  by (rule exI [of _ "id_mapper s"]) simp

lemma learn_mesh_sender_frame:
  "learn_mesh_sender nv now (s, st) msg = (s', st') \<Longrightarrow> \<exists>im. s' = s\<lparr>id_mapper := im\<rparr>"
  using id_mapper_self [of s] by (auto simp: learn_mesh_sender_def split: if_splits prod.splits)

lemma learn_ble_sender_frame:
  "learn_ble_sender nv now (s, st) msg = (s', st') \<Longrightarrow> \<exists>im. s' = s\<lparr>id_mapper := im\<rparr>"
  using id_mapper_self [of s] by (auto simp: learn_ble_sender_def split: if_splits prod.splits)

lemma on_meshtastic_recorded:
  assumes "on_meshtastic_message cr nv heap now (s, st) msg = ((s', st'), outs)" and "\<not> is_duplicate s now (msg_hash msg)"
  shows "\<exists>es. recorded s ((msg_hash msg, now) # es) s' \<and> length es \<le> 2 * length (virt_registry s) + 1"
proof -
  obtain s1 st1 where l: "learn_mesh_sender nv now (record_hash s now (msg_hash msg), st) msg = (s1, st1)" by fastforce
  then obtain im where im: "s1 = (record_hash s now (msg_hash msg))\<lparr>id_mapper := im\<rparr>"
    using learn_mesh_sender_frame [OF l] by blast
  obtain es where es: "recorded s1 es (fst (route_to_bitchat cr heap now s1 msg))" "length es \<le> 2 * length (virt_registry s1) + 1"
    using route_recorded by blast
  have "s' = fst (route_to_bitchat cr heap now s1 msg)"
    using assms l by (auto simp: on_meshtastic_message_def Let_def split: prod.splits)
  moreover have "recorded s [(msg_hash msg, now)] s1"
    using recorded_hash [of s "msg_hash msg" now] by (rule recorded_frame) (simp_all add: im)
  ultimately show ?thesis
    using recorded_trans es by (fastforce simp: im)
qed

text \<open>
  A Meshtastic message heard again within a minute is dropped, and nothing changes, unless
  its first handling evicted all 32 identities: the two records of each farewell would
  push the message's own record out of the ring of 64.
\<close>

theorem mesh_duplicate_dropped:
  assumes "dedup_invar s" and "length (virt_registry s) < 32"
    and "on_meshtastic_message cr nv heap now (s, st) msg = ((s', st'), outs)" and "\<not> is_duplicate s now (msg_hash msg)"
    and "now' - now < DEDUP_TTL_MS"
  shows "on_meshtastic_message cr' nv' heap' now' (s', st'') msg = ((s', st''), [])"
proof -
  obtain es where "recorded s ((msg_hash msg, now) # es) s'" "length es \<le> 2 * length (virt_registry s) + 1"
    using on_meshtastic_recorded [OF assms(3,4)] by blast
  with assms(1,2,5) have "is_duplicate s' now' (msg_hash msg)"
    by (intro recorded_duplicate) (auto simp: DEDUP_CACHE_SIZE_def)
  then show ?thesis by (simp add: on_meshtastic_message_def)
qed

lemma chunk_hashes_recorded: "\<exists>es. recorded s es (record_chunk_hashes now s cs) \<and> length es = length cs"
proof (induction cs arbitrary: s)
  case Nil
  show ?case by (intro exI [of _ "[]"]) (simp add: recorded_same)
next
  case (Cons c cs)
  obtain es where "recorded (record_hash s now (local_hash c)) es (record_chunk_hashes now (record_hash s now (local_hash c)) cs)"
      "length es = length cs"
    using Cons.IH by blast
  with recorded_trans [OF recorded_hash this(1)] show ?case
    by (intro exI [of _ "(local_hash c, now) # es"]) simp
qed

lemma length_split_chunks: "length (split_chunks p body) \<le> 4"
  using chunks_needed_bounds(2) by (simp add: split_chunks_def split_slices_def length_slices Let_def)

lemma on_bitchat_recorded:
  assumes "on_bitchat_message nv now (s, st) msg = ((s', st'), outs)"
  shows "if is_duplicate s now (msg_hash msg) then s' = s
         else \<exists>es. recorded s ((msg_hash msg, now) # es) s' \<and> length es \<le> 4"
proof (cases "is_duplicate s now (msg_hash msg)")
  case False
  obtain s1 st1 where l: "learn_ble_sender nv now (record_hash s now (msg_hash msg), st) msg = (s1, st1)" by fastforce
  obtain im where im: "s1 = (record_hash s now (msg_hash msg))\<lparr>id_mapper := im\<rparr>"
    using learn_ble_sender_frame [OF l] by blast
  have r1: "recorded s [(msg_hash msg, now)] s1"
    using recorded_hash [of s "msg_hash msg" now] by (rule recorded_frame) (simp_all add: im)
  let ?b = "format_bridged_text s1 msg 512"
  have "\<exists>es. recorded s1 es s' \<and> length es \<le> 4"
  proof (cases "length ?b \<le> MESH_DATA_MAX")
    case True
    then have "s' = (record_hash s1 now (local_hash ?b))\<lparr>msg_count := msg_count s1 + 1\<rparr>"
      using assms False l by (simp add: on_bitchat_message_def Let_def)
    then have "recorded s1 [(local_hash ?b, now)] s'" by (simp add: recorded_def record_hash_def)
    then show ?thesis by force
  next
    case long: False
    obtain p body where pb: "split_prefix msg ?b = (p, body)" by fastforce
    obtain es where "recorded s1 es (record_chunk_hashes now s1 (split_chunks p body))" "length es \<le> 4"
      using chunk_hashes_recorded length_split_chunks by metis
    moreover have "dedup s' = dedup (record_chunk_hashes now s1 (split_chunks p body)) \<and>
        dedup_idx s' = dedup_idx (record_chunk_hashes now s1 (split_chunks p body))"
      using assms False l long pb by (auto simp: on_bitchat_message_def Let_def split_into_chunks_def)
    ultimately show ?thesis using recorded_frame by blast
  qed
  with False recorded_trans [OF r1] show ?thesis by fastforce
qed (use assms in \<open>auto simp: on_bitchat_message_def\<close>)

text \<open>Bitchat messages with the times at which they arrive.\<close>

definition bitchat_at :: "'st nvs \<Rightarrow> bridge \<times> 'st \<Rightarrow> u32 \<times> bridge_message \<Rightarrow> (bridge \<times> 'st) \<times> bridge_out list" where
  "bitchat_at nv x = (\<lambda>(now, msg). on_bitchat_message nv now x msg)"

lemma bitchat_run_recorded:
  "run_all (bitchat_at nv) (s, st) ms = ((s', st'), outs) \<Longrightarrow> \<exists>es. recorded s es s' \<and> length es \<le> 5 * length ms"
proof (induction ms arbitrary: s st outs)
  case Nil
  then show ?case by (intro exI [of _ "[]"]) (simp add: recorded_same)
next
  case (Cons m ms)
  obtain s1 st1 o1 where h: "on_bitchat_message nv (fst m) (s, st) (snd m) = ((s1, st1), o1)" by (metis prod.exhaust)
  obtain o2 where "run_all (bitchat_at nv) (s1, st1) ms = ((s', st'), o2)"
    using Cons.prems h by (auto simp: bitchat_at_def [of nv "(s, st)"] split: prod.splits)
  then obtain es where es: "recorded s1 es s'" "length es \<le> 5 * length ms" using Cons.IH by blast
  have "\<exists>fs. recorded s fs s1 \<and> length fs \<le> 5"
  proof (cases "is_duplicate s (fst m) (msg_hash (snd m))")
    case True
    with on_bitchat_recorded [OF h] show ?thesis by (intro exI [of _ "[]"]) (simp add: recorded_same)
  next
    case False
    then obtain fs where "recorded s ((msg_hash (snd m), fst m) # fs) s1" "length fs \<le> 4"
      using on_bitchat_recorded [OF h] by auto
    then show ?thesis by (intro exI [of _ "(msg_hash (snd m), fst m) # fs"]) simp
  qed
  with es recorded_trans show ?case by (metis (no_types, lifting) add_mono length_append length_Cons mult_Suc_right)
qed

text \<open>
  A Bitchat message heard again within a minute, with at most eleven other Bitchat
  messages in between, is dropped: nothing is sent and nothing changes.
\<close>

theorem bitchat_duplicate_dropped:
  assumes "dedup_invar s" and "on_bitchat_message nv now (s, st) msg = ((s1, st1), outs)"
    and "\<not> is_duplicate s now (msg_hash msg)"
    and "run_all (bitchat_at nv) (s1, st1) ms = ((s2, st2), outs2)" and "length ms \<le> 11" and "now' - now < DEDUP_TTL_MS"
  shows "on_bitchat_message nv now' (s2, st2) msg = ((s2, st2), [])"
proof -
  obtain es where es: "recorded s ((msg_hash msg, now) # es) s1" "length es \<le> 4"
    using on_bitchat_recorded [OF assms(2)] assms(3) by auto
  obtain fs where fs: "recorded s1 fs s2" "length fs \<le> 5 * length ms"
    using bitchat_run_recorded [OF assms(4)] by blast
  have "recorded s ((msg_hash msg, now) # es @ fs) s2" using recorded_trans [OF es(1) fs(1)] by simp
  then have "is_duplicate s2 now' (msg_hash msg)"
    using assms(1,5,6) es(2) fs(2) by (intro recorded_duplicate) (auto simp: DEDUP_CACHE_SIZE_def)
  then show ?thesis by (simp add: on_bitchat_message_def)
qed

section \<open>What the handlers send\<close>

lemma learn_mesh_sender_keeps:
  "learn_mesh_sender nv now (s, st) msg = (s', st') \<Longrightarrow>
   master_kp s' = master_kp s \<and> virt_registry s' = virt_registry s \<and> msg_count s' = msg_count s"
  by (drule learn_mesh_sender_frame) auto

lemma notices_speakers:
  "evict_notices now s vis = (s', notices) \<Longrightarrow>
   (\<forall>t k. Bc_send_text_as t k \<in> set notices \<longrightarrow> k \<in> vi_keypair ` set vis) \<and> (\<forall>t. Bc_send_text t \<notin> set notices)"
  by (induction vis arbitrary: s notices)
    (fastforce simp: on_identity_evicted_def Let_def split: prod.splits)+

lemma send_as_virtual_registry:
  "i < length (virt_registry s) \<Longrightarrow>
   length (virt_registry (fst (send_as_virtual now s i msg))) = length (virt_registry s) \<and>
   vi_node_id (virt_registry (fst (send_as_virtual now s i msg)) ! i) = vi_node_id (virt_registry s ! i) \<and>
   vi_keypair (virt_registry (fst (send_as_virtual now s i msg)) ! i) = vi_keypair (virt_registry s ! i) \<and>
   vi_last_seen_ms (virt_registry (fst (send_as_virtual now s i msg)) ! i) = vi_last_seen_ms (virt_registry s ! i)"
  by (simp add: send_as_virtual_def Let_def)

lemma spoken_message:
  assumes "\<not> is_duplicate s now (msg_hash msg)" and "master_kp s = Some master"
    and "meshtastic_node_id (sender msg) \<noteq> 0"
    and "registry_invar cr master (virt_registry s)"
    and "\<And>k. VIRT_ID_HEAP_RESERVE_BYTES < heap k"
    and "bitchat_derive_keypair cr master (meshtastic_node_id (sender msg)) = Some kp"
    and "on_meshtastic_message cr nv heap now (s, st) msg = ((s', st'), outs)"
  shows "\<exists>before. outs = before @ [Bc_send_text_as (mtext msg) kp] \<and>
      (\<forall>t k. Bc_send_text_as t k \<in> set before \<longrightarrow> k \<in> vi_keypair ` set (virt_registry s)) \<and>
      (\<forall>t. Bc_send_text t \<notin> set before) \<and>
      (\<exists>v\<in>set (virt_registry s'). vi_node_id v = meshtastic_node_id (sender msg) \<and> vi_keypair v = kp \<and> vi_last_seen_ms v = now) \<and>
      msg_count s' = msg_count s + 1"
proof -
  obtain s1 st1 where l: "learn_mesh_sender nv now (record_hash s now (msg_hash msg), st) msg = (s1, st1)" by fastforce
  note keep = learn_mesh_sender_keeps [OF l]
  let ?node = "meshtastic_node_id (sender msg)"
  obtain ids evicted r where g: "get_or_create cr heap now ?node master (virt_registry s1) = (ids, evicted, r)"
    by (metis prod_cases3)
  obtain i where r: "r = Some i" and i: "i < length ids" "vi_node_id (ids ! i) = ?node" "vi_keypair (ids ! i) = kp"
      "vi_last_seen_ms (ids ! i) = now" and ev: "set evicted \<subseteq> set (virt_registry s)"
    using get_or_create_succeeds [OF _ assms(5,6) g] assms(4) keep by auto
  obtain s2 notices where n: "evict_notices now (s1\<lparr>virt_registry := ids\<rparr>) evicted = (s2, notices)" by fastforce
  have s2: "virt_registry s2 = ids" "msg_count s2 = msg_count s"
    using evict_notices_frame [where s = "s1\<lparr>virt_registry := ids\<rparr>" and vis = evicted and now = now] n keep by simp_all
  define out where "out = send_as_virtual now s2 i msg"
  have "route_to_bitchat cr heap now s1 msg = (fst out, notices @ snd out)"
    using route_virtual [OF _ assms(3) g n] keep assms(2) r by (simp add: out_def Let_def)
  then have eq: "s' = fst out" "outs = notices @ snd out"
    using assms(1,7) l by (auto simp: on_meshtastic_message_def)
  obtain name where "snd out = name @ [Bc_send_text_as (mtext msg) kp]"
      and "\<forall>t k. Bc_send_text_as t k \<notin> set name" "\<forall>t. Bc_send_text t \<notin> set name"
    using i(3) s2(1) by (auto simp: out_def send_as_virtual_def Let_def)
  moreover have "\<exists>v\<in>set (virt_registry s'). vi_node_id v = ?node \<and> vi_keypair v = kp \<and> vi_last_seen_ms v = now"
    unfolding eq(1) using send_as_virtual_registry [of i s2 now msg] i s2(1)
    by (intro bexI [of _ "virt_registry (fst out) ! i"]) (auto simp: out_def)
  moreover have "msg_count s' = msg_count s + 1" using eq(1) s2(2) by (simp add: out_def send_as_virtual_def Let_def)
  moreover have "\<forall>t k. Bc_send_text_as t k \<in> set notices \<longrightarrow> k \<in> vi_keypair ` set (virt_registry s)"
      "\<forall>t. Bc_send_text t \<notin> set notices"
    using notices_speakers [OF n] ev by blast+
  ultimately show ?thesis unfolding eq(2) by (intro exI [of _ "notices @ name"]) auto
qed


section \<open>The invariant of the bridge\<close>

definition backoff_steps :: "u32 list" where
  "backoff_steps = [5000, 10000, 20000, 40000, 80000, 160000, 320000, 300000]"

definition virt_ok :: "crypto \<Rightarrow> bridge \<Rightarrow> bool" where
  "virt_ok cr s \<longleftrightarrow> (master_kp s = None \<longrightarrow> virt_registry s = []) \<and>
     (\<forall>m. master_kp s = Some m \<longrightarrow> registry_invar cr m (virt_registry s))"

definition pending_ok :: "bridge \<Rightarrow> bool" where
  "pending_ok s \<longleftrightarrow> length (pending_chunks s) = BRIDGE_CHUNK_MAX_CHUNKS \<and> pending_total s \<le> BRIDGE_CHUNK_MAX_CHUNKS \<and>
     pending_next s \<le> pending_total s \<and> (\<forall>c\<in>set (pending_chunks s). length c < 240)"

definition bridge_invar :: "crypto \<Rightarrow> bridge \<Rightarrow> bool" where
  "bridge_invar cr s \<longleftrightarrow> dedup_invar s \<and> virt_ok cr s \<and> pending_ok s \<and> -1 \<le> virt_announce_idx s \<and>
     mesh_retry_interval s \<in> set backoff_steps"

lemmas bridge_invar_defs = bridge_invar_def dedup_invar_def virt_ok_def pending_ok_def

lemma next_backoff_step: "i \<in> set backoff_steps \<Longrightarrow> next_backoff i \<in> set backoff_steps"
  by (auto simp: backoff_steps_def next_backoff_def)

lemma invar_record_hash [intro]: "bridge_invar cr s \<Longrightarrow> bridge_invar cr (record_hash s now h)"
  by (simp add: bridge_invar_defs record_hash_def DEDUP_CACHE_SIZE_def)

lemma invar_frame:
  "bridge_invar cr s \<Longrightarrow> bridge_invar cr (s\<lparr>id_mapper := im\<rparr>)" "bridge_invar cr s \<Longrightarrow> bridge_invar cr (s\<lparr>msg_count := n\<rparr>)"
  "bridge_invar cr s \<Longrightarrow> bridge_invar cr (s\<lparr>mesh_retry_ms := t\<rparr>)" "bridge_invar cr s \<Longrightarrow> bridge_invar cr (s\<lparr>last_mem_check_ms := t\<rparr>)"
  "bridge_invar cr s \<Longrightarrow> bridge_invar cr (s\<lparr>mesh_was_connected := b\<rparr>)"
  "bridge_invar cr s \<Longrightarrow> i \<in> set backoff_steps \<Longrightarrow> bridge_invar cr (s\<lparr>mesh_retry_interval := i\<rparr>)"
  by (simp_all add: bridge_invar_defs)

lemma invar_registry:
  "bridge_invar cr s \<Longrightarrow> master_kp s = Some m \<Longrightarrow> registry_invar cr m ids \<Longrightarrow> bridge_invar cr (s\<lparr>virt_registry := ids\<rparr>)"
  by (simp add: bridge_invar_defs)

lemma invar_evict_notices: "bridge_invar cr s \<Longrightarrow> bridge_invar cr (fst (evict_notices now s vis))"
  by (induction vis arbitrary: s)
    (auto simp: on_identity_evicted_def Let_def split_beta intro!: invar_record_hash)

lemma invar_send_as_bridge: "bridge_invar cr s \<Longrightarrow> bridge_invar cr (fst (send_as_bridge now s msg))"
  by (auto simp: send_as_bridge_def Let_def intro!: invar_frame)

lemma invar_send_as_virtual:
  assumes "bridge_invar cr s" and "i < length (virt_registry s)"
  shows "bridge_invar cr (fst (send_as_virtual now s i msg))"
proof (cases "master_kp s")
  case None
  with assms show ?thesis by (simp add: bridge_invar_defs)
next
  case (Some m)
  have inv: "registry_invar cr m (virt_registry s)" using assms(1) Some by (simp add: bridge_invar_defs)
  have "registry_invar cr m ((virt_registry s)[i := (virt_registry s ! i)\<lparr>vi_display_name := strncpy 39 n\<rparr>])" for n
    using registry_invar_update [OF inv assms(2)] le_less_trans [OF length_strncpy, of 39 40 n] by simp
  then have "bridge_invar cr (s\<lparr>virt_registry := (virt_registry s)[i := (virt_registry s ! i)\<lparr>vi_display_name := strncpy 39 n\<rparr>]\<rparr>)" for n
    using invar_registry [OF assms(1) Some] by blast
  moreover have "bridge_invar cr (s\<lparr>virt_registry := virt_registry s\<rparr>)" using assms(1) by simp
  ultimately show ?thesis
    by (auto simp: send_as_virtual_def Let_def intro!: invar_frame invar_record_hash)
qed

lemma invar_route: "bridge_invar cr s \<Longrightarrow> bridge_invar cr (fst (route_to_bitchat cr heap now s msg))"
proof (cases "master_kp s")
  case (Some m)
  assume inv: "bridge_invar cr s"
  show ?thesis
  proof (cases "meshtastic_node_id (sender msg) = 0")
    case True
    with Some inv show ?thesis by (simp add: route_to_bitchat_def invar_send_as_bridge)
  next
    case False
    obtain ids ev r where g: "get_or_create cr heap now (meshtastic_node_id (sender msg)) m (virt_registry s) = (ids, ev, r)"
      by (metis prod_cases3)
    obtain s1 notices where n: "evict_notices now (s\<lparr>virt_registry := ids\<rparr>) ev = (s1, notices)" by fastforce
    have reg: "registry_invar cr m (virt_registry s)" using inv Some by (simp add: bridge_invar_defs)
    have "registry_invar cr m ids" using registry_invar_get [OF reg, of heap now "meshtastic_node_id (sender msg)"] g by simp
    then have i1: "bridge_invar cr s1"
      using invar_evict_notices [OF invar_registry [OF inv Some], of ids now ev] n by simp
    have v1: "virt_registry s1 = ids" using evict_notices_frame(1) [of now "s\<lparr>virt_registry := ids\<rparr>" ev] n by simp
    have len: "length (virt_registry s) \<le> VIRT_ID_MAX_SLOTS" using reg by (simp add: registry_invar_def)
    have "i < length ids" if "r = Some i" for i
      using get_or_create_result [OF len g] unfolding that option.case by blast
    then show ?thesis
      using route_virtual [OF Some False g n] i1 v1 invar_send_as_virtual invar_send_as_bridge
      by (cases r) (simp_all add: Let_def)
  qed
qed (simp add: route_to_bitchat_def invar_send_as_bridge)

lemma invar_on_meshtastic: "bridge_invar cr (fst x) \<Longrightarrow> bridge_invar cr (fst (fst (on_meshtastic_message cr nv heap now x msg)))"
proof -
  assume inv: "bridge_invar cr (fst x)"
  obtain s1 st1 where l: "learn_mesh_sender nv now (record_hash (fst x) now (msg_hash msg), snd x) msg = (s1, st1)" by fastforce
  have "bridge_invar cr s1" using learn_mesh_sender_frame [OF l] inv by (auto intro!: invar_frame)
  with inv l show ?thesis
    by (cases x) (auto simp: on_meshtastic_message_def Let_def split_beta invar_route)
qed

lemma invar_chunk_hashes: "bridge_invar cr s \<Longrightarrow> bridge_invar cr (record_chunk_hashes now s cs)"
  by (induction cs arbitrary: s) auto

lemma chunk_hashes_frame [simp]:
  "pending_chunks (record_chunk_hashes now s cs) = pending_chunks s"
  by (induction cs arbitrary: s) auto

lemma split_chunks_size: "c \<in> set (split_chunks p body) \<Longrightarrow> length c < 240"
  by (auto simp: split_chunks_def Let_def chunk_text_def intro!: length_snprintf)

lemma invar_split_into_chunks:
  assumes "bridge_invar cr s"
  shows "bridge_invar cr (split_into_chunks now s p body)"
proof -
  have "bridge_invar cr (record_chunk_hashes now s (split_chunks p body))" using assms by (rule invar_chunk_hashes)
  moreover have "\<forall>c\<in>set (split_chunks p body @ drop (length (split_chunks p body)) (pending_chunks s)). length c < 240"
    using assms split_chunks_size by (auto simp: bridge_invar_defs dest: in_set_dropD)
  moreover have "length (split_chunks p body @ drop (length (split_chunks p body)) (pending_chunks s)) = BRIDGE_CHUNK_MAX_CHUNKS"
    using assms length_split_chunks [of p body] by (simp add: bridge_invar_defs BRIDGE_CHUNK_MAX_CHUNKS_def)
  ultimately show ?thesis
    using length_split_chunks [of p body] by (simp add: split_into_chunks_def Let_def bridge_invar_defs BRIDGE_CHUNK_MAX_CHUNKS_def)
qed

lemma invar_on_bitchat: "bridge_invar cr (fst x) \<Longrightarrow> bridge_invar cr (fst (fst (on_bitchat_message nv now x msg)))"
proof -
  assume inv: "bridge_invar cr (fst x)"
  obtain s1 st1 where l: "learn_ble_sender nv now (record_hash (fst x) now (msg_hash msg), snd x) msg = (s1, st1)" by fastforce
  have "bridge_invar cr s1" using learn_ble_sender_frame [OF l] inv by (auto intro!: invar_frame)
  with inv l show ?thesis
    by (cases x) (auto simp: on_bitchat_message_def Let_def split_beta intro!: invar_frame invar_split_into_chunks)
qed

lemma invar_announce_step: "bridge_invar cr s \<Longrightarrow> bridge_invar cr (fst (announce_step now s))"
  by (auto simp: announce_step_def start_announce_cycle_def Let_def bridge_invar_defs)

lemma invar_memory_step:
  assumes "bridge_invar cr s"
  shows "bridge_invar cr (fst (memory_step heap now s))"
proof -
  obtain ids ev n where c: "check_memory_pressure heap (virt_registry s) = (ids, ev, n)" by (metis prod_cases3)
  have "bridge_invar cr (s\<lparr>last_mem_check_ms := now, virt_registry := ids\<rparr>)"
  proof (cases "master_kp s")
    case None
    then have "ids = []" using assms c by (simp add: bridge_invar_defs check_memory_pressure_def)
    with None assms show ?thesis by (simp add: bridge_invar_defs)
  next
    case (Some m)
    have "registry_invar cr m (virt_registry s)" using assms Some by (simp add: bridge_invar_defs)
    with registry_invar_shed [OF this, of heap] c Some show ?thesis
      using invar_registry [OF invar_frame(4) [OF assms, of now], of m ids] by simp
  qed
  with assms c invar_evict_notices show ?thesis by (simp add: memory_step_def)
qed

lemma invar_deliver:
  "bridge_invar cr (fst x) \<Longrightarrow> bridge_invar cr (fst (fst (deliver_mesh cr nv now x ms)))"
  "bridge_invar cr (fst x) \<Longrightarrow> bridge_invar cr (fst (fst (deliver_bitchat nv now x bs)))"
  unfolding deliver_mesh_def deliver_bitchat_def
  by (auto intro!: run_all_invar [where I = "\<lambda>x. bridge_invar cr (fst x)"] invar_on_meshtastic invar_on_bitchat split: prod.split)

lemma invar_reconnect: "bridge_invar cr (fst x) \<Longrightarrow> bridge_invar cr (fst (fst (reconnect_step cr nv env now x)))"
proof -
  assume inv: "bridge_invar cr (fst x)"
  obtain s st where x: "x = (s, st)" by fastforce
  let ?y = "((s\<lparr>mesh_was_connected := False\<rparr>)\<lparr>mesh_retry_ms := now\<rparr>, st)"
  obtain s1 st1 o1 where d: "deliver_mesh cr nv now ?y (connect_delivers env) = ((s1, st1), o1)" by (metis prod.exhaust)
  have s1: "bridge_invar cr s1"
    using invar_deliver(1) [of cr ?y nv now "connect_delivers env"] inv d by (simp add: x invar_frame)
  then have "next_backoff (mesh_retry_interval s1) \<in> set backoff_steps"
    using next_backoff_step by (simp add: bridge_invar_defs)
  with inv d s1 show ?thesis
    by (auto simp: x reconnect_step_def Let_def backoff_steps_def [symmetric] intro!: invar_frame)
      (simp_all add: backoff_steps_def)
qed

lemma invar_drain: "bridge_invar cr s \<Longrightarrow> bridge_invar cr (fst (drain_pending_chunks now c s))"
  by (auto simp: drain_pending_chunks_def bridge_invar_defs)

lemma invar_loop:
  assumes "bridge_invar cr (fst x)"
  shows "bridge_invar cr (fst (fst (bridge_loop cr nv env now x)))"
proof -
  obtain x1 o1 where 1: "deliver_mesh cr nv now x (mesh_delivers env) = (x1, o1)" by fastforce
  obtain s2 st2 o2 where 2: "deliver_bitchat nv now x1 (bitchat_delivers env) = ((s2, st2), o2)" by (metis prod.exhaust)
  obtain s3 o3 where 3: "announce_step now s2 = (s3, o3)" by fastforce
  obtain s4 o4 where 4: "memory_step (heap_at_check env) now s3 = (s4, o4)" by fastforce
  obtain s5 st5 o5 where 5: "reconnect_step cr nv env now (s4, st2) = ((s5, st5), o5)" by (metis prod.exhaust)
  have "bridge_invar cr (fst x1)" using invar_deliver(1) [OF assms, of nv now] 1 by (metis fst_conv)
  then have "bridge_invar cr s2" using invar_deliver(2) 2 by (metis fst_conv)
  then have "bridge_invar cr s3" using invar_announce_step 3 by (metis fst_conv)
  then have "bridge_invar cr s4" using invar_memory_step 4 by (metis fst_conv)
  then have "bridge_invar cr s5" using invar_reconnect 5 by (metis fst_conv)
  then show ?thesis
    using 1 2 3 4 5 by (simp add: bridge_loop_def split_beta invar_drain)
qed

text \<open>The bridge from start-up on: the constructor, \<^verbatim>\<open>begin()\<close> and any number of turns of the loop.\<close>

inductive bridge_reachable :: "crypto \<Rightarrow> 'st nvs \<Rightarrow> bridge \<times> 'st \<Rightarrow> bool" for cr nv where
  started: "bridge_begin cr nv True ms now (new_bridge kp, st) = (x, outs, True) \<Longrightarrow> bridge_reachable cr nv x"
| looped: "bridge_reachable cr nv x \<Longrightarrow> bridge_loop cr nv env now x = (x', outs) \<Longrightarrow> bridge_reachable cr nv x'"

lemma invar_new: "bridge_invar cr (new_bridge kp)"
  by (simp add: bridge_invar_defs new_bridge_def registry_invar_def DEDUP_CACHE_SIZE_def BRIDGE_CHUNK_MAX_CHUNKS_def backoff_steps_def)

text \<open>
  Whatever the transports deliver and report, in every state the bridge reaches the indices
  into its arrays are in range, the queued chunks fit their buffers, the registry holds at
  most 32 identities with distinct nodes and their derived keys, and the reconnect interval
  is one of the eight values of its backoff.
\<close>

theorem bridge_state_invariant:
  assumes "bridge_reachable cr nv (s, st)"
  shows "length (dedup s) = 64 \<and> dedup_idx s < 64 \<and>
    length (pending_chunks s) = 4 \<and> pending_next s \<le> pending_total s \<and> pending_total s \<le> 4 \<and>
    (\<forall>c\<in>set (pending_chunks s). length c < 240) \<and>
    (\<forall>m. master_kp s = Some m \<longrightarrow> registry_invar cr m (virt_registry s)) \<and>
    mesh_retry_interval s \<in> set backoff_steps"
proof -
  have "bridge_invar cr (fst x)" if "bridge_reachable cr nv x" for x
    using that
  proof induction
    case (started ms now kp st x outs)
    have "bridge_invar cr (fst ((new_bridge kp)\<lparr>id_mapper := im\<rparr>, st))" for im
      using invar_frame(1) [OF invar_new] by simp
    with started show ?case
      by (auto simp: bridge_begin_def Let_def split: prod.splits if_splits) (metis invar_deliver(1) fst_conv)
  next
    case (looped x env now x' outs)
    then show ?case using invar_loop by (metis fst_conv)
  qed
  from this [OF assms] show ?thesis
    by (simp add: bridge_invar_defs DEDUP_CACHE_SIZE_def BRIDGE_CHUNK_MAX_CHUNKS_def)
qed

section \<open>Reconnecting and publishing\<close>

lemma backoff_step: "k \<le> 7 \<Longrightarrow> next_backoff (backoff_steps ! k) = backoff_steps ! min (Suc k) 7"
proof -
  assume "k \<le> 7"
  then consider "k = 0" | "k = 1" | "k = 2" | "k = 3" | "k = 4" | "k = 5" | "k = 6" | "k = 7" by linarith
  then show ?thesis by cases (simp_all add: backoff_steps_def next_backoff_def)
qed

text \<open>
  After \<open>n\<close> failed attempts to reconnect the bridge waits 5, 10, 20, 40, 80, 160, 320 and
  then always 300 seconds: the sixth failure takes the wait past the five minutes at which it
  is meant to be capped.
\<close>

theorem backoff_overshoots_cap:
  "(next_backoff ^^ n) 5000 = [5000, 10000, 20000, 40000, 80000, 160000, 320000, 300000] ! min n 7"
proof (induction n)
  case (Suc n)
  have "(next_backoff ^^ Suc n) 5000 = next_backoff (backoff_steps ! min n 7)"
    using Suc.IH by (simp add: backoff_steps_def)
  also have "\<dots> = backoff_steps ! min (Suc n) 7"
    using backoff_step [of "min n 7"] by (simp add: min_def split: if_splits)
  finally show ?case by (simp only: backoff_steps_def)
qed simp

text \<open>
  The node number the bridge announces itself under is never zero, never the broadcast
  address, and has its top bit clear, whatever the fingerprint.
\<close>

theorem publish_node_num_valid:
  "publish_node_num kp \<noteq> 0 \<and> publish_node_num kp \<noteq> MESH_BROADCAST \<and> \<not> bit (publish_node_num kp) 31"
proof -
  define n :: u32 where "n = foldl (\<lambda>n i. n OR push_bit (i * 8) (ucast (fingerprint kp ! i))) 0 [0, 1, 2, 3]"
  define m where "m = (if n AND 0x7FFFFFFF = 0 then 1 else n AND 0x7FFFFFFF)"
  have "\<not> bit (n AND 0x7FFFFFFF) 31" by (simp add: bit_and_iff)
  then have b: "\<not> bit m 31" by (simp add: m_def bit_1_iff)
  moreover have "bit MESH_BROADCAST 31" by (simp add: MESH_BROADCAST_def)
  ultimately have "m \<noteq> MESH_BROADCAST" by metis
  moreover have "publish_node_num kp = (if m = MESH_BROADCAST then m XOR 0x12345678 else m)"
    unfolding publish_node_num_def n_def [symmetric] m_def Let_def ..
  ultimately show ?thesis using b by (auto simp: m_def)
qed

section \<open>The chunk queue\<close>

text \<open>What is still to be sent: the abstract queue of the long-message path.\<close>

definition chunk_queue :: "bridge \<Rightarrow> bytes list" where
  "chunk_queue s = drop (pending_next s) (take (pending_total s) (pending_chunks s))"

text \<open>The abstract operations: a queue of texts that is replaced, shortened by one, or dropped.\<close>

definition queue_send :: "bytes list \<Rightarrow> bytes list \<times> bridge_out list" where
  "queue_send q = (case q of [] \<Rightarrow> ([], []) | c # cs \<Rightarrow> (cs, [Mesh_send_text c]))"

text \<open>
  C17: the array, total and next index of the queued chunks implement a first-in first-out
  queue.  Splitting a message replaces the queue by its chunks; a turn of the
  loop that is due sends the head, and the next one is due 1.5 seconds later; a turn that is
  not due changes nothing; and a due turn without a connection drops the whole queue.
\<close>

theorem drain_refines_queue:
  assumes "pending_ok s"
  shows "chunk_queue (split_into_chunks now s p body) = split_chunks p body \<and>
    (let due = (sint (now - pending_send_at_ms s) \<ge> 0 \<and> chunk_queue s \<noteq> []);
         (s', outs) = drain_pending_chunks now connected s
     in pending_ok s' \<and>
        (if \<not> due then s' = s \<and> outs = []
         else if connected then (chunk_queue s', outs) = queue_send (chunk_queue s) \<and> pending_send_at_ms s' = now + 1500
         else chunk_queue s' = [] \<and> outs = []))"
proof -
  have l: "pending_total s \<le> length (pending_chunks s)" using assms by (simp add: pending_ok_def)
  then have e: "chunk_queue s = [] \<longleftrightarrow> pending_next s \<ge> pending_total s" by (auto simp: chunk_queue_def)
  have q: "chunk_queue s = pending_chunks s ! pending_next s # drop (Suc (pending_next s)) (take (pending_total s) (pending_chunks s))"
    if "pending_next s < pending_total s"
    using that l by (simp add: chunk_queue_def Cons_nth_drop_Suc [symmetric])
  have "chunk_queue (split_into_chunks now s p body) = split_chunks p body"
    by (simp add: chunk_queue_def split_into_chunks_def Let_def)
  moreover have "chunk_queue (s\<lparr>pending_next := pending_total s\<rparr>) = []" by (simp add: chunk_queue_def)
  moreover have "chunk_queue (s\<lparr>pending_next := pending_next s + 1, pending_send_at_ms := t\<rparr>) =
      drop (Suc (pending_next s)) (take (pending_total s) (pending_chunks s))" for t
    by (simp add: chunk_queue_def)
  ultimately show ?thesis
    using assms e q by (auto simp: drain_pending_chunks_def Let_def queue_send_def pending_ok_def BRIDGE_CHUNK_DELAY_MS_def not_le)
qed

section \<open>Bitchat messages on the way to the mesh\<close>

lemma ascii_colon: "ascii '': '' = [58, 32]"
  by (simp add: ascii_def)

lemma chunk_hashes_count [simp]: "msg_count (record_chunk_hashes now s cs) = msg_count s"
  by (induction cs arbitrary: s) auto

lemma strstr_first_colon:
  assumes "58 \<notin> set p"
  shows "strstr (p @ [58, 32] @ rest) [58, 32] = Some (length p)"
proof -
  let ?hay = "p @ [58, 32] @ rest"
  have "take 2 (drop (length p) ?hay) = [58, 32]" by (simp add: numeral_2_eq_2)
  moreover have "take 2 (drop j ?hay) \<noteq> [58, 32]" if "j < length p" for j
  proof
    assume "take 2 (drop j ?hay) = [58, 32]"
    then have "drop j ?hay ! 0 = 58" by (metis nth_Cons_0 nth_take zero_less_numeral)
    then have "p ! j = 58" using that by (simp add: nth_append)
    with assms that show False by (metis nth_mem)
  qed
  ultimately show ?thesis
    unfolding strstr_def find_Some_iff by (intro exI [of _ "length p"]) (auto simp: nth_append numeral_2_eq_2)
qed

lemma learned_ble_name:
  assumes "display_name (sender msg) \<noteq> []" and "has_bitchat_fingerprint (sender msg)"
    and "is_cstr (display_name (sender msg))" and "length (display_name (sender msg)) \<le> 31"
    and "distinct (map be_fingerprint (ble_names (id_mapper s)))"
    and "take 8 (bitchat_fingerprint (sender msg)) \<in> be_fingerprint ` set (ble_names (id_mapper s)) \<or>
         length (ble_names (id_mapper s)) < MAX_IDENTITY_ENTRIES"
    and "learn_ble_sender nv now (s, st) msg = (s1, st1)"
  shows "get_ble_name (id_mapper s1) (bitchat_fingerprint (sender msg)) = Some (display_name (sender msg))"
proof -
  let ?e = "\<lparr>bv_now = now, bv_fingerprint = bitchat_fingerprint (sender msg), bv_nickname = Some (display_name (sender msg))\<rparr>"
  have "id_mapper s1 = fst (learn_ble nv (id_mapper s, st) ?e)"
    using assms(1,2,7) by (auto simp: learn_ble_sender_def learn_ble_def split: prod.splits)
  then show ?thesis
    using ble_table.lookup_learn_same [of "(id_mapper s, st)" ?e nv] assms(1,3-6)
    by (simp add: get_ble_name_table shown_def strncpy_def)
qed

lemma forwarded_message:
  assumes "\<not> is_duplicate s now (msg_hash msg)" and "origin msg = BITCHAT" and "has_bitchat_fingerprint (sender msg)"
    and "display_name (sender msg) = name" and "name \<noteq> []" and "is_cstr name" and "length name \<le> 31" and "58 \<notin> set name"
    and "is_cstr (mtext msg)" and "length (mtext msg) \<le> 255"
    and "distinct (map be_fingerprint (ble_names (id_mapper s)))"
    and "take 8 (bitchat_fingerprint (sender msg)) \<in> be_fingerprint ` set (ble_names (id_mapper s)) \<or>
         length (ble_names (id_mapper s)) < MAX_IDENTITY_ENTRIES"
    and "on_bitchat_message nv now (s, st) msg = ((s', st'), outs)"
  shows "msg_count s' = msg_count s + 1 \<and>
    (let full = ascii ''[B] '' @ name @ ascii '': '' @ mtext msg in
     if length full \<le> MESH_DATA_MAX then outs = [Mesh_send_text full] \<and> chunk_queue s' = chunk_queue s
     else outs = [] \<and> chunk_queue s' = split_chunks (ascii ''[B] '' @ name) (mtext msg) \<and> pending_send_at_ms s' = now)"
proof -
  let ?s0 = "record_hash s now (msg_hash msg)"
  define full where "full = ascii ''[B] '' @ name @ ascii '': '' @ mtext msg"
  obtain s1 st1 where l: "learn_ble_sender nv now (?s0, st) msg = (s1, st1)" by fastforce
  obtain im where im: "s1 = ?s0\<lparr>id_mapper := im\<rparr>" using learn_ble_sender_frame [OF l] by blast
  have "get_ble_name (id_mapper s1) (bitchat_fingerprint (sender msg)) = Some name"
    using learned_ble_name [OF _ _ _ _ _ _ l] assms by simp
  then have "resolve_sender s1 msg = name" using assms(2,3) by (simp add: resolve_sender_def)
  moreover have "is_cstr full" "length full \<le> 511" using assms(6,7,9,10) by (simp_all add: full_def ascii_def)
  ultimately have f: "format_bridged_text s1 msg 512 = full"
    using assms(2) by (simp add: format_bridged_text_def origin_prefix_def MSG_PREFIX_BLE_def snprintf_def full_def)
  have "full = (ascii ''[B] '' @ name) @ [58, 32] @ mtext msg" by (simp add: full_def ascii_def)
  moreover have "58 \<notin> set (ascii ''[B] '' @ name)" using assms(8) by (simp add: ascii_def)
  ultimately have "strstr full (ascii '': '') = Some (length (ascii ''[B] '' @ name))"
    using strstr_first_colon by (metis (no_types) ascii_colon)
  then have p: "split_prefix msg full = (ascii ''[B] '' @ name, mtext msg)"
    using assms(7) by (simp add: split_prefix_def full_def ascii_def)
  have q: "chunk_queue (t\<lparr>msg_count := n\<rparr>) = chunk_queue t" for t n by (simp add: chunk_queue_def)
  have "chunk_queue (split_into_chunks now s1 pr body) = split_chunks pr body" for pr body
    by (simp add: chunk_queue_def split_into_chunks_def Let_def)
  moreover have "msg_count (record_chunk_hashes now s1 cs) = msg_count s" for cs
    using chunk_hashes_count [of now s1 cs] im by simp
  moreover have "chunk_queue (record_hash s1 now h) = chunk_queue s" for h by (simp add: chunk_queue_def im)
  ultimately show ?thesis
    using assms(1,13) l f p q im unfolding full_def [symmetric]
    by (auto simp: on_bitchat_message_def Let_def split_into_chunks_def split: if_splits)
qed

text \<open>
  C7: a new Bitchat message is sent to the mesh as one packet that names its sender, when it fits
  one, and otherwise becomes the queue of its chunks: the chunks of its text, each under the
  sender's name.  The names and texts are those the BLE transport delivers (a name of at
  most 31 bytes without a colon, a text of at most 255), and the name table has an entry or
  room for the sender.
\<close>

theorem bitchat_message_forwarded:
  assumes "\<not> is_duplicate s now (msg_hash msg)" and "origin msg = BITCHAT" and "has_bitchat_fingerprint (sender msg)"
    and "display_name (sender msg) = name" and "name \<noteq> []" and "is_cstr name" and "length name \<le> 31" and "58 \<notin> set name"
    and "is_cstr (mtext msg)" and "length (mtext msg) \<le> 255"
    and "distinct (map be_fingerprint (ble_names (id_mapper s)))"
    and "take 8 (bitchat_fingerprint (sender msg)) \<in> be_fingerprint ` set (ble_names (id_mapper s)) \<or>
         length (ble_names (id_mapper s)) < MAX_IDENTITY_ENTRIES"
    and "on_bitchat_message nv now (s, st) msg = ((s', st'), outs)"
  shows "msg_count s' = msg_count s + 1 \<and>
    (let full = ascii ''[B] '' @ name @ ascii '': '' @ mtext msg in
     if length full \<le> MESH_DATA_MAX then outs = [Mesh_send_text full] \<and> chunk_queue s' = chunk_queue s
     else outs = [] \<and> chunk_queue s' = split_chunks (ascii ''[B] '' @ name) (mtext msg))"
  using forwarded_message [OF assms] by (simp add: Let_def split: if_splits)

section \<open>Draining the queue\<close>

text \<open>Turns of the loop at the times \<open>ts\<close>, with the connection up.\<close>

fun drain_all :: "bridge \<Rightarrow> u32 list \<Rightarrow> bridge \<times> bridge_out list" where
  "drain_all s [] = (s, [])"
| "drain_all s (t # ts) =
     (let (s, outs) = drain_pending_chunks t True s; (s, outs') = drain_all s ts in (s, outs @ outs'))"

text \<open>Times of which each is at or after the moment the next chunk is due.\<close>

fun due_times :: "u32 \<Rightarrow> u32 list \<Rightarrow> bool" where
  "due_times at [] = True"
| "due_times at (t # ts) \<longleftrightarrow> sint (t - at) \<ge> 0 \<and> due_times (t + BRIDGE_CHUNK_DELAY_MS) ts"

lemma drain_due:
  assumes "pending_ok s" and "chunk_queue s = c # q" and "0 \<le> sint (t - pending_send_at_ms s)"
  shows "\<exists>s'. drain_pending_chunks t True s = (s', [Mesh_send_text c]) \<and> pending_ok s' \<and> chunk_queue s' = q \<and>
    pending_send_at_ms s' = t + BRIDGE_CHUNK_DELAY_MS"
proof -
  have next_lt: "pending_next s < pending_total s"
    using assms(2) by (cases "pending_next s < pending_total s") (auto simp: chunk_queue_def)
  have tot: "pending_total s \<le> length (pending_chunks s)" using assms(1) by (simp add: pending_ok_def)
  have "chunk_queue s = pending_chunks s ! pending_next s # drop (Suc (pending_next s)) (take (pending_total s) (pending_chunks s))"
    using next_lt tot by (simp add: chunk_queue_def Cons_nth_drop_Suc [symmetric])
  then show ?thesis
    using assms next_lt by (simp add: drain_pending_chunks_def pending_ok_def chunk_queue_def)
qed

text \<open>
  As many due turns as there are chunks, with the connection up, send every chunk once and in order and leave the queue empty.
\<close>

lemma drain_sends_all:
  assumes "pending_ok s" and "due_times (pending_send_at_ms s) ts" and "length ts = length (chunk_queue s)"
  shows "snd (drain_all s ts) = map Mesh_send_text (chunk_queue s) \<and> chunk_queue (fst (drain_all s ts)) = []"
  using assms
proof (induction ts arbitrary: s)
  case (Cons t ts)
  obtain c q where q: "chunk_queue s = c # q" using Cons.prems(3) by (cases "chunk_queue s") auto
  with Cons.prems drain_due [of s c q t] obtain s1 where "drain_pending_chunks t True s = (s1, [Mesh_send_text c])"
    "pending_ok s1" "chunk_queue s1 = q" "pending_send_at_ms s1 = t + BRIDGE_CHUNK_DELAY_MS" by auto
  with Cons.IH [of s1] Cons.prems(2,3) q show ?case by (simp add: split_beta)
qed simp

section \<open>Instances\<close>

definition mesh_hello :: bridge_message where
  "mesh_hello = \<lparr>origin = MESHTASTIC, sender = no_sender\<lparr>meshtastic_node_id := 7, display_name := [65]\<rparr>,
                 mtext = [104, 105], timestamp_ms = 1\<rparr>"

definition ble_hello :: bridge_message where
  "ble_hello = \<lparr>origin = BITCHAT, sender = no_sender\<lparr>bitchat_fingerprint := replicate 32 9, display_name := [66]\<rparr>,
                mtext = [104, 105], timestamp_ms = 1\<rparr>"

lemma new_bridge_fresh: "\<not> is_duplicate (new_bridge kp) 100000 h"
  by (simp add: is_duplicate_def new_bridge_def DEDUP_TTL_MS_def list_ex_iff)

lemma new_bridge_invars: "dedup_invar (new_bridge kp)" "virt_registry (new_bridge kp) = []" "master_kp (new_bridge kp) = kp"
  "ble_names (id_mapper (new_bridge kp)) = []"
  by (simp_all add: dedup_invar_def new_bridge_def new_identity_mapper_def DEDUP_CACHE_SIZE_def)

theorem mesh_duplicate_dropped_witness:
  "\<exists>s' st' outs. on_meshtastic_message sized_crypto cell_nvs (\<lambda>_. 50000) 100000 (new_bridge None, ([], 0, [], 0)) mesh_hello = ((s', st'), outs) \<and>
     on_meshtastic_message sized_crypto cell_nvs (\<lambda>_. 50000) 100900 (s', st') mesh_hello = ((s', st'), [])"
proof -
  obtain s' st' outs where e: "on_meshtastic_message sized_crypto cell_nvs (\<lambda>_. 50000) 100000 (new_bridge None, ([], 0, [], 0)) mesh_hello = ((s', st'), outs)"
    by (metis prod.exhaust)
  from mesh_duplicate_dropped [OF new_bridge_invars(1) _ e new_bridge_fresh, of 100900]
  show ?thesis using e by (simp add: new_bridge_invars DEDUP_TTL_MS_def)
qed

theorem bitchat_duplicate_dropped_witness:
  "\<exists>s' st' outs. on_bitchat_message cell_nvs 100000 (new_bridge None, ([], 0, [], 0)) ble_hello = ((s', st'), outs) \<and>
     on_bitchat_message cell_nvs 100900 (s', st') ble_hello = ((s', st'), [])"
proof -
  obtain s' st' outs where e: "on_bitchat_message cell_nvs 100000 (new_bridge None, ([], 0, [], 0)) ble_hello = ((s', st'), outs)"
    by (metis prod.exhaust)
  from bitchat_duplicate_dropped [OF new_bridge_invars(1) e new_bridge_fresh, of "[]" s' st' "[]" 100900]
  show ?thesis using e by (simp add: DEDUP_TTL_MS_def)
qed


theorem bridge_state_invariant_witness:
  "\<exists>s st. bridge_reachable sized_crypto cell_nvs (s, st) \<and> dedup_idx s < 64"
proof -
  have "bridge_reachable sized_crypto cell_nvs ((new_bridge None)\<lparr>id_mapper := load cell_nvs ([], 0, [], 0) new_identity_mapper\<rparr>, ([], 0, [], 0))"
    by (rule started [where ms = "[]" and now = 0 and kp = None and st = "([], 0, [], 0)" and outs = "[Bc_begin, Mesh_connect]"])
      (simp add: bridge_begin_def deliver_mesh_def new_bridge_def)
  with bridge_state_invariant [OF this] show ?thesis by blast
qed

theorem bitchat_message_forwarded_witness:
  "\<exists>s' st'. on_bitchat_message cell_nvs 100000 (new_bridge None, ([], 0, [], 0)) ble_hello =
     ((s', st'), [Mesh_send_text (ascii ''[B] B: hi'')])"
proof -
  obtain s' st' outs where e: "on_bitchat_message cell_nvs 100000 (new_bridge None, ([], 0, [], 0)) ble_hello = ((s', st'), outs)"
    by (metis prod.exhaust)
  have "outs = [Mesh_send_text (ascii ''[B] B: hi'')]"
    using bitchat_message_forwarded [OF new_bridge_fresh _ _ _ _ _ _ _ _ _ _ _ e, of "[66]"]
    by (simp add: ble_hello_def has_bitchat_fingerprint_def new_bridge_invars MAX_IDENTITY_ENTRIES_def
        MESH_DATA_MAX_def ascii_def list_ex_iff)
  with e show ?thesis by blast
qed

theorem drain_refines_queue_witness:
  "chunk_queue (split_into_chunks 5 (new_bridge None) [91] [104, 105]) = split_chunks [91] [104, 105]"
  using drain_refines_queue [of "new_bridge None" 5 "[91]" "[104, 105]" True]
  by (simp add: pending_ok_def new_bridge_def BRIDGE_CHUNK_MAX_CHUNKS_def)

lemma drain_sends_all_example:
  "snd (drain_all ((new_bridge None)\<lparr>pending_chunks := [[1], [2], [], []], pending_total := 2\<rparr>) [10, 2000]) =
     [Mesh_send_text [1], Mesh_send_text [2]]"
  using drain_sends_all [of "(new_bridge None)\<lparr>pending_chunks := [[1], [2], [], []], pending_total := 2\<rparr>" "[10, 2000]"]
  by (simp add: pending_ok_def new_bridge_def BRIDGE_CHUNK_MAX_CHUNKS_def chunk_queue_def BRIDGE_CHUNK_DELAY_MS_def)

end
