(* ===== verification/Firmware.thy ===== *)
theory Firmware
  imports Mesh_Tcp Ble_Radio Bridge_Manager
begin

text \<open>
  \<^verbatim>\<open>src/main.cpp\<close> and the wiring of the three components: the device as a whole.  Its state is the TCP client,
  the BLE transport and the bridge with the flash of its names.  What the bridge asks of a transport is
  carried out on it at once, and what a transport delivers is handed to the bridge at once, as the callbacks do.
  The system clock, which both transports set, is the clock of the BLE state.  Answers of the platform during one
  turn are the record \<open>fw_env\<close>; what goes out is a list of \<open>fw_out\<close> in order.
\<close>

section \<open>Wi-Fi\<close>

definition WIFI_MODE :: bytes where "WIFI_MODE = ascii ''AUTO''"
definition WIFI_SSID :: bytes where "WIFI_SSID = ascii ''your-ssid''"
definition WIFI_PASSWORD :: bytes where "WIFI_PASSWORD = ascii ''your-password''"
definition WIFI_AP_SSID :: bytes where "WIFI_AP_SSID = ascii ''BitBridge''"
definition WIFI_AP_PASSWORD :: bytes where "WIFI_AP_PASSWORD = ascii ''bitbridge32''"
definition WIFI_AP_CHANNEL :: nat where "WIFI_AP_CHANNEL = 1"
definition WIFI_AP_MAX_CLIENTS :: nat where "WIFI_AP_MAX_CLIENTS = 4"
definition WIFI_AP_IP :: bytes where "WIFI_AP_IP = ascii ''192.168.4.1''"
definition WIFI_AP_GATEWAY :: bytes where "WIFI_AP_GATEWAY = ascii ''192.168.4.1''"
definition WIFI_AP_SUBNET :: bytes where "WIFI_AP_SUBNET = ascii ''255.255.255.0''"
definition MESHTASTIC_HOST :: bytes where "MESHTASTIC_HOST = ascii ''meshtastic.local''"

datatype boot_out =
    Wifi_mode_sta
  | Wifi_begin bytes bytes
  | Wifi_disconnect
  | Wifi_mode_ap
  | Soft_ap_config bytes bytes bytes
  | Soft_ap bytes "bytes option" nat nat
  | Mdns_begin bytes
  | Config_time
  | Delay nat

text \<open>
  What the platform answers while starting: whether the station is connected at its n-th reading, whether the access
  point starts, and the seconds of the system clock at the n-th reading.
\<close>

record boot_env =
  be_status :: "nat \<Rightarrow> bool"
  be_ap_ok :: bool
  be_clock :: "nat \<Rightarrow> int"

text \<open>The readings of the status before the wait ends; each failed one is followed by half a second.\<close>

function wifi_wait :: "(nat \<Rightarrow> bool) \<Rightarrow> nat \<Rightarrow> nat" where
  "wifi_wait status attempts = (if \<not> status attempts \<and> attempts < 40 then wifi_wait status (attempts + 1) else attempts)"
  by pat_completeness auto
termination by (relation "measure (\<lambda>(status, attempts). 40 - attempts)") auto

declare wifi_wait.simps [simp del]

definition wifi_connect_sta :: "boot_env \<Rightarrow> bool \<times> boot_out list" where
  "wifi_connect_sta be =
     (let attempts = wifi_wait (be_status be) 0;
          outs = [Wifi_mode_sta, Wifi_begin WIFI_SSID WIFI_PASSWORD] @ replicate attempts (Delay 500)
      in if be_status be (attempts + 1) then (True, outs) else (False, outs @ [Wifi_disconnect]))"

definition wifi_start_ap :: "bytes \<Rightarrow> boot_env \<Rightarrow> bool \<times> boot_out list" where
  "wifi_start_ap password be =
     (be_ap_ok be,
      [Wifi_mode_ap, Soft_ap_config WIFI_AP_IP WIFI_AP_GATEWAY WIFI_AP_SUBNET,
       Soft_ap WIFI_AP_SSID (if length password = 0 then None else Some password) WIFI_AP_CHANNEL WIFI_AP_MAX_CLIENTS])"

text \<open>Whether there is a network, and whether it is our own access point.\<close>

definition wifi_init :: "bytes \<Rightarrow> bytes \<Rightarrow> boot_env \<Rightarrow> bool \<times> bool \<times> boot_out list" where
  "wifi_init mode password be =
     (if mode = ascii ''AP'' then let (ok, outs) = wifi_start_ap password be in (ok, ok, outs)
      else if mode = ascii ''STA'' then let (ok, outs) = wifi_connect_sta be in (ok, False, outs)
      else
        let (ok, outs) = wifi_connect_sta be in
        if ok then (True, False, outs)
        else let (ok, outs') = wifi_start_ap password be in (ok, ok, outs @ outs'))"

text \<open>The wait for NTP: the number of half seconds.\<close>

function ntp_wait :: "(nat \<Rightarrow> int) \<Rightarrow> nat \<Rightarrow> nat" where
  "ntp_wait clock i = (if i < 10 \<and> \<not> time_is_synced (clock i) then ntp_wait clock (i + 1) else i)"
  by pat_completeness auto
termination by (relation "measure (\<lambda>(clock, i). 10 - i)") auto

declare ntp_wait.simps [simp del]

text \<open>The part of \<^verbatim>\<open>setup()\<close> before the bridge.\<close>

definition network_setup :: "bytes \<Rightarrow> bytes \<Rightarrow> boot_env \<Rightarrow> bool \<times> bool \<times> boot_out list" where
  "network_setup mode password be =
     (let (ok, is_ap, outs) = wifi_init mode password be;
          net = (if \<not> ok then []
                 else Mdns_begin BRIDGE_NAME #
                   (if \<not> is_ap then Config_time # replicate (ntp_wait (be_clock be) 0) (Delay 500) else []))
      in (ok, is_ap, Delay 1000 # outs @ net))"

text \<open>The milliseconds that start-up waits.\<close>

definition waited :: "boot_out list \<Rightarrow> nat" where
  "waited outs = sum_list (map (\<lambda>out. case out of Delay ms \<Rightarrow> ms | _ \<Rightarrow> 0) outs)"

lemma waited_simps [simp]:
  "waited [] = 0" "waited (Delay ms # outs) = ms + waited outs" "waited (xs @ ys) = waited xs + waited ys"
  "waited (replicate n (Delay ms)) = n * ms"
  by (simp_all add: waited_def map_replicate_const sum_list_replicate)

lemma waited_calls [simp]:
  "waited (Wifi_mode_sta # outs) = waited outs" "waited (Wifi_begin s p # outs) = waited outs" "waited (Wifi_disconnect # outs) = waited outs"
  "waited (Wifi_mode_ap # outs) = waited outs" "waited (Soft_ap_config i g n # outs) = waited outs" "waited (Soft_ap i pw c m # outs) = waited outs"
  "waited (Mdns_begin n # outs) = waited outs" "waited (Config_time # outs) = waited outs"
  by (simp_all add: waited_def)

lemma wifi_wait_bounds: "attempts \<le> 40 \<Longrightarrow> wifi_wait status attempts \<le> 40"
  by (induction status attempts rule: wifi_wait.induct) (subst wifi_wait.simps, simp)

lemma ntp_wait_bounds: "i \<le> 10 \<Longrightarrow> ntp_wait clock i \<le> 10"
  by (induction clock i rule: ntp_wait.induct) (subst ntp_wait.simps, simp)

lemma waited_station: "waited (snd (wifi_connect_sta be)) \<le> 20000"
  using wifi_wait_bounds [of 0 "be_status be"] by (simp add: wifi_connect_sta_def Let_def)

lemma waited_ap: "waited (snd (wifi_start_ap password be)) = 0"
  by (simp add: wifi_start_ap_def)

lemma waited_wifi: "waited (snd (snd (wifi_init mode password be))) \<le> 20000"
  using waited_station [of be] waited_ap [of password be] by (simp add: wifi_init_def Let_def split_beta)

text \<open>
  Start-up does not hang on the network.  In every mode, whatever the access point, the network and the clock answer, the part of
  \<^verbatim>\<open>setup()\<close> before the bridge waits at most 26 seconds (1 for the console, 20 for the network, 5 for the time), and in
  the configured mode AUTO it ends with a network exactly if the station is connected when its wait is over or the access
  point starts, and as an access point only in the second case.
\<close>

theorem boot_bounded:
  "waited (snd (snd (network_setup mode password be))) \<le> 26000 \<and>
   fst (network_setup WIFI_MODE password be) = (be_status be (wifi_wait (be_status be) 0 + 1) \<or> be_ap_ok be) \<and>
   fst (snd (network_setup WIFI_MODE password be)) = (\<not> be_status be (wifi_wait (be_status be) 0 + 1) \<and> be_ap_ok be)"
proof (intro conjI)
  show "waited (snd (snd (network_setup mode password be))) \<le> 26000"
    using waited_wifi [of mode password be] ntp_wait_bounds [of 0 "be_clock be"] by (simp add: network_setup_def Let_def split_beta)
qed (auto simp: network_setup_def wifi_init_def wifi_connect_sta_def wifi_start_ap_def WIFI_MODE_def ascii_def Let_def split_beta)

section \<open>The device\<close>

record 'st device =
  dev_mesh :: mesh_tcp
  dev_ble :: ble
  dev_bridge :: bridge
  dev_flash :: 'st
  dev_started :: bool      \<comment> \<open>whether the pointer \<^verbatim>\<open>bridge\<close> is set\<close>
  dev_is_ap :: bool
  dev_last_status :: u32
  dev_draws :: nat         \<comment> \<open>random numbers drawn for packet ids\<close>
  dev_handled :: nat       \<comment> \<open>messages of the mesh handled\<close>

text \<open>The libraries and the configuration.\<close>

record 'st platform =
  pl_crypto :: crypto
  pl_nvs :: "'st nvs"
  pl_float :: float_fmt
  pl_forward :: forward_config

text \<open>
  What the platform answers during one turn: the time, the state of the socket and the bytes it has, random numbers,
  the free heap as read in each handler, the radio, and what happens when the client connects.
\<close>

record fw_env =
  fe_now :: u32
  fe_link :: bool
  fe_bytes :: bytes
  fe_rnd :: "nat \<Rightarrow> u32"
  fe_heap :: "nat \<Rightarrow> nat \<Rightarrow> u32"
  fe_heap_check :: "nat \<Rightarrow> u32"
  fe_radio :: ble_env
  fe_query :: "bytes \<Rightarrow> u32"
  fe_open_ip :: "u32 \<Rightarrow> bool"
  fe_open_host :: "bytes \<Rightarrow> bool"
  fe_nonce :: u32
  fe_start :: u32
  fe_turns :: "(u32 \<times> u8 option) list"
  fe_link_failed :: bool
  fe_link_drain :: bool

datatype fw_out = To_mesh tcp_out | To_air ble_out | Status_line bool bool bool u32

abbreviation radio_env :: "fw_env \<Rightarrow> ble_env" where
  "radio_env env \<equiv> (fe_radio env)\<lparr>env_now := fe_now env\<rparr>"

text \<open>The client reads and sets the common clock.\<close>

definition mesh_of :: "'st device \<Rightarrow> mesh_tcp" where
  "mesh_of d = (dev_mesh d)\<lparr>wall_sec := fst (wall (dev_ble d))\<rparr>"

definition put_mesh :: "mesh_tcp \<Rightarrow> 'st device \<Rightarrow> 'st device" where
  "put_mesh c d = d\<lparr>dev_mesh := c,
     dev_ble := (if wall_sec c = fst (wall (dev_ble d)) then dev_ble d else (dev_ble d)\<lparr>wall := (wall_sec c, 0)\<rparr>)\<rparr>"

text \<open>A call of the bridge, carried out; destination and channel of a text are the defaults of the interface.\<close>

definition perform :: "'st platform \<Rightarrow> fw_env \<Rightarrow> 'st device \<Rightarrow> bridge_out \<Rightarrow> 'st device \<times> fw_out list" where
  "perform pl env d call =
     (case call of
        Bc_send_text t \<Rightarrow>
          (let (b, outs, _) = ble_send_text (pl_crypto pl) (radio_env env) t (dev_ble d)
           in (d\<lparr>dev_ble := b\<rparr>, map To_air outs))
      | Bc_send_text_as t kp \<Rightarrow>
          (let (b, outs, _) = send_text_as (pl_crypto pl) (radio_env env) t (Some kp) (dev_ble d)
           in (d\<lparr>dev_ble := b\<rparr>, map To_air outs))
      | Bc_announce_virtual kp name \<Rightarrow>
          (let (b, outs) = announce_virtual (pl_crypto pl) (radio_env env) (Some kp) name (dev_ble d)
           in (d\<lparr>dev_ble := b\<rparr>, map To_air outs))
      | Mesh_send_text t \<Rightarrow>
          (let (c, outs, _) = send_text (fe_link env) (fe_rnd env (dev_draws d)) (dev_mesh d) t MESH_BROADCAST 0
           in (d\<lparr>dev_mesh := c, dev_draws := dev_draws d + 1\<rparr>, map To_mesh outs))
      | Mesh_send_node_info num long short \<Rightarrow>
          (let (c, _) = send_node_info (dev_mesh d) num (Some long) (Some short) in (d\<lparr>dev_mesh := c\<rparr>, []))
      | Bc_begin \<Rightarrow> (d, [])
      | Mesh_connect \<Rightarrow> (d, []))"

text \<open>The callbacks.\<close>

definition hear_mesh :: "'st platform \<Rightarrow> fw_env \<Rightarrow> 'st device \<Rightarrow> bridge_message \<Rightarrow> 'st device \<times> fw_out list" where
  "hear_mesh pl env d m =
     (let ((s, st), calls) = on_meshtastic_message (pl_crypto pl) (pl_nvs pl) (fe_heap env (dev_handled d)) (fe_now env)
            (dev_bridge d, dev_flash d) m
      in run_all (perform pl env) (d\<lparr>dev_bridge := s, dev_flash := st, dev_handled := dev_handled d + 1\<rparr>) calls)"

definition hear_bitchat :: "'st platform \<Rightarrow> fw_env \<Rightarrow> 'st device \<Rightarrow> bridge_message \<Rightarrow> 'st device \<times> fw_out list" where
  "hear_bitchat pl env d m =
     (let ((s, st), calls) = on_bitchat_message (pl_nvs pl) (fe_now env) (dev_bridge d, dev_flash d) m
      in run_all (perform pl env) (d\<lparr>dev_bridge := s, dev_flash := st\<rparr>) calls)"

definition mesh_emits :: "'st platform \<Rightarrow> fw_env \<Rightarrow> 'st device \<Rightarrow> tcp_out \<Rightarrow> 'st device \<times> fw_out list" where
  "mesh_emits pl env d out = (case out of Deliver m \<Rightarrow> hear_mesh pl env d m | _ \<Rightarrow> (d, [To_mesh out]))"

definition ble_emits :: "'st platform \<Rightarrow> fw_env \<Rightarrow> 'st device \<Rightarrow> ble_out \<Rightarrow> 'st device \<times> fw_out list" where
  "ble_emits pl env d out = (case out of Deliver_message m \<Rightarrow> hear_bitchat pl env d m | _ \<Rightarrow> (d, [To_air out]))"

section \<open>A turn of the loop\<close>

text \<open>\<^verbatim>\<open>_mesh.loop()\<close>, with the callback inside: every byte is processed and what it completes is handled.\<close>

fun mesh_bytes :: "'st platform \<Rightarrow> fw_env \<Rightarrow> 'st device \<Rightarrow> bytes \<Rightarrow> ('st device \<times> fw_out list) run" where
  "mesh_bytes pl env d [] = Some (Inr (d, []))"
| "mesh_bytes pl env d (b # bs) =
     run_bind (process_byte (pl_float pl) (pl_forward pl) (fe_now env) (mesh_of d) b) (\<lambda>(c, outs).
       let (d, o1) = run_all (mesh_emits pl env) (put_mesh c d) outs
       in run_bind (mesh_bytes pl env d bs) (\<lambda>(d, o2). Some (Inr (d, o1 @ o2))))"

definition mesh_turn :: "'st platform \<Rightarrow> fw_env \<Rightarrow> 'st device \<Rightarrow> ('st device \<times> fw_out list) run" where
  "mesh_turn pl env d =
     (if \<not> connected (dev_mesh d) then Some (Inr (d, []))
      else if \<not> fe_link env then
        Some (Inr (d\<lparr>dev_mesh := (dev_mesh d)\<lparr>connected := False, config_complete := False, rx_state := WAIT_START1, rx_buf := []\<rparr>\<rparr>, []))
      else
        run_bind (mesh_bytes pl env d (fe_bytes env)) (\<lambda>(d, o1).
          let (c, hb) = heartbeat_step (fe_now env) (dev_mesh d);
              (c, ni) = nodeinfo_step (fe_link env) (fe_rnd env (dev_draws d)) (fe_now env) c
          in Some (Inr (d\<lparr>dev_mesh := c, dev_draws := dev_draws d + 1\<rparr>, o1 @ map To_mesh (hb @ ni)))))"

text \<open>
  \<^verbatim>\<open>_bitchat.loop()\<close>: the bridge answers a message of Bitchat on the mesh side only, so that
  what the loop emits is handled after it without a difference to the BLE state.
\<close>

definition ble_turn :: "'st platform \<Rightarrow> fw_env \<Rightarrow> 'st device \<Rightarrow> ('st device \<times> fw_out list) run" where
  "ble_turn pl env d =
     run_bind (ble_loop (pl_crypto pl) (radio_env env) (dev_ble d)) (\<lambda>(b, outs).
       Some (Inr (run_all (ble_emits pl env) (d\<lparr>dev_ble := b\<rparr>) outs)))"

text \<open>A step of the bridge of its own, and what it calls.\<close>

definition bridge_turn ::
  "'st platform \<Rightarrow> fw_env \<Rightarrow> (bridge \<times> 'st \<Rightarrow> (bridge \<times> 'st) \<times> bridge_out list) \<Rightarrow> 'st device \<Rightarrow> 'st device \<times> fw_out list" where
  "bridge_turn pl env f d =
     (let ((s, st), calls) = f (dev_bridge d, dev_flash d)
      in run_all (perform pl env) (d\<lparr>dev_bridge := s, dev_flash := st\<rparr>) calls)"

definition mesh_connect :: "'st platform \<Rightarrow> fw_env \<Rightarrow> 'st device \<Rightarrow> ('st device \<times> fw_out list \<times> bool) run" where
  "mesh_connect pl env d =
     run_bind (tcp_connect (pl_float pl) (pl_forward pl) (fe_query env) (fe_open_ip env) (fe_open_host env) MESHTASTIC_HOST
                 (fe_link_failed env) (fe_nonce env) (fe_start env) (fe_now env) (mesh_of d) (fe_turns env)) (\<lambda>(c, outs, ok).
       let (d, o1) = run_all (mesh_emits pl env) (put_mesh c d) outs in Some (Inr (d, o1, ok)))"

text \<open>Reconnecting: the attempt is made where the bridge makes it, and its result is the answer the bridge gets.\<close>

definition retry_due :: "fw_env \<Rightarrow> 'st device \<Rightarrow> bool" where
  "retry_due env d \<longleftrightarrow> \<not> is_connected (dev_mesh d) (fe_link env) \<and>
     fe_now env - mesh_retry_ms (dev_bridge d) > mesh_retry_interval (dev_bridge d)"

definition reconnect_answers :: "fw_env \<Rightarrow> bool \<Rightarrow> bool \<Rightarrow> loop_env" where
  "reconnect_answers env was_connected ok =
     \<lparr>mesh_delivers = [], bitchat_delivers = [], heap_at_check = fe_heap_check env, connected_now = was_connected,
      connect_ok = ok, connect_delivers = [], connected_at_drain = fe_link_drain env\<rparr>"

definition reconnect_turn :: "'st platform \<Rightarrow> fw_env \<Rightarrow> 'st device \<Rightarrow> ('st device \<times> fw_out list) run" where
  "reconnect_turn pl env d =
     (let was_connected = is_connected (dev_mesh d) (fe_link env) in
      run_bind (if retry_due env d then mesh_connect pl env d else Some (Inr (d, [], False))) (\<lambda>(d, o1, ok).
        let (d, o2) = bridge_turn pl env
              (reconnect_step (pl_crypto pl) (pl_nvs pl) (reconnect_answers env was_connected ok) (fe_now env)) d
        in Some (Inr (d, o1 @ o2))))"

definition keep_flash :: "(bridge \<Rightarrow> bridge \<times> bridge_out list) \<Rightarrow> bridge \<times> 'st \<Rightarrow> (bridge \<times> 'st) \<times> bridge_out list" where
  "keep_flash f = (\<lambda>(s, st). let (s, outs) = f s in ((s, st), outs))"

definition bridge_loop_turn :: "'st platform \<Rightarrow> fw_env \<Rightarrow> 'st device \<Rightarrow> ('st device \<times> fw_out list) run" where
  "bridge_loop_turn pl env d =
     run_bind (mesh_turn pl env d) (\<lambda>(d, o1).
     run_bind (ble_turn pl env d) (\<lambda>(d, o2).
       let (d, o3) = bridge_turn pl env (keep_flash (announce_step (fe_now env))) d;
           (d, o4) = bridge_turn pl env (keep_flash (memory_step (fe_heap_check env) (fe_now env))) d
       in run_bind (reconnect_turn pl env d) (\<lambda>(d, o5).
         let (d, o6) = bridge_turn pl env
               (keep_flash (drain_pending_chunks (fe_now env) (is_connected (dev_mesh d) (fe_link_drain env)))) d
         in Some (Inr (d, o1 @ o2 @ o3 @ o4 @ o5 @ o6)))))"

text \<open>\<^verbatim>\<open>loop()\<close> of \<^verbatim>\<open>main.cpp\<close>, with its status line every thirty seconds.\<close>

definition status_report :: "fw_env \<Rightarrow> 'st device \<Rightarrow> 'st device \<times> fw_out list" where
  "status_report env d =
     (if fe_now env - dev_last_status d > 30000
      then (d\<lparr>dev_last_status := fe_now env\<rparr>,
            [Status_line (dev_is_ap d) (is_connected (dev_mesh d) (fe_link_drain env)) (ble_active (dev_ble d))
               (if dev_started d then msg_count (dev_bridge d) else 0)])
      else (d, []))"

definition fw_loop :: "'st platform \<Rightarrow> fw_env \<Rightarrow> 'st device \<Rightarrow> ('st device \<times> fw_out list) run" where
  "fw_loop pl env d =
     run_bind (if dev_started d then bridge_loop_turn pl env d else Some (Inr (d, []))) (\<lambda>(d, o1).
       let (d, o2) = status_report env d in Some (Inr (d, o1 @ o2)))"

section \<open>Start-up\<close>

definition new_device :: "'st \<Rightarrow> int \<times> int \<Rightarrow> 'st device" where
  "new_device st tv =
     \<lparr>dev_mesh = new_mesh_tcp False 0, dev_ble = new_ble\<lparr>wall := tv\<rparr>, dev_bridge = new_bridge (Some zero_keypair),
      dev_flash = st, dev_started = False, dev_is_ap = False, dev_last_status = 0, dev_draws = 0, dev_handled = 0\<rparr>"

text \<open>
  \<^verbatim>\<open>bridge->begin()\<close> with the two transports.  The master key is read through a pointer to the identity of the BLE
  transport, which \<^verbatim>\<open>begin()\<close> of the transport fills in; \<open>kst\<close> is the flash of the key pair.
\<close>

definition fw_begin ::
  "'st platform \<Rightarrow> 'k kp_nvs \<Rightarrow> bytes \<Rightarrow> bytes \<Rightarrow> fw_env \<Rightarrow> 'st device \<times> 'k \<Rightarrow> (('st device \<times> 'k) \<times> fw_out list \<times> bool) run" where
  "fw_begin pl knv rnd seed env = (\<lambda>(d, kst).
     let s = (dev_bridge d)\<lparr>id_mapper := load (pl_nvs pl) (dev_flash d) (id_mapper (dev_bridge d))\<rparr>;
         d = d\<lparr>dev_started := True, dev_bridge := s, dev_mesh := (dev_mesh d)\<lparr>on_message_set := True\<rparr>,
               dev_ble := (dev_ble d)\<lparr>ble_on_message := True\<rparr>\<rparr>;
         ((b, kst), o1, ok) = ble_begin knv (pl_crypto pl) (radio_env env) rnd seed (dev_ble d, kst);
         d = d\<lparr>dev_ble := b, dev_bridge := (dev_bridge d)\<lparr>master_kp := Some (ble_keypair b)\<rparr>\<rparr>
     in if \<not> ok then Some (Inr ((d, kst), map To_air o1, False))
        else run_bind (mesh_connect pl env d) (\<lambda>(d, o2, _). Some (Inr ((d, kst), map To_air o1 @ o2, True))))"

definition fw_setup ::
  "'st platform \<Rightarrow> 'k kp_nvs \<Rightarrow> bytes \<Rightarrow> bytes \<Rightarrow> boot_env \<Rightarrow> fw_env \<Rightarrow> 'st device \<times> 'k \<Rightarrow>
   (('st device \<times> 'k) \<times> boot_out list \<times> fw_out list \<times> bool) run" where
  "fw_setup pl knv rnd seed be env = (\<lambda>(d, kst).
     let (_, is_ap, boot) = network_setup WIFI_MODE WIFI_AP_PASSWORD be
     in run_bind (fw_begin pl knv rnd seed env (d\<lparr>dev_is_ap := is_ap\<rparr>, kst)) (\<lambda>(x, outs, ok). Some (Inr (x, boot, outs, ok))))"


section \<open>The invariant of the device\<close>

text \<open>
  The invariants of the components, and that the bridge derives its identities from the identity of the BLE transport.
\<close>

definition device_invar :: "crypto \<Rightarrow> 'st device \<Rightarrow> bool" where
  "device_invar cr d \<longleftrightarrow> tcp_invar (dev_mesh d) \<and> ble_invar (dev_ble d) \<and> bridge_invar cr (dev_bridge d) \<and>
     master_kp (dev_bridge d) = Some (ble_keypair (dev_ble d))"

lemma invar_put_mesh: "tcp_invar c \<Longrightarrow> device_invar cr d \<Longrightarrow> device_invar cr (put_mesh c d)"
  by (simp add: device_invar_def put_mesh_def invar_flags)

lemma invar_mesh_of: "device_invar cr d \<Longrightarrow> tcp_invar (mesh_of d)"
  by (simp add: device_invar_def mesh_of_def)

lemma invar_set_ble:
  "device_invar cr d \<Longrightarrow> ble_invar b \<Longrightarrow> ble_keypair b = ble_keypair (dev_ble d) \<Longrightarrow> device_invar cr (d\<lparr>dev_ble := b\<rparr>)"
  by (simp add: device_invar_def)

lemma invar_set_ble_link: "device_invar cr d \<Longrightarrow> link_step (dev_ble d) b \<Longrightarrow> device_invar cr (d\<lparr>dev_ble := b\<rparr>)"
  by (rule invar_set_ble) (auto simp: device_invar_def link_step_def intro: invar_link)

lemma invar_set_mesh: "device_invar cr d \<Longrightarrow> tcp_invar c \<Longrightarrow> device_invar cr (d\<lparr>dev_mesh := c\<rparr>)"
  by (simp add: device_invar_def)

lemma invar_counters [simp]:
  "device_invar cr (d\<lparr>dev_draws := n\<rparr>) = device_invar cr d" "device_invar cr (d\<lparr>dev_handled := n\<rparr>) = device_invar cr d"
  "device_invar cr (d\<lparr>dev_last_status := t\<rparr>) = device_invar cr d" "device_invar cr (d\<lparr>dev_flash := st\<rparr>) = device_invar cr d"
  by (simp_all add: device_invar_def)

lemma master_learn:
  "master_kp (fst (learn_mesh_sender nv now x m)) = master_kp (fst x)" "master_kp (fst (learn_ble_sender nv now x m)) = master_kp (fst x)"
  by (simp_all add: learn_mesh_sender_def learn_ble_sender_def split_beta Let_def)

lemma master_route: "master_kp (fst (route_to_bitchat cr heap now s m)) = master_kp s"
  by (auto simp: route_to_bitchat_def send_as_virtual_def send_as_bridge_def Let_def split_beta record_hash_def split: option.split)

lemma master_meshtastic: "master_kp (fst (fst (on_meshtastic_message cr nv heap now x m))) = master_kp (fst x)"
  by (cases x) (simp add: on_meshtastic_message_def Let_def split_beta master_route master_learn record_hash_def)

lemma master_chunk_hashes: "master_kp (record_chunk_hashes now s cs) = master_kp s"
  by (induction cs arbitrary: s) (simp_all add: record_hash_def)

lemma master_bitchat: "master_kp (fst (fst (on_bitchat_message nv now x m))) = master_kp (fst x)"
  by (cases x) (simp add: on_bitchat_message_def Let_def split_beta split_into_chunks_def master_chunk_hashes master_learn record_hash_def)

lemma master_steps:
  "master_kp (fst (announce_step now s)) = master_kp s" "master_kp (fst (memory_step heap now s)) = master_kp s"
  "master_kp (fst (drain_pending_chunks now c s)) = master_kp s"
  by (simp_all add: announce_step_def start_announce_cycle_def memory_step_def drain_pending_chunks_def Let_def split_beta)

lemma master_reconnect:
  "connect_delivers le = [] \<Longrightarrow> master_kp (fst (fst (reconnect_step cr nv le now x))) = master_kp (fst x)"
  by (cases x) (simp add: reconnect_step_def deliver_mesh_def Let_def)


lemma invar_perform: "device_invar cr d \<Longrightarrow> device_invar cr (fst (perform pl env d call))"
proof (cases call)
  case (Mesh_send_text t)
  then show "device_invar cr d \<Longrightarrow> ?thesis"
    by (auto simp: perform_def split_beta send_text_def Let_def device_invar_def)
next
  case (Mesh_send_node_info num l sh)
  then show "device_invar cr d \<Longrightarrow> ?thesis"
    by (auto simp: perform_def split_beta send_node_info_def device_invar_def tcp_invar_def split: option.split)
qed (auto simp: perform_def split_beta intro: invar_set_ble_link link_send_text_as link_announce_virtual link_ble_send_text)

lemma invar_perform_all: "device_invar cr d \<Longrightarrow> device_invar cr (fst (run_all (perform pl env) d calls))"
  by (rule run_all_invar [where I = "device_invar cr"]) (auto intro: invar_perform)

lemma invar_set_bridge:
  "device_invar cr d \<Longrightarrow> bridge_invar cr s \<Longrightarrow> master_kp s = master_kp (dev_bridge d) \<Longrightarrow> device_invar cr (d\<lparr>dev_bridge := s, dev_flash := st\<rparr>)"
  by (simp add: device_invar_def)

lemma invar_hear_mesh: "device_invar (pl_crypto pl) d \<Longrightarrow> device_invar (pl_crypto pl) (fst (hear_mesh pl env d m))"
proof -
  assume inv: "device_invar (pl_crypto pl) d"
  let ?r = "fst (on_meshtastic_message (pl_crypto pl) (pl_nvs pl) (fe_heap env (dev_handled d)) (fe_now env) (dev_bridge d, dev_flash d) m)"
  have "bridge_invar (pl_crypto pl) (fst ?r)" by (rule invar_on_meshtastic) (use inv in \<open>simp add: device_invar_def\<close>)
  then have "device_invar (pl_crypto pl) (d\<lparr>dev_bridge := fst ?r, dev_flash := snd ?r\<rparr>)"
    by (rule invar_set_bridge [OF inv]) (simp add: master_meshtastic)
  then show ?thesis
    by (auto simp: hear_mesh_def split_beta intro!: invar_perform_all)
qed

lemma invar_bridge_turn:
  assumes "device_invar cr d" and "\<And>x. bridge_invar cr (fst x) \<Longrightarrow> bridge_invar cr (fst (fst (f x)))"
    and "\<And>x. master_kp (fst (fst (f x))) = master_kp (fst x)"
  shows "device_invar cr (fst (bridge_turn pl env f d))"
proof -
  let ?r = "fst (f (dev_bridge d, dev_flash d))"
  have "device_invar cr (d\<lparr>dev_bridge := fst ?r, dev_flash := snd ?r\<rparr>)"
    by (rule invar_set_bridge [OF assms(1)]) (use assms in \<open>auto simp: device_invar_def\<close>)
  then show ?thesis by (auto simp: bridge_turn_def split_beta intro!: invar_perform_all)
qed

lemma hear_bitchat_turn: "hear_bitchat pl env d m = bridge_turn pl env (\<lambda>x. on_bitchat_message (pl_nvs pl) (fe_now env) x m) d"
  by (simp add: hear_bitchat_def bridge_turn_def)

lemma invar_hear_bitchat: "device_invar cr d \<Longrightarrow> device_invar cr (fst (hear_bitchat pl env d m))"
  unfolding hear_bitchat_turn by (rule invar_bridge_turn) (auto intro: invar_on_bitchat simp: master_bitchat)

lemma invar_mesh_emits: "device_invar (pl_crypto pl) d \<Longrightarrow> device_invar (pl_crypto pl) (fst (mesh_emits pl env d out))"
  by (auto simp: mesh_emits_def invar_hear_mesh split: tcp_out.split)

lemma invar_ble_emits: "device_invar cr d \<Longrightarrow> device_invar cr (fst (ble_emits pl env d out))"
  by (auto simp: ble_emits_def invar_hear_bitchat split: ble_out.split)

lemma invar_mesh_emits_all:
  "device_invar (pl_crypto pl) d \<Longrightarrow> device_invar (pl_crypto pl) (fst (run_all (mesh_emits pl env) d outs))"
  by (rule run_all_invar [where I = "device_invar (pl_crypto pl)"]) (auto intro: invar_mesh_emits)

lemma invar_mesh_bytes:
  "mesh_bytes pl env d bs = Some (Inr (d', outs)) \<Longrightarrow> device_invar (pl_crypto pl) d \<Longrightarrow> device_invar (pl_crypto pl) d'"
proof (induction pl env d bs arbitrary: d' outs rule: mesh_bytes.induct)
  case (2 pl env d b bs)
  from 2(2) obtain c o1 o2 where p: "process_byte (pl_float pl) (pl_forward pl) (fe_now env) (mesh_of d) b = Some (Inr (c, o1))"
    and r: "mesh_bytes pl env (fst (run_all (mesh_emits pl env) (put_mesh c d) o1)) bs = Some (Inr (d', o2))"
    by (auto simp: run_bind_def split_beta Let_def split: option.splits sum.splits)
  have "device_invar (pl_crypto pl) (put_mesh c d)"
    using process_byte_invar [OF p] 2(3) by (simp add: invar_put_mesh invar_mesh_of)
  then have "device_invar (pl_crypto pl) (fst (run_all (mesh_emits pl env) (put_mesh c d) o1))"
    by (rule invar_mesh_emits_all)
  with 2(1) [OF _ prod.collapse r] show ?case by (simp add: prod.collapse)
qed simp

lemma run_bind_Inr: "run_bind m k = Some (Inr y) \<longleftrightarrow> (\<exists>a. m = Some (Inr a) \<and> k a = Some (Inr y))"
  by (auto simp: run_bind_def split: option.split sum.split)

lemma invar_mesh_turn:
  assumes "mesh_turn pl env d = Some (Inr (d', outs))" and inv: "device_invar (pl_crypto pl) d"
  shows "device_invar (pl_crypto pl) d'"
proof -
  consider "d' = d"
    | "d' = d\<lparr>dev_mesh := (dev_mesh d)\<lparr>connected := False, config_complete := False, rx_state := WAIT_START1, rx_buf := []\<rparr>\<rparr>"
    | d1 o1 where "mesh_bytes pl env d (fe_bytes env) = Some (Inr (d1, o1))"
        "d' = d1\<lparr>dev_mesh := fst (nodeinfo_step (fe_link env) (fe_rnd env (dev_draws d1)) (fe_now env) (fst (heartbeat_step (fe_now env) (dev_mesh d1)))),
                 dev_draws := dev_draws d1 + 1\<rparr>"
    using assms(1) by (auto simp: mesh_turn_def run_bind_Inr Let_def split_beta split: if_splits)
  then show ?thesis
  proof cases
    case 2
    then show ?thesis using inv by (auto simp: device_invar_def intro: tcp_invar_reset)
  next
    case (3 d1 o1)
    have "device_invar (pl_crypto pl) d1" by (rule invar_mesh_bytes [OF 3(1) inv])
    then show ?thesis unfolding 3(2) invar_counters
      by (auto simp: device_invar_def intro: nodeinfo_step_invar heartbeat_step_invar)
  qed (use inv in simp)
qed

lemma invar_ble_turn:
  assumes "ble_turn pl env d = Some (Inr (d', outs))" and inv: "device_invar cr d"
  shows "device_invar cr d'"
proof -
  obtain b o1 where b: "ble_loop (pl_crypto pl) (radio_env env) (dev_ble d) = Some (Inr (b, o1))"
    and d': "d' = fst (run_all (ble_emits pl env) (d\<lparr>dev_ble := b\<rparr>) o1)"
    using assms(1) by (auto simp: ble_turn_def run_bind_Inr)
  have "device_invar cr (d\<lparr>dev_ble := b\<rparr>)"
    using inv ble_invar_loop [OF _ b] key_loop [OF _ b] by (auto simp: device_invar_def)
  then show ?thesis unfolding d'
    by (rule run_all_invar [where I = "device_invar cr", rotated]) (rule invar_ble_emits)
qed

lemma invar_mesh_connect:
  assumes "mesh_connect pl env d = Some (Inr (d', outs, ok))" and inv: "device_invar (pl_crypto pl) d"
  shows "device_invar (pl_crypto pl) d'"
proof -
  obtain c o1 where c: "tcp_connect (pl_float pl) (pl_forward pl) (fe_query env) (fe_open_ip env) (fe_open_host env) MESHTASTIC_HOST
      (fe_link_failed env) (fe_nonce env) (fe_start env) (fe_now env) (mesh_of d) (fe_turns env) = Some (Inr (c, o1, ok))"
    and d': "d' = fst (run_all (mesh_emits pl env) (put_mesh c d) o1)"
    using assms(1) by (auto simp: mesh_connect_def run_bind_Inr split_beta Let_def)
  have "tcp_invar c" by (rule tcp_connect_invar [OF c invar_mesh_of [OF inv]])
  then show ?thesis unfolding d' by (intro invar_mesh_emits_all invar_put_mesh inv)
qed

lemma invar_keep_flash:
  assumes "device_invar cr d" and "\<And>s. bridge_invar cr s \<Longrightarrow> bridge_invar cr (fst (f s))" and "\<And>s. master_kp (fst (f s)) = master_kp s"
  shows "device_invar cr (fst (bridge_turn pl env (keep_flash f) d))"
  by (rule invar_bridge_turn [OF assms(1)]) (auto simp: keep_flash_def split_beta assms)

lemma invar_reconnect_turn:
  assumes "reconnect_turn pl env d = Some (Inr (d', outs))" and inv: "device_invar (pl_crypto pl) d"
  shows "device_invar (pl_crypto pl) d'"
proof -
  obtain d1 o1 ok where c: "(if retry_due env d then mesh_connect pl env d else Some (Inr (d, [], False))) = Some (Inr (d1, o1, ok))"
    and d': "d' = fst (bridge_turn pl env (reconnect_step (pl_crypto pl) (pl_nvs pl)
        (reconnect_answers env (is_connected (dev_mesh d) (fe_link env)) ok) (fe_now env)) d1)"
    using assms(1) by (auto simp: reconnect_turn_def run_bind_Inr split_beta Let_def)
  have "device_invar (pl_crypto pl) d1" using c inv invar_mesh_connect by (auto split: if_splits)
  then show ?thesis unfolding d'
    by (rule invar_bridge_turn) (auto intro: invar_reconnect simp: master_reconnect reconnect_answers_def)
qed

lemma invar_bridge_loop_turn:
  assumes "bridge_loop_turn pl env d = Some (Inr (d', outs))" and inv: "device_invar (pl_crypto pl) d"
  shows "device_invar (pl_crypto pl) d'"
proof -
  let ?step = "\<lambda>f. fst \<circ> bridge_turn pl env (keep_flash f)"
  obtain d1 o1 d2 o2 d3 o3 where 1: "mesh_turn pl env d = Some (Inr (d1, o1))" and 2: "ble_turn pl env d1 = Some (Inr (d2, o2))"
    and 3: "reconnect_turn pl env (?step (memory_step (fe_heap_check env) (fe_now env)) (?step (announce_step (fe_now env)) d2)) = Some (Inr (d3, o3))"
    and 4: "d' = ?step (drain_pending_chunks (fe_now env) (is_connected (dev_mesh d3) (fe_link_drain env))) d3"
    using assms(1) by (auto simp: bridge_loop_turn_def run_bind_Inr split_beta Let_def)
  have "device_invar (pl_crypto pl) d2" using invar_mesh_turn [OF 1 inv] invar_ble_turn [OF 2] by blast
  then have "device_invar (pl_crypto pl) (?step (memory_step (fe_heap_check env) (fe_now env)) (?step (announce_step (fe_now env)) d2))"
    by (auto intro!: invar_keep_flash intro: invar_announce_step invar_memory_step simp: master_steps)
  then have "device_invar (pl_crypto pl) d3" by (rule invar_reconnect_turn [OF 3])
  then show ?thesis unfolding 4 by (auto intro!: invar_keep_flash intro: invar_drain simp: master_steps)
qed

lemma invar_fw_loop:
  assumes "fw_loop pl env d = Some (Inr (d', outs))" and inv: "device_invar (pl_crypto pl) d"
  shows "device_invar (pl_crypto pl) d'"
proof -
  obtain d1 o1 where 1: "(if dev_started d then bridge_loop_turn pl env d else Some (Inr (d, []))) = Some (Inr (d1, o1))"
    and 2: "d' = fst (status_report env d1)"
    using assms(1) by (auto simp: fw_loop_def run_bind_Inr split_beta Let_def)
  have "device_invar (pl_crypto pl) d1" using 1 inv invar_bridge_loop_turn by (auto split: if_splits)
  then show ?thesis by (simp add: 2 status_report_def)
qed

text \<open>Starting up, from the state of the global objects.\<close>

lemma invar_new_device: "device_invar cr (new_device st tv)"
  using invar_flags(2) [OF ble_invar_new] invar_new [of cr "Some zero_keypair"] tcp_reachable_invar [OF tcp_reachable.init]
  by (simp add: device_invar_def new_device_def) (simp add: new_bridge_def new_ble_def)

lemma bridge_invar_rekey:
  "bridge_invar cr s \<Longrightarrow> virt_registry s = [] \<Longrightarrow> bridge_invar cr (s\<lparr>master_kp := Some kp\<rparr>)"
  by (simp add: bridge_invar_defs registry_invar_def)

lemma invar_fw_begin:
  assumes "fw_begin pl knv rnd seed env (d, kst) = Some (Inr ((d', kst'), outs, ok))"
    and inv: "device_invar (pl_crypto pl) d" and fresh: "virt_registry (dev_bridge d) = []"
  shows "device_invar (pl_crypto pl) d'"
proof -
  let ?b = "(dev_ble d)\<lparr>ble_on_message := True\<rparr>"
  obtain b k o1 ok1 where b: "ble_begin knv (pl_crypto pl) (radio_env env) rnd seed (?b, kst) = ((b, k), o1, ok1)"
    by (metis prod.exhaust)
  define d1 where "d1 = d\<lparr>dev_started := True, dev_mesh := (dev_mesh d)\<lparr>on_message_set := True\<rparr>, dev_ble := b,
     dev_bridge := (dev_bridge d)\<lparr>id_mapper := load (pl_nvs pl) (dev_flash d) (id_mapper (dev_bridge d)), master_kp := Some (ble_keypair b)\<rparr>\<rparr>"
  have "ble_invar b"
    using invar_step [OF invar_flags(1) step_begin [OF b]] inv by (simp add: device_invar_def)
  moreover have "bridge_invar (pl_crypto pl) (dev_bridge d1)"
    using inv fresh invar_frame(1) [of "pl_crypto pl" "dev_bridge d"] bridge_invar_rekey by (simp add: d1_def device_invar_def)
  ultimately have d1: "device_invar (pl_crypto pl) d1"
    using inv by (simp add: d1_def device_invar_def tcp_invar_def)
  have "d' = d1 \<or> (\<exists>o2 ok2. mesh_connect pl env d1 = Some (Inr (d', o2, ok2)))"
    using assms(1) b by (auto simp: fw_begin_def Let_def run_bind_Inr d1_def split: if_splits)
  then show ?thesis using d1 invar_mesh_connect by blast
qed

lemma invar_fw_setup:
  assumes "fw_setup pl knv rnd seed be env (new_device st tv, kst) = Some (Inr ((d, kst'), boot, outs, ok))"
  shows "device_invar (pl_crypto pl) d"
proof -
  obtain is_ap o1 ok1 where "fw_begin pl knv rnd seed env ((new_device st tv)\<lparr>dev_is_ap := is_ap\<rparr>, kst) = Some (Inr ((d, kst'), o1, ok1))"
    using assms by (auto simp: fw_setup_def run_bind_Inr split_beta Let_def)
  then show ?thesis
    by (rule invar_fw_begin) (use invar_new_device [of "pl_crypto pl" st tv] in \<open>simp_all add: device_invar_def new_device_def new_bridge_def\<close>)
qed

text \<open>What the BLE stack does between and during turns.  A new connection gets a handle that no live one has.\<close>

inductive radio_event :: "crypto \<Rightarrow> ble \<Rightarrow> ble_out list \<Rightarrow> ble \<Rightarrow> bool" for cr where
  received: "radio_event cr s [] (put_rx s data conn)"
| joined: "find_peer s handle = None \<Longrightarrow> server_on_connect cr env s handle addr = (s', outs) \<Longrightarrow> radio_event cr s outs s'"
| left: "server_on_disconnect s handle = (s', outs) \<Longrightarrow> radio_event cr s outs s'"
| peripheral_left: "on_disconnect s handle = (s', outs) \<Longrightarrow> radio_event cr s outs s'"
| scanned: "(\<And>handle notify. answer = Connected handle notify \<Longrightarrow> find_peer s handle = None) \<Longrightarrow>
    on_scan_result cr env s advertises rssi addr answer = (s', outs) \<Longrightarrow> radio_event cr s outs s'"
| scan_ended: "scan_complete s = (s', outs) \<Longrightarrow> radio_event cr s outs s'"

lemma key_on_connect: "ble_keypair (fst (on_connect cr env s h addr c)) = ble_keypair s"
  using key_link [OF link_send_announce]
  by (auto simp: on_connect_def alloc_peer_def set_peer_def split: option.split)

lemma key_connect_to: "ble_keypair (fst (connect_to_peripheral cr env s addr answer)) = ble_keypair s"
  using key_on_connect [of cr env s _ addr True]
  by (auto simp: connect_to_peripheral_def set_peer_def Let_def split_beta split: connect_answer.split option.split)

lemma radio_event_key: "radio_event cr s outs s' \<Longrightarrow> ble_keypair s' = ble_keypair s"
proof (induction rule: radio_event.induct)
  case (joined s handle env addr s' outs)
  then show ?case using key_on_connect [of cr env s handle addr False] by (auto simp: server_on_connect_def split_beta)
next
  case (left s handle s' outs)
  then show ?case using key_free_peer [of s handle] by (auto simp: server_on_disconnect_def on_disconnect_def split_beta)
next
  case (peripheral_left s handle s' outs)
  then show ?case using key_free_peer [of s handle] by (simp add: on_disconnect_def)
next
  case (scanned answer s env advertises rssi addr s' outs)
  then show ?case using key_connect_to [of cr env "s\<lparr>ble_scanning := False\<rparr>" addr answer]
    by (auto simp: on_scan_result_def Let_def split_beta split: if_splits)
qed (auto simp: put_rx_def scan_complete_def)

lemma radio_event_invar: "radio_event cr s outs s' \<Longrightarrow> ble_invar s \<Longrightarrow> ble_invar s'"
  by (induction rule: radio_event.induct)
    (blast intro: invar_step [where nv = cell_kp_nvs] ble_step.intros)+

text \<open>The device from power-on: \<^verbatim>\<open>setup()\<close>, then turns of \<^verbatim>\<open>loop()\<close>, radio events and the passage of time.\<close>

inductive device_reachable :: "'st platform \<Rightarrow> 'k kp_nvs \<Rightarrow> 'st device \<Rightarrow> bool" for pl knv where
  booted: "fw_setup pl knv rnd seed be env (new_device st tv, kst) = Some (Inr ((d, kst'), boot, outs, ok)) \<Longrightarrow> device_reachable pl knv d"
| looped: "device_reachable pl knv d \<Longrightarrow> fw_loop pl env d = Some (Inr (d', outs)) \<Longrightarrow> device_reachable pl knv d'"
| radio: "device_reachable pl knv d \<Longrightarrow> radio_event (pl_crypto pl) (dev_ble d) outs b \<Longrightarrow> device_reachable pl knv (d\<lparr>dev_ble := b\<rparr>)"
| clock: "device_reachable pl knv d \<Longrightarrow> device_reachable pl knv (d\<lparr>dev_ble := (dev_ble d)\<lparr>wall := tv\<rparr>\<rparr>)"

lemma device_reachable_invar: "device_reachable pl knv d \<Longrightarrow> device_invar (pl_crypto pl) d"
proof (induction rule: device_reachable.induct)
  case (booted rnd seed be env st tv kst d kst' boot outs ok)
  then show ?case by (rule invar_fw_setup)
next
  case (looped d env d' outs)
  then show ?case using invar_fw_loop by blast
next
  case (radio d outs b)
  then show ?case using radio_event_invar radio_event_key by (auto simp: device_invar_def)
next
  case (clock d tv)
  then show ?case using invar_flags(2) by (auto simp: device_invar_def)
qed


section \<open>An example\<close>

text \<open>A node that refuses the connection: start-up returns all the same, whatever the BLE transport answers.\<close>

lemma refused_setup_returns:
  assumes "fe_open_ip env = (\<lambda>_. False)" and "fe_open_host env = (\<lambda>_. False)"
  shows "\<exists>d kst' boot outs ok. fw_setup pl knv rnd seed be env (d0, kst) = Some (Inr ((d, kst'), boot, outs, ok))"
proof -
  have "mesh_connect pl env d = Some (Inr (put_mesh (mesh_of d) d, [], False))" for d
    using assms by (simp add: mesh_connect_def tcp_connect_def split: option.split)
  then have "\<exists>d kst' outs ok. fw_begin pl knv rnd seed env (d1, kst) = Some (Inr ((d, kst'), outs, ok))" for d1
    by (auto simp: fw_begin_def Let_def split_beta split: prod.split)
  then obtain d kst' outs ok where
    "fw_begin pl knv rnd seed env (d0\<lparr>dev_is_ap := fst (snd (network_setup WIFI_MODE WIFI_AP_PASSWORD be))\<rparr>, kst) =
      Some (Inr ((d, kst'), outs, ok))"
    by blast
  then show ?thesis by (simp add: fw_setup_def split_beta Let_def)
qed

definition example_platform :: "crypto \<Rightarrow> (mesh_entry list \<times> u8 \<times> ble_entry list \<times> u8) platform" where
  "example_platform cr = \<lparr>pl_crypto = cr, pl_nvs = cell_nvs, pl_float = int_fmt, pl_forward = default_forward\<rparr>"

definition example_turn :: fw_env where
  "example_turn = \<lparr>fe_now = 100000, fe_link = True, fe_bytes = [], fe_rnd = (\<lambda>_. 0), fe_heap = (\<lambda>_ _. 50000), fe_heap_check = (\<lambda>_. 50000),
     fe_radio = quiet_env, fe_query = (\<lambda>_. 0), fe_open_ip = (\<lambda>_. False), fe_open_host = (\<lambda>_. False), fe_nonce = 0, fe_start = 0,
     fe_turns = [], fe_link_failed = False, fe_link_drain = True\<rparr>"


end
