(* ===== verification/Firmware_Delivery.thy ===== *)
theory Firmware_Delivery
  imports Firmware
begin

text \<open>
  What one turn of the main loop of the whole device does with a text: from a frame of the radio's node to the packets on the
  air, and from a packet in the receive ring to a frame for the node.
\<close>

section \<open>Frames through the device\<close>

lemma mesh_of_put: "wall_sec c = fst (wall (dev_ble d)) \<Longrightarrow> put_mesh c d = d\<lparr>dev_mesh := c\<rparr>"
  by (simp add: put_mesh_def)

lemma mesh_of_clock: "wall_sec c = fst (wall (dev_ble d)) \<Longrightarrow> mesh_of (d\<lparr>dev_mesh := c\<rparr>) = c"
  by (simp add: mesh_of_def)

text \<open>After a frame: what its handler emits is handled, then the rest of the stream is read.\<close>

definition then_emit :: "'st platform \<Rightarrow> fw_env \<Rightarrow> 'st device \<Rightarrow> bytes \<Rightarrow> mesh_tcp \<times> tcp_out list \<Rightarrow> ('st device \<times> fw_out list) run" where
  "then_emit pl env d rest = (\<lambda>(c, outs).
     let (d, o1) = run_all (mesh_emits pl env) (put_mesh (c\<lparr>rx_state := WAIT_START1\<rparr>) d) outs
     in run_bind (mesh_bytes pl env d rest) (\<lambda>(d, o2). Some (Inr (d, o1 @ o2))))"

lemma mesh_payload:
  assumes "rx_state c = READ_PAYLOAD" and "unat (rx_payload_len c) = length (rx_buf c) + length p" and "p \<noteq> []"
    and "wall_sec c = fst (wall (dev_ble d))"
  shows "mesh_bytes pl env (d\<lparr>dev_mesh := c\<rparr>) (p @ rest) =
    run_bind (handle_from_radio (pl_float pl) (pl_forward pl) (fe_now env) (c\<lparr>rx_buf := rx_buf c @ p\<rparr>) (rx_buf c @ p)
      (int (length (rx_buf c @ p)))) (then_emit pl env d rest)"
  using assms
proof (induction p arbitrary: c)
  case (Cons b p)
  have put: "put_mesh c' (d\<lparr>dev_mesh := c\<rparr>) = put_mesh c' d" for c' by (simp add: put_mesh_def)
  show ?case
  proof (cases p)
    case Nil
    with Cons.prems show ?thesis
      by (simp add: mesh_of_clock process_byte_def Let_def run_bind_assoc then_emit_def split_def put)
  next
    case (Cons x q)
    with Cons.prems Cons.IH [of "c\<lparr>rx_buf := rx_buf c @ [b]\<rparr>"] show ?thesis
      by (simp add: mesh_of_clock process_byte_def Let_def put mesh_of_put run_bind_def split: option.split sum.split)
  qed
qed simp

lemma mesh_frame:
  assumes "rx_state (dev_mesh d) = WAIT_START1" and "1 \<le> length p" and "length p \<le> MESH_MAX_PAYLOAD"
  shows "mesh_bytes pl env d (wire (send_raw p) @ rest) =
    run_bind (handle_from_radio (pl_float pl) (pl_forward pl) (fe_now env)
        ((mesh_of d)\<lparr>rx_payload_len := of_nat (length p), rx_state := READ_PAYLOAD, rx_buf := p\<rparr>) p (int (length p)))
      (then_emit pl env d rest)"
proof -
  let ?c = "(mesh_of d)\<lparr>rx_payload_len := of_nat (length p), rx_buf := [], rx_state := READ_PAYLOAD\<rparr>"
  have n: "unat (of_nat (length p) :: u16) = length p"
    using assms(3) by (simp add: unat_of_nat MESH_MAX_PAYLOAD_def take_bit_nat_eq_self)
  have w: "wall_sec (mesh_of d) = fst (wall (dev_ble d))" "rx_state (mesh_of d) = WAIT_START1"
    using assms(1) by (simp_all add: mesh_of_def)
  have put: "put_mesh c' (d\<lparr>dev_mesh := c\<rparr>) = put_mesh c' d" for c c' by (simp add: put_mesh_def)
  have "mesh_bytes pl env d (wire (send_raw p) @ rest) = mesh_bytes pl env (d\<lparr>dev_mesh := ?c\<rparr>) (p @ rest)"
    using assms w by (simp add: wire_send_raw MESH_MAX_PAYLOAD_def process_byte_def u16_of_bytes n mesh_of_clock mesh_of_put put
        run_bind_def split_def split: option.split sum.split)
  also have "\<dots> = run_bind (handle_from_radio (pl_float pl) (pl_forward pl) (fe_now env) (?c\<lparr>rx_buf := p\<rparr>) p (int (length p)))
      (then_emit pl env d rest)"
    using mesh_payload [of ?c p d pl env rest] assms(2) n w by (cases p) simp_all
  finally show ?thesis by simp
qed

section \<open>What the bridge's calls leave alone\<close>

text \<open>What decides where a packet goes and what its time stamp is; and the receive ring.\<close>

definition same_air :: "ble \<Rightarrow> ble \<Rightarrow> bool" where
  "same_air a b \<longleftrightarrow> ble_peers b = ble_peers a \<and> wall b = wall a \<and> ble_active b = ble_active a \<and> ble_server b = ble_server a \<and>
     ble_msg_char b = ble_msg_char a \<and> ble_rx b = ble_rx a"

lemma same_air_refl [simp]: "same_air a a"
  by (simp add: same_air_def)

lemma same_air_trans: "same_air a b \<Longrightarrow> same_air b c \<Longrightarrow> same_air a c"
  by (simp add: same_air_def)

lemma same_air_drew: "drew_random a b \<Longrightarrow> same_air a b"
  by (simp add: same_air_def drewD)

lemma same_air_broadcast: "same_air a (fst (broadcast cr env n packet a))"
proof -
  have "same_air a (relay_record a now h)" for now h by (simp add: same_air_def relay_record_def)
  then show ?thesis
    by (auto simp: broadcast_def Let_def intro: same_air_trans [OF _ same_air_drew [OF send_to_peers_drew]])
qed

lemma perform_air: "(\<And>t. call \<noteq> Bc_send_text t) \<Longrightarrow> same_air (dev_ble d) (dev_ble (fst (perform pl env d call)))"
  by (cases call) (auto simp: perform_def split_beta send_text_as_def announce_virtual_def Let_def same_air_broadcast split: option.split)

text \<open>The connection to the radio's node.\<close>

definition online :: "mesh_tcp \<Rightarrow> bool" where
  "online c \<longleftrightarrow> connected c \<and> config_complete c"

lemma perform_online: "online (dev_mesh (fst (perform pl env d call))) = online (dev_mesh d)"
  by (cases call) (auto simp: perform_def split_beta send_text_def send_node_info_def online_def Let_def split: option.split)

lemma perform_all_frame:
  "(\<forall>t. Bc_send_text t \<notin> set calls) \<Longrightarrow> same_air (dev_ble d) (dev_ble (fst (run_all (perform pl env) d calls)))"
  "online (dev_mesh (fst (run_all (perform pl env) d calls))) = online (dev_mesh d)"
  "dev_started (fst (run_all (perform pl env) d calls)) = dev_started d"
  "dev_bridge (fst (run_all (perform pl env) d calls)) = dev_bridge d"
proof -
  have started: "dev_started (fst (perform pl env d' call)) = dev_started d'" and bridge: "dev_bridge (fst (perform pl env d' call)) = dev_bridge d'" for d' call
    by (cases call; simp add: perform_def split_beta)+
  show "(\<forall>t. Bc_send_text t \<notin> set calls) \<Longrightarrow> same_air (dev_ble d) (dev_ble (fst (run_all (perform pl env) d calls)))"
  proof (induction calls arbitrary: d)
    case (Cons call calls)
    then have "same_air (dev_ble d) (dev_ble (fst (perform pl env d call)))" by (intro perform_air) auto
    with Cons show ?case by (auto simp: split_beta intro: same_air_trans)
  qed simp
  show "online (dev_mesh (fst (run_all (perform pl env) d calls))) = online (dev_mesh d)"
    by (rule run_all_invar [where I = "\<lambda>d'. online (dev_mesh d') = online (dev_mesh d)"]) (simp_all add: perform_online)
  show "dev_started (fst (run_all (perform pl env) d calls)) = dev_started d"
    by (rule run_all_invar [where I = "\<lambda>d'. dev_started d' = dev_started d"]) (simp_all add: started)
  show "dev_bridge (fst (run_all (perform pl env) d calls)) = dev_bridge d"
    by (rule run_all_invar [where I = "\<lambda>d'. dev_bridge d' = dev_bridge d"]) (simp_all add: bridge)
qed

lemma run_all_append: "run_all f x (xs @ ys) = (let (x, o1) = run_all f x xs; (x, o2) = run_all f x ys in (x, o1 @ o2))"
  by (induction xs arbitrary: x) (simp_all add: split_beta Let_def)

text \<open>The utterance at the end of the calls is on the air, from the state before them.\<close>

lemma spoken_on_air:
  assumes calls: "calls = before @ [Bc_send_text_as t kp]" "\<forall>t. Bc_send_text t \<notin> set before"
    and kp: "length (fingerprint kp) = 32" and what: "length t \<le> 167"
    and a: "ble_active (dev_ble d)" "list_all (\<lambda>p. 256 \<le> peer_mtu (radio_env env) (dev_ble d) p) (filter p_active (ble_peers (dev_ble d)))"
  shows "\<exists>d' o1. run_all (perform pl env) d calls = (d', o1 @ map To_air (concat (map (\<lambda>p. transmit (dev_ble d) p
      (text_packet (pl_crypto pl) kp (epoch_ms (radio_env env) (dev_ble d)) t)) (filter p_active (ble_peers (dev_ble d))))))"
proof -
  obtain d1 o1 where d1: "run_all (perform pl env) d before = (d1, o1)" by fastforce
  have same: "same_air (dev_ble d) (dev_ble d1)" using perform_all_frame(1) [OF calls(2), of d pl env] by (simp add: d1)
  have eqs: "transmit (dev_ble d1) = transmit (dev_ble d)" "peer_mtu e (dev_ble d1) = peer_mtu e (dev_ble d)" for e
    by (rule transmit_cong, use same in \<open>simp add: same_air_def\<close>) (rule peer_mtu_cong, use same in \<open>simp add: same_air_def\<close>)
  have "ble_active (dev_ble d1)" "list_all (\<lambda>p. 256 \<le> peer_mtu (radio_env env) (dev_ble d1) p) (filter p_active (ble_peers (dev_ble d1)))"
    using a same eqs by (simp_all add: same_air_def)
  from text_sent [OF kp what this, of "pl_crypto pl"]
  obtain a' ok where "send_text_as (pl_crypto pl) (radio_env env) t (Some kp) (dev_ble d1) = (a', concat (map (\<lambda>p. transmit (dev_ble d1) p
      (text_packet (pl_crypto pl) kp (epoch_ms (radio_env env) (dev_ble d1)) t)) (filter p_active (ble_peers (dev_ble d1)))), ok)"
    by blast
  then have "run_all (perform pl env) d calls = (d1\<lparr>dev_ble := a'\<rparr>, o1 @ map To_air (concat (map (\<lambda>p. transmit (dev_ble d1) p
      (text_packet (pl_crypto pl) kp (epoch_ms (radio_env env) (dev_ble d1)) t)) (filter p_active (ble_peers (dev_ble d1))))))"
    by (simp add: calls(1) run_all_append d1 perform_def)
  moreover have "ble_peers (dev_ble d1) = ble_peers (dev_ble d)" "wall (dev_ble d1) = wall (dev_ble d)" using same by (simp_all add: same_air_def)
  ultimately show ?thesis unfolding eqs by simp
qed

section \<open>The rest of a turn\<close>

text \<open>The queue of chunks, as far as it decides what is sent and when.\<close>

definition pend :: "bridge \<Rightarrow> bytes list \<times> nat \<times> nat \<times> u32" where
  "pend s = (pending_chunks s, pending_total s, pending_next s, pending_send_at_ms s)"

lemma pend_evict: "pend (fst (evict_notices now s vis)) = pend s"
  by (induction vis arbitrary: s) (simp_all add: on_identity_evicted_def record_hash_def pend_def Let_def split_beta)

lemma pend_steps:
  "pend (fst (announce_step now s)) = pend s" "pend (fst (memory_step heap now s)) = pend s"
  "connected_now le \<Longrightarrow> pend (fst (fst (reconnect_step cr nv le now x))) = pend (fst x)"
proof -
  show "pend (fst (announce_step now s)) = pend s"
    by (simp add: announce_step_def start_announce_cycle_def pend_def Let_def)
  show "pend (fst (memory_step heap now s)) = pend s"
    using pend_evict by (simp add: memory_step_def split_beta) (simp add: pend_def)
  show "connected_now le \<Longrightarrow> pend (fst (fst (reconnect_step cr nv le now x))) = pend (fst x)"
    by (cases x) (simp add: reconnect_step_def pend_def Let_def)
qed

lemma perform_ring: "ble_rx (dev_ble (fst (run_all (perform pl env) d calls))) = ble_rx (dev_ble d)"
proof -
  have "link_step a b \<Longrightarrow> ble_rx b = ble_rx a" for a b by (simp add: link_step_def)
  note l = this [OF link_send_text_as] this [OF link_announce_virtual] this [OF link_ble_send_text]
  show ?thesis
    by (rule run_all_invar [where I = "\<lambda>d'. ble_rx (dev_ble d') = ble_rx (dev_ble d)"])
      (auto simp: perform_def split_beta l split: bridge_out.split)
qed

lemma bridge_turn_frame:
  "dev_bridge (fst (bridge_turn pl env f d)) = fst (fst (f (dev_bridge d, dev_flash d)))"
  "ble_rx (dev_ble (fst (bridge_turn pl env f d))) = ble_rx (dev_ble d)"
  "dev_started (fst (bridge_turn pl env f d)) = dev_started d"
  "online (dev_mesh (fst (bridge_turn pl env f d))) = online (dev_mesh d)"
  by (simp_all add: bridge_turn_def split_beta Let_def perform_all_frame perform_ring)

lemma ble_emits_online: "online (dev_mesh (fst (ble_emits pl env d out))) = online (dev_mesh d)"
  by (auto simp: ble_emits_def hear_bitchat_turn bridge_turn_frame split: ble_out.split)

lemma ble_emits_all_online: "online (dev_mesh (fst (run_all (ble_emits pl env) d outs))) = online (dev_mesh d)"
  by (rule run_all_invar [where I = "\<lambda>d'. online (dev_mesh d') = online (dev_mesh d)"]) (simp_all add: ble_emits_online)

lemma ble_emits_silent: "silent outs \<Longrightarrow> run_all (ble_emits pl env) d outs = (d, map To_air outs)"
  by (induction outs) (auto simp: silent_def ble_emits_def split: ble_out.split)

text \<open>The chunk that is due goes out at the end of the turn.\<close>

definition drain_turn :: "'st platform \<Rightarrow> fw_env \<Rightarrow> 'st device \<Rightarrow> 'st device \<times> fw_out list" where
  "drain_turn pl env = bridge_turn pl env (keep_flash (drain_pending_chunks (fe_now env) (fe_link_drain env)))"

lemma status_device: "status_report env d = (d', outs) \<Longrightarrow> \<exists>n. d' = d\<lparr>dev_last_status := n\<rparr>"
  by (cases "fe_now env - dev_last_status d > 30000")
    (auto simp: status_report_def intro: exI [of _ "fe_now env"] exI [of _ "dev_last_status d"])

text \<open>While the client stays connected, a turn of the loop returns once the two transports have; it ends with the chunk that is due.\<close>

lemma turn_tail:
  assumes "dev_started d" and link: "fe_link env" and 1: "mesh_turn pl env d = Some (Inr (d1, o1))"
    and 2: "ble_turn pl env d1 = Some (Inr (d2, o2))" and on: "online (dev_mesh d2)"
  shows "\<exists>d' o3 d5 post. fw_loop pl env d = Some (Inr (d', o1 @ o2 @ o3 @ snd (drain_turn pl env d5) @ post)) \<and>
    online (dev_mesh d5) \<and> pend (dev_bridge d5) = pend (dev_bridge d2) \<and>
    (\<exists>n. d' = (fst (drain_turn pl env d5))\<lparr>dev_last_status := n\<rparr>) \<and> ble_rx (dev_ble d') = ble_rx (dev_ble d2) \<and>
    dev_started d' = dev_started d2"
proof -
  let ?step = "\<lambda>f. bridge_turn pl env (keep_flash f)"
  let ?re = "bridge_turn pl env (reconnect_step (pl_crypto pl) (pl_nvs pl) (reconnect_answers env True False) (fe_now env))"
  define d3 where "d3 = fst (?step (announce_step (fe_now env)) d2)"
  define d4 where "d4 = fst (?step (memory_step (fe_heap_check env) (fe_now env)) d3)"
  define d5 where "d5 = fst (?re d4)"
  have online: "online (dev_mesh d4)" "online (dev_mesh d5)"
    using on by (simp_all add: d3_def d4_def d5_def bridge_turn_frame)
  have ring: "ble_rx (dev_ble d5) = ble_rx (dev_ble d2)" by (simp add: d3_def d4_def d5_def bridge_turn_frame)
  have pend: "pend (dev_bridge d5) = pend (dev_bridge d2)"
    by (simp add: d3_def d4_def d5_def bridge_turn_frame keep_flash_def split_beta pend_steps reconnect_answers_def)
  have "reconnect_turn pl env d4 = Some (Inr (d5, snd (?re d4)))"
    using online(1) link by (simp add: reconnect_turn_def retry_due_def online_def is_connected_def d5_def Let_def split_beta)
  moreover have "is_connected (dev_mesh d5) (fe_link_drain env) = fe_link_drain env" using online(2) by (simp add: online_def is_connected_def)
  ultimately have loop: "bridge_loop_turn pl env d = Some (Inr (fst (drain_turn pl env d5),
      o1 @ o2 @ (snd (?step (announce_step (fe_now env)) d2) @ snd (?step (memory_step (fe_heap_check env) (fe_now env)) d3) @
        snd (?re d4)) @ snd (drain_turn pl env d5)))"
    using 1 2 by (simp add: bridge_loop_turn_def drain_turn_def split_beta Let_def d3_def [symmetric] d4_def [symmetric])
  obtain d' post where st: "status_report env (fst (drain_turn pl env d5)) = (d', post)" by fastforce
  have "\<exists>n. d' = (fst (drain_turn pl env d5))\<lparr>dev_last_status := n\<rparr>" by (rule status_device [OF st])
  moreover from this have "ble_rx (dev_ble d') = ble_rx (dev_ble d2)" "dev_started d' = dev_started d2"
    using ring by (auto simp: drain_turn_def bridge_turn_frame d3_def d4_def d5_def)
  moreover have "fw_loop pl env d = Some (Inr (d', o1 @ o2 @ (snd (?step (announce_step (fe_now env)) d2) @
      snd (?step (memory_step (fe_heap_check env) (fe_now env)) d3) @ snd (?re d4)) @ snd (drain_turn pl env d5) @ post))"
    using assms(1) loop st by (simp add: fw_loop_def)
  ultimately show ?thesis using online(2) pend by blast
qed

lemma turn_returns:
  assumes "dev_started d" and "fe_link env" and "mesh_turn pl env d = Some (Inr (d1, o1))"
    and "ble_turn pl env d1 = Some (Inr (d2, o2))" and "online (dev_mesh d2)"
  shows "\<exists>d' post. fw_loop pl env d = Some (Inr (d', o1 @ o2 @ post))"
  using turn_tail [OF assms] by blast

lemma empty_ring: "ble_invar s \<Longrightarrow> rx_items (ble_rx s) = [] \<Longrightarrow> drain_rx cr env s = Some (Inr (s, []))"
  using rx_front_items [of "ble_rx s"] by (subst drain_rx.simps) (simp add: ble_invar_def)

lemma housekeeping_ring: "ble_rx (fst (housekeeping cr env s)) = ble_rx s"
proof -
  have "ble_rx (fst (run_all (expire_handshake now) s' is)) = ble_rx s'" for s' now "is"
    by (rule run_all_keeps) (simp add: expire_handshake_def free_peer_def set_peer_def Let_def split: option.split)
  moreover have "ble_rx (fst (run_all (reannounce cr env) s' is)) = ble_rx s'" for s' "is"
    by (rule run_all_keeps) (use link_send_announce in \<open>auto simp: reannounce_def link_step_def\<close>)
  ultimately show ?thesis by (simp add: housekeeping_def start_scanning_def Let_def split_beta)
qed

lemma ble_turn_quiet:
  assumes "ble_invar (dev_ble d)" and "rx_items (ble_rx (dev_ble d)) = []"
  shows "\<exists>b outs. ble_turn pl env d = Some (Inr (d\<lparr>dev_ble := b\<rparr>, outs)) \<and> rx_items (ble_rx b) = []"
proof -
  have "\<exists>b outs. ble_loop (pl_crypto pl) (radio_env env) (dev_ble d) = Some (Inr (b, outs)) \<and> silent outs \<and> rx_items (ble_rx b) = []"
    using empty_ring [OF assms, of "pl_crypto pl" "radio_env env"] assms(2)
      silent_housekeeping [of "pl_crypto pl" "radio_env env" "dev_ble d"] housekeeping_ring [of "pl_crypto pl" "radio_env env" "dev_ble d"]
    by (cases "housekeeping (pl_crypto pl) (radio_env env) (dev_ble d)") (simp add: ble_loop_def)
  then show ?thesis by (auto simp: ble_turn_def ble_emits_silent)
qed

lemma mesh_turn_online:
  assumes "online (dev_mesh d)" and "fe_link env" and "mesh_bytes pl env d (fe_bytes env) = Some (Inr (d1, o1))" and "online (dev_mesh d1)"
  shows "\<exists>c post. mesh_turn pl env d = Some (Inr (d1\<lparr>dev_mesh := c, dev_draws := dev_draws d1 + 1\<rparr>, o1 @ post)) \<and> online c"
proof -
  let ?c = "fst (nodeinfo_step (fe_link env) (fe_rnd env (dev_draws d1)) (fe_now env) (fst (heartbeat_step (fe_now env) (dev_mesh d1))))"
  have "online ?c"
    using assms(4) by (auto simp: online_def heartbeat_step_def nodeinfo_step_def emit_node_info_def Let_def)
  with assms show ?thesis
    by (auto simp: mesh_turn_def online_def split_beta Let_def)
qed

section \<open>From the mesh to the air\<close>

lemma hear_mesh_spoken:
  assumes inv: "device_invar (pl_crypto pl) d" and on: "ble_active (dev_ble d)"
    and msg: "meshtastic_node_id (sender m) \<noteq> 0" "length (mtext m) \<le> 167"
    and new: "\<not> is_duplicate (dev_bridge d) (fe_now env) (msg_hash m)"
    and heap: "\<And>n k. VIRT_ID_HEAP_RESERVE_BYTES < fe_heap env n k"
    and kp: "bitchat_derive_keypair (pl_crypto pl) (ble_keypair (dev_ble d)) (meshtastic_node_id (sender m)) = Some kp" "length (fingerprint kp) = 32"
    and mtu: "list_all (\<lambda>p. 256 \<le> peer_mtu (radio_env env) (dev_ble d) p) (filter p_active (ble_peers (dev_ble d)))"
  shows "\<exists>d' o1. hear_mesh pl env d m = (d', o1 @ map To_air (concat (map (\<lambda>p. transmit (dev_ble d) p
      (text_packet (pl_crypto pl) kp (epoch_ms (radio_env env) (dev_ble d)) (mtext m))) (filter p_active (ble_peers (dev_ble d)))))) \<and>
    online (dev_mesh d') = online (dev_mesh d) \<and> ble_rx (dev_ble d') = ble_rx (dev_ble d)"
proof -
  obtain s st calls where r: "on_meshtastic_message (pl_crypto pl) (pl_nvs pl) (fe_heap env (dev_handled d)) (fe_now env)
      (dev_bridge d, dev_flash d) m = ((s, st), calls)" by (metis prod.exhaust)
  have "master_kp (dev_bridge d) = Some (ble_keypair (dev_ble d))" "registry_invar (pl_crypto pl) (ble_keypair (dev_ble d)) (virt_registry (dev_bridge d))"
    using inv by (simp_all add: device_invar_def bridge_invar_defs)
  from spoken_message [OF new this(1) msg(1) this(2) heap kp(1) r]
  obtain before where b: "calls = before @ [Bc_send_text_as (mtext m) kp]" "\<forall>t. Bc_send_text t \<notin> set before" by blast
  let ?d = "d\<lparr>dev_bridge := s, dev_flash := st, dev_handled := dev_handled d + 1\<rparr>"
  have air: "same_air (dev_ble d) (dev_ble (fst (run_all (perform pl env) ?d calls)))"
    using perform_all_frame(1) [of calls ?d pl env] b by simp
  show ?thesis
    using spoken_on_air [OF b kp(2) msg(2), of ?d env pl] on mtu air perform_all_frame(2) [of pl env ?d calls]
    by (auto simp: hear_mesh_def r same_air_def)
qed


lemma mesh_text_sent:
  assumes inv: "device_invar (pl_crypto pl) d" and on: "dev_started d" "ble_active (dev_ble d)"
    and client: "connected (dev_mesh d)" "config_complete (dev_mesh d)" "on_message_set (dev_mesh d)" "rx_state (dev_mesh d) = WAIT_START1"
    and link: "fe_link env" and quiet: "rx_items (ble_rx (dev_ble d)) = []"
    and node: "frm \<noteq> my_node_id (dev_mesh d)" "frm \<noteq> bridge_node_num (dev_mesh d)" "frm \<noteq> 0"
    and what: "0 < length t" "length t \<le> 167" "is_cstr t"
    and bytes: "fe_bytes env = wire (send_raw (from_radio_text frm dest pkt_id ch hop t))"
    and msg: "m = \<lparr>origin = MESHTASTIC,
      sender = no_sender\<lparr>meshtastic_node_id := frm,
         display_name := (case get_node_name (dev_mesh d) frm of Some n \<Rightarrow> strncpy 31 n | None \<Rightarrow> snprintf 32 (ascii ''!'' @ hex8 frm))\<rparr>,
      mtext = t, timestamp_ms = fe_now env\<rparr>"
    and new: "\<not> is_duplicate (dev_bridge d) (fe_now env) (msg_hash m)"
    and heap: "\<And>n k. VIRT_ID_HEAP_RESERVE_BYTES < fe_heap env n k"
    and kp: "bitchat_derive_keypair (pl_crypto pl) (ble_keypair (dev_ble d)) frm = Some kp" "length (fingerprint kp) = 32"
    and mtu: "list_all (\<lambda>p. 256 \<le> peer_mtu (radio_env env) (dev_ble d) p) (filter p_active (ble_peers (dev_ble d)))"
  shows "\<exists>d' before after. fw_loop pl env d = Some (Inr (d', before @ map To_air (concat (map (\<lambda>p. transmit (dev_ble d) p
      (text_packet (pl_crypto pl) kp (epoch_ms (radio_env env) (dev_ble d)) t)) (filter p_active (ble_peers (dev_ble d))))) @ after))"
proof -
  let ?p = "from_radio_text frm dest pkt_id ch hop t"
  let ?c = "(mesh_of d)\<lparr>rx_payload_len := of_nat (length ?p), rx_state := READ_PAYLOAD, rx_buf := ?p\<rparr>"
  let ?d = "d\<lparr>dev_mesh := ?c\<lparr>rx_state := WAIT_START1\<rparr>\<rparr>"
  let ?air = "map To_air (concat (map (\<lambda>p. transmit (dev_ble d) p
      (text_packet (pl_crypto pl) kp (epoch_ms (radio_env env) (dev_ble d)) t)) (filter p_active (ble_peers (dev_ble d)))))"
  have t: "length t \<le> MESH_DATA_MAX" using what(2) by (simp add: MESH_DATA_MAX_def)
  have "get_node_name ?c frm = get_node_name (dev_mesh d) frm" by (simp add: get_node_name_def mesh_of_def)
  then have handled: "handle_from_radio (pl_float pl) (pl_forward pl) (fe_now env) ?c ?p (int (length ?p)) = Some (Inr (?c, [Deliver m]))"
    using handle_text_packet [of ?c frm t ?p dest pkt_id ch hop "pl_float pl" "pl_forward pl" "fe_now env"] client node what t
    by (simp add: msg mesh_of_def)
  have len: "length (rx_buf ?c) \<le> MESH_MAX_PAYLOAD" using length_from_radio_text [OF t] by simp
  then have inv': "device_invar (pl_crypto pl) ?d" using inv by (simp add: device_invar_def tcp_invar_def mesh_of_def)
  obtain d1 o1 where d1: "hear_mesh pl env ?d m = (d1, o1 @ ?air)" "online (dev_mesh d1) = online (dev_mesh ?d)" "ble_rx (dev_ble d1) = ble_rx (dev_ble d)"
    using hear_mesh_spoken [OF inv', of m env kp] on node(3) what(2) new heap kp mtu by (auto simp: msg)
  have put: "put_mesh (?c\<lparr>rx_state := WAIT_START1\<rparr>) d = ?d" by (rule mesh_of_put) (simp add: mesh_of_def)
  have "mesh_bytes pl env d (fe_bytes env) = Some (Inr (d1, o1 @ ?air))"
    using mesh_frame [OF client(4) length_from_radio_text [OF t], of pl env frm dest pkt_id ch hop "[]"] handled d1(1) put
    by (simp add: bytes then_emit_def mesh_emits_def)
  moreover have on': "online (dev_mesh d)" "online (dev_mesh d1)" using client d1(2) by (simp_all add: online_def mesh_of_def)
  ultimately obtain c post where mt: "mesh_turn pl env d = Some (Inr (d1\<lparr>dev_mesh := c, dev_draws := dev_draws d1 + 1\<rparr>, (o1 @ ?air) @ post))" "online c"
    using mesh_turn_online [OF _ link] by blast
  have "ble_invar (dev_ble d1)" using invar_mesh_turn [OF mt(1) inv] by (simp add: device_invar_def)
  then obtain b o2 where "ble_turn pl env (d1\<lparr>dev_mesh := c, dev_draws := dev_draws d1 + 1\<rparr>) =
      Some (Inr (d1\<lparr>dev_mesh := c, dev_draws := dev_draws d1 + 1, dev_ble := b\<rparr>, o2))"
    using ble_turn_quiet [of "d1\<lparr>dev_mesh := c, dev_draws := dev_draws d1 + 1\<rparr>" pl env] quiet d1(3) by auto
  from turn_returns [OF on(1) link mt(1) this] mt(2) show ?thesis by auto
qed

text \<open>
  C1: a text of the mesh is on the air after one turn of the main loop.  The bytes the radio's node has sent are one framed text
  packet of another node; the bridge has not heard it before, has memory for the identity of the node, and nothing waits in
  the receive ring.  Then \<^verbatim>\<open>loop()\<close> returns, and among what it sends, in order, is one signed packet of 256 bytes that carries
  exactly this text as spoken by the identity derived for the node, to every active peer.
\<close>

theorem mesh_text_on_air:
  assumes inv: "device_invar (pl_crypto pl) d" and on: "dev_started d" "ble_active (dev_ble d)"
    and client: "connected (dev_mesh d)" "config_complete (dev_mesh d)" "on_message_set (dev_mesh d)" "rx_state (dev_mesh d) = WAIT_START1"
    and link: "fe_link env" and quiet: "rx_items (ble_rx (dev_ble d)) = []"
    and node: "frm \<noteq> my_node_id (dev_mesh d)" "frm \<noteq> bridge_node_num (dev_mesh d)" "frm \<noteq> 0"
    and what: "0 < length t" "length t \<le> 167" "is_cstr t"
    and bytes: "fe_bytes env = wire (send_raw (from_radio_text frm dest pkt_id ch hop t))"
    and msg: "m = \<lparr>origin = MESHTASTIC,
      sender = no_sender\<lparr>meshtastic_node_id := frm,
         display_name := (case get_node_name (dev_mesh d) frm of Some n \<Rightarrow> strncpy 31 n | None \<Rightarrow> snprintf 32 (ascii ''!'' @ hex8 frm))\<rparr>,
      mtext = t, timestamp_ms = fe_now env\<rparr>"
    and new: "\<not> is_duplicate (dev_bridge d) (fe_now env) (msg_hash m)"
    and heap: "\<And>n k. VIRT_ID_HEAP_RESERVE_BYTES < fe_heap env n k"
    and kp: "bitchat_derive_keypair (pl_crypto pl) (ble_keypair (dev_ble d)) frm = Some kp" "length (fingerprint kp) = 32"
    and mtu: "list_all (\<lambda>p. 256 \<le> peer_mtu (radio_env env) (dev_ble d) p) (filter p_active (ble_peers (dev_ble d)))"
  shows "\<exists>d' before after. fw_loop pl env d = Some (Inr (d', before @ map To_air (concat (map (\<lambda>p. transmit (dev_ble d) p
      (text_packet (pl_crypto pl) kp (epoch_ms (radio_env env) (dev_ble d)) t)) (filter p_active (ble_peers (dev_ble d))))) @ after))"
  by (rule mesh_text_sent [OF assms])

section \<open>From the air to the mesh\<close>

text \<open>The frame to the radio's node that carries a text.\<close>

definition text_frame :: "u32 \<Rightarrow> bytes \<Rightarrow> fw_out list" where
  "text_frame pkt_id t = map To_mesh (send_raw (encode_to_radio_packet
     (encode_mesh_packet_nofrom MESH_BROADCAST pkt_id 0 3 (encode_data PORTNUM_TEXT_MESSAGE_APP t))))"

lemma perform_mesh_text:
  assumes "online (dev_mesh d)" and "fe_link env"
  shows "\<exists>pkt_id d'. run_all (perform pl env) d [Mesh_send_text t] = (d', text_frame pkt_id (take MESH_DATA_MAX (c_str t)))"
  using assms by (auto simp: perform_def send_text_def online_def is_connected_def text_frame_def Let_def)

text \<open>The packet that waits alone in the ring is what the loop handles first.\<close>

lemma ble_loop_single:
  assumes inv: "ble_invar b" and on: "ble_active b" and ring: "rx_items (ble_rx b) = [(pkt, h)]"
    and step: "\<And>e. entry_packet e = (pkt, h) \<Longrightarrow>
      \<exists>b' rest. process_incoming cr env b e = Inr (b', out # rest) \<and> link_step b b' \<and> silent rest"
  shows "\<exists>b' rest. ble_loop cr env b = Some (Inr (b', out # rest)) \<and> silent rest \<and> rx_items (ble_rx b') = []"
proof -
  have r: "rx_invar (ble_rx b)" using inv by (simp add: ble_invar_def)
  then obtain e where e: "rx_front_entry (ble_rx b) = Some e" using rx_front_items [of "ble_rx b"] ring by auto
  have "entry_packet e = (pkt, h)" using rx_front_cons [OF r e] ring by simp
  then obtain b' rest where p: "process_incoming cr env b e = Inr (b', out # rest)" "link_step b b'" "silent rest" using step by blast
  let ?t = "b'\<lparr>ble_rx := rx_pop (ble_rx b')\<rparr>"
  have "ble_rx b' = ble_rx b" using p(2) by (simp add: link_step_def)
  then have t: "rx_items (ble_rx ?t) = []" using rx_items_pop [OF r] ring by simp
  then have "drain_rx cr env ?t = Some (Inr (?t, []))" using drain_step [OF inv e p(1)] by (intro empty_ring) simp_all
  then have "drain_rx cr env b = Some (Inr (?t, out # rest))"
    using e p(1) by (subst drain_rx.simps) (simp add: prepend_outs_def)
  with on p(3) t show ?thesis
    using silent_housekeeping [of cr env ?t] housekeeping_ring [of cr env ?t]
    by (cases "housekeeping cr env ?t") (simp add: ble_loop_def)
qed

text \<open>A text packet alone in the ring: what the bridge does with the message it carries.\<close>

lemma bitchat_text_heard:
  assumes inv: "device_invar (pl_crypto pl) d" and on: "ble_active (dev_ble d)" "ble_on_message (dev_ble d)"
    and client: "connected (dev_mesh d)" "config_complete (dev_mesh d)" and link: "fe_link env" "fe_bytes env = []"
    and kp: "length (fingerprint kp) = 32" "list_ex (\<lambda>b. b \<noteq> 0) (take 8 (fingerprint kp))"
    and what: "0 < length t" "length t \<le> 240" "length t \<noteq> 168" "is_cstr t"
    and ring: "rx_items (ble_rx (dev_ble d)) = [(text_packet cr' kp ts t, h)]" and peer: "find_peer (dev_ble d) h = Some i"
    and body: "body = packet_body kp BITCHAT_PKT_MESSAGE BITCHAT_FLAG_HAS_SIGNATURE ts (tlv_encode BITCHAT_TLV_TEXT t)"
    and ver: "verified_by (pl_crypto pl) (ble_peers (dev_ble d) ! i) (ed25519_sign cr' body (sign_private kp)) body"
    and name: "p_nickname (ble_peers (dev_ble d) ! i) = name" "name \<noteq> []" "is_cstr name" "length name \<le> 31" "58 \<notin> set name"
    and msg: "m = \<lparr>origin = BITCHAT,
      sender = \<lparr>meshtastic_node_id = 0, bitchat_fingerprint = take 8 (fingerprint kp) @ replicate 24 0, display_name = name\<rparr>,
      mtext = t, timestamp_ms = fe_now env\<rparr>"
    and new: "\<not> is_duplicate (dev_bridge d) (fe_now env) (msg_hash m)"
    and names: "distinct (map be_fingerprint (ble_names (id_mapper (dev_bridge d))))"
      "take 8 (fingerprint kp) \<in> be_fingerprint ` set (ble_names (id_mapper (dev_bridge d))) \<or>
       length (ble_names (id_mapper (dev_bridge d))) < MAX_IDENTITY_ENTRIES"
  defines "full \<equiv> ascii ''[B] '' @ name @ ascii '': '' @ t"
  shows "\<exists>d0 d1 d2 o1 o2 o3 s calls. mesh_turn pl env d = Some (Inr (d1, o1)) \<and> online (dev_mesh d0) \<and>
    run_all (perform pl env) d0 calls = (d2, o2) \<and> ble_turn pl env d1 = Some (Inr (d2, o2 @ o3)) \<and>
    dev_bridge d2 = s \<and> online (dev_mesh d2) \<and> rx_items (ble_rx (dev_ble d2)) = [] \<and> dev_started d2 = dev_started d \<and>
    (if length full \<le> MESH_DATA_MAX then calls = [Mesh_send_text full]
     else calls = [] \<and> chunk_queue s = split_chunks (ascii ''[B] '' @ name) t \<and> pending_send_at_ms s = fe_now env)"
proof -
  have "shown_name (ble_peers (dev_ble d) ! i) sid = name" for sid using name by (simp add: shown_name_def strncpy_def)
  then have recv: "\<exists>b' rest. process_incoming (pl_crypto pl) (radio_env env) (dev_ble d) e = Inr (b', Deliver_message m # rest) \<and>
      link_step (dev_ble d) b' \<and> silent rest"
    if "entry_packet e = (text_packet cr' kp ts t, h)" for e
    using text_received [OF kp(1) what on(2) peer that body ver, of "radio_env env"] by (auto simp: msg)
  have "ble_invar (dev_ble d)" using inv by (simp add: device_invar_def)
  from ble_loop_single [OF this on(1) ring recv]
  obtain b rest where b: "ble_loop (pl_crypto pl) (radio_env env) (dev_ble d) = Some (Inr (b, Deliver_message m # rest))"
    "silent rest" "rx_items (ble_rx b) = []" by blast
  obtain c post where mt: "mesh_turn pl env d = Some (Inr (d\<lparr>dev_mesh := c, dev_draws := dev_draws d + 1\<rparr>, post))" "online c"
    using mesh_turn_online [of d env pl d "[]"] client link by (auto simp: online_def)
  obtain s st calls where step: "on_bitchat_message (pl_nvs pl) (fe_now env) (dev_bridge d, dev_flash d) m = ((s, st), calls)" by (metis prod.exhaust)
  let ?d0 = "d\<lparr>dev_mesh := c, dev_draws := dev_draws d + 1, dev_ble := b, dev_bridge := s, dev_flash := st\<rparr>"
  obtain d2 o2 where d2: "run_all (perform pl env) ?d0 calls = (d2, o2)" by fastforce
  have "ble_turn pl env (d\<lparr>dev_mesh := c, dev_draws := dev_draws d + 1\<rparr>) = Some (Inr (d2, o2 @ map To_air rest))"
    using b(1,2) step d2 by (simp add: ble_turn_def ble_emits_def hear_bitchat_def ble_emits_silent)
  moreover have "dev_bridge d2 = s" "online (dev_mesh d2)" "rx_items (ble_rx (dev_ble d2)) = []" "dev_started d2 = dev_started d"
    using perform_all_frame(2-4) [of pl env ?d0 calls] perform_ring [of pl env ?d0 calls] mt(2) b(3) d2 by simp_all
  moreover have "if length full \<le> MESH_DATA_MAX then calls = [Mesh_send_text full]
     else calls = [] \<and> chunk_queue s = split_chunks (ascii ''[B] '' @ name) t \<and> pending_send_at_ms s = fe_now env"
    using forwarded_message [OF new _ _ _ name(2-5) _ _ names(1) _ step] names(2) kp what
    by (auto simp: msg has_bitchat_fingerprint_def full_def Let_def)
  moreover have "online (dev_mesh ?d0)" using mt(2) by simp
  ultimately show ?thesis using mt(1) d2 by blast
qed

lemma bitchat_text_sent:
  assumes inv: "device_invar (pl_crypto pl) d" and on: "dev_started d" "ble_active (dev_ble d)" "ble_on_message (dev_ble d)"
    and client: "connected (dev_mesh d)" "config_complete (dev_mesh d)" and link: "fe_link env" "fe_bytes env = []"
    and kp: "length (fingerprint kp) = 32" "list_ex (\<lambda>b. b \<noteq> 0) (take 8 (fingerprint kp))"
    and what: "0 < length t" "length t \<le> 240" "length t \<noteq> 168" "is_cstr t"
    and ring: "rx_items (ble_rx (dev_ble d)) = [(text_packet cr' kp ts t, h)]" and peer: "find_peer (dev_ble d) h = Some i"
    and body: "body = packet_body kp BITCHAT_PKT_MESSAGE BITCHAT_FLAG_HAS_SIGNATURE ts (tlv_encode BITCHAT_TLV_TEXT t)"
    and ver: "verified_by (pl_crypto pl) (ble_peers (dev_ble d) ! i) (ed25519_sign cr' body (sign_private kp)) body"
    and name: "p_nickname (ble_peers (dev_ble d) ! i) = name" "name \<noteq> []" "is_cstr name" "length name \<le> 31" "58 \<notin> set name"
    and msg: "m = \<lparr>origin = BITCHAT,
      sender = \<lparr>meshtastic_node_id = 0, bitchat_fingerprint = take 8 (fingerprint kp) @ replicate 24 0, display_name = name\<rparr>,
      mtext = t, timestamp_ms = fe_now env\<rparr>"
    and new: "\<not> is_duplicate (dev_bridge d) (fe_now env) (msg_hash m)"
    and names: "distinct (map be_fingerprint (ble_names (id_mapper (dev_bridge d))))"
      "take 8 (fingerprint kp) \<in> be_fingerprint ` set (ble_names (id_mapper (dev_bridge d))) \<or>
       length (ble_names (id_mapper (dev_bridge d))) < MAX_IDENTITY_ENTRIES"
    and full: "full = ascii ''[B] '' @ name @ ascii '': '' @ t" "length full \<le> MESH_DATA_MAX"
  shows "\<exists>d' before pkt_id after. fw_loop pl env d = Some (Inr (d', before @ text_frame pkt_id full @ after))"
proof -
  from bitchat_text_heard [OF inv on(2,3) client link kp what ring peer body ver name msg new names] full(2)
  obtain d0 d1 d2 o1 o2 o3 where t: "mesh_turn pl env d = Some (Inr (d1, o1))" "online (dev_mesh d0)"
    "run_all (perform pl env) d0 [Mesh_send_text full] = (d2, o2)" "ble_turn pl env d1 = Some (Inr (d2, o2 @ o3))" "online (dev_mesh d2)"
    by (auto simp: full(1))
  have "take MESH_DATA_MAX (c_str full) = full" using full name what by (simp add: ascii_def)
  then obtain pkt_id where "o2 = text_frame pkt_id full" using perform_mesh_text [OF t(2) link(1), of pl full] t(3) by auto
  with turn_returns [OF on(1) link(1) t(1,4,5)] show ?thesis by auto
qed

text \<open>
  C2: a text of Bitchat is on its way to the mesh after one turn of the main loop.  The receive ring holds one signed message
  packet of a named peer, of which the bridge has not heard before and which it knows or has room for; the client
  is connected and has no bytes waiting; the text and the name fit one packet.  Then \<^verbatim>\<open>loop()\<close> returns, and among what
  it sends is one frame to the radio's node that carries the whole text under the name of its sender, broadcast on the first
  channel.  Texts of 168 bytes are left out: their packet is exactly 256 bytes long and has no padding to be recognised by.
\<close>

theorem bitchat_text_in_frame:
  assumes inv: "device_invar (pl_crypto pl) d" and on: "dev_started d" "ble_active (dev_ble d)" "ble_on_message (dev_ble d)"
    and client: "connected (dev_mesh d)" "config_complete (dev_mesh d)" and link: "fe_link env" "fe_bytes env = []"
    and kp: "length (fingerprint kp) = 32" "list_ex (\<lambda>b. b \<noteq> 0) (take 8 (fingerprint kp))"
    and what: "0 < length t" "length t \<le> 240" "length t \<noteq> 168" "is_cstr t"
    and ring: "rx_items (ble_rx (dev_ble d)) = [(text_packet cr' kp ts t, h)]" and peer: "find_peer (dev_ble d) h = Some i"
    and body: "body = packet_body kp BITCHAT_PKT_MESSAGE BITCHAT_FLAG_HAS_SIGNATURE ts (tlv_encode BITCHAT_TLV_TEXT t)"
    and ver: "verified_by (pl_crypto pl) (ble_peers (dev_ble d) ! i) (ed25519_sign cr' body (sign_private kp)) body"
    and name: "p_nickname (ble_peers (dev_ble d) ! i) = name" "name \<noteq> []" "is_cstr name" "length name \<le> 31" "58 \<notin> set name"
    and msg: "m = \<lparr>origin = BITCHAT,
      sender = \<lparr>meshtastic_node_id = 0, bitchat_fingerprint = take 8 (fingerprint kp) @ replicate 24 0, display_name = name\<rparr>,
      mtext = t, timestamp_ms = fe_now env\<rparr>"
    and new: "\<not> is_duplicate (dev_bridge d) (fe_now env) (msg_hash m)"
    and names: "distinct (map be_fingerprint (ble_names (id_mapper (dev_bridge d))))"
      "take 8 (fingerprint kp) \<in> be_fingerprint ` set (ble_names (id_mapper (dev_bridge d))) \<or>
       length (ble_names (id_mapper (dev_bridge d))) < MAX_IDENTITY_ENTRIES"
    and full: "full = ascii ''[B] '' @ name @ ascii '': '' @ t" "length full \<le> MESH_DATA_MAX"
  shows "\<exists>d' before pkt_id after. fw_loop pl env d = Some (Inr (d', before @ map To_mesh (send_raw (encode_to_radio_packet
      (encode_mesh_packet_nofrom MESH_BROADCAST pkt_id 0 3 (encode_data PORTNUM_TEXT_MESSAGE_APP full)))) @ after))"
  using bitchat_text_sent [OF assms] by (auto simp: text_frame_def)

section \<open>Examples\<close>

text \<open>A started device with one Bitchat peer, named B, and a connected node.\<close>

definition example_ble :: ble where
  "example_ble = new_ble\<lparr>ble_active := True, ble_on_message := True,
     ble_peers := [(new_session 0 9 None True)\<lparr>p_remote_chr := True, p_nickname := [66]\<rparr>, zero_session, zero_session, zero_session]\<rparr>"

definition example_device :: "(mesh_entry list \<times> u8 \<times> ble_entry list \<times> u8) device" where
  "example_device = \<lparr>dev_mesh = ready_tcp, dev_ble = example_ble, dev_bridge = new_bridge (Some zero_keypair), dev_flash = ([], 0, [], 0),
     dev_started = True, dev_is_ap = False, dev_last_status = 100000, dev_draws = 0, dev_handled = 0\<rparr>"

definition example_sender :: keypair where
  "example_sender = zero_keypair\<lparr>fingerprint := replicate 32 9\<rparr>"

lemma example_ble_ok: "ble_invar example_ble"
proof -
  have "session_ok ((new_session 0 9 None True)\<lparr>p_remote_chr := True, p_nickname := [66]\<rparr>)"
    by (simp add: session_ok_def new_session_def zero_session_def)
  moreover have "distinct_links [(True, 9), (False, 0), (False, 0), (False, 0)]"
    by (auto simp: distinct_links_def less_Suc_eq nth_Cons')
  ultimately show ?thesis
    using ble_invar_new
    by (simp add: ble_invar_def example_ble_def new_ble_def links_def relay_invar_def BITCHAT_MAX_CONNECTIONS_def numeral_eq_Suc)
      (simp add: new_session_def zero_session_def)
qed

lemma example_device_ok: "device_invar cr example_device"
  using example_ble_ok invar_new [of cr "Some zero_keypair"] tcp_reachable_invar [OF tcp_reachable.init, of True 0]
  by (simp add: device_invar_def example_device_def new_bridge_invars ready_tcp_def tcp_invar_def)
    (simp add: example_ble_def new_ble_def)

lemmas example_device_defs = example_device_def example_ble_def example_platform_def example_turn_def ready_tcp_def new_mesh_tcp_def

theorem mesh_text_on_air_witness:
  "\<exists>kp d' before after. bitchat_derive_keypair sized_crypto zero_keypair 7 = Some kp \<and>
    fw_loop (example_platform sized_crypto)
      (example_turn\<lparr>fe_bytes := wire (send_raw (from_radio_text 7 MESH_BROADCAST 99 0 3 [104, 105]))\<rparr>) example_device =
      Some (Inr (d', before @ [To_air (Write_peer 9
        (text_packet sized_crypto kp (epoch_ms (quiet_env\<lparr>env_now := 100000\<rparr>) example_ble) [104, 105]))] @ after))"
proof -
  let ?env = "example_turn\<lparr>fe_bytes := wire (send_raw (from_radio_text 7 MESH_BROADCAST 99 0 3 [104, 105]))\<rparr>"
  let ?pl = "example_platform sized_crypto"
  obtain kp where kp: "bitchat_derive_keypair sized_crypto zero_keypair 7 = Some kp" "keypair_wf kp"
    using derive_keypair_result [OF sized_crypto_sizes, of zero_keypair 7] by (auto simp: sized_crypto_def)
  have d: "dev_started example_device" "ble_active (dev_ble example_device)" "connected (dev_mesh example_device)"
      "config_complete (dev_mesh example_device)" "on_message_set (dev_mesh example_device)" "rx_state (dev_mesh example_device) = WAIT_START1"
      "fe_link ?env" "7 \<noteq> my_node_id (dev_mesh example_device)" "7 \<noteq> bridge_node_num (dev_mesh example_device)"
    by (simp_all add: example_device_defs)
  have q: "rx_items (ble_rx (dev_ble example_device)) = []" "ble_keypair (dev_ble example_device) = zero_keypair"
    by (simp_all add: example_device_defs new_ble_def new_rx_ring_ok)
  have k: "bitchat_derive_keypair (pl_crypto ?pl) (ble_keypair (dev_ble example_device)) 7 = Some kp" "length (fingerprint kp) = 32"
    using kp by (simp_all add: q example_platform_def keypair_wf_def)
  have new: "\<not> is_duplicate (dev_bridge example_device) (fe_now ?env) h" for h
    using new_bridge_fresh by (simp add: example_device_def example_turn_def)
  have mtu: "list_all (\<lambda>p. 256 \<le> peer_mtu (radio_env ?env) (dev_ble example_device) p) (filter p_active (ble_peers (dev_ble example_device)))"
    by (simp add: example_device_defs example_defs quiet_env_def)
  have air: "concat (map (\<lambda>p. transmit (dev_ble example_device) p x) (filter p_active (ble_peers (dev_ble example_device)))) = [Write_peer 9 x]" for x
    by (simp add: example_device_defs example_defs transmit_def)
  have heap: "VIRT_ID_HEAP_RESERVE_BYTES < fe_heap ?env n j" for n j by (simp add: example_turn_def VIRT_ID_HEAP_RESERVE_BYTES_def)
  have "\<exists>d' before after. fw_loop ?pl ?env example_device = Some (Inr (d', before @ [To_air (Write_peer 9
      (text_packet (pl_crypto ?pl) kp (epoch_ms (radio_env ?env) (dev_ble example_device)) [104, 105]))] @ after))"
    using mesh_text_on_air [OF example_device_ok d(1-7) q(1) d(8,9) _ _ _ _ _ refl new heap k mtu, of "[104, 105]"]
    unfolding air by simp
  moreover have "pl_crypto ?pl = sized_crypto" "radio_env ?env = quiet_env\<lparr>env_now := 100000\<rparr>" "dev_ble example_device = example_ble" "fe_now example_turn = 100000"
    by (simp_all add: example_platform_def example_turn_def example_device_def)
  ultimately show ?thesis using kp(1) by auto
qed

theorem bitchat_text_in_frame_witness:
  "\<exists>d' before pkt_id after. fw_loop (example_platform quiet_crypto) example_turn
      (example_device\<lparr>dev_ble := put_rx example_ble (text_packet quiet_crypto example_sender 0 [104, 105]) 9\<rparr>) =
    Some (Inr (d', before @ map To_mesh (send_raw (encode_to_radio_packet (encode_mesh_packet_nofrom MESH_BROADCAST pkt_id 0 3
        (encode_data PORTNUM_TEXT_MESSAGE_APP (ascii ''[B] '' @ [66] @ ascii '': '' @ [104, 105]))))) @ after))"
proof -
  let ?pl = "example_platform quiet_crypto"
  let ?pkt = "text_packet quiet_crypto example_sender 0 [104, 105]"
  let ?b = "put_rx example_ble ?pkt 9"
  let ?d = "example_device\<lparr>dev_ble := ?b\<rparr>"
  have inv: "device_invar (pl_crypto ?pl) ?d"
    using example_device_ok [of "pl_crypto ?pl"] invar_put_rx [OF example_ble_ok]
    by (simp add: device_invar_def example_device_def) (simp add: put_rx_def)
  have d: "dev_started ?d" "ble_active (dev_ble ?d)" "ble_on_message (dev_ble ?d)" "connected (dev_mesh ?d)"
      "config_complete (dev_mesh ?d)" "fe_link example_turn" "fe_bytes example_turn = []"
    by (simp_all add: example_device_defs put_rx_def)
  have k: "length (fingerprint example_sender) = 32" "list_ex (\<lambda>b. b \<noteq> 0) (take 8 (fingerprint example_sender))"
    by (simp_all add: example_sender_def list_ex_iff)
  have "length ?pkt = 256" using k(1) by (intro text_packet_padding) simp_all
  then have ring: "rx_items (ble_rx (dev_ble ?d)) = [(?pkt, 9)]"
    using rx_items_put [OF new_rx_ring_ok(1), of "(?pkt, 9)"] by (simp add: put_rx_def example_ble_def new_ble_def new_rx_ring_ok rx_accepts_def RX_BUF_SIZE_def)
  have p: "find_peer (dev_ble ?d) 9 = Some 0" "verified_by (pl_crypto ?pl) (ble_peers (dev_ble ?d) ! 0) x y"
      "p_nickname (ble_peers (dev_ble ?d) ! 0) = [66]" for x y
    by (simp_all add: example_ble_def put_rx_def example_defs)
  have new: "\<not> is_duplicate (dev_bridge ?d) (fe_now example_turn) h" for h
    using new_bridge_fresh by (simp add: example_device_def example_turn_def)
  have s: "ble_names (id_mapper (dev_bridge example_device)) = []" by (simp add: example_device_def new_bridge_invars)
  show ?thesis
    using bitchat_text_in_frame [OF inv d(1-7) k _ _ _ _ ring p(1) refl p(2,3) _ _ _ _ refl new _ _ refl]
    by (simp add: s MAX_IDENTITY_ENTRIES_def MESH_DATA_MAX_def ascii_def)
qed

end
