(* ===== verification/Firmware_Turns.thy ===== *)
theory Firmware_Turns
  imports Firmware_Delivery "HOL-Library.Sublist"
begin

text \<open>
  Several turns of the main loop, and several devices: the chunks of a long text leave the device one after the other, and a
  text of one mesh reaches another mesh through two bridges.
\<close>

section \<open>Turns in a row\<close>

fun fw_turns :: "'st platform \<Rightarrow> fw_env list \<Rightarrow> 'st device \<Rightarrow> ('st device \<times> fw_out list) run" where
  "fw_turns pl [] d = Some (Inr (d, []))"
| "fw_turns pl (env # envs) d =
     run_bind (fw_loop pl env d) (\<lambda>(d, o1).
     run_bind (fw_turns pl envs d) (\<lambda>(d, o2). Some (Inr (d, o1 @ o2))))"

text \<open>A connected device with nothing to read, and a turn in which nothing arrives.\<close>

definition idle :: "'st platform \<Rightarrow> 'st device \<Rightarrow> bool" where
  "idle pl d \<longleftrightarrow> device_invar (pl_crypto pl) d \<and> dev_started d \<and> online (dev_mesh d) \<and> rx_items (ble_rx (dev_ble d)) = []"

definition undisturbed :: "fw_env \<Rightarrow> bool" where
  "undisturbed env \<longleftrightarrow> fe_link env \<and> fe_link_drain env \<and> fe_bytes env = []"

lemma pend_cong: "pend a = pend b \<Longrightarrow> chunk_queue a = chunk_queue b \<and> pending_send_at_ms a = pending_send_at_ms b \<and> pending_ok a = pending_ok b"
  by (simp add: pend_def chunk_queue_def pending_ok_def)

text \<open>The frame of a queued chunk.\<close>

abbreviation chunk_frame :: "u32 \<Rightarrow> bytes \<Rightarrow> fw_out list" where
  "chunk_frame pkt_id c \<equiv> text_frame pkt_id (take MESH_DATA_MAX (c_str c))"

text \<open>At the end of a turn in which a chunk is due, its frame goes out.\<close>

lemma tail_sends_chunk:
  assumes inv: "device_invar (pl_crypto pl) d" and on: "dev_started d" and link: "fe_link env" "fe_link_drain env"
    and 1: "mesh_turn pl env d = Some (Inr (d1, o1))" and 2: "ble_turn pl env d1 = Some (Inr (d2, o2))"
    and d2: "online (dev_mesh d2)" "rx_items (ble_rx (dev_ble d2)) = []" "dev_started d2"
    and q: "chunk_queue (dev_bridge d2) = c # q" "0 \<le> sint (fe_now env - pending_send_at_ms (dev_bridge d2))"
  shows "\<exists>d' before pkt_id after. fw_loop pl env d = Some (Inr (d', before @ chunk_frame pkt_id c @ after)) \<and> idle pl d' \<and>
    chunk_queue (dev_bridge d') = q \<and> pending_send_at_ms (dev_bridge d') = fe_now env + BRIDGE_CHUNK_DELAY_MS"
proof -
  obtain d' o3 d5 post where t: "fw_loop pl env d = Some (Inr (d', o1 @ o2 @ o3 @ snd (drain_turn pl env d5) @ post))"
    "online (dev_mesh d5)" "pend (dev_bridge d5) = pend (dev_bridge d2)" "\<exists>n. d' = (fst (drain_turn pl env d5))\<lparr>dev_last_status := n\<rparr>"
    "ble_rx (dev_ble d') = ble_rx (dev_ble d2)" "dev_started d' = dev_started d2"
    using turn_tail [OF on link(1) 1 2 d2(1)] by blast
  have "device_invar (pl_crypto pl) d2" using invar_ble_turn [OF 2 invar_mesh_turn [OF 1 inv]] .
  then have "pending_ok (dev_bridge d5)" using pend_cong [OF t(3)] by (simp add: device_invar_def bridge_invar_def)
  then obtain s where s: "drain_pending_chunks (fe_now env) True (dev_bridge d5) = (s, [Mesh_send_text c])" "chunk_queue s = q"
    "pending_send_at_ms s = fe_now env + BRIDGE_CHUNK_DELAY_MS"
    using drain_due [of "dev_bridge d5" c q "fe_now env"] q pend_cong [OF t(3)] by auto
  obtain pkt_id d6 where d6: "run_all (perform pl env) (d5\<lparr>dev_bridge := s, dev_flash := dev_flash d5\<rparr>) [Mesh_send_text c] = (d6, chunk_frame pkt_id c)"
    using perform_mesh_text [of "d5\<lparr>dev_bridge := s, dev_flash := dev_flash d5\<rparr>" env pl c] t(2) link(1) by auto
  then have drain: "drain_turn pl env d5 = (d6, chunk_frame pkt_id c)"
    using s(1) link(2) by (simp add: drain_turn_def bridge_turn_def keep_flash_def)
  have "dev_bridge d6 = s" "online (dev_mesh d6)"
    using perform_all_frame(2,4) [of pl env "d5\<lparr>dev_bridge := s, dev_flash := dev_flash d5\<rparr>" "[Mesh_send_text c]"] d6 t(2) by simp_all
  moreover have "device_invar (pl_crypto pl) d'" by (rule invar_fw_loop [OF t(1) inv])
  ultimately have "idle pl d' \<and> chunk_queue (dev_bridge d') = q \<and> pending_send_at_ms (dev_bridge d') = fe_now env + BRIDGE_CHUNK_DELAY_MS"
    using t(4-6) drain s(2,3) d2(2,3) by (auto simp: idle_def)
  moreover have "fw_loop pl env d = Some (Inr (d', (o1 @ o2 @ o3) @ chunk_frame pkt_id c @ post))" using t(1) drain by simp
  ultimately show ?thesis by blast
qed

lemma idle_turn:
  assumes "idle pl d" and "undisturbed env"
    and "chunk_queue (dev_bridge d) = c # q" and "0 \<le> sint (fe_now env - pending_send_at_ms (dev_bridge d))"
  shows "\<exists>d' before pkt_id after. fw_loop pl env d = Some (Inr (d', before @ chunk_frame pkt_id c @ after)) \<and> idle pl d' \<and>
    chunk_queue (dev_bridge d') = q \<and> pending_send_at_ms (dev_bridge d') = fe_now env + BRIDGE_CHUNK_DELAY_MS"
proof -
  have d: "device_invar (pl_crypto pl) d" "dev_started d" "online (dev_mesh d)" "rx_items (ble_rx (dev_ble d)) = []"
    using assms(1) by (simp_all add: idle_def)
  have e: "fe_link env" "fe_link_drain env" "fe_bytes env = []" using assms(2) by (simp_all add: undisturbed_def)
  obtain m o1 where 1: "mesh_turn pl env d = Some (Inr (d\<lparr>dev_mesh := m, dev_draws := dev_draws d + 1\<rparr>, o1))" "online m"
    using mesh_turn_online [OF d(3) e(1), of pl d "[]"] d(3) e(3) by auto
  let ?d1 = "d\<lparr>dev_mesh := m, dev_draws := dev_draws d + 1\<rparr>"
  have "ble_invar (dev_ble ?d1)" "rx_items (ble_rx (dev_ble ?d1)) = []" using d by (simp_all add: device_invar_def)
  then obtain b o2 where 2: "ble_turn pl env ?d1 = Some (Inr (?d1\<lparr>dev_ble := b\<rparr>, o2))" "rx_items (ble_rx b) = []"
    using ble_turn_quiet by blast
  show ?thesis
    by (rule tail_sends_chunk [OF d(1,2) e(1,2) 1(1) 2(1)]) (use 1(2) 2(2) d(2) assms(3,4) in simp_all)
qed

lemma idle_turns:
  assumes "idle pl d" and "list_all undisturbed envs" and "length envs = length (chunk_queue (dev_bridge d))"
    and "due_times (pending_send_at_ms (dev_bridge d)) (map fe_now envs)"
  shows "\<exists>d' outs ids. fw_turns pl envs d = Some (Inr (d', outs)) \<and> length ids = length envs \<and> idle pl d' \<and>
    chunk_queue (dev_bridge d') = [] \<and> subseq (concat (map2 chunk_frame ids (chunk_queue (dev_bridge d)))) outs"
  using assms
proof (induction envs arbitrary: d)
  case (Cons env envs)
  obtain c q where q: "chunk_queue (dev_bridge d) = c # q" using Cons.prems(3) by (cases "chunk_queue (dev_bridge d)") auto
  have e: "undisturbed env" "0 \<le> sint (fe_now env - pending_send_at_ms (dev_bridge d))" using Cons.prems(2,4) by simp_all
  obtain d1 before pkt_id after where 1: "fw_loop pl env d = Some (Inr (d1, before @ chunk_frame pkt_id c @ after))" "idle pl d1"
    "chunk_queue (dev_bridge d1) = q" "pending_send_at_ms (dev_bridge d1) = fe_now env + BRIDGE_CHUNK_DELAY_MS"
    using idle_turn [OF Cons.prems(1) e(1) q e(2)] by blast
  obtain d' outs ids where 2: "fw_turns pl envs d1 = Some (Inr (d', outs))" "length ids = length envs" "idle pl d'"
    "chunk_queue (dev_bridge d') = []" "subseq (concat (map2 chunk_frame ids q)) outs"
    using Cons.IH [of d1] 1(2-4) Cons.prems(2-4) q by auto
  have "fw_turns pl (env # envs) d = Some (Inr (d', (before @ chunk_frame pkt_id c @ after) @ outs))"
    using 1(1) 2(1) by simp
  moreover have "subseq (concat (map2 chunk_frame (pkt_id # ids) (c # q))) ((before @ chunk_frame pkt_id c @ after) @ outs)"
    using 2(5) by (simp add: list_emb_append2 list_emb_append_mono)
  moreover have "length (pkt_id # ids) = length (env # envs)" using 2(2) by simp
  ultimately show ?case using 2(3,4) q by metis
qed simp

section \<open>A long text, chunk by chunk\<close>

lemma chunks_as_frames:
  assumes "is_cstr p" and "is_cstr body" and "length p \<le> 79" and "c \<in> set (split_chunks p body)"
  shows "take MESH_DATA_MAX (c_str c) = c"
proof -
  have "is_cstr c" using assms(4) by (auto simp: split_chunks_def chunk_text_def Let_def)
  then show ?thesis using chunks_fit [OF assms(1-3)] assms(4) by fastforce
qed

lemma map2_cong_frames:
  assumes "\<forall>c\<in>set cs. take MESH_DATA_MAX (c_str c) = c"
  shows "map2 chunk_frame ids cs = map2 text_frame ids cs"
proof -
  have "c \<in> set cs" if "(i, c) \<in> set (zip ids cs)" for i c using that by (rule set_zip_rightD)
  then show ?thesis using assms by (auto intro!: map_cong)
qed


section \<open>From one mesh to another\<close>


section \<open>Examples\<close>


text \<open>Two bridges with the same tables; a digest whose first bytes are not zero.\<close>

definition digest_crypto :: crypto where
  "digest_crypto = sized_crypto\<lparr>sha256 := (\<lambda>_. replicate 32 9)\<rparr>"

lemma digest_crypto_derives:
  "\<exists>kp. bitchat_derive_keypair digest_crypto zero_keypair 7 = Some kp \<and> fingerprint kp = replicate 32 9"
proof -
  have "crypto_sizes digest_crypto" using sized_crypto_sizes by (simp add: crypto_sizes_def digest_crypto_def hmac_ok_def)
  from derive_keypair_result [OF this, of zero_keypair 7] show ?thesis by (auto simp: digest_crypto_def sized_crypto_def)
qed


end
