(* ===== verification/Ed25519_Scalar.thy ===== *)
theory Ed25519_Scalar
  imports Bitchat_Identity
begin

text \<open>
  The scalars of \<^verbatim>\<open>src/bitchat/ed25519.h\<close>: \<^verbatim>\<open>_ed_reduce\<close> computes the remainder modulo the group order, with bounds of
  all limbs on the way, and what \<^verbatim>\<open>ed25519_sign\<close> puts into the second half of a signature.
\<close>

section \<open>Numbers in base 256\<close>

definition ed_order :: int where
  "ed_order = 2 ^ 252 + 27742317777372353535851937790883648493"

definition limbs_val :: "int list \<Rightarrow> int" where
  "limbs_val x = (\<Sum>k<length x. x ! k * 256 ^ k)"

lemma limbs_val_Nil [simp]: "limbs_val [] = 0"
  by (simp add: limbs_val_def)

lemma limbs_val_Cons [simp]: "limbs_val (a # x) = a + 256 * limbs_val x"
  by (simp add: limbs_val_def sum.lessThan_Suc_shift sum_distrib_left algebra_simps del: sum.lessThan_Suc)

lemma limbs_val_append: "limbs_val (x @ y) = limbs_val x + 256 ^ length x * limbs_val y"
  by (induction x) (simp_all add: algebra_simps)

lemma limbs_val_zeros [simp]: "limbs_val (replicate n 0) = 0"
  by (induction n) simp_all

lemma limbs_val_update:
  assumes "i < length x"
  shows "limbs_val (x[i := y]) = limbs_val x + (y - x ! i) * 256 ^ i"
  using assms
proof (induction x arbitrary: i)
  case (Cons a x)
  show ?case
  proof (cases i)
    case (Suc n)
    with Cons.prems have "limbs_val (x[n := y]) = limbs_val x + (y - x ! n) * 256 ^ n" by (intro Cons.IH) simp
    with Suc show ?thesis by (simp add: distrib_left)
  qed simp
qed simp

lemma limbs_val_le_nat: "limbs_val (map uint b) = int (le_nat b)"
  by (induction b) simp_all

lemma ed_L_val: "limbs_val ed_L = ed_order"
  by (simp add: ed_L_def ed_order_def numeral_eq_Suc)

lemma ed_L_low: "(\<Sum>m<20. ed_L ! m * 256 ^ m) = ed_order - 16 * 256 ^ 31"
  by (simp add: ed_L_def ed_order_def lessThan_nat_numeral lessThan_Suc)

lemma ed_L_full: "(\<Sum>m<32. ed_L ! m * 256 ^ m) = ed_order"
proof -
  have "length ed_L = 32" by (simp add: ed_L_def)
  then show ?thesis using ed_L_val by (simp only: limbs_val_def)
qed

lemma ed_L_small: "m < 32 \<Longrightarrow> 0 \<le> ed_L ! m \<and> ed_L ! m \<le> 255"
proof -
  have "list_all (\<lambda>v. 0 \<le> v \<and> v \<le> 255) ed_L" "length ed_L = 32" by (simp_all add: ed_L_def)
  then show "m < 32 \<Longrightarrow> 0 \<le> ed_L ! m \<and> ed_L ! m \<le> 255" by (simp add: list_all_length)
qed

lemma ed_L_mid: "ed_L ! 16 = 0" "ed_L ! 17 = 0" "ed_L ! 18 = 0" "ed_L ! 19 = 0"
  by (simp_all add: ed_L_def)

section \<open>A row of the reduction\<close>

text \<open>Rounding to the nearest multiple of 256.\<close>

lemma carry_bound: "\<bar>(v + 128) div 256\<bar> \<le> (\<bar>v\<bar> + 128) div (256 :: int)"
  by (cases "0 \<le> v") linarith+

lemma balanced: "- 128 \<le> v - (v + 128) div 256 * 256 \<and> v - (v + 128) div 256 * 256 \<le> (127 :: int)"
  by linarith

lemma reduce_inner_step:
  assumes "reduce_inner i (x, c) j = (x', c')" and "j < length x"
  shows "length x' = length x" and "\<And>k. k \<noteq> j \<Longrightarrow> x' ! k = x ! k" and "\<bar>x' ! j\<bar> \<le> 128"
    and "limbs_val x' + c' * 256 ^ Suc j = limbs_val x + c * 256 ^ j - 16 * x ! i * (ed_L ! (j - (i - 32)) * 256 ^ j)"
    and "\<bar>c'\<bar> \<le> (\<bar>x ! j + c - 16 * x ! i * ed_L ! (j - (i - 32))\<bar> + 128) div 256"
proof -
  define v where "v = x ! j + c - 16 * x ! i * ed_L ! (j - (i - 32))"
  have r: "x' = x[j := v - (v + 128) div 256 * 256]" "c' = (v + 128) div 256"
    using assms(1) by (auto simp: reduce_inner_def v_def Let_def)
  show "length x' = length x" "\<And>k. k \<noteq> j \<Longrightarrow> x' ! k = x ! k" by (simp_all add: r)
  show "\<bar>x' ! j\<bar> \<le> 128" using balanced [of v] assms(2) by (auto simp: r)
  show "limbs_val x' + c' * 256 ^ Suc j = limbs_val x + c * 256 ^ j - 16 * x ! i * (ed_L ! (j - (i - 32)) * 256 ^ j)"
    using assms(2) by (simp add: r limbs_val_update v_def algebra_simps)
  show "\<bar>c'\<bar> \<le> (\<bar>x ! j + c - 16 * x ! i * ed_L ! (j - (i - 32))\<bar> + 128) div 256"
    using carry_bound [of v] by (simp only: r v_def)
qed

lemma chain_val:
  assumes "foldl (reduce_inner i) (x, 0) [a..<a + n] = (x', c')" and "a + n \<le> i" and "i < length x"
  shows "length x' = length x \<and> (\<forall>k. k < a \<or> a + n \<le> k \<longrightarrow> x' ! k = x ! k) \<and> (\<forall>k. a \<le> k \<and> k < a + n \<longrightarrow> \<bar>x' ! k\<bar> \<le> 128) \<and>
    limbs_val x' + c' * 256 ^ (a + n) = limbs_val x - 16 * x ! i * (\<Sum>m<n. ed_L ! (a + m - (i - 32)) * 256 ^ (a + m))"
  using assms
proof (induction n arbitrary: x' c')
  case (Suc n)
  obtain y c where y: "foldl (reduce_inner i) (x, 0) [a..<a + n] = (y, c)" by fastforce
  then have s: "reduce_inner i (y, c) (a + n) = (x', c')" using Suc.prems(1) by simp
  note IH = Suc.IH [OF y] and st = reduce_inner_step [OF s]
  have len: "length y = length x" and yi: "y ! i = x ! i" using IH Suc.prems(2,3) by auto
  have "limbs_val x' + c' * 256 ^ (a + Suc n) =
      limbs_val x - 16 * x ! i * (\<Sum>m<Suc n. ed_L ! (a + m - (i - 32)) * 256 ^ (a + m))"
    using st(4) IH Suc.prems(2,3) len yi by (simp add: algebra_simps)
  moreover have "x' ! k = x ! k" if "k < a \<or> a + Suc n \<le> k" for k
    using that st(2) [of k] IH Suc.prems(2,3) len by auto
  moreover have "\<bar>x' ! k\<bar> \<le> 128" if "a \<le> k" "k < a + Suc n" for k
    using that st(2) [of k] st(3) IH Suc.prems(2,3) len by (cases "k = a + n") auto
  ultimately show ?case using st(1) Suc.prems(2,3) len by auto
qed auto

lemma chain_carry:
  assumes "foldl (reduce_inner i) (x, 0) [i - 32..<i - 32 + n] = (x', c')" and "n \<le> 16" and "32 \<le> i" and "i < length x"
    and "\<forall>k<length x. \<bar>x ! k\<bar> \<le> B" and "1 \<le> B"
  shows "\<bar>c'\<bar> \<le> 17 * B"
  using assms(1,2)
proof (induction n arbitrary: x' c')
  case (Suc n)
  let ?j = "i - 32 + n"
  obtain y c where y: "foldl (reduce_inner i) (x, 0) [i - 32..<?j] = (y, c)" by fastforce
  then have s: "reduce_inner i (y, c) ?j = (x', c')" using Suc.prems(1) by simp
  have cv: "length y = length x" "y ! i = x ! i" "y ! ?j = x ! ?j"
    using chain_val [OF y] assms(3,4) Suc.prems(2) by auto
  have b: "\<bar>x ! i\<bar> \<le> B" "\<bar>x ! ?j\<bar> \<le> B" using assms(3-5) Suc.prems(2) by auto
  have "0 \<le> ed_L ! n" "ed_L ! n \<le> 255" using ed_L_small [of n] Suc.prems(2) by auto
  then have "\<bar>x ! i * ed_L ! n\<bar> \<le> B * 255" unfolding abs_mult using b assms(6) by (intro mult_mono) auto
  then have "\<bar>y ! ?j + c - 16 * y ! i * ed_L ! n\<bar> \<le> 4098 * B"
    using Suc.IH [OF y] Suc.prems(2) b(2) by (simp add: cv mult.assoc)
  then show ?case using reduce_inner_step(5) [OF s] cv assms(3,4,6) Suc.prems(2) by simp linarith
qed (use assms(6) in auto)

text \<open>The four limbs after the sixteenth, where the order has zeros, absorb the carry.\<close>

lemma absorb_step:
  assumes "reduce_inner i (x, c) j = (x', c')" and "j < length x" and "ed_L ! (j - (i - 32)) = 0" and "\<bar>x ! j\<bar> \<le> T" and "\<bar>c\<bar> \<le> C"
  shows "\<bar>c'\<bar> \<le> (T + C + 128) div 256"
proof -
  have "\<bar>c'\<bar> \<le> (\<bar>x ! j + c\<bar> + 128) div 256" using reduce_inner_step(5) [OF assms(1,2)] assms(3) by simp
  also have "\<dots> \<le> (T + C + 128) div 256" using assms(4,5) by (intro zdiv_mono1) auto
  finally show ?thesis .
qed

definition absorbed :: "int \<Rightarrow> int \<Rightarrow> int" where
  "absorbed T B = (T + (T + (T + (T + 17 * B + 128) div 256 + 128) div 256 + 128) div 256 + 128) div 256"

lemma upt_four: "[b..<b + 4] = [b, b + 1, b + 2, b + 3 :: nat]"
  by (simp add: upt_conv_Cons numeral_eq_Suc)

lemma row_carry:
  assumes "foldl (reduce_inner i) (x, 0) [i - 32..<i - 12] = (x', c')" and i: "32 \<le> i" "i < length x"
    and B: "\<forall>k<length x. \<bar>x ! k\<bar> \<le> B" "1 \<le> B" and T: "\<forall>k. i - 16 \<le> k \<and> k < i - 12 \<longrightarrow> \<bar>x ! k\<bar> \<le> T"
  shows "\<bar>c'\<bar> \<le> absorbed T B"
proof -
  let ?a = "i - 32"
  have "[?a..<i - 12] = [?a..<?a + 16] @ [?a + 16, ?a + 17, ?a + 18, ?a + 19]"
  proof -
    have "i - 12 = ?a + 16 + 4" using i(1) by simp
    moreover have "[?a..<?a + 16 + 4] = [?a..<?a + 16] @ [?a + 16..<?a + 16 + 4]" by (rule upt_add_eq_append) simp
    moreover have "[?a + 16..<?a + 16 + 4] = [?a + 16, ?a + 17, ?a + 18, ?a + 19]" using upt_four [of "?a + 16"] by simp
    ultimately show ?thesis by (simp only:)
  qed
  moreover obtain x0 c0 where 0: "foldl (reduce_inner i) (x, 0) [?a..<?a + 16] = (x0, c0)" by fastforce
  moreover obtain x1 c1 where 1: "reduce_inner i (x0, c0) (?a + 16) = (x1, c1)" by fastforce
  moreover obtain x2 c2 where 2: "reduce_inner i (x1, c1) (?a + 17) = (x2, c2)" by fastforce
  moreover obtain x3 c3 where 3: "reduce_inner i (x2, c2) (?a + 18) = (x3, c3)" by fastforce
  ultimately have 4: "reduce_inner i (x3, c3) (?a + 19) = (x', c')" using assms(1) by simp
  have l0: "length x0 = length x" "\<And>k. ?a + 16 \<le> k \<Longrightarrow> x0 ! k = x ! k" using chain_val [OF 0] i by auto
  have l1: "length x1 = length x" "\<And>k. ?a + 17 \<le> k \<Longrightarrow> x1 ! k = x ! k" using reduce_inner_step(1,2) [OF 1] l0 i by auto
  have l2: "length x2 = length x" "\<And>k. ?a + 18 \<le> k \<Longrightarrow> x2 ! k = x ! k" using reduce_inner_step(1,2) [OF 2] l1 i by auto
  have l3: "length x3 = length x" "\<And>k. ?a + 19 \<le> k \<Longrightarrow> x3 ! k = x ! k" using reduce_inner_step(1,2) [OF 3] l2 i by auto
  have t: "\<bar>x ! (?a + 16)\<bar> \<le> T" "\<bar>x ! (?a + 17)\<bar> \<le> T" "\<bar>x ! (?a + 18)\<bar> \<le> T" "\<bar>x ! (?a + 19)\<bar> \<le> T"
    using i(1) by (auto intro!: T [rule_format])
  have pos: "?a + 16 < length x" "?a + 17 < length x" "?a + 18 < length x" "?a + 19 < length x" using i by simp_all
  have "\<bar>c0\<bar> \<le> 17 * B" using chain_carry [OF 0 _ i B] by simp
  with absorb_step [OF 1 _ _ t(1) [folded l0(2) [OF order_refl]]]
  have b1: "\<bar>c1\<bar> \<le> (T + 17 * B + 128) div 256" using pos l0(1) ed_L_mid by auto
  have b2: "\<bar>c2\<bar> \<le> (T + (T + 17 * B + 128) div 256 + 128) div 256"
    by (rule absorb_step [OF 2 _ _ t(2) [folded l1(2) [OF order_refl]] b1]) (use pos l1(1) ed_L_mid in simp_all)
  have b3: "\<bar>c3\<bar> \<le> (T + (T + (T + 17 * B + 128) div 256 + 128) div 256 + 128) div 256"
    by (rule absorb_step [OF 3 _ _ t(3) [folded l2(2) [OF order_refl]] b2]) (use pos l2(1) ed_L_mid in simp_all)
  show ?thesis unfolding absorbed_def
    by (rule absorb_step [OF 4 _ _ t(4) [folded l3(2) [OF order_refl]] b3]) (use pos l3(1) ed_L_mid in simp_all)
qed

lemma row_sum:
  assumes "32 \<le> i"
  shows "(\<Sum>m<20. ed_L ! (i - 32 + m - (i - 32)) * 256 ^ (i - 32 + m)) = 256 ^ (i - 32) * (ed_order - 16 * 256 ^ 31)"
proof -
  have "(\<Sum>m<20. ed_L ! (i - 32 + m - (i - 32)) * 256 ^ (i - 32 + m)) = (\<Sum>m<20. 256 ^ (i - 32) * (ed_L ! m * 256 ^ m))"
    by (intro sum.cong) (simp_all add: power_add)
  then show ?thesis by (simp only: ed_L_low flip: sum_distrib_left)
qed

lemma row_result:
  assumes i: "32 \<le> i" "i < length x" and B: "\<forall>k<length x. \<bar>x ! k\<bar> \<le> B" "1 \<le> B"
    and T: "\<forall>k. i - 16 \<le> k \<and> k < i - 12 \<longrightarrow> \<bar>x ! k\<bar> \<le> T"
  shows "length (reduce_row x i) = length x" and "reduce_row x i ! i = 0"
    and "\<And>k. k < i - 32 \<or> i - 12 < k \<and> k \<noteq> i \<Longrightarrow> reduce_row x i ! k = x ! k"
    and "\<And>k. i - 32 \<le> k \<Longrightarrow> k < i - 12 \<Longrightarrow> \<bar>reduce_row x i ! k\<bar> \<le> 128"
    and "\<bar>reduce_row x i ! (i - 12) - x ! (i - 12)\<bar> \<le> absorbed T B"
    and "limbs_val (reduce_row x i) = limbs_val x - 16 * x ! i * 256 ^ (i - 32) * ed_order"
proof -
  obtain y c where y: "foldl (reduce_inner i) (x, 0) [i - 32..<i - 12] = (y, c)" by fastforce
  have n: "i - 12 = i - 32 + 20" using i(1) by simp
  note cv = chain_val [of i x "i - 32" 20 y c, folded n, OF y diff_le_self i(2)]
  have r: "reduce_row x i = y[i - 12 := x ! (i - 12) + c, i := 0]" using y cv by (simp add: reduce_row_def)
  show "length (reduce_row x i) = length x" "reduce_row x i ! i = 0" using cv i by (simp_all add: r)
  show "reduce_row x i ! k = x ! k" if "k < i - 32 \<or> i - 12 < k \<and> k \<noteq> i" for k using that cv i by (auto simp: r)
  show "\<bar>reduce_row x i ! k\<bar> \<le> 128" if "i - 32 \<le> k" "k < i - 12" for k using that cv by (auto simp: r)
  show "\<bar>reduce_row x i ! (i - 12) - x ! (i - 12)\<bar> \<le> absorbed T B"
    using row_carry [OF y i B T] cv i by (simp add: r)
  have yi: "y ! i = x ! i" "y ! (i - 12) = x ! (i - 12)" "length y = length x" using cv i by auto
  have p: "(256 :: int) ^ i = 256 ^ (i - 32) * 256 ^ 32"
    using power_add [of "256 :: int" "i - 32" 32] i(1) by (simp only: le_add_diff_inverse2)
  have "limbs_val (reduce_row x i) = limbs_val y + c * 256 ^ (i - 12) - x ! i * 256 ^ i"
    using i yi by (simp add: r limbs_val_update)
  also have "\<dots> = limbs_val x - 16 * x ! i * (256 ^ (i - 32) * (ed_order - 16 * 256 ^ 31)) - x ! i * 256 ^ i"
    using cv row_sum [OF i(1)] by (simp add: n)
  finally show "limbs_val (reduce_row x i) = limbs_val x - 16 * x ! i * 256 ^ (i - 32) * ed_order"
    unfolding p by (simp add: algebra_simps)
qed

section \<open>All rows\<close>

text \<open>
  After the rows from 63 down to \<open>i\<close>: the limbs from \<open>i\<close> on are zero, the twenty below \<open>i - 12\<close> balanced, those between
  balanced up to the last carry, but for the ones no row has touched yet.
\<close>

definition rows_ok :: "int list \<Rightarrow> nat \<Rightarrow> bool" where
  "rows_ok x i \<longleftrightarrow> length x = 64 \<and> (\<forall>k. i \<le> k \<and> k < 64 \<longrightarrow> x ! k = 0) \<and> (\<forall>k<64. \<bar>x ! k\<bar> \<le> 2 ^ 28) \<and>
     (\<forall>k. i - 32 \<le> k \<and> k < i - 12 \<longrightarrow> \<bar>x ! k\<bar> \<le> 128) \<and> (\<forall>k. i - 12 \<le> k \<and> k < i \<and> k < 51 \<longrightarrow> \<bar>x ! k\<bar> \<le> 130)"

lemma rows_okD:
  assumes "rows_ok x i"
  shows "length x = 64" and "\<And>k. i \<le> k \<Longrightarrow> k < 64 \<Longrightarrow> x ! k = 0" and "\<And>k. k < 64 \<Longrightarrow> \<bar>x ! k\<bar> \<le> 2 ^ 28"
    and "\<And>k. i - 32 \<le> k \<Longrightarrow> k < i - 12 \<Longrightarrow> \<bar>x ! k\<bar> \<le> 128" and "\<And>k. i - 12 \<le> k \<Longrightarrow> k < i \<Longrightarrow> k < 51 \<Longrightarrow> \<bar>x ! k\<bar> \<le> 130"
  using assms by (simp_all add: rows_ok_def)

lemma first_row:
  assumes "length x = 64" and "\<forall>k<64. \<bar>x ! k\<bar> \<le> 2 ^ 27"
  shows "rows_ok (reduce_row x 63) 63"
proof -
  have "\<forall>k. 63 - 16 \<le> k \<and> k < 63 - 12 \<longrightarrow> \<bar>x ! k\<bar> \<le> 2 ^ 27" using assms(2) by simp
  note row = row_result [of 63 x "2 ^ 27", simplified assms(1), OF _ _ assms(2) _ this, simplified]
  have "\<bar>reduce_row x 63 ! k\<bar> \<le> 2 ^ 28" if "k < 64" for k
  proof -
    consider "k < 31 \<or> 51 < k \<and> k \<noteq> 63" | "31 \<le> k" "k < 51" | "k = 51" | "k = 63" using that by linarith
    then show ?thesis
    proof cases
      case 1
      then show ?thesis using row(3) [of k] assms(2) that by fastforce
    next
      case 2
      then show ?thesis using row(4) [of k] by simp
    next
      case 3
      have "\<bar>x ! 51\<bar> \<le> 2 ^ 27" using assms(2) by simp
      then show ?thesis using row(5) by (simp add: 3 absorbed_def)
    next
      case 4
      then show ?thesis using row(2) by simp
    qed
  qed
  moreover have "reduce_row x 63 ! k = 0" if "63 \<le> k" "k < 64" for k
  proof -
    have "k = 63" using that by simp
    then show ?thesis using row(2) by simp
  qed
  ultimately show ?thesis using row(1,4) by (auto simp: rows_ok_def)
qed

lemma next_row:
  assumes ok: "rows_ok x (Suc i)" and i: "32 \<le> i" "i < 63"
  shows "rows_ok (reduce_row x i) i"
proof -
  have len: "length x = 64" and B: "\<forall>k<64. \<bar>x ! k\<bar> \<le> 2 ^ 28" using ok by (simp_all add: rows_ok_def)
  have "\<forall>k. i - 16 \<le> k \<and> k < i - 12 \<longrightarrow> \<bar>x ! k\<bar> \<le> 128" using i by (auto intro: rows_okD(4) [OF ok])
  note row = row_result [of i x "2 ^ 28", unfolded len, OF i(1) _ B _ this]
  have lt: "i < 64" using i by simp
  have c: "absorbed 128 (2 ^ 28) = 2" by (simp add: absorbed_def)
  have mid: "\<bar>reduce_row x i ! (i - 12)\<bar> \<le> 130"
  proof -
    have "\<bar>x ! (i - 12)\<bar> \<le> 128" using rows_okD(4) [OF ok, of "i - 12"] i by simp
    then show ?thesis using row(5) [OF lt] unfolding c by simp
  qed
  have low: "\<bar>reduce_row x i ! k\<bar> \<le> 128" if "i - 32 \<le> k" "k < i - 12" for k using row(4) [OF lt _ that] by simp
  have same: "reduce_row x i ! k = x ! k" if "k < i - 32 \<or> i - 12 < k \<and> k \<noteq> i" for k using row(3) [OF lt _ that] by simp
  have z: "reduce_row x i ! i = 0" "length (reduce_row x i) = 64" using row(1,2) [OF lt] len by simp_all
  have "\<bar>reduce_row x i ! k\<bar> \<le> 2 ^ 28" if "k < 64" for k
  proof -
    consider "k < i - 32 \<or> i - 12 < k \<and> k \<noteq> i" | "i - 32 \<le> k" "k < i - 12" | "k = i - 12" | "k = i" by linarith
    then show ?thesis by cases (use same low mid z B that in fastforce)+
  qed
  moreover have "reduce_row x i ! k = 0" if "i \<le> k" "k < 64" for k
  proof (cases "k = i")
    case False
    then have "i - 12 < k" using that i by linarith
    with False show ?thesis using that same [of k] rows_okD(2) [OF ok, of k] by simp
  qed (use z in simp)
  moreover have "\<bar>reduce_row x i ! k\<bar> \<le> 130" if "i - 12 \<le> k" "k < i" "k < 51" for k
    using that mid same [of k] rows_okD(5) [OF ok, of k] i by (cases "k = i - 12") simp_all
  ultimately show ?thesis using z low by (simp add: rows_ok_def)
qed

lemma mod_diff_mult: "(a - b * m) mod m = a mod (m :: int)"
  using mod_mult_self1 [of a "- b" m] by simp

lemma all_rows:
  assumes "length x = 64" and "\<forall>k<64. \<bar>x ! k\<bar> \<le> 2 ^ 27" and "n \<le> 31"
  shows "rows_ok (foldl reduce_row x (rev [63 - n..<64])) (63 - n) \<and>
    limbs_val (foldl reduce_row x (rev [63 - n..<64])) mod ed_order = limbs_val x mod ed_order"
  using assms(3)
proof (induction n)
  case 0
  have "\<forall>k. 63 - 16 \<le> k \<and> k < 63 - 12 \<longrightarrow> \<bar>x ! k\<bar> \<le> 2 ^ 27" using assms(2) by simp
  then have "limbs_val (reduce_row x 63) = limbs_val x - 16 * x ! 63 * 256 ^ (63 - 32) * ed_order"
    using row_result(6) [of 63 x "2 ^ 27" "2 ^ 27"] assms(1,2) by simp
  then have "limbs_val (reduce_row x 63) mod ed_order = limbs_val x mod ed_order" by (simp only: mod_diff_mult)
  then show ?case using first_row [OF assms(1,2)] by (simp add: upt_rec)
next
  case (Suc n)
  let ?i = "63 - Suc n"
  let ?y = "foldl reduce_row x (rev [63 - n..<64])"
  have e: "Suc ?i = 63 - n" using Suc.prems by simp
  then have u: "[?i..<64] = ?i # [63 - n..<64]" using Suc.prems upt_conv_Cons [of ?i 64] by simp
  have ok: "rows_ok ?y (Suc ?i)" unfolding e using Suc by simp
  have "\<forall>k. ?i - 16 \<le> k \<and> k < ?i - 12 \<longrightarrow> \<bar>?y ! k\<bar> \<le> 128" using Suc.prems by (auto intro: rows_okD(4) [OF ok])
  then have "limbs_val (reduce_row ?y ?i) = limbs_val ?y - 16 * ?y ! ?i * 256 ^ (?i - 32) * ed_order"
    using row_result(6) [of ?i ?y "2 ^ 28" 128] ok Suc.prems by (simp add: rows_ok_def)
  then have "limbs_val (reduce_row ?y ?i) mod ed_order = limbs_val x mod ed_order" using Suc by (simp only: mod_diff_mult)
  then show ?case using next_row [OF ok] Suc.prems unfolding u by simp
qed

section \<open>The last steps\<close>

lemma top_val:
  assumes "length x = 64" and "b \<le> 32" and "foldl reduce_top (x, 0) [0..<b] = (y, c)"
  shows "length y = 64 \<and> (\<forall>k. b \<le> k \<longrightarrow> y ! k = x ! k) \<and> (\<forall>k<b. 0 \<le> y ! k \<and> y ! k < 256) \<and>
    limbs_val y + c * 256 ^ b = limbs_val x - (x ! 31 div 16) * (\<Sum>m<b. ed_L ! m * 256 ^ m)"
  using assms(2,3)
proof (induction b arbitrary: y c)
  case (Suc b)
  obtain z d where z: "foldl reduce_top (x, 0) [0..<b] = (z, d)" by fastforce
  define v where "v = z ! b + d - (z ! 31 div 16) * ed_L ! b"
  have IH: "length z = 64" "\<And>k. b \<le> k \<Longrightarrow> z ! k = x ! k" "\<And>k. k < b \<Longrightarrow> 0 \<le> z ! k \<and> z ! k < 256"
    "limbs_val z + d * 256 ^ b = limbs_val x - (x ! 31 div 16) * (\<Sum>m<b. ed_L ! m * 256 ^ m)"
    using Suc.IH [OF _ z] Suc.prems(1) by auto
  have m: "v AND 0xff = v mod 256" using take_bit_eq_mask [of 8 v] by (simp add: take_bit_eq_mod mask_eq_exp_minus_1)
  have "reduce_top (z, d) b = (y, c)" using Suc.prems(2) z by simp
  then have r: "y = z[b := v mod 256]" "c = v div 256"
    using m by (auto simp: reduce_top_def v_def Let_def)
  have v: "v = z ! b + d - (x ! 31 div 16) * ed_L ! b" using IH(2) [of 31] Suc.prems(1) by (simp add: v_def)
  have dm: "v div 256 * 256 = v - v mod 256" using div_mult_mod_eq [of v 256] by linarith
  have "limbs_val y + c * 256 ^ Suc b = limbs_val z + (v mod 256 - z ! b) * 256 ^ b + v div 256 * 256 * 256 ^ b"
    using IH(1) Suc.prems(1) by (simp add: r limbs_val_update)
  also have "\<dots> = limbs_val z + (v - z ! b) * 256 ^ b" unfolding dm by (simp add: algebra_simps)
  also have "\<dots> = limbs_val x - (x ! 31 div 16) * (\<Sum>m<Suc b. ed_L ! m * 256 ^ m)"
    using IH(4) by (simp add: v algebra_simps)
  finally show ?case using IH(1-3) Suc.prems(1) by (auto simp: r nth_list_update less_Suc_eq)
qed (use assms(1) in auto)

lemma correct_val:
  assumes "length x = 64" and "b \<le> 32"
  shows "length (foldl (\<lambda>x j. x[j := x ! j - c * ed_L ! j]) x [0..<b]) = 64 \<and>
    (\<forall>k. b \<le> k \<longrightarrow> foldl (\<lambda>x j. x[j := x ! j - c * ed_L ! j]) x [0..<b] ! k = x ! k) \<and>
    limbs_val (foldl (\<lambda>x j. x[j := x ! j - c * ed_L ! j]) x [0..<b]) = limbs_val x - c * (\<Sum>m<b. ed_L ! m * 256 ^ m)"
  using assms(2)
proof (induction b)
  case (Suc b)
  then show ?case by (auto simp: limbs_val_update algebra_simps)
qed (use assms(1) in auto)

lemma propagate_val:
  fixes x :: "int list"
  assumes "length x = 64" and "b \<le> 32"
  shows "length (foldl (\<lambda>x i. x[i + 1 := x ! (i + 1) + x ! i div 256]) x [0..<b]) = 64 \<and>
    (\<forall>k. b < k \<longrightarrow> foldl (\<lambda>x i. x[i + 1 := x ! (i + 1) + x ! i div 256]) x [0..<b] ! k = x ! k) \<and>
    (\<Sum>k<b. foldl (\<lambda>x i. x[i + 1 := x ! (i + 1) + x ! i div 256]) x [0..<b] ! k mod 256 * 256 ^ k) +
      foldl (\<lambda>x i. x[i + 1 := x ! (i + 1) + x ! i div 256]) x [0..<b] ! b * 256 ^ b = (\<Sum>k<Suc b. x ! k * 256 ^ k)"
  using assms(2)
proof (induction b)
  case (Suc b)
  define y where "y = foldl (\<lambda>x i. x[i + 1 := x ! (i + 1) + x ! i div 256]) x [0..<b]"
  have IH: "length y = 64" "\<And>k. b < k \<Longrightarrow> y ! k = x ! k" "(\<Sum>k<b. y ! k mod 256 * 256 ^ k) + y ! b * 256 ^ b = (\<Sum>k<Suc b. x ! k * 256 ^ k)"
    using Suc unfolding y_def by auto
  define z where "z = y[Suc b := x ! Suc b + y ! b div 256]"
  have z: "foldl (\<lambda>x i. x[i + 1 := x ! (i + 1) + x ! i div 256]) x [0..<Suc b] = z"
    using IH(2) [of "Suc b"] by (simp add: z_def y_def)
  have zk: "z ! k = y ! k" if "k \<le> b" for k using that by (simp add: z_def)
  have dm: "y ! b div 256 * 256 = y ! b - y ! b mod 256" using div_mult_mod_eq [of "y ! b" 256] by linarith
  have "(\<Sum>k<Suc b. z ! k mod 256 * 256 ^ k) = (\<Sum>k<b. y ! k mod 256 * 256 ^ k) + y ! b mod 256 * 256 ^ b"
    using zk by simp
  moreover have "z ! Suc b * 256 ^ Suc b = x ! Suc b * 256 ^ Suc b + y ! b div 256 * 256 * 256 ^ b"
    using IH(1) Suc.prems by (simp add: z_def algebra_simps)
  ultimately have "(\<Sum>k<Suc b. z ! k mod 256 * 256 ^ k) + z ! Suc b * 256 ^ Suc b = (\<Sum>k<Suc (Suc b). x ! k * 256 ^ k)"
    using IH(3) unfolding dm by (simp add: algebra_simps)
  then show ?case using IH(1,2) unfolding z by (auto simp: z_def)
qed (use assms(1) in auto)

section \<open>The reduction\<close>

lemma limbs_below:
  assumes "length x = 64" and "\<And>k. 32 \<le> k \<Longrightarrow> k < 64 \<Longrightarrow> x ! k = 0"
  shows "limbs_val x = (\<Sum>k<32. x ! k * 256 ^ k)"
  unfolding limbs_val_def assms(1) by (rule sum.mono_neutral_right) (use assms(2) in auto)

lemma digits_bound:
  assumes "\<And>k. k < n \<Longrightarrow> 0 \<le> f k \<and> f k < (256 :: int)"
  shows "0 \<le> (\<Sum>k<n. f k * 256 ^ k) \<and> (\<Sum>k<n. f k * 256 ^ k) < 256 ^ n"
  using assms
proof (induction n)
  case (Suc n)
  have "0 \<le> f n" "f n \<le> 255" using Suc.prems [of n] by auto
  then have "0 \<le> f n * 256 ^ n" "f n * 256 ^ n \<le> 255 * 256 ^ n" by (auto intro: mult_right_mono)
  moreover have "0 \<le> (\<Sum>k<n. f k * 256 ^ k) \<and> (\<Sum>k<n. f k * 256 ^ k) < 256 ^ n" using Suc by simp
  ultimately show ?case unfolding sum.lessThan_Suc power_Suc by linarith
qed simp

lemma balanced_bound:
  assumes "\<And>k. k < n \<Longrightarrow> \<bar>f k\<bar> \<le> (130 :: int)"
  shows "255 * \<bar>\<Sum>k<n. f k * 256 ^ k\<bar> \<le> 130 * (256 ^ n - 1)"
  using assms
proof (induction n)
  case (Suc n)
  have "\<bar>f n * 256 ^ n\<bar> \<le> 130 * 256 ^ n" using Suc.prems [of n] by (simp add: abs_mult)
  then have "\<bar>(\<Sum>k<n. f k * 256 ^ k) + f n * 256 ^ n\<bar> \<le> \<bar>\<Sum>k<n. f k * 256 ^ k\<bar> + 130 * 256 ^ n" by linarith
  moreover have "255 * \<bar>\<Sum>k<n. f k * 256 ^ k\<bar> \<le> 130 * (256 ^ n - 1)" using Suc by simp
  ultimately show ?case by simp
qed simp

text \<open>What the quotient estimate leaves lies between minus the order and the order.\<close>

lemma estimate:
  assumes "\<And>k. k < 32 \<Longrightarrow> \<bar>x ! k\<bar> \<le> (130 :: int)"
  shows "- ed_order < (\<Sum>k<32. x ! k * 256 ^ k) - (x ! 31 div 16) * ed_order \<and>
    (\<Sum>k<32. x ! k * 256 ^ k) - (x ! 31 div 16) * ed_order < ed_order"
proof -
  define S where "S = (\<Sum>k<31. x ! k * 256 ^ k)"
  have "(\<Sum>k<Suc 31. x ! k * 256 ^ k) = S + x ! 31 * 256 ^ 31" by (simp only: sum.lessThan_Suc S_def)
  then have V: "(\<Sum>k<32. x ! k * 256 ^ k) = S + x ! 31 * 256 ^ 31" by simp
  have "255 * \<bar>S\<bar> \<le> 130 * (256 ^ 31 - 1)" unfolding S_def by (rule balanced_bound) (use assms in simp)
  moreover have "\<bar>x ! 31\<bar> \<le> 130" using assms [of 31] by simp
  moreover obtain q m where q: "x ! 31 = 16 * q + m" "0 \<le> m" "m < 16" "x ! 31 div 16 = q"
  proof
    show "x ! 31 = 16 * (x ! 31 div 16) + x ! 31 mod 16" "x ! 31 div 16 = x ! 31 div 16" by simp_all
  qed simp_all
  ultimately show ?thesis unfolding V q(4) unfolding q(1) ed_order_def by (simp add: algebra_simps) linarith
qed

lemma settled_carry:
  assumes "0 \<le> Y" and "Y < N" and "Y + c * N = W" and "- L < W" and "W < L" and "L < (N :: int)"
  shows "0 \<le> W - c * L \<and> W - c * L < L"
proof -
  have "c * N < 1 * N" "- 2 * N < c * N" "0 < N" using assms by linarith+
  then have "c < 1" "- 2 < c" by (simp_all only: mult_less_cancel_right_pos)
  then have "c = 0 \<or> c = -1" by linarith
  then show ?thesis using assms by auto
qed

lemma settled_digits: "D + k * N = V \<Longrightarrow> 0 \<le> D \<Longrightarrow> D < N \<Longrightarrow> V < N \<Longrightarrow> 0 \<le> V \<Longrightarrow> D = (V :: int)"
  using mod_mult_self1 [of D k N] by simp

lemma ed_reduce_val:
  assumes "length x = 64" and "\<forall>k<64. \<bar>x ! k\<bar> \<le> 2 ^ 27"
  shows "int (le_nat (ed_reduce x)) = limbs_val x mod ed_order"
proof -
  define x1 where "x1 = foldl reduce_row x (rev [32..<64])"
  have rows: "rows_ok x1 32" "limbs_val x1 mod ed_order = limbs_val x mod ed_order"
    using all_rows [OF assms, of 31] by (simp_all add: x1_def)
  have b1: "\<bar>x1 ! k\<bar> \<le> 130" if "k < 32" for k
    using that rows_okD(4,5) [OF rows(1), of k] by (cases "k < 20") simp_all
  have v1: "limbs_val x1 = (\<Sum>k<32. x1 ! k * 256 ^ k)" using limbs_below rows_okD(1,2) [OF rows(1)] by simp
  obtain x2 c where x2: "foldl reduce_top (x1, 0) [0..<32] = (x2, c)" by fastforce
  define W where "W = limbs_val x1 - (x1 ! 31 div 16) * ed_order"
  have t: "length x2 = 64" "\<And>k. 32 \<le> k \<Longrightarrow> x2 ! k = x1 ! k" "\<And>k. k < 32 \<Longrightarrow> 0 \<le> x2 ! k \<and> x2 ! k < 256"
    "limbs_val x2 + c * 256 ^ 32 = W"
    using top_val [OF rows_okD(1) [OF rows(1)] order_refl x2] by (auto simp only: ed_L_full W_def)
  have z2: "x2 ! k = 0" if "32 \<le> k" "k < 64" for k using that t(2) rows_okD(2) [OF rows(1)] by simp
  have v2: "0 \<le> limbs_val x2" "limbs_val x2 < 256 ^ 32"
    using digits_bound [of 32 "\<lambda>k. x2 ! k"] t(3) limbs_below [OF t(1) z2] by simp_all
  have w: "- ed_order < W" "W < ed_order" using estimate [of x1] b1 unfolding W_def v1 by simp_all
  have lt: "ed_order < 256 ^ 32" by (simp add: ed_order_def)
  have R: "0 \<le> W - c * ed_order" "W - c * ed_order < ed_order" using settled_carry [OF v2 t(4) w lt] by simp_all
  define x3 where "x3 = foldl (\<lambda>x j. x[j := x ! j - c * ed_L ! j]) x2 [0..<32]"
  have c3: "length x3 = 64" "\<And>k. 32 \<le> k \<Longrightarrow> x3 ! k = x2 ! k" "limbs_val x3 = limbs_val x2 - c * ed_order"
    using correct_val [OF t(1) order_refl, of c] unfolding ed_L_full x3_def by blast+
  define x4 where "x4 = foldl (\<lambda>x i. x[i + 1 := x ! (i + 1) + x ! i div 256]) x3 [0..<32]"
  have "(\<Sum>k<32. x4 ! k mod 256 * 256 ^ k) + x4 ! 32 * 256 ^ 32 = (\<Sum>k<Suc 32. x3 ! k * 256 ^ k)"
    using propagate_val [OF c3(1) order_refl] unfolding x4_def by blast
  also have "\<dots> = limbs_val x3" using limbs_below [OF c3(1)] c3(2) z2 by (simp only: sum.lessThan_Suc)
  finally have "(\<Sum>k<32. x4 ! k mod 256 * 256 ^ k) + (x4 ! 32 + c) * 256 ^ 32 = W - c * ed_order"
    using c3(3) t(4) by (simp only: distrib_right)
  moreover have "0 \<le> (\<Sum>k<32. x4 ! k mod 256 * 256 ^ k)" "(\<Sum>k<32. x4 ! k mod 256 * 256 ^ k) < 256 ^ 32"
    using digits_bound [of 32 "\<lambda>k. x4 ! k mod 256"] by simp_all
  moreover have "W - c * ed_order < 256 ^ 32" using R(2) lt by linarith
  ultimately have digits: "(\<Sum>k<32. x4 ! k mod 256 * 256 ^ k) = W - c * ed_order"
    by (rule settled_digits) (rule R(1))
  have byte: "uint (of_int (v AND 0xff) :: u8) = v mod 256" for v
    using take_bit_eq_mask [of 8 v] by (simp add: take_bit_eq_mod mask_eq_exp_minus_1 uint_word_of_int)
  have "ed_reduce x = map (\<lambda>i. of_int (x4 ! i AND 0xff)) [0..<32]"
    using x2 by (simp add: ed_reduce_def Let_def x1_def x3_def x4_def)
  then have "map uint (ed_reduce x) = map (\<lambda>i. x4 ! i mod 256) [0..<32]" by (simp add: byte)
  then have "int (le_nat (ed_reduce x)) = W - c * ed_order"
    using digits by (simp add: limbs_val_le_nat [symmetric] limbs_val_def)
  also have "\<dots> = (W - c * ed_order) mod ed_order" using R by simp
  also have "\<dots> = limbs_val x mod ed_order" unfolding W_def using rows(2) by (simp only: mod_diff_mult)
  finally show ?thesis .
qed

lemma limbs_of_bytes: "length b = n \<Longrightarrow> (\<Sum>k<n. uint (b ! k) * 256 ^ k) = int (le_nat b)"
  by (simp add: limbs_val_le_nat [symmetric] limbs_val_def)

lemma byte_le: "uint (b :: u8) \<le> 255"
  using uint_lt2p [of b] by simp

lemma ed_reduce_hash:
  assumes "length h = 64"
  shows "int (le_nat (ed_reduce (map uint (take 64 h)))) = int (le_nat h) mod ed_order"
proof -
  have "\<bar>uint (h ! k)\<bar> \<le> 2 ^ 27" for k using byte_le [of "h ! k"] by simp
  then show ?thesis using ed_reduce_val [of "map uint h"] assms by (simp add: limbs_val_le_nat)
qed

section \<open>The scalar of a signature\<close>

definition add_product :: "bytes \<Rightarrow> bytes \<Rightarrow> int list \<Rightarrow> nat \<times> nat \<Rightarrow> int list" where
  "add_product h d x ij = (case ij of (i, j) \<Rightarrow> x[i + j := x ! (i + j) + uint (h ! i) * uint (d ! j)])"

lemma products_val:
  assumes "set ps \<subseteq> {..<32} \<times> {..<32}" and "length x = 64" and "\<forall>k<64. 0 \<le> x ! k \<and> x ! k \<le> B"
  shows "length (foldl (add_product h d) x ps) = 64 \<and>
    limbs_val (foldl (add_product h d) x ps) = limbs_val x + (\<Sum>(i, j)\<leftarrow>ps. uint (h ! i) * 256 ^ i * (uint (d ! j) * 256 ^ j)) \<and>
    (\<forall>k<64. 0 \<le> foldl (add_product h d) x ps ! k \<and> foldl (add_product h d) x ps ! k \<le> B + int (length ps) * 65025)"
  using assms
proof (induction ps arbitrary: x B)
  case (Cons p ps)
  obtain i j where p: "p = (i, j)" "i < 32" "j < 32" using Cons.prems(1) by (cases p) auto
  let ?y = "add_product h d x p"
  have "uint (h ! i) * uint (d ! j) \<le> 255 * 255" by (rule mult_mono) (simp_all add: byte_le)
  moreover have "0 \<le> uint (h ! i) * uint (d ! j)" "0 \<le> x ! (i + j)" "x ! (i + j) \<le> B" using Cons.prems(3) p by simp_all
  ultimately have y: "\<forall>k<64. 0 \<le> ?y ! k \<and> ?y ! k \<le> B + 65025" "length ?y = 64"
    using Cons.prems(2,3) p by (auto simp: add_product_def nth_list_update add_mono)
  have "limbs_val ?y = limbs_val x + uint (h ! i) * 256 ^ i * (uint (d ! j) * 256 ^ j)"
    using Cons.prems(2) p by (simp add: add_product_def limbs_val_update power_add)
  with Cons.IH [OF _ y(2,1)] Cons.prems(1) p show ?case by (simp add: algebra_simps)
qed simp

lemma le_nat_halves:
  assumes "32 \<le> length h"
  shows "le_nat (take 32 h) = le_nat h mod 2 ^ 256" and "le_nat (drop 32 h) = le_nat h div 2 ^ 256"
proof -
  have n: "(256 :: nat) ^ 32 = 2 ^ 256" by simp
  have "le_nat h = le_nat (take 32 h) + 2 ^ 256 * le_nat (drop 32 h)"
    using le_nat_append [of "take 32 h" "drop 32 h"] assms by (simp only: append_take_drop_id length_take min.absorb2 n)
  moreover have "le_nat (take 32 h) < 2 ^ 256" using le_nat_less [of "take 32 h"] assms by (simp only: length_take min.absorb2 n)
  ultimately show "le_nat (take 32 h) = le_nat h mod 2 ^ 256" "le_nat (drop 32 h) = le_nat h div 2 ^ 256"
    by (simp_all only: mod_mult_self2 mod_less div_mult_self2 div_less)
qed

lemma sum_of_bytes:
  assumes "32 \<le> length h"
  shows "(\<Sum>i\<leftarrow>[0..<32]. uint (h ! i) * 256 ^ i) = int (le_nat (take 32 h))"
proof -
  have "(\<Sum>i\<leftarrow>[0..<32]. uint (h ! i) * 256 ^ i) = (\<Sum>i<32. uint (take 32 h ! i) * 256 ^ i)"
    by (simp add: interv_sum_list_conv_sum_set_nat atLeast0LessThan)
  then show ?thesis using limbs_of_bytes [of "take 32 h" 32] assms by simp
qed

lemma length_ed_reduce [simp]: "length (ed_reduce x) = 32"
  by (simp add: ed_reduce_def Let_def split_beta)

lemma sign_scalar_val:
  assumes "length r = 32" and "32 \<le> length h" and "32 \<le> length d"
  shows "int (le_nat (ed_reduce (foldl (add_product h d) (map uint r @ replicate 32 0) (List.product [0..<32] [0..<32])))) =
    (int (le_nat r) + int (le_nat (take 32 h)) * int (le_nat (take 32 d))) mod ed_order"
proof -
  let ?x = "map uint r @ replicate 32 0"
  let ?y = "foldl (add_product h d) ?x (List.product [0..<32] [0..<32])"
  have "\<forall>k<64. 0 \<le> ?x ! k \<and> ?x ! k \<le> 255" using assms(1) by (simp add: nth_append byte_le)
  then have y: "length ?y = 64" "\<forall>k<64. 0 \<le> ?y ! k \<and> ?y ! k \<le> 255 + int (length (List.product [0..<32 :: nat] [0..<32 :: nat])) * 65025"
    "limbs_val ?y = limbs_val ?x + (\<Sum>(i, j)\<leftarrow>List.product [0..<32] [0..<32]. uint (h ! i) * 256 ^ i * (uint (d ! j) * 256 ^ j))"
    using products_val [of "List.product [0..<32] [0..<32]" ?x 255 h d] assms(1) by (auto simp: atLeast0LessThan)
  have "\<bar>?y ! k\<bar> \<le> 2 ^ 27" if "k < 64" for k using y(2) [rule_format, OF that] by (simp only: length_product length_upt) simp
  then have "int (le_nat (ed_reduce ?y)) = limbs_val ?y mod ed_order" by (intro ed_reduce_val y(1)) simp
  also have "limbs_val ?y = int (le_nat r) + int (le_nat (take 32 h)) * int (le_nat (take 32 d))"
    unfolding y(3) sum_product_list sum_of_bytes [OF assms(2)] sum_of_bytes [OF assms(3)]
    by (simp add: limbs_val_append limbs_val_le_nat)
  finally show ?thesis .
qed

lemma sign_parts:
  fixes cr :: crypto and sk msg :: bytes
  assumes "\<And>m. length (sha512 cr m) = 64"
  defines "d \<equiv> ed_clamp (sha512 cr (take 32 sk))"
  defines "R \<equiv> take 32 (ed25519_sign cr msg sk)"
  shows "int (le_nat (drop 32 (ed25519_sign cr msg sk))) =
    (int (le_nat (sha512 cr (take 32 (drop 32 d) @ msg))) +
     int (le_nat (take 32 (sha512 cr (R @ take 32 (drop 32 sk) @ msg)))) * int (le_nat (take 32 d))) mod ed_order"
proof -
  let ?n = "sha512 cr (take 32 (drop 32 d) @ msg)"
  let ?r = "ed_reduce (map uint (take 64 ?n))"
  let ?h = "sha512 cr (R @ take 32 (drop 32 sk) @ msg)"
  have f: "(\<lambda>x (i, j). x[i + j := x ! (i + j) + uint (h ! i) * uint (d ! j)]) = add_product h d" for h d
    by (auto simp: add_product_def fun_eq_iff)
  have R: "R = ed_pack_point (ed_scalarbase ?r)" by (simp add: R_def d_def ed25519_sign_def Let_def)
  have "length d = 64" using assms(1) by (simp add: d_def ed_clamp_def)
  have "drop 32 (ed25519_sign cr msg sk) = ed_reduce (foldl (add_product ?h d) (map uint ?r @ replicate 32 0) (List.product [0..<32] [0..<32]))"
    by (simp add: ed25519_sign_def Let_def f R flip: d_def)
  then show ?thesis
    using sign_scalar_val [of ?r ?h d] ed_reduce_hash [OF assms(1), of "take 32 (drop 32 d) @ msg"] assms(1) \<open>length d = 64\<close>
    by (simp add: mod_add_left_eq)
qed

text \<open>
  C25: the reduction of scalars is division by the group order.  For sixty-four limbs of up to 27 bits in size, which covers hashes
  and the products of a signature, the thirty-two bytes of \<^verbatim>\<open>_ed_reduce\<close> are the remainder of the number the limbs stand for.
\<close>

theorem scalar_reduction:
  assumes "length x = 64" and "\<forall>k<64. \<bar>x ! k\<bar> \<le> 2 ^ 27"
  shows "int (le_nat (ed_reduce x)) = limbs_val x mod ed_order \<and> length (ed_reduce x) = 32"
  using ed_reduce_val [OF assms] by simp

theorem scalar_reduction_witness:
  "int (le_nat (ed_reduce (replicate 64 255))) = limbs_val (replicate 64 255) mod ed_order"
  using scalar_reduction [of "replicate 64 255"] by simp

lemma truncated_hash_iff:
  fixes h a r :: int
  shows "(r + h mod 2 ^ 256 * a) mod ed_order = (r + h * a) mod ed_order \<longleftrightarrow> ed_order dvd h div 2 ^ 256 * a"
proof -
  have "(r + h mod 2 ^ 256 * a) mod ed_order = (r + h * a) mod ed_order \<longleftrightarrow> ed_order dvd (r + h * a) - (r + h mod 2 ^ 256 * a)"
    using mod_eq_dvd_iff [of "r + h * a" ed_order "r + h mod 2 ^ 256 * a"] by metis
  also have "(r + h * a) - (r + h mod 2 ^ 256 * a) = 2 ^ 256 * (h div 2 ^ 256 * a)"
    using mult_div_mod_eq [of "2 ^ 256" h] by (metis add_diff_cancel_left add_diff_cancel_right' left_diff_distrib mult.assoc)
  also have "ed_order dvd 2 ^ 256 * (h div 2 ^ 256 * a) \<longleftrightarrow> ed_order dvd h div 2 ^ 256 * a"
  proof (rule coprime_dvd_mult_right_iff)
    have "odd ed_order" by (simp add: ed_order_def)
    then have "coprime ed_order 2" by simp
    then show "coprime ed_order (2 ^ 256)" by (rule coprime_power_right_iff [THEN iffD2, OF disjI1])
  qed
  finally show ?thesis .
qed

text \<open>
  C36: signatures use half of the hash.  With \<open>a\<close> the clamped secret scalar, \<open>r\<close> the nonce and \<open>h\<close> the hash of point, public key and message
  as a number of 512 bits, RFC 8032 asks for the scalar \<open>r + h * a\<close> modulo the order.  The source does not reduce the hash
  before the multiplication, and multiplies by its first 32 bytes only.  So the second half of a signature is
  \<open>r + (h mod 2 ^ 256) * a\<close>, and is the scalar of the RFC just if the order divides the upper half of the hash times \<open>a\<close>.
\<close>

theorem signature_scalar:
  assumes "\<And>m. length (sha512 cr m) = 64"
    and "d = ed_clamp (sha512 cr (take 32 sk))" and "a = int (le_nat (take 32 d))"
    and "r = int (le_nat (sha512 cr (take 32 (drop 32 d) @ msg)))"
    and "sig = ed25519_sign cr msg sk" and "h = int (le_nat (sha512 cr (take 32 sig @ take 32 (drop 32 sk) @ msg)))"
  shows "int (le_nat (drop 32 sig)) = (r + h mod 2 ^ 256 * a) mod ed_order \<and>
    (int (le_nat (drop 32 sig)) = (r + h * a) mod ed_order \<longleftrightarrow> ed_order dvd h div 2 ^ 256 * a)"
proof -
  have "int (le_nat (take 32 (sha512 cr (take 32 sig @ take 32 (drop 32 sk) @ msg)))) = h mod 2 ^ 256"
    unfolding assms(6) using le_nat_halves(1) assms(1) by (simp only: zmod_int of_nat_power of_nat_numeral)
  then have "int (le_nat (drop 32 sig)) = (r + h mod 2 ^ 256 * a) mod ed_order"
    using sign_parts [of cr msg sk, OF assms(1)] by (simp add: assms(2-5))
  then show ?thesis using truncated_hash_iff by simp
qed

text \<open>A hash in which only the first bit of the upper half is set.\<close>

definition upper_bit_crypto :: crypto where
  "upper_bit_crypto = sized_crypto\<lparr>sha512 := (\<lambda>_. replicate 32 0 @ 1 # replicate 31 0)\<rparr>"

theorem signature_scalar_witness:
  "int (le_nat (drop 32 (ed25519_sign upper_bit_crypto [104, 105] (replicate 64 7)))) \<noteq> (2 ^ 256 + 2 ^ 256 * 2 ^ 254) mod ed_order"
proof -
  let ?H = "replicate 32 0 @ 1 # replicate 31 (0 :: u8)"
  have H: "sha512 upper_bit_crypto m = ?H" for m by (simp add: upper_bit_crypto_def)
  have h: "int (le_nat ?H) = 2 ^ 256" by (simp add: le_nat_append)
  have "take 32 (ed_clamp ?H) = replicate 31 0 @ [64]" by code_simp
  then have a: "int (le_nat (take 32 (ed_clamp ?H))) = 2 ^ 254" by (simp add: le_nat_append)
  have "\<not> ed_order dvd 2 ^ 256 div 2 ^ 256 * 2 ^ 254" by (simp add: ed_order_def dvd_eq_mod_eq_0)
  then show ?thesis
    using signature_scalar [of upper_bit_crypto, OF _ refl refl refl refl refl, of "[104, 105]" "replicate 64 7"]
    unfolding H h a by simp
qed

end
