(* ===== verification/Ed25519_Field.thy ===== *)
theory Ed25519_Field
  imports Ed25519_Scalar
begin

text \<open>
  The canonical form of the field elements of \<^verbatim>\<open>src/bitchat/ed25519.h\<close>: \<^verbatim>\<open>_ed_pack25519\<close> writes the residue modulo
  \<open>2 ^ 255 - 19\<close>, so that comparing and taking the parity of packed elements speaks of the elements themselves.
\<close>

section \<open>Carrying\<close>

text \<open>The carry into a limb.\<close>

fun carry_in :: "gf \<Rightarrow> nat \<Rightarrow> int" where
  "carry_in f 0 = 0"
| "carry_in f (Suc k) = (f ! k + carry_in f k) div 2 ^ 16"

lemma car_step_lower:
  assumes "i < 15" and "length f = 16"
  shows "car_step f i = f[i + 1 := f ! (i + 1) + f ! i div 2 ^ 16, i := f ! i mod 2 ^ 16]"
proof -
  have "f ! i + 2 ^ 16 - (f ! i + 2 ^ 16) div 2 ^ 16 * 2 ^ 16 = f ! i mod 2 ^ 16"
    by (simp add: minus_mult_div_eq_mod [symmetric] div_add1_eq)
  then show ?thesis using assms by (auto simp: car_step_def Let_def list_eq_iff_nth_eq nth_list_update)
qed

lemma car_step_top:
  assumes "length f = 16"
  shows "car_step f 15 = f[15 := f ! 15 mod 2 ^ 16, 0 := f ! 0 + 38 * (f ! 15 div 2 ^ 16)]"
proof -
  have "(f ! 15 + 2 ^ 16) div 2 ^ 16 = f ! 15 div 2 ^ 16 + 1" by simp
  moreover have "f ! 15 + 2 ^ 16 - (f ! 15 + 2 ^ 16) div 2 ^ 16 * 2 ^ 16 = f ! 15 mod 2 ^ 16"
    by (simp add: minus_mult_div_eq_mod [symmetric] div_add1_eq)
  ultimately show ?thesis using assms by (auto simp: car_step_def Let_def list_eq_iff_nth_eq nth_list_update)
qed

lemma car_prefix:
  assumes "length f = 16" and "n \<le> 15"
  shows "length (foldl car_step f [0..<n]) = 16 \<and> (\<forall>k<n. foldl car_step f [0..<n] ! k = (f ! k + carry_in f k) mod 2 ^ 16) \<and>
    foldl car_step f [0..<n] ! n = f ! n + carry_in f n \<and> (\<forall>k. n < k \<longrightarrow> foldl car_step f [0..<n] ! k = f ! k)"
  using assms(2)
proof (induction n)
  case (Suc n)
  let ?y = "foldl car_step f [0..<n]"
  have y: "length ?y = 16" "\<And>k. k < n \<Longrightarrow> ?y ! k = (f ! k + carry_in f k) mod 2 ^ 16" "?y ! n = f ! n + carry_in f n"
    "\<And>k. n < k \<Longrightarrow> ?y ! k = f ! k"
    using Suc by auto
  have "foldl car_step f [0..<Suc n] = ?y[n + 1 := ?y ! (n + 1) + ?y ! n div 2 ^ 16, n := ?y ! n mod 2 ^ 16]"
    using car_step_lower [of n ?y] Suc.prems y(1) by simp
  then show ?case using Suc.prems y by (auto simp: nth_list_update less_Suc_eq)
qed (use assms(1) in auto)

lemma ed_car_nth:
  assumes "length f = 16" and "k < 16"
  shows "ed_car f ! k = (f ! k + carry_in f k) mod 2 ^ 16 + (if k = 0 then 38 * carry_in f 16 else 0)"
proof -
  let ?y = "foldl car_step f [0..<15]"
  have y: "length ?y = 16" "\<And>k. k < 15 \<Longrightarrow> ?y ! k = (f ! k + carry_in f k) mod 2 ^ 16" "?y ! 15 = f ! 15 + carry_in f 15"
    using car_prefix [OF assms(1), of 15] by auto
  have "[0..<16] = [0..<15] @ [15 :: nat]" by (simp add: upt_rec)
  then have "ed_car f = car_step ?y 15" by (simp add: ed_car_def)
  also have "\<dots> = ?y[15 := ?y ! 15 mod 2 ^ 16, 0 := ?y ! 0 + 38 * (?y ! 15 div 2 ^ 16)]" by (rule car_step_top [OF y(1)])
  finally have e: "ed_car f = ?y[15 := ?y ! 15 mod 2 ^ 16, 0 := ?y ! 0 + 38 * (?y ! 15 div 2 ^ 16)]" .
  have c: "carry_in f 16 = (f ! 15 + carry_in f 15) div 2 ^ 16" using carry_in.simps(2) [of f 15] by simp
  consider "k = 0" | "k = 15" | "0 < k" "k < 15" using assms(2) by linarith
  then show ?thesis by cases (use y in \<open>simp_all add: e c\<close>)
qed

definition normal :: "gf \<Rightarrow> bool" where
  "normal f \<longleftrightarrow> length f = 16 \<and> (\<forall>k<16. 0 \<le> f ! k \<and> f ! k < 2 ^ 16)"

definition carried :: "gf \<Rightarrow> bool" where
  "carried f \<longleftrightarrow> length f = 16 \<and> (\<forall>k<16. - 38 \<le> f ! k \<and> f ! k < 2 ^ 16 + 38)"

lemma carry_bound_all:
  assumes "\<forall>k<16. \<bar>f ! k\<bar> \<le> 2 ^ 62" and "n \<le> 16"
  shows "\<bar>carry_in f n\<bar> \<le> 2 ^ 47"
  using assms(2)
proof (induction n)
  case (Suc n)
  then have "\<bar>carry_in f n\<bar> \<le> 2 ^ 47" "\<bar>f ! n\<bar> \<le> 2 ^ 62" using assms(1) by auto
  then show ?case by simp
qed simp

lemma first_car:
  assumes "length f = 16" and "\<forall>k<16. \<bar>f ! k\<bar> \<le> 2 ^ 62"
  shows "length (ed_car f) = 16" and "\<bar>ed_car f ! 0\<bar> \<le> 2 ^ 53" and "\<forall>k. 0 < k \<and> k < 16 \<longrightarrow> 0 \<le> ed_car f ! k \<and> ed_car f ! k < 2 ^ 16"
proof -
  show "length (ed_car f) = 16" using ed_car_val [OF assms(1)] by simp
  show "\<bar>ed_car f ! 0\<bar> \<le> 2 ^ 53"
    using carry_bound_all [of f 16] assms pos_mod_bound [of "2 ^ 16" "f ! 0"] pos_mod_sign [of "2 ^ 16" "f ! 0"]
    by (simp add: ed_car_nth)
  show "\<forall>k. 0 < k \<and> k < 16 \<longrightarrow> 0 \<le> ed_car f ! k \<and> ed_car f ! k < 2 ^ 16" using assms(1) by (simp add: ed_car_nth)
qed

text \<open>A carry dies out: it loses sixteen bits per limb, and then is at most one.\<close>

lemma unit_carry:
  assumes "\<forall>k. 0 < k \<and> k < 16 \<longrightarrow> 0 \<le> f ! k \<and> f ! k < 2 ^ 16" and "- 1 \<le> carry_in f m" and "carry_in f m \<le> 1" and "0 < m" and "m \<le> n" and "n \<le> 16"
  shows "- 1 \<le> carry_in f n \<and> carry_in f n \<le> 1 \<and> (0 \<le> carry_in f m \<longrightarrow> 0 \<le> carry_in f n) \<and> (carry_in f m \<le> 0 \<longrightarrow> carry_in f n \<le> 0)"
  using assms(5,6)
proof (induction n rule: dec_induct)
  case (step n)
  then have "0 \<le> f ! n" "f ! n < 2 ^ 16" using assms(1) [rule_format, of n] assms(4) by auto
  with step assms(2,3) show ?case by simp linarith
qed (use assms(2,3) in auto)

lemma second_car:
  assumes len: "length f = 16" and f0: "\<bar>f ! 0\<bar> \<le> 2 ^ 53" and f: "\<forall>k. 0 < k \<and> k < 16 \<longrightarrow> 0 \<le> f ! k \<and> f ! k < 2 ^ 16"
  shows "- 1 \<le> carry_in f 15 \<and> carry_in f 15 \<le> 1" and "- 1 \<le> carry_in f 16 \<and> carry_in f 16 \<le> 1"
proof -
  have c1: "\<bar>carry_in f 1\<bar> \<le> 2 ^ 37" using f0 by simp
  have c2: "\<bar>carry_in f 2\<bar> \<le> 2 ^ 21" using c1 f [rule_format, of 1] carry_in.simps(2) [of f 1] by (simp add: numeral_2_eq_2) linarith
  have c3: "\<bar>carry_in f 3\<bar> \<le> 2 ^ 6" using c2 f [rule_format, of 2] carry_in.simps(2) [of f 2] by (simp add: numeral_3_eq_3) linarith
  have c4: "- 1 \<le> carry_in f 4 \<and> carry_in f 4 \<le> 1" using c3 f [rule_format, of 3] carry_in.simps(2) [of f 3] by simp linarith
  show "- 1 \<le> carry_in f 15 \<and> carry_in f 15 \<le> 1" "- 1 \<le> carry_in f 16 \<and> carry_in f 16 \<le> 1"
    using unit_carry [OF f, of 4 15] unit_carry [OF f, of 4 16] c4 by auto
qed

lemma two_cars:
  assumes "length f = 16" and "\<forall>k<16. \<bar>f ! k\<bar> \<le> 2 ^ 62"
  shows "carried (ed_car (ed_car f))"
proof -
  note one = first_car [OF assms]
  have "length (ed_car (ed_car f)) = 16" using ed_car_val [OF one(1)] by simp
  moreover have "- 38 \<le> ed_car (ed_car f) ! k \<and> ed_car (ed_car f) ! k < 2 ^ 16 + 38" if "k < 16" for k
    using second_car(2) [OF one] pos_mod_bound [of "2 ^ 16" "ed_car f ! k + carry_in (ed_car f) k"]
      pos_mod_sign [of "2 ^ 16" "ed_car f ! k + carry_in (ed_car f) k"] that
    by (simp only: ed_car_nth [OF one(1) that] split: if_splits) auto
  ultimately show ?thesis by (simp add: carried_def)
qed

lemma unit_div:
  assumes "0 \<le> r" and "r < 2 ^ 16" and "- 1 \<le> c \<and> c \<le> (1 :: int)"
  shows "- 1 \<le> (r + 38 * c) div 2 ^ 16 \<and> (r + 38 * c) div 2 ^ 16 \<le> 1"
  using assms by simp linarith

text \<open>A limb that carries a unit out has none of its own left, or all.\<close>

lemma carry_out:
  assumes "- 1 \<le> c \<and> c \<le> (1 :: int)" and "0 \<le> v" and "v < 2 ^ 16"
  shows "(v + c) div 2 ^ 16 = 1 \<Longrightarrow> (v + c) mod 2 ^ 16 = 0" and "(v + c) div 2 ^ 16 = - 1 \<Longrightarrow> (v + c) mod 2 ^ 16 = 2 ^ 16 - 1"
proof -
  define d m where "d = (v + c) div 2 ^ 16" and "m = (v + c) mod 2 ^ 16"
  have "v + c = d * 65536 + m" "0 \<le> m" "m < 65536" using div_mult_mod_eq [of "v + c" "2 ^ 16"] by (simp_all add: d_def m_def)
  then show "(v + c) div 2 ^ 16 = 1 \<Longrightarrow> (v + c) mod 2 ^ 16 = 0" "(v + c) div 2 ^ 16 = - 1 \<Longrightarrow> (v + c) mod 2 ^ 16 = 2 ^ 16 - 1"
    using assms unfolding d_def [symmetric] m_def [symmetric] by simp_all
qed

lemma unit_div_neg: "r < 2 ^ 16 \<Longrightarrow> (r + 38 * - 1) div 2 ^ 16 \<le> (0 :: int)"
  by simp

lemma three_cars:
  assumes "length f = 16" and "\<forall>k<16. \<bar>f ! k\<bar> \<le> 2 ^ 62"
  shows "normal (ed_car (ed_car (ed_car f)))"
proof -
  let ?g = "ed_car f" let ?h = "ed_car ?g"
  note g = first_car [OF assms]
  have len: "length ?h = 16" using ed_car_val [OF g(1)] by simp
  note c = second_car [OF g]
  have c16: "carry_in ?g 16 = (?g ! 15 + carry_in ?g 15) div 2 ^ 16" using carry_in.simps(2) [of ?g 15] by simp
  have h: "?h ! 0 = ?g ! 0 mod 2 ^ 16 + 38 * carry_in ?g 16" "?h ! 15 = (?g ! 15 + carry_in ?g 15) mod 2 ^ 16"
    "\<forall>k. 0 < k \<and> k < 16 \<longrightarrow> 0 \<le> ?h ! k \<and> ?h ! k < 2 ^ 16"
    using ed_car_nth [OF g(1)] by simp_all
  have h0: "0 \<le> ?g ! 0 mod 2 ^ 16" "?g ! 0 mod 2 ^ 16 < 2 ^ 16" by simp_all
  have h1: "carry_in ?h 1 = ?h ! 0 div 2 ^ 16" by simp
  have u: "- 1 \<le> carry_in ?h 1" "carry_in ?h 1 \<le> 1" unfolding h1 h(1) using unit_div [OF h0] c(2) by blast+
  have h16: "carry_in ?h 16 = (?h ! 15 + carry_in ?h 15) div 2 ^ 16" using carry_in.simps(2) [of ?h 15] by simp
  have last: "- 1 \<le> carry_in ?h 15 \<and> carry_in ?h 15 \<le> 1" "0 \<le> carry_in ?h 1 \<Longrightarrow> 0 \<le> carry_in ?h 15" "carry_in ?h 1 \<le> 0 \<Longrightarrow> carry_in ?h 15 \<le> 0"
    using unit_carry [OF h(3) u, of 15] by simp_all
  have g15: "0 \<le> ?g ! 15" "?g ! 15 < 2 ^ 16" using g(3) [rule_format, of 15] by simp_all
  have "carry_in ?h 16 = 0"
  proof -
    consider "carry_in ?g 16 = 0" | "carry_in ?g 16 = 1" | "carry_in ?g 16 = - 1" using c(2) by linarith
    then show ?thesis
    proof cases
      case 1
      then have "carry_in ?h 1 = 0" using h0 unfolding h1 h(1) by simp
      then have "carry_in ?h 15 = 0" using last by simp
      then show ?thesis using h(3) [rule_format, of 15] unfolding h16 by simp
    next
      case 2
      then have "0 \<le> carry_in ?h 1" using h0 unfolding h1 h(1) by simp
      moreover have "?h ! 15 = 0" using 2 carry_out(1) [OF c(1) g15] unfolding c16 h(2) by simp
      ultimately show ?thesis using last unfolding h16 by simp
    next
      case 3
      then have "carry_in ?h 1 \<le> 0" using unit_div_neg [OF h0(2)] unfolding h1 h(1) by (simp only:)
      moreover have "?h ! 15 = 2 ^ 16 - 1" using 3 carry_out(2) [OF c(1) g15] unfolding c16 h(2) by simp
      ultimately show ?thesis using last unfolding h16 by simp
    qed
  qed
  then show ?thesis using ed_car_nth [OF len] ed_car_val [OF len] by (simp add: normal_def)
qed

section \<open>The canonical encoding\<close>

lemma gf_val_Cons [simp]: "gf_val (a # f) = a + 2 ^ 16 * gf_val f"
  by (simp add: gf_val_def sum.lessThan_Suc_shift sum_distrib_left power_add algebra_simps del: sum.lessThan_Suc)

lemma gf_val_Nil [simp]: "gf_val [] = 0"
  by (simp add: gf_val_def)

lemma gf_val_16: "length f = 16 \<Longrightarrow> gf_val f = (\<Sum>k<15. f ! k * 2 ^ (16 * k)) + f ! 15 * 2 ^ 240"
proof -
  have "(\<Sum>k<Suc 15. f ! k * 2 ^ (16 * k)) = (\<Sum>k<15. f ! k * 2 ^ (16 * k)) + f ! 15 * 2 ^ (16 * 15)" by (rule sum.lessThan_Suc)
  then show "length f = 16 \<Longrightarrow> gf_val f = (\<Sum>k<15. f ! k * 2 ^ (16 * k)) + f ! 15 * 2 ^ 240" by (simp add: gf_val_def)
qed

lemma digits16_bound:
  assumes "\<And>k. k < n \<Longrightarrow> 0 \<le> f k \<and> f k < (2 ^ 16 :: int)"
  shows "0 \<le> (\<Sum>k<n. f k * 2 ^ (16 * k)) \<and> (\<Sum>k<n. f k * 2 ^ (16 * k)) < 2 ^ (16 * n)"
  using assms
proof (induction n)
  case (Suc n)
  have "0 \<le> f n" "f n + 1 \<le> 2 ^ 16" using Suc.prems [of n] by auto
  then have "0 \<le> f n * 2 ^ (16 * n)" "(f n + 1) * 2 ^ (16 * n) \<le> 2 ^ 16 * 2 ^ (16 * n)" by (auto intro: mult_right_mono)
  moreover have "0 \<le> (\<Sum>k<n. f k * 2 ^ (16 * k)) \<and> (\<Sum>k<n. f k * 2 ^ (16 * k)) < 2 ^ (16 * n)" using Suc by simp
  moreover have "(2 :: int) ^ (16 * Suc n) = 2 ^ 16 * 2 ^ (16 * n)" by (simp add: power_add)
  ultimately show ?case unfolding sum.lessThan_Suc distrib_right mult_1_left by (intro conjI) linarith+
qed simp

lemma normal_val: "normal f \<Longrightarrow> 0 \<le> gf_val f \<and> gf_val f < 2 ^ 256"
  using digits16_bound [of 16 "\<lambda>k. f ! k"] by (simp add: normal_def gf_val_def)

text \<open>The limbs of the field's characteristic, and the chain of the subtraction with its borrows.\<close>

definition p_limb :: "nat \<Rightarrow> int" where
  "p_limb k = (if k = 0 then 0xffed else if k < 15 then 0xffff else 0x7fff)"

lemma p_limbs: "(\<Sum>k<15. p_limb k * 2 ^ (16 * k)) + p_limb 15 * 2 ^ 240 = P25519"
  by (simp add: p_limb_def P25519_def lessThan_nat_numeral lessThan_Suc)

lemma and_mask16: "v AND 0xffff = v mod (2 ^ 16 :: int)" "v AND 1 = v mod (2 :: int)" "v AND 0xff = v mod (2 ^ 8 :: int)"
  using take_bit_eq_mask [of 16 v] take_bit_eq_mask [of 8 v] by (simp_all add: take_bit_eq_mod mask_eq_exp_minus_1 and_one_eq)

lemma borrow_limb:
  assumes "- (2 ^ 16) \<le> r" and "r < (2 ^ 16 :: int)"
  shows "(r div 2 ^ 16) AND 1 \<in> {0, 1}" and "r = r mod 2 ^ 16 - ((r div 2 ^ 16) AND 1) * 2 ^ 16" and "(r div 2 ^ 16) AND 1 = 1 \<longleftrightarrow> r < 0"
proof -
  have "r div 2 ^ 16 = 0 \<or> r div 2 ^ 16 = - 1" using assms by simp linarith
  then have d: "r div 2 ^ 16 = - ((r div 2 ^ 16) AND 1)" "(r div 2 ^ 16) AND 1 \<in> {0, 1}" by (auto simp: and_mask16)
  then show "(r div 2 ^ 16) AND 1 \<in> {0, 1}" by simp
  show e: "r = r mod 2 ^ 16 - ((r div 2 ^ 16) AND 1) * 2 ^ 16"
    using div_mult_mod_eq [of r "2 ^ 16"] arg_cong [OF d(1), of "\<lambda>q. q * 2 ^ 16"] by linarith
  have "0 \<le> r mod 2 ^ 16" "r mod 2 ^ 16 < 2 ^ 16" by simp_all
  then show "(r div 2 ^ 16) AND 1 = 1 \<longleftrightarrow> r < 0" using d(2) e by auto
qed

lemma subtract_chain:
  assumes t: "normal t" and "n < 15"
  defines "m \<equiv> foldl (pack_m_step t) ((t ! 0 - 0xffed) # replicate 15 0) [1..<Suc n]"
  shows "length m = 16 \<and> - (2 ^ 16) \<le> m ! n \<and> m ! n < 2 ^ 16 \<and> (\<forall>k<n. 0 \<le> m ! k \<and> m ! k < 2 ^ 16) \<and>
    (\<Sum>k<Suc n. m ! k * 2 ^ (16 * k)) = (\<Sum>k<Suc n. (t ! k - p_limb k) * 2 ^ (16 * k))"
  using assms(2) unfolding m_def
proof (induction n)
  case 0
  have "0 \<le> t ! 0" "t ! 0 < 2 ^ 16" using t by (simp_all add: normal_def)
  then show ?case by (simp add: p_limb_def)
next
  case (Suc n)
  define m where "m = foldl (pack_m_step t) ((t ! 0 - 0xffed) # replicate 15 0) [1..<Suc n]"
  have IH: "length m = 16" "- (2 ^ 16) \<le> m ! n" "m ! n < 2 ^ 16" "\<And>k. k < n \<Longrightarrow> 0 \<le> m ! k \<and> m ! k < 2 ^ 16"
    "(\<Sum>k<Suc n. m ! k * 2 ^ (16 * k)) = (\<Sum>k<Suc n. (t ! k - p_limb k) * 2 ^ (16 * k))"
    using Suc unfolding m_def by auto
  define b where "b = (m ! n div 2 ^ 16) AND 1"
  note bl = borrow_limb [OF IH(2,3), folded b_def]
  have tn: "0 \<le> t ! Suc n" "t ! Suc n < 2 ^ 16" using t Suc.prems by (simp_all add: normal_def)
  define m' where "m' = m[Suc n := t ! Suc n - 0xffff - b, n := m ! n mod 2 ^ 16]"
  have "foldl (pack_m_step t) ((t ! 0 - 0xffed) # replicate 15 0) [1..<Suc (Suc n)] = pack_m_step t m (Suc n)"
    by (simp add: m_def)
  also have "\<dots> = m'" using IH(1) Suc.prems by (simp add: pack_m_step_def Let_def m'_def b_def and_mask16(1))
  finally have e: "foldl (pack_m_step t) ((t ! 0 - 0xffed) # replicate 15 0) [1..<Suc (Suc n)] = m'" .
  have k: "m' ! n = m ! n mod 2 ^ 16" "m' ! Suc n = t ! Suc n - 0xffff - b" "\<And>k. k < n \<Longrightarrow> m' ! k = m ! k" "length m' = 16"
    using IH(1) Suc.prems by (simp_all add: m'_def)
  have p: "p_limb (Suc n) = 0xffff" using Suc.prems by (simp add: p_limb_def)
  have "(\<Sum>k<Suc (Suc n). m' ! k * 2 ^ (16 * k)) =
      (\<Sum>k<n. m ! k * 2 ^ (16 * k)) + (m ! n mod 2 ^ 16) * 2 ^ (16 * n) + (t ! Suc n - 0xffff - b) * 2 ^ (16 * Suc n)"
    using k by simp
  also have "\<dots> = (\<Sum>k<n. m ! k * 2 ^ (16 * k)) + (m ! n mod 2 ^ 16 - b * 2 ^ 16) * 2 ^ (16 * n) + (t ! Suc n - 0xffff) * 2 ^ (16 * Suc n)"
    by (simp add: power_add algebra_simps)
  also have "\<dots> = (\<Sum>k<Suc (Suc n). (t ! k - p_limb k) * 2 ^ (16 * k))"
    using IH(5) by (simp only: bl(2) [symmetric] sum.lessThan_Suc p)
  finally have "(\<Sum>k<Suc (Suc n). m' ! k * 2 ^ (16 * k)) = (\<Sum>k<Suc (Suc n). (t ! k - p_limb k) * 2 ^ (16 * k))" .
  moreover have "- (2 ^ 16) \<le> m' ! Suc n" "m' ! Suc n < 2 ^ 16" using tn bl(1) unfolding k(2) by auto
  moreover have "0 \<le> m' ! j \<and> m' ! j < 2 ^ 16" if "j < Suc n" for j
    using that IH(4) [of j] k(1,3) by (cases "j = n") auto
  ultimately show ?case unfolding e using k(4) by blast
qed

lemma ed_sel_0: "length p = length q \<Longrightarrow> ed_sel p q 0 = (p, q)"
  by (simp add: ed_sel_def Let_def list_eq_iff_nth_eq)

lemma xor_swap: "x XOR (x XOR y) = y" "y XOR (x XOR y) = (x :: int)"
  by (simp_all add: xor.assoc [symmetric]) (simp add: xor.commute [of y x] xor.assoc)

lemma ed_sel_1: "length p = length q \<Longrightarrow> ed_sel p q 1 = (q, p)"
  by (simp add: ed_sel_def Let_def list_eq_iff_nth_eq xor_swap)

text \<open>One conditional subtraction.\<close>

lemma pack_sub_val:
  assumes t: "normal t"
  shows "normal (pack_sub t) \<and> gf_val (pack_sub t) = (if P25519 \<le> gf_val t then gf_val t - P25519 else gf_val t)"
proof -
  define m where "m = foldl (pack_m_step t) ((t ! 0 - 0xffed) # replicate 15 0) [1..<15]"
  have "m = foldl (pack_m_step t) ((t ! 0 - 0xffed) # replicate 15 0) [1..<Suc 14]" by (simp add: m_def)
  then have c: "length m = 16" "- (2 ^ 16) \<le> m ! 14" "m ! 14 < 2 ^ 16" "\<And>k. k < 14 \<Longrightarrow> 0 \<le> m ! k \<and> m ! k < 2 ^ 16"
    "(\<Sum>k<Suc 14. m ! k * 2 ^ (16 * k)) = (\<Sum>k<Suc 14. (t ! k - p_limb k) * 2 ^ (16 * k))"
    using subtract_chain [OF t, of 14] by simp_all
  define b where "b = (m ! 14 div 2 ^ 16) AND 1"
  note bl = borrow_limb [OF c(2,3), folded b_def]
  define u where "u = m[15 := t ! 15 - 0x7fff - b, 14 := m ! 14 mod 2 ^ 16]"
  define bv where "bv = (u ! 15 div 2 ^ 16) AND 1"
  have tl: "length t = 16" "0 \<le> t ! 15" "t ! 15 < 2 ^ 16" using t by (simp_all add: normal_def)
  have u: "length u = 16" "u ! 15 = t ! 15 - 0x7fff - b" "u ! 14 = m ! 14 mod 2 ^ 16" "\<And>k. k < 14 \<Longrightarrow> u ! k = m ! k"
    using c(1) by (simp_all add: u_def)
  have ps: "pack_sub t = fst (ed_sel t u (1 - bv))"
    unfolding pack_sub_def Let_def m_def [symmetric] bv_def u_def b_def using c(1) by (simp add: and_mask16(1))
  have r15: "- (2 ^ 16) \<le> u ! 15" "u ! 15 < 2 ^ 16" using tl bl(1) unfolding u(2) by auto
  have low: "0 \<le> u ! k \<and> u ! k < 2 ^ 16" if "k < 15" for k
    using that u(3) u(4) [of k] c(4) [of k] by (cases "k = 14") auto
  have "(\<Sum>k<14. u ! k * 2 ^ (16 * k)) = (\<Sum>k<14. m ! k * 2 ^ (16 * k))" by (intro sum.cong) (simp_all add: u)
  then have "(\<Sum>k<Suc 14. u ! k * 2 ^ (16 * k)) = (\<Sum>k<14. m ! k * 2 ^ (16 * k)) + m ! 14 mod 2 ^ 16 * 2 ^ (16 * 14)"
    by (simp only: sum.lessThan_Suc u(3))
  also have "\<dots> = (\<Sum>k<14. m ! k * 2 ^ (16 * k)) + (m ! 14 + b * 2 ^ 16) * 2 ^ (16 * 14)" using bl(2) by simp
  also have "\<dots> = (\<Sum>k<Suc 14. (t ! k - p_limb k) * 2 ^ (16 * k)) + b * 2 ^ 240" using c(5) unfolding sum.lessThan_Suc distrib_right by simp
  finally have "(\<Sum>k<15. u ! k * 2 ^ (16 * k)) = (\<Sum>k<15. (t ! k - p_limb k) * 2 ^ (16 * k)) + b * 2 ^ 240" by simp
  then have "gf_val u = (\<Sum>k<15. (t ! k - p_limb k) * 2 ^ (16 * k)) + (t ! 15 - p_limb 15) * 2 ^ 240"
    unfolding gf_val_16 [OF u(1)] u(2) by (simp add: p_limb_def algebra_simps)
  also have "\<dots> = gf_val t - P25519"
    unfolding gf_val_16 [OF tl(1)] p_limbs [symmetric] by (simp only: left_diff_distrib sum_subtractf)
  finally have v: "gf_val u = gf_val t - P25519" .
  have s: "0 \<le> (\<Sum>k<15. u ! k * 2 ^ (16 * k))" "(\<Sum>k<15. u ! k * 2 ^ (16 * k)) < 2 ^ 240"
    using digits16_bound [of 15 "\<lambda>k. u ! k"] low by simp_all
  have sign: "u ! 15 < 0 \<longleftrightarrow> gf_val t < P25519"
  proof -
    have "gf_val u = (\<Sum>k<15. u ! k * 2 ^ (16 * k)) + u ! 15 * 2 ^ 240" by (rule gf_val_16 [OF u(1)])
    moreover have "u ! 15 * 2 ^ 240 \<le> - 1 * 2 ^ 240" if "u ! 15 < 0" using that by (intro mult_right_mono) auto
    moreover have "0 \<le> u ! 15 * 2 ^ 240" if "0 \<le> u ! 15" using that by simp
    ultimately show ?thesis using s v by (cases "u ! 15 < 0") auto
  qed
  note bv = borrow_limb [OF r15, folded bv_def]
  show ?thesis
  proof (cases "gf_val t < P25519")
    case True
    then have "bv = 1" using bv(3) sign by simp
    then have "pack_sub t = t" using ed_sel_0 [of t u] tl(1) u(1) ps by simp
    then show ?thesis using True t by simp
  next
    case False
    then have "bv = 0" "0 \<le> u ! 15" using bv(1,3) sign by auto
    then have "pack_sub t = u" using ed_sel_1 [of t u] tl(1) u(1) ps by simp
    moreover have "normal u"
      unfolding normal_def
    proof (intro conjI allI impI)
      fix k :: nat
      assume "k < 16"
      then consider "k < 15" | "k = 15" by linarith
      then show "0 \<le> u ! k" "u ! k < 2 ^ 16" using low r15(2) \<open>0 \<le> u ! 15\<close> by auto
    qed (rule u(1))
    ultimately show ?thesis using False v by simp
  qed
qed

lemma limb_bytes:
  assumes "0 \<le> v" and "v < (2 ^ 16 :: int)"
  shows "int (le_nat ([of_int (v AND 0xff), of_int (v div 2 ^ 8)] @ rest)) = v + 2 ^ 16 * int (le_nat rest)"
proof -
  have "v div 2 ^ 8 < 2 ^ 8" "0 \<le> v div 2 ^ 8" using assms by simp_all
  then have hi: "uint (of_int (v div 2 ^ 8) :: u8) = v div 2 ^ 8" by (simp add: uint_word_of_int)
  have lo: "uint (of_int (v AND 0xff) :: u8) = v mod 2 ^ 8" by (simp add: and_mask16(3) uint_word_of_int)
  have "uint (of_int (v AND 0xff) :: u8) + 2 ^ 8 * uint (of_int (v div 2 ^ 8) :: u8) = v"
    unfolding hi lo by (rule mod_mult_div_eq)
  then show ?thesis unfolding uint_nat by (simp add: distrib_left)
qed

lemma limbs_bytes:
  assumes "\<forall>v\<in>set ts. 0 \<le> v \<and> v < 2 ^ 16"
  shows "int (le_nat (concat (map (\<lambda>v. [of_int (v AND 0xff), of_int (v div 2 ^ 8)]) ts))) = gf_val ts"
  using assms
proof (induction ts)
  case (Cons v ts)
  then show ?case using limb_bytes [of v "concat (map (\<lambda>v. [of_int (v AND 0xff), of_int (v div 2 ^ 8)]) ts)"] by simp
qed simp

lemma pack_canonical_val:
  assumes "length n = 16" and "\<forall>k<16. \<bar>n ! k\<bar> \<le> 2 ^ 62"
  shows "int (le_nat (ed_pack25519 n)) = gf_val n mod P25519"
proof -
  let ?t = "ed_car (ed_car (ed_car n))"
  let ?s = "pack_sub (pack_sub ?t)"
  have t: "normal ?t" by (rule three_cars [OF assms])
  have l: "length (ed_car n) = 16" "length (ed_car (ed_car n)) = 16" using ed_car_val assms(1) by auto
  have m: "gf_val ?t mod P25519 = gf_val n mod P25519"
    using ed_car_val [OF assms(1)] ed_car_val [OF l(1)] ed_car_val [OF l(2)] by simp
  have s1: "normal (pack_sub ?t)" "gf_val (pack_sub ?t) = (if P25519 \<le> gf_val ?t then gf_val ?t - P25519 else gf_val ?t)"
    using pack_sub_val [OF t] by auto
  have s2: "normal ?s" "gf_val ?s = (if P25519 \<le> gf_val (pack_sub ?t) then gf_val (pack_sub ?t) - P25519 else gf_val (pack_sub ?t))"
    using pack_sub_val [OF s1(1)] by auto
  have r: "0 \<le> gf_val ?t" "gf_val ?t < 2 ^ 256" "(2 :: int) ^ 256 < 3 * P25519" "0 < P25519"
    using normal_val [OF t] by (simp_all add: P25519_def)
  have v: "0 \<le> gf_val ?s" "gf_val ?s < P25519" "\<exists>q. gf_val ?s = gf_val ?t - q * P25519"
  proof -
    show "0 \<le> gf_val ?s" "gf_val ?s < P25519" using s1(2) s2(2) r by (auto split: if_splits)
    show "\<exists>q. gf_val ?s = gf_val ?t - q * P25519"
      using s1(2) s2(2) by (auto split: if_splits intro: exI [of _ 0] exI [of _ 1] exI [of _ 2])
  qed
  then have "gf_val ?s = gf_val n mod P25519" using mod_diff_mult m by (metis mod_pos_pos_trivial)
  moreover have "int (le_nat (ed_pack25519 n)) = gf_val ?s"
  proof -
    have s: "length ?s = 16" "\<forall>v\<in>set ?s. 0 \<le> v \<and> v < 2 ^ 16" using s2(1) by (auto simp: normal_def in_set_conv_nth)
    then have "map (\<lambda>v. [of_int (v AND 0xff), of_int (v div 2 ^ 8) :: u8]) ?s = map (\<lambda>i. [of_int (?s ! i AND 0xff), of_int (?s ! i div 2 ^ 8)]) [0..<16]"
      by (simp add: list_eq_iff_nth_eq)
    then show ?thesis using limbs_bytes [OF s(2)] by (simp only: ed_pack25519_def Let_def)
  qed
  ultimately show ?thesis by simp
qed

section \<open>Packing, comparing, unpacking\<close>

lemma le_nat_eq: "length a = length b \<Longrightarrow> le_nat a = le_nat b \<longleftrightarrow> a = b"
  using nat_le_le_nat by metis

lemma le_nat_parity: "b \<noteq> [] \<Longrightarrow> uint (b ! 0 AND 1) = int (le_nat b) mod 2"
proof (cases b)
  case (Cons x xs)
  have "uint (x AND 1) = uint x AND 1" by (simp only: unsigned_and_eq unsigned_1)
  then have "uint (x AND 1) = uint x mod 2" by (simp only: and_one_eq)
  moreover have "int (le_nat b) = uint x + 256 * int (le_nat xs)" using Cons by simp
  ultimately show ?thesis using Cons mod_mult_self2 [of "uint x" 2 "128 * int (le_nat xs)"] by simp
qed simp

lemma pack_equal:
  assumes "length a = 16" and "\<forall>k<16. \<bar>a ! k\<bar> \<le> 2 ^ 62" and "length b = 16" and "\<forall>k<16. \<bar>b ! k\<bar> \<le> 2 ^ 62"
  shows "ed_neq25519 a b \<longleftrightarrow> gf_val a mod P25519 \<noteq> gf_val b mod P25519"
  using pack_canonical_val [OF assms(1,2)] pack_canonical_val [OF assms(3,4)]
    le_nat_eq [of "ed_pack25519 a" "ed_pack25519 b"] by (auto simp: ed_neq25519_def)

lemma pack_parity:
  assumes "length a = 16" and "\<forall>k<16. \<bar>a ! k\<bar> \<le> 2 ^ 62"
  shows "uint (ed_par25519 a) = gf_val a mod P25519 mod 2"
proof -
  have "ed_pack25519 a \<noteq> []" using length_ed_pack25519 [of a] by (metis list.size(3) zero_neq_numeral)
  then show ?thesis unfolding ed_par25519_def using le_nat_parity pack_canonical_val [OF assms] by simp
qed

text \<open>
  C30: packing is canonical.  For limbs of up to 62 bits in size the thirty-two bytes are the value modulo p, below p, so that two
  elements are told apart by \<^verbatim>\<open>_ed_neq25519\<close> exactly if they differ in the field, and \<^verbatim>\<open>_ed_par25519\<close> is the parity of the residue.
\<close>

theorem pack_canonical:
  assumes "length a = 16" and "\<forall>k<16. \<bar>a ! k\<bar> \<le> 2 ^ 62" and "length b = 16" and "\<forall>k<16. \<bar>b ! k\<bar> \<le> 2 ^ 62"
  shows "int (le_nat (ed_pack25519 a)) = gf_val a mod P25519 \<and>
    ed_neq25519 a b = (gf_val a mod P25519 \<noteq> gf_val b mod P25519) \<and>
    uint (ed_par25519 a) = gf_val a mod P25519 mod 2"
  using pack_canonical_val [OF assms(1,2)] pack_equal [OF assms] pack_parity [OF assms(1,2)] by simp

text \<open>The element p itself, written with limbs in range, packs to zero and is not told apart from it.\<close>

theorem pack_canonical_witness:
  "\<not> ed_neq25519 (map p_limb [0..<16]) ed_gf0 \<and> int (le_nat (ed_pack25519 (map p_limb [0..<16]))) = 0"
proof -
  have p: "gf_val (map p_limb [0..<16]) = P25519" "gf_val ed_gf0 = 0"
    using p_limbs by (simp_all add: gf_val_16 ed_gf0_def)
  have "length (map p_limb [0..<16]) = 16" "\<forall>k<16. \<bar>map p_limb [0..<16] ! k\<bar> \<le> 2 ^ 62"
    "length ed_gf0 = 16" "\<forall>k<16. \<bar>ed_gf0 ! k\<bar> \<le> 2 ^ 62"
    by (simp_all add: p_limb_def ed_gf0_def)
  from pack_canonical [OF this] p show ?thesis by simp
qed

text \<open>Unpacking drops the top bit.\<close>

lemma gf_val_pairs:
  "length n = 2 * k \<Longrightarrow> gf_val (map (\<lambda>i. uint (n ! (2 * i)) + uint (n ! (2 * i + 1)) * 2 ^ 8) [0..<k]) = int (le_nat n)"
proof (induction k arbitrary: n)
  case (Suc k)
  then obtain x y m where n: "n = x # y # m" and m: "length m = 2 * k"
    by (cases n; cases "tl n") auto
  have "map (\<lambda>i. uint (n ! (2 * i)) + uint (n ! (2 * i + 1)) * 2 ^ 8) [0..<Suc k] =
      (uint x + uint y * 2 ^ 8) # map (\<lambda>i. uint (m ! (2 * i)) + uint (m ! (2 * i + 1)) * 2 ^ 8) [0..<k]"
    by (simp add: n upt_conv_Cons map_Suc_upt [symmetric] del: upt_Suc)
  then show ?case using Suc.IH [OF m] by (simp add: n)
qed simp

lemma unpack_val:
  assumes "length n = 32"
  shows "normal (ed_unpack25519 n)" and "gf_val (ed_unpack25519 n) = int (le_nat n) mod 2 ^ 255"
proof -
  define f where "f = map (\<lambda>i. uint (n ! (2 * i)) + uint (n ! (2 * i + 1)) * 2 ^ 8) [0..<16]"
  have u: "ed_unpack25519 n = f[15 := f ! 15 AND 0x7fff]" by (simp add: ed_unpack25519_def f_def)
  have len: "length f = 16" by (simp add: f_def)
  have b: "0 \<le> f ! k \<and> f ! k < 2 ^ 16" if "k < 16" for k
  proof -
    have "uint (n ! (2 * k)) < 2 ^ 8" "uint (n ! (2 * k + 1)) < 2 ^ 8" using uint_lt2p [where 'a = 8] by simp_all
    then show ?thesis using that by (simp add: f_def)
  qed
  have a: "f ! 15 AND 0x7fff = f ! 15 mod 2 ^ 15"
    using take_bit_eq_mask [of 15 "f ! 15"] by (simp add: take_bit_eq_mod mask_eq_exp_minus_1)
  have top: "0 \<le> f ! 15 mod 2 ^ 15" "f ! 15 mod 2 ^ 15 < 2 ^ 15" by simp_all
  show n: "normal (ed_unpack25519 n)"
    unfolding normal_def using b top by (auto simp: u len a nth_list_update)
  have "gf_val (ed_unpack25519 n) = gf_val f + (f ! 15 mod 2 ^ 15 - f ! 15) * 2 ^ 240"
    using gf_val_update [of 15 f "f ! 15 mod 2 ^ 15"] by (simp add: u len a)
  moreover have "(v mod 2 ^ 15 - v) * 2 ^ 240 = 2 ^ 255 * - (v div 2 ^ 15)" for v :: int
    using minus_mod_eq_mult_div [of v "2 ^ 15"] by simp
  ultimately have v: "gf_val (ed_unpack25519 n) = gf_val f + 2 ^ 255 * - (f ! 15 div 2 ^ 15)" by presburger
  have "gf_val (ed_unpack25519 n) = (\<Sum>k<15. ed_unpack25519 n ! k * 2 ^ (16 * k)) + f ! 15 mod 2 ^ 15 * 2 ^ 240"
    using n by (simp add: gf_val_16 normal_def u len a)
  moreover have "0 \<le> (\<Sum>k<15. ed_unpack25519 n ! k * 2 ^ (16 * k)) \<and> (\<Sum>k<15. ed_unpack25519 n ! k * 2 ^ (16 * k)) < 2 ^ (16 * 15)"
    using n by (intro digits16_bound) (simp add: normal_def)
  moreover have "0 \<le> s + t * 2 ^ 240 \<and> s + t * 2 ^ 240 < 2 ^ 255"
    if "0 \<le> s \<and> s < 2 ^ (16 * 15)" "0 \<le> t" "t < 2 ^ 15" for s t :: int
    using that by simp
  ultimately have "0 \<le> gf_val (ed_unpack25519 n)" "gf_val (ed_unpack25519 n) < 2 ^ 255" using top by metis+
  then have "gf_val (ed_unpack25519 n) = gf_val (ed_unpack25519 n) mod 2 ^ 255" by (simp only: mod_pos_pos_trivial)
  also have "\<dots> = gf_val f mod 2 ^ 255" unfolding v by (rule mod_mult_self2)
  finally show "gf_val (ed_unpack25519 n) = int (le_nat n) mod 2 ^ 255"
    using gf_val_pairs [of n 16] assms by (simp add: f_def)
qed

end
