(* ===== verification/Ed25519_Points.thy ===== *)
theory Ed25519_Points
  imports Ed25519_Field
begin

text \<open>
  The points of \<^verbatim>\<open>src/bitchat/ed25519.h\<close> against the curve they are meant to lie on: a type of field elements that the limb
  arithmetic computes in, the addition law, and the points that the signature code reaches.
\<close>

section \<open>The field\<close>

typedef fp = "{0..<P25519}"
  by (auto simp: P25519_def)

setup_lifting type_definition_fp

lift_definition of_Z :: "int \<Rightarrow> fp" is "\<lambda>i. i mod P25519"
  by (simp add: P25519_def)

lift_definition residue :: "fp \<Rightarrow> int" is "\<lambda>i. i" .

instantiation fp :: comm_ring_1
begin

lift_definition zero_fp :: fp is 0
  by (simp add: P25519_def)

lift_definition one_fp :: fp is 1
  by (simp add: P25519_def)

lift_definition plus_fp :: "fp \<Rightarrow> fp \<Rightarrow> fp" is "\<lambda>a b. (a + b) mod P25519"
  by (simp add: P25519_def)

lift_definition minus_fp :: "fp \<Rightarrow> fp \<Rightarrow> fp" is "\<lambda>a b. (a - b) mod P25519"
  by (simp add: P25519_def)

lift_definition uminus_fp :: "fp \<Rightarrow> fp" is "\<lambda>a. (- a) mod P25519"
  by (simp add: P25519_def)

lift_definition times_fp :: "fp \<Rightarrow> fp \<Rightarrow> fp" is "\<lambda>a b. (a * b) mod P25519"
  by (simp add: P25519_def)

instance
proof
  fix a b c :: fp
  show "a * b * c = a * (b * c)" by transfer (simp add: mod_mult_left_eq mod_mult_right_eq mult.assoc)
  show "a * b = b * a" by transfer (simp add: mult.commute)
  show "1 * a = a" by transfer simp
  show "a + b + c = a + (b + c)" by transfer (simp add: mod_add_left_eq mod_add_right_eq add.assoc)
  show "a + b = b + a" by transfer (simp add: add.commute)
  show "0 + a = a" by transfer simp
  show "- a + a = 0" by transfer (simp add: mod_add_left_eq)
  show "a - b = a + - b" by transfer (simp add: mod_add_right_eq)
  show "(a + b) * c = a * c + b * c"
    by transfer (simp add: mod_mult_left_eq mod_add_left_eq mod_add_right_eq distrib_right)
  show "(0 :: fp) \<noteq> 1" by transfer simp
qed

end

lemma of_Z_eq: "of_Z a = of_Z b \<longleftrightarrow> a mod P25519 = b mod P25519"
  by transfer simp

lemma of_Z_ring [simp]:
  "of_Z 0 = 0" "of_Z 1 = 1" "of_Z (a + b) = of_Z a + of_Z b" "of_Z (a - b) = of_Z a - of_Z b" "of_Z (- a) = - of_Z a"
  "of_Z (a * b) = of_Z a * of_Z b"
  by (transfer; simp add: mod_add_eq mod_diff_eq mod_minus_eq mod_mult_eq P25519_def)+

lemma of_Z_of_int: "of_Z i = of_int i"
proof (induction i rule: int_induct [where k = 0])
  case (step1 i)
  then show ?case by simp
next
  case (step2 i)
  then show ?case by simp
qed simp

lemma of_Z_numeral [simp]: "of_Z (numeral n) = numeral n"
  by (simp add: of_Z_of_int)

lemma residue_of_Z: "residue (of_Z a) = a mod P25519"
  by transfer simp

definition gfp :: "gf \<Rightarrow> fp" where
  "gfp f = of_Z (gf_val f)"

lemma gf_val_map2:
  assumes "length a = 16" and "length b = 16"
  shows "gf_val (map2 (+) a b) = gf_val a + gf_val b" and "gf_val (map2 (-) a b) = gf_val a - gf_val b"
  using assms by (simp_all add: gf_val_def sum.distrib sum_subtractf distrib_right left_diff_distrib)

lemma gfp_M: "length a = 16 \<Longrightarrow> length b = 16 \<Longrightarrow> gfp (ed_M a b) = gfp a * gfp b"
  using ed_M_val by (simp add: gfp_def of_Z_eq flip: of_Z_ring)

lemma gfp_A: "length a = 16 \<Longrightarrow> length b = 16 \<Longrightarrow> gfp (ed_A a b) = gfp a + gfp b"
  by (simp add: gfp_def ed_A_def gf_val_map2)

lemma gfp_Z: "length a = 16 \<Longrightarrow> length b = 16 \<Longrightarrow> gfp (ed_Z a b) = gfp a - gfp b"
  by (simp add: gfp_def ed_Z_def gf_val_map2)

lemma gfp_S: "length a = 16 \<Longrightarrow> gfp (ed_S a) = gfp a * gfp a"
  by (simp add: ed_S_def gfp_M)

section \<open>Sizes of limbs\<close>

text \<open>
  Carried elements have limbs of 17 bits; sums and differences of carried elements have limbs of at most 19 bits, far below the
  24 bits under which a multiplication stays inside 64 bits.
\<close>

definition sized :: "int \<Rightarrow> gf \<Rightarrow> bool" where
  "sized b f \<longleftrightarrow> length f = 16 \<and> (\<forall>k<16. \<bar>f ! k\<bar> \<le> b)"

definition small :: "gf \<Rightarrow> bool" where
  "small = sized (2 ^ 17)"

lemma sized_length [simp]: "sized b f \<Longrightarrow> length f = 16"
  by (simp add: sized_def)

lemma small_length [simp]: "small f \<Longrightarrow> length f = 16"
  by (simp add: small_def)

lemma sized_mono: "sized b f \<Longrightarrow> b \<le> c \<Longrightarrow> sized c f"
  by (force simp: sized_def)

lemma carried_small: "carried f \<Longrightarrow> small f"
  unfolding small_def by (fastforce simp: carried_def sized_def)

lemma normal_small: "normal f \<Longrightarrow> small f"
  unfolding small_def by (fastforce simp: normal_def sized_def)

lemma sized_A: "sized b f \<Longrightarrow> sized c g \<Longrightarrow> sized (b + c) (ed_A f g)"
  by (auto simp: sized_def ed_A_def intro!: order_trans [OF abs_triangle_ineq] add_mono)

lemma sized_Z: "sized b f \<Longrightarrow> sized c g \<Longrightarrow> sized (b + c) (ed_Z f g)"
  by (auto simp: sized_def ed_Z_def intro!: order_trans [OF abs_triangle_ineq4] add_mono)

lemma product_bound:
  assumes "sized (2 ^ 24) a" and "sized (2 ^ 24) b" and "k < 31"
  shows "\<bar>foldl (mul_step a b) (replicate 31 0) (List.product [0..<16] [0..<16]) ! k\<bar> \<le> 2 ^ 56"
proof -
  have "\<forall>k<length (replicate 31 0 :: int list). \<bar>foldl (mul_step a b) (replicate 31 0) (List.product [0..<16] [0..<16]) ! k\<bar> \<le>
      (0 + int (length (List.product [0..<16 :: nat] [0..<16 :: nat]))) * (2 ^ 24)\<^sup>2"
    using assms by (intro mul_step_bound) (auto simp: sized_def)
  then show ?thesis using assms(3) by simp
qed

lemma carried_M:
  assumes "sized (2 ^ 24) a" and "sized (2 ^ 24) b"
  shows "carried (ed_M a b)"
proof -
  define t where "t = foldl (mul_step a b) (replicate 31 0) (List.product [0..<16] [0..<16])"
  define u where "u = map (\<lambda>i. if i < 15 then t ! i + 38 * t ! (i + 16) else t ! i) [0..<16]"
  have "\<bar>u ! k\<bar> \<le> 2 ^ 62" if "k < 16" for k
  proof (cases "k < 15")
    case True
    have "\<bar>t ! k\<bar> \<le> 2 ^ 56" "\<bar>t ! (k + 16)\<bar> \<le> 2 ^ 56" using True product_bound [OF assms] by (simp_all add: t_def)
    then show ?thesis using True by (simp add: u_def)
  next
    case False
    have "\<bar>t ! k\<bar> \<le> 2 ^ 56" using that product_bound [OF assms] by (simp add: t_def)
    then show ?thesis using that False by (simp add: u_def)
  qed
  then have "carried (ed_car (ed_car u))" by (intro two_cars) (simp_all add: u_def)
  moreover have "ed_M a b = ed_car (ed_car u)" by (simp only: ed_M_def Let_def t_def u_def)
  ultimately show ?thesis by simp
qed

lemma small_M: "sized (2 ^ 24) a \<Longrightarrow> sized (2 ^ 24) b \<Longrightarrow> small (ed_M a b)"
  by (rule carried_small) (rule carried_M)

lemma small_wide: "small f \<Longrightarrow> sized (2 ^ 24) f"
  unfolding small_def by (erule sized_mono) simp

lemma small_M_small: "small a \<Longrightarrow> small b \<Longrightarrow> small (ed_M a b)"
  by (intro small_M small_wide)

lemma small_S: "small a \<Longrightarrow> small (ed_S a)"
  unfolding ed_S_def by (rule small_M_small)

section \<open>The constants\<close>

definition curve_d :: fp where "curve_d = gfp ed_D"

lemma gf_val_consts: "gf_val ed_gf0 = 0" "gf_val ed_gf1 = 1"
proof -
  have "gf_val (replicate n 0) = 0" for n by (induction n) simp_all
  then show "gf_val ed_gf0 = 0" "gf_val ed_gf1 = 1" by (simp_all add: ed_gf0_def ed_gf1_def)
qed

lemma gfp_consts [simp]: "gfp ed_gf0 = 0" "gfp ed_gf1 = 1"
  by (simp_all add: gfp_def gf_val_consts)

lemma sized_list: "sized b f \<longleftrightarrow> length f = 16 \<and> list_all (\<lambda>x. \<bar>x\<bar> \<le> b) f"
  by (auto simp: sized_def list_all_length)

lemma small_consts [simp]: "small ed_gf0" "small ed_gf1" "small ed_D" "small ed_D2" "small ed_I"
  by (simp_all add: small_def sized_list ed_gf0_def ed_gf1_def ed_D_def ed_D2_def ed_I_def list_all_iff)

text \<open>The limbs of \<open>d = -121665 / 121666\<close>, of twice \<open>d\<close>, and of a square root of -1.\<close>

lemma gfp_D: "121666 * gfp ed_D = - 121665"
proof -
  have "(121666 * gf_val ed_D) mod P25519 = (- 121665) mod P25519"
    by (simp add: ed_D_def P25519_def)
  then have "of_Z (121666 * gf_val ed_D) = of_Z (- 121665)" by (simp only: of_Z_eq)
  then show ?thesis by (simp add: gfp_def)
qed

lemma gfp_D2: "gfp ed_D2 = 2 * curve_d"
proof -
  have "gf_val ed_D2 mod P25519 = (2 * gf_val ed_D) mod P25519"
    by (simp add: ed_D_def ed_D2_def P25519_def)
  then have "of_Z (gf_val ed_D2) = of_Z (2 * gf_val ed_D)" by (simp only: of_Z_eq)
  then show ?thesis by (simp add: gfp_def curve_d_def)
qed

lemma gfp_I: "gfp ed_I * gfp ed_I = - 1"
proof -
  have "(gf_val ed_I * gf_val ed_I) mod P25519 = (- 1) mod P25519"
    by (simp add: ed_I_def P25519_def)
  then have "of_Z (gf_val ed_I * gf_val ed_I) = of_Z (- 1)" by (simp only: of_Z_eq)
  then show ?thesis by (simp add: gfp_def)
qed

section \<open>The addition law\<close>

lemma curve_law:
  fixes x1 :: "'a :: comm_ring_1"
  assumes c: "y1\<^sup>2 - x1\<^sup>2 = z1\<^sup>2 + d * t1\<^sup>2" "t1 * z1 = x1 * y1"
    "y2\<^sup>2 - x2\<^sup>2 = z2\<^sup>2 + d * t2\<^sup>2" "t2 * z2 = x2 * y2"
  defines "e \<equiv> x1 * y2 + y1 * x2" and "f \<equiv> z1 * z2 - d * t1 * t2" and "g \<equiv> z1 * z2 + d * t1 * t2" and "h \<equiv> y1 * y2 + x1 * x2"
  shows "(h * g)\<^sup>2 - (e * f)\<^sup>2 = (g * f)\<^sup>2 + d * (e * h)\<^sup>2"
proof -
  let ?a1 = "x1\<^sup>2 + y1\<^sup>2" let ?a2 = "x2\<^sup>2 + y2\<^sup>2"
  have sq: "(x\<^sup>2 + y\<^sup>2)\<^sup>2 = (z\<^sup>2 + d * t\<^sup>2)\<^sup>2 + 4 * (t * z)\<^sup>2"
    if "y\<^sup>2 - x\<^sup>2 = z\<^sup>2 + d * t\<^sup>2" "t * z = x * y" for x y z t :: 'a
  proof -
    have "(x\<^sup>2 + y\<^sup>2)\<^sup>2 = (y\<^sup>2 - x\<^sup>2)\<^sup>2 + 4 * (x * y)\<^sup>2" by (simp add: power2_eq_square algebra_simps)
    then show ?thesis by (simp only: that)
  qed
  have diff: "h\<^sup>2 - e\<^sup>2 = (z1\<^sup>2 + d * t1\<^sup>2) * (z2\<^sup>2 + d * t2\<^sup>2)"
    unfolding c(1,3) [symmetric] e_def h_def by (simp add: power2_eq_square algebra_simps)
  have "h\<^sup>2 + e\<^sup>2 = ?a1 * ?a2 + 4 * ((x1 * y1) * (x2 * y2))"
    unfolding e_def h_def by (simp add: power2_eq_square algebra_simps)
  then have plus: "h\<^sup>2 + e\<^sup>2 = ?a1 * ?a2 + 4 * ((t1 * z1) * (t2 * z2))" by (simp only: c)
  have "e * h = (x1 * y1) * ?a2 + (x2 * y2) * ?a1"
    unfolding e_def h_def by (simp add: power2_eq_square algebra_simps)
  then have "e * h = (t1 * z1) * ?a2 + (t2 * z2) * ?a1" by (simp only: c)
  then have "(e * h)\<^sup>2 = (t1 * z1)\<^sup>2 * ?a2\<^sup>2 + (t2 * z2)\<^sup>2 * ?a1\<^sup>2 + 2 * (t1 * z1) * (t2 * z2) * (?a1 * ?a2)"
    by (simp add: power2_eq_square algebra_simps)
  then have eh: "(e * h)\<^sup>2 = (t1 * z1)\<^sup>2 * ((z2\<^sup>2 + d * t2\<^sup>2)\<^sup>2 + 4 * (t2 * z2)\<^sup>2) +
      (t2 * z2)\<^sup>2 * ((z1\<^sup>2 + d * t1\<^sup>2)\<^sup>2 + 4 * (t1 * z1)\<^sup>2) + 2 * (t1 * z1) * (t2 * z2) * (?a1 * ?a2)"
    unfolding sq [OF c(1,2)] sq [OF c(3,4)] .
  have "(h * g)\<^sup>2 - (e * f)\<^sup>2 = ((z1 * z2)\<^sup>2 + (d * t1 * t2)\<^sup>2) * (h\<^sup>2 - e\<^sup>2) + 2 * (z1 * z2) * (d * t1 * t2) * (h\<^sup>2 + e\<^sup>2)"
    unfolding f_def g_def by (simp add: power2_eq_square algebra_simps)
  also have "\<dots> = (g * f)\<^sup>2 + d * (e * h)\<^sup>2"
    unfolding diff plus eh unfolding f_def g_def by (simp add: power2_eq_square algebra_simps)
  finally show ?thesis .
qed

text \<open>
  A point \<open>(X, Y, Z, T)\<close> is on the curve \<open>- x\<^sup>2 + y\<^sup>2 = 1 + d * x\<^sup>2 * y\<^sup>2\<close> with \<open>x = X / Z\<close>, \<open>y = Y / Z\<close> and \<open>x * y = T / Z\<close>; the
  equations are stated without the divisions.
\<close>

definition on_curve :: "point \<Rightarrow> bool" where
  "on_curve p = (case p of (x, y, z, t) \<Rightarrow>
     (gfp y)\<^sup>2 - (gfp x)\<^sup>2 = (gfp z)\<^sup>2 + curve_d * (gfp t)\<^sup>2 \<and> gfp t * gfp z = gfp x * gfp y)"

definition small_point :: "point \<Rightarrow> bool" where
  "small_point p = (case p of (x, y, z, t) \<Rightarrow> small x \<and> small y \<and> small z \<and> small t)"

lemma small_point_add:
  assumes "small_point p" and "small_point q"
  shows "small_point (ed_pt_add p q)"
proof -
  have s: "sized (2 ^ 24) (ed_A a b)" "sized (2 ^ 24) (ed_Z a b)" if "sized (2 ^ 18) a" "sized (2 ^ 18) b" for a b
    using that sized_mono [OF sized_A] sized_mono [OF sized_Z] by force+
  have d: "sized (2 ^ 18) (ed_A a a)" if "small a" for a
    using that sized_A [of "2 ^ 17" a "2 ^ 17" a] by (simp add: small_def)
  have w: "sized (2 ^ 18) a" if "small a" for a using that unfolding small_def by (rule sized_mono) simp
  obtain x1 y1 z1 t1 where p: "p = (x1, y1, z1, t1)" by (cases p)
  obtain x2 y2 z2 t2 where q: "q = (x2, y2, z2, t2)" by (cases q)
  have "small x1" "small y1" "small z1" "small t1" "small x2" "small y2" "small z2" "small t2"
    using assms by (simp_all add: small_point_def p q)
  then show ?thesis
    by (simp add: small_point_def ed_pt_add_def Let_def p q) (intro conjI; (assumption | rule small_M s d w small_wide small_consts)+)
qed

lemma pt_add_gfp:
  assumes "small_point (x1, y1, z1, t1)" and "small_point (x2, y2, z2, t2)" and "ed_pt_add (x1, y1, z1, t1) (x2, y2, z2, t2) = (x3, y3, z3, t3)"
  defines "e \<equiv> gfp x1 * gfp y2 + gfp y1 * gfp x2" and "f \<equiv> gfp z1 * gfp z2 - curve_d * gfp t1 * gfp t2"
    and "g \<equiv> gfp z1 * gfp z2 + curve_d * gfp t1 * gfp t2" and "h \<equiv> gfp y1 * gfp y2 + gfp x1 * gfp x2"
  shows "gfp x3 = 4 * (e * f)" and "gfp y3 = 4 * (h * g)" and "gfp z3 = 4 * (g * f)" and "gfp t3 = 4 * (e * h)"
proof -
  have l: "length (ed_M a b) = 16" if "length a = 16" "length b = 16" for a b using that ed_M_val by simp
  have m: "length (ed_A a b) = 16" "length (ed_Z a b) = 16" if "length a = 16" "length b = 16" for a b
    using that by (simp_all add: ed_A_def ed_Z_def)
  have n: "length x1 = 16" "length y1 = 16" "length z1 = 16" "length t1 = 16" "length x2 = 16" "length y2 = 16" "length z2 = 16" "length t2 = 16"
    "length ed_D2 = 16"
    using assms(1,2) by (simp_all add: small_point_def ed_D2_def)
  note r = gfp_M gfp_A gfp_Z l m n gfp_D2
  have v: "x3 = ed_M (ed_Z (ed_M (ed_A x1 y1) (ed_A x2 y2)) (ed_M (ed_Z y1 x1) (ed_Z y2 x2)))
      (ed_Z (ed_A (ed_M z1 z2) (ed_M z1 z2)) (ed_M (ed_M t1 t2) ed_D2))"
    "y3 = ed_M (ed_A (ed_M (ed_A x1 y1) (ed_A x2 y2)) (ed_M (ed_Z y1 x1) (ed_Z y2 x2)))
      (ed_A (ed_A (ed_M z1 z2) (ed_M z1 z2)) (ed_M (ed_M t1 t2) ed_D2))"
    "z3 = ed_M (ed_A (ed_A (ed_M z1 z2) (ed_M z1 z2)) (ed_M (ed_M t1 t2) ed_D2))
      (ed_Z (ed_A (ed_M z1 z2) (ed_M z1 z2)) (ed_M (ed_M t1 t2) ed_D2))"
    "t3 = ed_M (ed_Z (ed_M (ed_A x1 y1) (ed_A x2 y2)) (ed_M (ed_Z y1 x1) (ed_Z y2 x2)))
      (ed_A (ed_M (ed_A x1 y1) (ed_A x2 y2)) (ed_M (ed_Z y1 x1) (ed_Z y2 x2)))"
    using assms(3) by (simp_all add: ed_pt_add_def Let_def)
  have E: "gfp (ed_Z (ed_M (ed_A x1 y1) (ed_A x2 y2)) (ed_M (ed_Z y1 x1) (ed_Z y2 x2))) = 2 * e"
    and H: "gfp (ed_A (ed_M (ed_A x1 y1) (ed_A x2 y2)) (ed_M (ed_Z y1 x1) (ed_Z y2 x2))) = 2 * h"
    and F: "gfp (ed_Z (ed_A (ed_M z1 z2) (ed_M z1 z2)) (ed_M (ed_M t1 t2) ed_D2)) = 2 * f"
    and G: "gfp (ed_A (ed_A (ed_M z1 z2) (ed_M z1 z2)) (ed_M (ed_M t1 t2) ed_D2)) = 2 * g"
    by (simp_all add: r e_def f_def g_def h_def algebra_simps)
  have "gfp x3 = (2 * e) * (2 * f)" "gfp y3 = (2 * h) * (2 * g)" "gfp z3 = (2 * g) * (2 * f)" "gfp t3 = (2 * e) * (2 * h)"
    unfolding v E [symmetric] H [symmetric] F [symmetric] G [symmetric] by (intro gfp_M l m n)+
  then show "gfp x3 = 4 * (e * f)" "gfp y3 = 4 * (h * g)" "gfp z3 = 4 * (g * f)" "gfp t3 = 4 * (e * h)" by simp_all
qed

lemma on_curve_add:
  assumes "small_point p" and "small_point q" and "on_curve p" and "on_curve q"
  shows "on_curve (ed_pt_add p q)"
proof -
  obtain x1 y1 z1 t1 where p: "p = (x1, y1, z1, t1)" by (cases p)
  obtain x2 y2 z2 t2 where q: "q = (x2, y2, z2, t2)" by (cases q)
  obtain x3 y3 z3 t3 where r: "ed_pt_add p q = (x3, y3, z3, t3)" by (cases "ed_pt_add p q")
  note v = pt_add_gfp [OF assms(1,2) [unfolded p q] r [unfolded p q]]
  have c: "(gfp y1)\<^sup>2 - (gfp x1)\<^sup>2 = (gfp z1)\<^sup>2 + curve_d * (gfp t1)\<^sup>2" "gfp t1 * gfp z1 = gfp x1 * gfp y1"
    "(gfp y2)\<^sup>2 - (gfp x2)\<^sup>2 = (gfp z2)\<^sup>2 + curve_d * (gfp t2)\<^sup>2" "gfp t2 * gfp z2 = gfp x2 * gfp y2"
    using assms(3,4) by (simp_all add: on_curve_def p q)
  have k: "(4 * a)\<^sup>2 - (4 * b)\<^sup>2 = 16 * (a\<^sup>2 - b\<^sup>2)" "(4 * a)\<^sup>2 + u * (4 * b)\<^sup>2 = 16 * (a\<^sup>2 + u * b\<^sup>2)" for a b u :: fp
    by (simp_all add: power2_eq_square algebra_simps)
  show ?thesis unfolding r on_curve_def prod.case v k using curve_law [OF c] by (simp add: mult.commute mult.left_commute)
qed

text \<open>The points that may be added.\<close>

definition good_point :: "point \<Rightarrow> bool" where
  "good_point p \<longleftrightarrow> small_point p \<and> on_curve p"

text \<open>
  C27: \<^verbatim>\<open>_ed_pt_add\<close> computes the addition law of the twisted Edwards curve with \<open>d = - 121665 / 121666\<close>.  For points whose limbs are carried, the result has
  the coordinates of the unified formulas in \<open>GF(2 ^ 255 - 19)\<close>, its limbs are carried again, and it lies on the curve when the two
  points do; this includes doubling and adding the neutral point.
\<close>

theorem point_addition:
  assumes "small_point (x1, y1, z1, t1)" and "small_point (x2, y2, z2, t2)" and "ed_pt_add (x1, y1, z1, t1) (x2, y2, z2, t2) = (x3, y3, z3, t3)"
  shows "121666 * curve_d = - 121665 \<and>
    gfp x3 = 4 * ((gfp x1 * gfp y2 + gfp y1 * gfp x2) * (gfp z1 * gfp z2 - curve_d * gfp t1 * gfp t2)) \<and>
    gfp y3 = 4 * ((gfp y1 * gfp y2 + gfp x1 * gfp x2) * (gfp z1 * gfp z2 + curve_d * gfp t1 * gfp t2)) \<and>
    gfp z3 = 4 * ((gfp z1 * gfp z2 + curve_d * gfp t1 * gfp t2) * (gfp z1 * gfp z2 - curve_d * gfp t1 * gfp t2)) \<and>
    gfp t3 = 4 * ((gfp x1 * gfp y2 + gfp y1 * gfp x2) * (gfp y1 * gfp y2 + gfp x1 * gfp x2)) \<and>
    small_point (x3, y3, z3, t3) \<and>
    (on_curve (x1, y1, z1, t1) \<and> on_curve (x2, y2, z2, t2) \<longrightarrow> on_curve (x3, y3, z3, t3))"
  unfolding assms(3) [symmetric]
  using pt_add_gfp [OF assms] small_point_add [OF assms(1,2)] on_curve_add [OF assms(1,2)] gfp_D unfolding curve_d_def by blast

text \<open>Doubling a point of order four: the square root of -1 as x, and y = 0.\<close>

theorem point_addition_witness:
  "good_point (ed_pt_add (ed_I, ed_gf0, ed_gf1, ed_gf0) (ed_I, ed_gf0, ed_gf1, ed_gf0))"
proof -
  let ?p = "(ed_I, ed_gf0, ed_gf1, ed_gf0)"
  obtain x3 y3 z3 t3 where r: "ed_pt_add ?p ?p = (x3, y3, z3, t3)" by (cases "ed_pt_add ?p ?p")
  have "small_point ?p" "on_curve ?p" by (simp_all add: small_point_def on_curve_def power2_eq_square gfp_I)
  then show ?thesis using point_addition [OF _ _ r] by (simp add: r good_point_def)
qed

section \<open>Scalar multiplication stays on the curve\<close>

lemma cswap_bit:
  assumes "small_point p" and "small_point q" and "b = 0 \<or> b = 1"
  shows "ed_cswap p q b = (if b = 1 then (q, p) else (p, q))"
  using assms by (auto simp: small_point_def ed_cswap_def ed_sel_0 ed_sel_1 split: prod.splits)

lemma scalar_bit_01: "scalar_bit s i = 0 \<or> scalar_bit s i = 1"
  by (simp add: scalar_bit_def)

lemma good_add: "good_point p \<Longrightarrow> good_point q \<Longrightarrow> good_point (ed_pt_add p q)"
  by (simp add: good_point_def small_point_add on_curve_add)

text \<open>One step of the ladder adds into one point and doubles the other, chosen by the bit.\<close>

lemma scalarmult_step_eq:
  assumes "good_point p" and "good_point q"
  shows "scalarmult_step s (p, q) i =
    (if scalar_bit s i = 1 then (ed_pt_add p q, ed_pt_add q q) else (ed_pt_add p p, ed_pt_add q p))"
proof -
  have small: "small_point p" "small_point q" "small_point (ed_pt_add q p)" "small_point (ed_pt_add p p)"
    "small_point (ed_pt_add p q)" "small_point (ed_pt_add q q)"
    using assms by (simp_all add: good_point_def small_point_add)
  show ?thesis using scalar_bit_01 [of s i] small by (auto simp: scalarmult_step_def cswap_bit)
qed

lemma ladder_good:
  assumes "good_point p" and "good_point q"
  shows "good_point (fst (foldl (scalarmult_step s) (p, q) js)) \<and> good_point (snd (foldl (scalarmult_step s) (p, q) js))"
  using assms
proof (induction js arbitrary: p q)
  case (Cons j js)
  then show ?case
    by (cases "scalar_bit s j = 1") (simp_all add: scalarmult_step_eq good_add)
qed simp

lemma neutral_good: "good_point (ed_gf0, ed_gf1, ed_gf1, ed_gf0)"
  by (simp add: good_point_def small_point_def on_curve_def)

lemma scalarmult_good: "good_point q \<Longrightarrow> good_point (ed_scalarmult q s)"
  using ladder_good [OF neutral_good] by (simp add: ed_scalarmult_def)

lemma small_negate: "small f \<Longrightarrow> small (ed_Z ed_gf0 f)"
  using sized_Z [of 0 ed_gf0 "2 ^ 17" f] by (simp add: small_def sized_list [of 0] ed_gf0_def list_all_iff)

lemma gfp_negate: "length f = 16 \<Longrightarrow> gfp (ed_Z ed_gf0 f) = - gfp f"
  by (simp add: gfp_Z ed_gf0_def [THEN arg_cong, of length])

lemma good_negate: "good_point (x, y, z, t) \<Longrightarrow> good_point (ed_Z ed_gf0 x, y, z, ed_Z ed_gf0 t)"
  by (simp add: good_point_def small_point_def on_curve_def small_negate gfp_negate)

section \<open>Decoding a point\<close>

text \<open>The candidate for the x coordinate of the point with a given y, as \<^verbatim>\<open>_ed_unpackneg\<close> takes it.\<close>

definition curve_num :: "fp \<Rightarrow> fp" where "curve_num y = y\<^sup>2 - 1"

definition curve_den :: "fp \<Rightarrow> fp" where "curve_den y = 1 + curve_d * y\<^sup>2"

definition first_root :: "fp \<Rightarrow> fp" where
  "first_root y = (curve_den y ^ 7 * curve_num y) ^ (2 ^ 252 - 3) * curve_num y * curve_den y ^ 3"

definition second_root :: "fp \<Rightarrow> fp" where
  "second_root y =
     (if (first_root y)\<^sup>2 * curve_den y = curve_num y then first_root y else first_root y * gfp ed_I)"

lemma gfp_power: "of_Z (i ^ n) = of_Z i ^ n"
  by (induction n) simp_all

lemma ladder_small:
  assumes "small a" and "small c"
  shows "small (foldl (\<lambda>c i. let c = ed_S c in if p i then ed_M c a else c) c js)"
  using assms(2) by (induction js arbitrary: c) (simp_all add: Let_def small_S small_M_small assms(1))

lemma pow2523_gfp: "small a \<Longrightarrow> gfp (ed_pow2523 a) = gfp a ^ (2 ^ 252 - 3) \<and> small (ed_pow2523 a)"
proof -
  assume a: "small a"
  have "gf_val (ed_pow2523 a) mod P25519 = gf_val a ^ (2 ^ 252 - 3) mod P25519"
    using ladder_val [of a a 1 "\<lambda>i. i \<noteq> 1" "rev [0..<251]"] a
    unfolding pow2523_exponent ed_pow2523_def [symmetric] by simp
  then have "gfp (ed_pow2523 a) = of_Z (gf_val a ^ (2 ^ 252 - 3))" unfolding gfp_def of_Z_eq .
  then show ?thesis using ladder_small [OF a a] by (simp only: gfp_power gfp_def ed_pow2523_def simp_thms)
qed

lemma inv25519_gfp: "small a \<Longrightarrow> gfp (ed_inv25519 a) = gfp a ^ (2 ^ 255 - 21) \<and> small (ed_inv25519 a)"
proof -
  assume a: "small a"
  have "gf_val (ed_inv25519 a) mod P25519 = gf_val a ^ (2 ^ 255 - 21) mod P25519"
    using ladder_val [of a a 1 "\<lambda>i. i \<noteq> 2 \<and> i \<noteq> 4" "rev [0..<254]"] a
    unfolding inv_exponent ed_inv25519_def [symmetric] by simp
  then have "gfp (ed_inv25519 a) = of_Z (gf_val a ^ (2 ^ 255 - 21))" unfolding gfp_def of_Z_eq .
  then show ?thesis using ladder_small [OF a a] by (simp only: gfp_power gfp_def ed_inv25519_def simp_thms)
qed

text \<open>Comparing and taking the parity of elements that are multiplied next.\<close>

lemma neq_gfp: "sized (2 ^ 24) a \<Longrightarrow> sized (2 ^ 24) b \<Longrightarrow> ed_neq25519 a b \<longleftrightarrow> gfp a \<noteq> gfp b"
proof -
  assume a: "sized (2 ^ 24) a" and b: "sized (2 ^ 24) b"
  then have "sized (2 ^ 62) a" "sized (2 ^ 62) b" by (auto elim: sized_mono)
  then show ?thesis using pack_equal [of a b] by (simp add: sized_def gfp_def of_Z_eq)
qed

lemma par_gfp: "sized (2 ^ 24) a \<Longrightarrow> uint (ed_par25519 a) = residue (gfp a) mod 2"
proof -
  assume "sized (2 ^ 24) a"
  then have "sized (2 ^ 62) a" by (auto elim: sized_mono)
  then show ?thesis using pack_parity [of a] by (simp add: sized_def gfp_def residue_of_Z)
qed

text \<open>Elements with a name in the field: small limbs and a value.\<close>

definition stands_for :: "gf \<Rightarrow> fp \<Rightarrow> bool" where
  "stands_for f v \<longleftrightarrow> small f \<and> gfp f = v"

lemma stands_M: "stands_for a u \<Longrightarrow> stands_for b v \<Longrightarrow> stands_for (ed_M a b) (u * v)"
  by (auto simp: stands_for_def small_M_small gfp_M)

lemma stands_S: "stands_for a u \<Longrightarrow> stands_for (ed_S a) (u\<^sup>2)"
  by (auto simp: stands_for_def small_S gfp_S power2_eq_square)

lemma stands_pow: "stands_for a u \<Longrightarrow> stands_for (ed_pow2523 a) (u ^ (2 ^ 252 - 3))"
  using pow2523_gfp by (auto simp: stands_for_def)

definition wide_for :: "gf \<Rightarrow> fp \<Rightarrow> bool" where
  "wide_for f v \<longleftrightarrow> sized (2 ^ 18) f \<and> gfp f = v"

lemma wide_M: "wide_for a u \<Longrightarrow> wide_for b v \<Longrightarrow> stands_for (ed_M a b) (u * v)"
  by (auto simp: stands_for_def wide_for_def gfp_M intro!: small_M elim!: sized_mono)

lemma stands_wide: "stands_for a u \<Longrightarrow> wide_for a u"
  by (auto simp: stands_for_def wide_for_def small_def elim!: sized_mono)

lemma wide_A: "stands_for a u \<Longrightarrow> stands_for b v \<Longrightarrow> wide_for (ed_A a b) (u + v)"
  using sized_A [of "2 ^ 17" a "2 ^ 17" b] by (auto simp: stands_for_def wide_for_def small_def gfp_A)

lemma wide_Z: "stands_for a u \<Longrightarrow> stands_for b v \<Longrightarrow> wide_for (ed_Z a b) (u - v)"
  using sized_Z [of "2 ^ 17" a "2 ^ 17" b] by (auto simp: stands_for_def wide_for_def small_def gfp_Z)

lemma wide_24: "wide_for a u \<Longrightarrow> sized (2 ^ 24) a"
  unfolding wide_for_def by (erule conjE, erule sized_mono) simp

lemma wide_neq: "wide_for a u \<Longrightarrow> wide_for b v \<Longrightarrow> ed_neq25519 a b \<longleftrightarrow> u \<noteq> v"
  using neq_gfp [OF wide_24 wide_24] by (auto simp: wide_for_def)

definition point_y :: "bytes \<Rightarrow> fp" where
  "point_y p = of_Z (int (le_nat p) mod 2 ^ 255)"

lemma unpack_stands: "length p = 32 \<Longrightarrow> stands_for (ed_unpack25519 p) (point_y p)"
  using unpack_val by (simp add: stands_for_def normal_small gfp_def point_y_def)

lemma unpackneg_root:
  assumes "length p = 32"
  shows "\<exists>r. stands_for r (second_root (point_y p)) \<and>
    ed_unpackneg p =
      (if (second_root (point_y p))\<^sup>2 * curve_den (point_y p) \<noteq> curve_num (point_y p) then None
       else let x = (if ed_par25519 r = drop_bit 7 (p ! 31) then ed_Z ed_gf0 r else r)
            in Some (x, ed_unpack25519 p, ed_gf1, ed_M x (ed_unpack25519 p)))"
proof -
  define y where "y = point_y p"
  define r1 where "r1 = ed_unpack25519 p"
  define num where "num = ed_Z (ed_S r1) ed_gf1"
  define den where "den = ed_A ed_gf1 (ed_M (ed_S r1) ed_D)"
  define t where "t = ed_pow2523 (ed_M (ed_M (ed_M (ed_S (ed_S den)) (ed_S den)) num) den)"
  define r where "r = ed_M (ed_M (ed_M (ed_M t num) den) den) den"
  define r' where "r' = (if ed_neq25519 (ed_M (ed_S r) den) num then ed_M r ed_I else r)"
  have one: "stands_for ed_gf1 1" and D: "stands_for ed_D curve_d" and I: "stands_for ed_I (gfp ed_I)"
    by (simp_all add: stands_for_def curve_d_def)
  have r1: "stands_for r1 y" unfolding r1_def y_def by (rule unpack_stands [OF assms])
  have num: "wide_for num (curve_num y)"
    unfolding num_def curve_num_def by (rule wide_Z [OF stands_S [OF r1] one])
  have den: "wide_for den (curve_den y)"
    using wide_A [OF one stands_M [OF stands_S [OF r1] D]] by (simp add: den_def curve_den_def mult.commute)
  have Sden: "stands_for (ed_S den) ((curve_den y)\<^sup>2)"
    unfolding ed_S_def power2_eq_square by (rule wide_M [OF den den])
  have t: "stands_for t ((curve_den y ^ 7 * curve_num y) ^ (2 ^ 252 - 3))"
  proof -
    have "stands_for (ed_M (ed_M (ed_M (ed_S (ed_S den)) (ed_S den)) num) den)
        ((((curve_den y)\<^sup>2)\<^sup>2 * (curve_den y)\<^sup>2) * curve_num y * curve_den y)"
      by (intro wide_M [OF stands_wide] stands_M stands_S Sden num den)
    moreover have "(((curve_den y)\<^sup>2)\<^sup>2 * (curve_den y)\<^sup>2) * curve_num y * curve_den y = curve_den y ^ 7 * curve_num y"
      by (simp add: power2_eq_square eval_nat_numeral mult.assoc mult.left_commute)
    ultimately show ?thesis unfolding t_def by (intro stands_pow) simp
  qed
  have r: "stands_for r (first_root y)"
  proof -
    have "stands_for r ((curve_den y ^ 7 * curve_num y) ^ (2 ^ 252 - 3) * curve_num y * curve_den y * curve_den y * curve_den y)"
      unfolding r_def by (intro wide_M [OF stands_wide] t num den)
    then show ?thesis by (simp add: first_root_def power3_eq_cube mult.assoc)
  qed
  have chk: "wide_for (ed_M (ed_S a) den) (v\<^sup>2 * curve_den y)" if "stands_for a v" for a v
    by (intro stands_wide wide_M [OF stands_wide] stands_S that den)
  have r': "stands_for r' (second_root y)"
    using r stands_M [OF r I] wide_neq [OF chk [OF r] num] by (simp add: r'_def second_root_def)
  have "ed_unpackneg p =
      (if ed_neq25519 (ed_M (ed_S r') den) num then None
       else let x = (if ed_par25519 r' = drop_bit 7 (p ! 31) then ed_Z ed_gf0 r' else r') in Some (x, r1, ed_gf1, ed_M x r1))"
    unfolding ed_unpackneg_def Let_def r'_def r_def t_def num_def den_def r1_def by simp
  then show ?thesis using r' wide_neq [OF chk [OF r'] num] unfolding y_def r1_def by metis
qed

lemma residue_minus: "residue (- a) = (if residue a = 0 then 0 else P25519 - residue a)"
  by transfer (auto simp: zmod_zminus1_eq_if)

lemma residue_0: "residue a = 0 \<longleftrightarrow> a = 0"
  by transfer simp

lemma residue_parity: "residue a \<noteq> 0 \<Longrightarrow> residue (- a) mod 2 = 1 - residue a mod 2"
proof -
  assume "residue a \<noteq> 0"
  moreover have "(2 ^ 255 - 19 - x) mod 2 = 1 - x mod 2" for x :: int by (simp add: P25519_def) presburger
  ultimately show ?thesis by (simp add: residue_minus P25519_def)
qed

lemma sign_bit: "uint (drop_bit 7 (w :: u8)) = 0 \<or> uint (drop_bit 7 w) = 1"
proof -
  have "uint (drop_bit 7 w) = uint w div 2 ^ 7" by (simp add: drop_bit_eq_div uint_div_distrib)
  moreover have "uint w < 256" "0 \<le> uint w" using uint_lt2p [of w] by simp_all
  ultimately show ?thesis by auto
qed

lemma unpackneg_facts:
  assumes "length p = 32" and "ed_unpackneg p = Some (x, y, z, t)"
  shows "good_point (x, y, z, t)" and "z = ed_gf1" and "gfp y = point_y p"
    and "residue (gfp x) = 0 \<or> residue (gfp x) mod 2 \<noteq> uint (drop_bit 7 (p ! 31))"
proof -
  obtain r where r: "stands_for r (second_root (point_y p))"
    and u: "ed_unpackneg p =
      (if (second_root (point_y p))\<^sup>2 * curve_den (point_y p) \<noteq> curve_num (point_y p) then None
       else let x = (if ed_par25519 r = drop_bit 7 (p ! 31) then ed_Z ed_gf0 r else r)
            in Some (x, ed_unpack25519 p, ed_gf1, ed_M x (ed_unpack25519 p)))"
    using unpackneg_root [OF assms(1)] by blast
  have eq: "(gfp r)\<^sup>2 * curve_den (point_y p) = curve_num (point_y p)"
    using assms(2) u r by (auto simp: stands_for_def split: if_splits)
  have x: "x = (if ed_par25519 r = drop_bit 7 (p ! 31) then ed_Z ed_gf0 r else r)" and y: "y = ed_unpack25519 p"
    and z: "z = ed_gf1" and t: "t = ed_M x y"
    using assms(2) u by (auto simp: Let_def split: if_splits)
  have sr: "small r" using r by (simp add: stands_for_def)
  have sx: "small x" using sr small_negate by (simp add: x)
  have sy: "small y" "gfp y = point_y p" using unpack_stands [OF assms(1)] by (simp_all add: stands_for_def y)
  have "(gfp x)\<^sup>2 = (gfp r)\<^sup>2" using sr by (simp add: x gfp_negate)
  with eq have "(gfp x)\<^sup>2 * (1 + curve_d * (gfp y)\<^sup>2) = (gfp y)\<^sup>2 - 1"
    by (simp add: curve_den_def curve_num_def sy(2))
  then have "(gfp y)\<^sup>2 - (gfp x)\<^sup>2 = 1 + curve_d * (gfp x * gfp y)\<^sup>2"
    by (simp add: power_mult_distrib algebra_simps)
  then show "good_point (x, y, z, t)"
    by (simp add: good_point_def small_point_def on_curve_def z t sx sy(1) small_M_small gfp_M)
  show "z = ed_gf1" "gfp y = point_y p" by (fact z sy(2))+
  have "uint (ed_par25519 r) = residue (gfp r) mod 2" by (rule par_gfp [OF small_wide [OF sr]])
  then have par: "ed_par25519 r = drop_bit 7 (p ! 31) \<longleftrightarrow> residue (gfp r) mod 2 = uint (drop_bit 7 (p ! 31))"
    by (metis word_uint_eq_iff)
  show "residue (gfp x) = 0 \<or> residue (gfp x) mod 2 \<noteq> uint (drop_bit 7 (p ! 31))"
  proof (cases "ed_par25519 r = drop_bit 7 (p ! 31)")
    case True
    then have "gfp x = - gfp r" using sr by (simp add: x gfp_negate)
    then show ?thesis using True par residue_parity [of "gfp r"] residue_minus [of "gfp r"] sign_bit [of "p ! 31"] by (auto split: if_splits)
  next
    case False
    then show ?thesis using par by (simp add: x)
  qed
qed

section \<open>Encoding a point\<close>

lemma pack_point_affine:
  assumes "small x" and "small y" and "gfp x = u" and "gfp y = v"
  shows "\<exists>w. int (le_nat w) = residue v \<and> length w = 32 \<and> ed_pack_point (x, y, ed_gf1, t) = w[31 := w ! 31 XOR push_bit 7 (of_int (residue u mod 2))]"
proof -
  have zi: "stands_for (ed_inv25519 ed_gf1) 1" using inv25519_gfp [of ed_gf1] by (simp add: stands_for_def)
  have x: "stands_for (ed_M x (ed_inv25519 ed_gf1)) u" and y: "stands_for (ed_M y (ed_inv25519 ed_gf1)) v"
    using stands_M [OF _ zi] assms by (auto simp: stands_for_def)
  have "uint (ed_par25519 (ed_M x (ed_inv25519 ed_gf1))) = residue u mod 2"
    using par_gfp [OF small_wide] x by (simp add: stands_for_def)
  then have par: "ed_par25519 (ed_M x (ed_inv25519 ed_gf1)) = of_int (residue u mod 2)" by (metis word_of_int_uint)
  have "sized (2 ^ 62) (ed_M y (ed_inv25519 ed_gf1))"
    using y unfolding stands_for_def small_def by (auto elim: sized_mono)
  then have "int (le_nat (ed_pack25519 (ed_M y (ed_inv25519 ed_gf1)))) = residue v"
    using pack_canonical_val y by (simp add: sized_def stands_for_def gfp_def residue_of_Z [symmetric])
  then show ?thesis using length_ed_pack25519 by (auto simp: ed_pack_point_def Let_def par)
qed

text \<open>The low 255 bits of an encoding.\<close>

lemma and_127: "w AND 127 = take_bit 7 (w :: u8)"
  by (simp add: take_bit_eq_mask mask_eq_exp_minus_1)

lemma le_nat_top_cleared:
  assumes "length p = 32"
  shows "le_nat (p[31 := p ! 31 AND 127]) = le_nat p mod 2 ^ 255"
proof -
  have p: "p = take 31 p @ [p ! 31]" using assms take_Suc_conv_app_nth [of 31 p] by simp
  have l: "le_nat (take 31 p) < 256 ^ 31" using le_nat_less [of "take 31 p"] assms by simp
  have m: "unat (p ! 31 AND 127) = unat (p ! 31) mod 128"
    unfolding and_127 by (simp add: take_bit_eq_mod unat_mod_distrib)
  have v: "le_nat p = le_nat (take 31 p) + 256 ^ 31 * unat (p ! 31)"
    using le_nat_append [of "take 31 p" "[p ! 31]"] assms p by simp
  have "p[31 := p ! 31 AND 127] = take 31 p @ [p ! 31 AND 127]"
    using assms by (subst p) (simp add: list_update_append)
  then have "le_nat (p[31 := p ! 31 AND 127]) = le_nat (take 31 p) + 256 ^ 31 * (unat (p ! 31) mod 128)"
    using le_nat_append [of "take 31 p" "[p ! 31 AND 127]"] assms m by simp
  also have "\<dots> = (le_nat (take 31 p) + 256 ^ 31 * unat (p ! 31)) mod 2 ^ 255"
  proof -
    have "(a + m * b) mod (m * 128) = a + m * (b mod 128)" if "a < m" for a b m :: nat
      using that mod_mult2_eq [of "a + m * b" m 128] by simp
    from this [OF l, of "unat (p ! 31)"] show ?thesis by simp
  qed
  finally show ?thesis using v by simp
qed

lemma sign_restored: "(w AND 127) XOR push_bit 7 (drop_bit 7 w) = (w :: u8)"
proof -
  have "take_bit 7 w XOR push_bit 7 (drop_bit 7 w) = w"
  proof (rule bit_word_eqI)
    fix n assume "n < LENGTH(8)"
    then consider "n < 7" | "n = 7" by force
    then show "bit (take_bit 7 w XOR push_bit 7 (drop_bit 7 w)) n = bit w n" by cases (simp_all add: bit_simps)
  qed
  then show ?thesis by (simp only: and_127)
qed

lemma pack_decoded:
  assumes "length p = 32" and "int (le_nat p) mod 2 ^ 255 < P25519" and "small x" and "small y" and "gfp y = point_y p"
    and "residue (gfp x) mod 2 = uint (drop_bit 7 (p ! 31))"
  shows "ed_pack_point (x, y, ed_gf1, t) = p"
proof -
  obtain w where w: "int (le_nat w) = residue (point_y p)" "length w = 32"
    and e: "ed_pack_point (x, y, ed_gf1, t) = w[31 := w ! 31 XOR push_bit 7 (of_int (residue (gfp x) mod 2))]"
    using pack_point_affine [OF assms(3,4) refl assms(5)] by blast
  have "residue (point_y p) = int (le_nat p) mod 2 ^ 255"
    unfolding point_y_def residue_of_Z by (rule mod_pos_pos_trivial [OF pos_mod_sign [OF zero_less_power [OF zero_less_numeral]] assms(2)])
  then have "int (le_nat w) = int (le_nat (p[31 := p ! 31 AND 127]))"
    unfolding le_nat_top_cleared [OF assms(1)] w(1) by (simp only: of_nat_mod of_nat_power of_nat_numeral)
  then have "le_nat w = le_nat (p[31 := p ! 31 AND 127])" by (simp only: of_nat_eq_iff)
  then have wp: "w = p[31 := p ! 31 AND 127]" using le_nat_eq [of w "p[31 := p ! 31 AND 127]"] w(2) assms(1) by simp
  have "of_int (residue (gfp x) mod 2) = drop_bit 7 (p ! 31)" by (simp only: assms(6) word_of_int_uint)
  then show ?thesis using e assms(1) by (simp add: wp sign_restored)
qed

text \<open>The point with y = 0 has the square roots of -1 as its x; it decodes, and its encoding comes back.\<close>

lemma minus_one_ladder: "(- 1 :: fp) ^ (2 ^ 252 - 3) = - 1"
proof -
  have "(2 :: nat) ^ 252 - 3 = Suc (2 * (2 ^ 251 - 2))" by simp
  then show ?thesis by (simp only: power_minus1_odd)
qed

lemma one_neq_minus_one: "(1 :: fp) \<noteq> - 1"
  by transfer (simp add: P25519_def)

lemma second_root_0: "second_root 0 = gfp ed_I" "(second_root 0)\<^sup>2 * curve_den 0 = curve_num 0"
proof -
  have "first_root 0 = 1" by (simp add: first_root_def curve_num_def curve_den_def minus_one_ladder)
  then show r: "second_root 0 = gfp ed_I"
    using one_neq_minus_one by (simp add: second_root_def curve_num_def curve_den_def)
  show "(second_root 0)\<^sup>2 * curve_den 0 = curve_num 0"
    by (simp add: r curve_num_def curve_den_def power2_eq_square gfp_I)
qed

lemma zero_decodes: "\<exists>x y z t. ed_unpackneg (replicate 32 0) = Some (x, y, z, t) \<and> gfp x \<noteq> 0"
proof -
  have y: "point_y (replicate 32 0) = 0" by (simp add: point_y_def)
  obtain r where r: "stands_for r (second_root (point_y (replicate 32 0)))"
    and u: "ed_unpackneg (replicate 32 0) =
      (if (second_root (point_y (replicate 32 0)))\<^sup>2 * curve_den (point_y (replicate 32 0)) \<noteq> curve_num (point_y (replicate 32 0)) then None
       else let x = (if ed_par25519 r = drop_bit 7 (replicate 32 0 ! 31) then ed_Z ed_gf0 r else r)
            in Some (x, ed_unpack25519 (replicate 32 0), ed_gf1, ed_M x (ed_unpack25519 (replicate 32 0))))"
    using unpackneg_root [of "replicate 32 0"] by auto
  have "gfp ed_I \<noteq> 0" using gfp_I by auto
  then have "gfp r \<noteq> 0" "small r" using r by (simp_all add: y second_root_0 stands_for_def)
  then show ?thesis unfolding u y using second_root_0 by (auto simp: Let_def gfp_negate)
qed

text \<open>
  C28: decoding and encoding a point are inverse.  When \<^verbatim>\<open>_ed_unpackneg\<close> accepts thirty-two bytes, the point it returns has carried
  limbs, lies on the curve, and has the y coordinate of the bytes; when y is written canonically and x is not zero, packing the
  negated point, which undoes the negation of the decoder, gives the bytes back, sign bit included.
\<close>

theorem point_roundtrip:
  assumes "length p = 32" and "ed_unpackneg p = Some (x, y, z, t)"
  shows "good_point (x, y, z, t) \<and> gfp y = of_Z (int (le_nat p) mod 2 ^ 255) \<and>
    (int (le_nat p) mod 2 ^ 255 < P25519 \<and> gfp x \<noteq> 0 \<longrightarrow> ed_pack_point (ed_Z ed_gf0 x, y, z, ed_Z ed_gf0 t) = p)"
proof -
  note f = unpackneg_facts [OF assms]
  have s: "small x" "small y" using f(1) by (simp_all add: good_point_def small_point_def)
  have "ed_pack_point (ed_Z ed_gf0 x, y, z, ed_Z ed_gf0 t) = p" if c: "int (le_nat p) mod 2 ^ 255 < P25519" and x: "gfp x \<noteq> 0"
  proof -
    have r: "residue (gfp x) \<noteq> 0" using x by (simp add: residue_0)
    then have "residue (gfp (ed_Z ed_gf0 x)) mod 2 = uint (drop_bit 7 (p ! 31))"
      using f(4) residue_parity [OF r] sign_bit [of "p ! 31"] s by (auto simp: gfp_negate)
    then show ?thesis using pack_decoded [OF assms(1) c small_negate [OF s(1)] s(2) f(3)] f(2) by simp
  qed
  then show ?thesis using f(1,3) by (simp add: point_y_def)
qed

text \<open>The point with y = 0: thirty-two zero bytes.\<close>

theorem point_roundtrip_witness:
  "\<exists>x y z t. ed_unpackneg (replicate 32 0) = Some (x, y, z, t) \<and> ed_pack_point (ed_Z ed_gf0 x, y, z, ed_Z ed_gf0 t) = replicate 32 0"
proof -
  obtain x y z t where u: "ed_unpackneg (replicate 32 0) = Some (x, y, z, t)" "gfp x \<noteq> 0" using zero_decodes by blast
  have "ed_pack_point (ed_Z ed_gf0 x, y, z, ed_Z ed_gf0 t) = replicate 32 0"
    using point_roundtrip [of "replicate 32 0" x y z t] u by (simp add: P25519_def)
  with u show ?thesis by blast
qed

section \<open>Every point the signatures use\<close>

lemma scalarbase_good: "good_point (ed_scalarbase s)"
proof (cases "ed_unpackneg ed_B")
  case None
  have "good_point (ed_gf0, ed_gf0, ed_gf0, ed_gf0)" by (simp add: good_point_def small_point_def on_curve_def)
  with None show ?thesis by (simp add: ed_scalarbase_def scalarmult_good)
next
  case (Some q)
  obtain x y z t where q: "q = (x, y, z, t)" by (cases q)
  have "good_point (x, y, z, t)" using unpackneg_facts(1) [of ed_B] Some q by (simp add: ed_B_def)
  then show ?thesis using Some q by (simp add: ed_scalarbase_def scalarmult_good good_negate)
qed



end
