(* ===== verification/Chacha20_Bits.thy ===== *)
theory Chacha20_Bits
  imports Chachapoly
begin

text \<open>
  An evaluation of the ChaCha20 block on lists of bits, least significant first: a sum ripples through the bits, an
  exclusive or compares them and a rotation moves them.  It computes the block of \<^verbatim>\<open>src/mbedtls_extras/chacha20.c\<close>
  as modelled in \<^verbatim>\<open>Chacha20\<close>, in a form the kernel evaluates in seconds.
\<close>

section \<open>Words as bits\<close>

type_synonym bits = "bool list"

abbreviation bits_word :: "bits \<Rightarrow> u32" where "bits_word \<equiv> horner_sum of_bool 2"

definition word_bits :: "u32 \<Rightarrow> bits" where "word_bits w = map (bit w) [0..<32]"

fun add_bits :: "bool \<Rightarrow> bits \<Rightarrow> bits \<Rightarrow> bits" where
  "add_bits c (False # xs) (False # ys) = c # add_bits False xs ys"
| "add_bits c (True # xs) (True # ys) = c # add_bits True xs ys"
| "add_bits c (False # xs) (True # ys) = (\<not> c) # add_bits c xs ys"
| "add_bits c (True # xs) (False # ys) = (\<not> c) # add_bits c xs ys"
| "add_bits c _ _ = []"

definition xor_bits :: "bits \<Rightarrow> bits \<Rightarrow> bits" where "xor_bits = map2 (\<noteq>)"

definition rot_bits :: "nat \<Rightarrow> bits \<Rightarrow> bits" where "rot_bits k xs = drop (32 - k) xs @ take (32 - k) xs"

lemma length_add_bits [simp]: "length (add_bits c xs ys) = min (length xs) (length ys)"
  by (induction c xs ys rule: add_bits.induct) auto

lemma length_xor_bits [simp]: "length (xor_bits xs ys) = min (length xs) (length ys)"
  by (simp add: xor_bits_def)

lemma length_rot_bits [simp]: "length (rot_bits k xs) = length xs"
  by (simp add: rot_bits_def)

lemma length_word_bits [simp]: "length (word_bits w) = 32"
  by (simp add: word_bits_def)

lemma bits_word_bits [simp]: "bits_word (word_bits w) = w"
  by (rule bit_word_eqI) (simp add: word_bits_def bit_horner_sum_bit_word_iff)

lemma add_bits_carry:
  "length xs = length ys \<Longrightarrow>
     \<exists>k. bits_word xs + bits_word ys + of_bool c = bits_word (add_bits c xs ys) + 2 ^ length xs * k"
proof (induction c xs ys rule: add_bits.induct)
  case (1 c xs ys)
  then obtain k where k: "bits_word xs + bits_word ys = bits_word (add_bits False xs ys) + 2 ^ length xs * k" by auto
  from arg_cong [OF k, of "\<lambda>w. 2 * w"] show ?case by (intro exI [of _ k]) (simp add: algebra_simps)
next
  case (2 c xs ys)
  then obtain k where k: "bits_word xs + bits_word ys + 1 = bits_word (add_bits True xs ys) + 2 ^ length xs * k" by auto
  from arg_cong [OF k, of "\<lambda>w. 2 * w"] show ?case by (intro exI [of _ k]) (simp add: algebra_simps)
next
  case (3 c xs ys)
  then obtain k where k: "bits_word xs + bits_word ys + of_bool c = bits_word (add_bits c xs ys) + 2 ^ length xs * k" by auto
  from arg_cong [OF k, of "\<lambda>w. 2 * w"] show ?case by (intro exI [of _ k]) (cases c; simp add: algebra_simps)
next
  case (4 c xs ys)
  then obtain k where k: "bits_word xs + bits_word ys + of_bool c = bits_word (add_bits c xs ys) + 2 ^ length xs * k" by auto
  from arg_cong [OF k, of "\<lambda>w. 2 * w"] show ?case by (intro exI [of _ k]) (cases c; simp add: algebra_simps)
qed (auto intro: exI [of _ "of_bool _"])

lemma bits_word_add: "length xs = 32 \<Longrightarrow> length ys = 32 \<Longrightarrow> bits_word (add_bits False xs ys) = bits_word xs + bits_word ys"
proof -
  assume len: "length xs = 32" "length ys = 32"
  then obtain k where "bits_word xs + bits_word ys = bits_word (add_bits False xs ys) + 2 ^ 32 * k"
    using add_bits_carry [of xs ys False] by auto
  moreover have "(2 ^ 32 :: u32) = 0" by simp
  ultimately show ?thesis by (simp only: mult_zero_left add_0_right)
qed

lemma bits_word_xor: "length xs = length ys \<Longrightarrow> bits_word (xor_bits xs ys) = bits_word xs XOR bits_word ys"
  by (rule bit_word_eqI) (auto simp: bit_horner_sum_bit_word_iff bit_xor_iff xor_bits_def)

lemma bits_word_rot: "length xs = 32 \<Longrightarrow> k \<le> 32 \<Longrightarrow> bits_word (rot_bits k xs) = ROTL32 (bits_word xs) k"
  by (rule bit_word_eqI) (auto simp: bit_horner_sum_bit_word_iff ROTL32_def bit_or_iff bit_push_bit_iff bit_drop_bit_eq rot_bits_def nth_append)

section \<open>The rounds on bits\<close>

type_synonym bits4 = "bits \<times> bits \<times> bits \<times> bits"

fun add_a :: "bits4 \<Rightarrow> bits4" where "add_a (a, b, c, d) = (add_bits False a b, b, c, d)"
fun rot_d :: "nat \<Rightarrow> bits4 \<Rightarrow> bits4" where "rot_d k (a, b, c, d) = (a, b, c, rot_bits k (xor_bits d a))"
fun add_c :: "bits4 \<Rightarrow> bits4" where "add_c (a, b, c, d) = (a, b, add_bits False c d, d)"
fun rot_b :: "nat \<Rightarrow> bits4 \<Rightarrow> bits4" where "rot_b k (a, b, c, d) = (a, rot_bits k (xor_bits b c), c, d)"

definition quarter_bits :: "bits4 \<Rightarrow> bits4" where
  "quarter_bits q = rot_b 7 (add_c (rot_d 8 (add_a (rot_b 12 (add_c (rot_d 16 (add_a q)))))))"

fun column_bits :: "bits4 \<Rightarrow> bits4 \<Rightarrow> bits4 \<Rightarrow> bits4 \<Rightarrow> bits list" where
  "column_bits (x0, x4, x8, x12) (x1, x5, x9, x13) (x2, x6, x10, x14) (x3, x7, x11, x15) =
     [x0, x1, x2, x3, x4, x5, x6, x7, x8, x9, x10, x11, x12, x13, x14, x15]"

fun diagonal_bits :: "bits4 \<Rightarrow> bits4 \<Rightarrow> bits4 \<Rightarrow> bits4 \<Rightarrow> bits list" where
  "diagonal_bits (x0, x5, x10, x15) (x1, x6, x11, x12) (x2, x7, x8, x13) (x3, x4, x9, x14) =
     [x0, x1, x2, x3, x4, x5, x6, x7, x8, x9, x10, x11, x12, x13, x14, x15]"

fun columns :: "bits list \<Rightarrow> bits list" where
  "columns [x0, x1, x2, x3, x4, x5, x6, x7, x8, x9, x10, x11, x12, x13, x14, x15] =
     column_bits (quarter_bits (x0, x4, x8, x12)) (quarter_bits (x1, x5, x9, x13))
       (quarter_bits (x2, x6, x10, x14)) (quarter_bits (x3, x7, x11, x15))"
| "columns _ = []"

fun diagonals :: "bits list \<Rightarrow> bits list" where
  "diagonals [x0, x1, x2, x3, x4, x5, x6, x7, x8, x9, x10, x11, x12, x13, x14, x15] =
     diagonal_bits (quarter_bits (x0, x5, x10, x15)) (quarter_bits (x1, x6, x11, x12))
       (quarter_bits (x2, x7, x8, x13)) (quarter_bits (x3, x4, x9, x14))"
| "diagonals _ = []"

definition inner_bits :: "bits list \<Rightarrow> bits list" where
  "inner_bits bs = diagonals (columns bs)"

section \<open>The rounds on bits are the rounds on words\<close>

text \<open>The quarter round on its four words.\<close>

definition quarter_words :: "u32 \<Rightarrow> u32 \<Rightarrow> u32 \<Rightarrow> u32 \<Rightarrow> u32 \<times> u32 \<times> u32 \<times> u32" where
  "quarter_words a b c d =
     (let a = a + b; d = ROTL32 (d XOR a) 16; c = c + d; b = ROTL32 (b XOR c) 12;
          a = a + b; d = ROTL32 (d XOR a) 8; c = c + d; b = ROTL32 (b XOR c) 7
      in (a, b, c, d))"

definition put4 :: "nat \<Rightarrow> nat \<Rightarrow> nat \<Rightarrow> nat \<Rightarrow> u32 \<times> u32 \<times> u32 \<times> u32 \<Rightarrow> u32 list \<Rightarrow> u32 list" where
  "put4 a b c d q st = (case q of (w, x, y, z) \<Rightarrow> st[a := w, b := x, c := y, d := z])"

lemma put4_rules:
  assumes "distinct [a, b, c, d]" and "list_all (\<lambda>i. i < length st) [a, b, c, d]"
  shows "put4 a b c d (w, x, y, z) st ! a = w" "put4 a b c d (w, x, y, z) st ! b = x"
    "put4 a b c d (w, x, y, z) st ! c = y" "put4 a b c d (w, x, y, z) st ! d = z"
    "(put4 a b c d (w, x, y, z) st)[a := v] = put4 a b c d (v, x, y, z) st"
    "(put4 a b c d (w, x, y, z) st)[b := v] = put4 a b c d (w, v, y, z) st"
    "(put4 a b c d (w, x, y, z) st)[c := v] = put4 a b c d (w, x, v, z) st"
    "(put4 a b c d (w, x, y, z) st)[d := v] = put4 a b c d (w, x, y, v) st"
    "put4 a b c d (st ! a, st ! b, st ! c, st ! d) st = st"
  using assms by (auto simp: put4_def list_update_swap)

lemma quarter_round_words:
  assumes "distinct [a, b, c, d]" and "list_all (\<lambda>i. i < length st) [a, b, c, d]"
  shows "chacha20_quarter_round st a b c d = put4 a b c d (quarter_words (st ! a) (st ! b) (st ! c) (st ! d)) st"
proof -
  have "chacha20_quarter_round (put4 a b c d (w, x, y, z) st) a b c d = put4 a b c d (quarter_words w x y z) st" for w x y z
    unfolding chacha20_quarter_round_def quarter_words_def Let_def by (simp only: put4_rules [OF assms])
  from this [of "st ! a" "st ! b" "st ! c" "st ! d"] show ?thesis by (simp only: put4_rules [OF assms])
qed

lemma quarter_bits_words:
  assumes "quarter_bits (a, b, c, d) = (a', b', c', d')" and "list_all (\<lambda>x. length x = 32) [a, b, c, d]"
  shows "quarter_words (bits_word a) (bits_word b) (bits_word c) (bits_word d) =
      (bits_word a', bits_word b', bits_word c', bits_word d') \<and> list_all (\<lambda>x. length x = 32) [a', b', c', d']"
  using assms by (auto simp: quarter_bits_def quarter_words_def Let_def bits_word_add bits_word_xor bits_word_rot)

lemma columns_words:
  assumes "length bs = 16" and "list_all (\<lambda>x. length x = 32) bs"
  shows "map bits_word (columns bs) = chacha20_quarter_round (chacha20_quarter_round (chacha20_quarter_round (chacha20_quarter_round (map bits_word bs) 0 4 8 12) 1 5 9 13) 2 6 10 14) 3 7 11 15 \<and>
    length (columns bs) = 16 \<and> list_all (\<lambda>x. length x = 32) (columns bs)"
proof (cases bs rule: columns.cases)
  case (1 x0 x1 x2 x3 x4 x5 x6 x7 x8 x9 x10 x11 x12 x13 x14 x15)
  obtain a0 a4 a8 a12 where q1: "quarter_bits (x0, x4, x8, x12) = (a0, a4, a8, a12)"
    by (metis prod_cases4)
  obtain b1 b5 b9 b13 where q2: "quarter_bits (x1, x5, x9, x13) = (b1, b5, b9, b13)"
    by (metis prod_cases4)
  obtain c2 c6 c10 c14 where q3: "quarter_bits (x2, x6, x10, x14) = (c2, c6, c10, c14)"
    by (metis prod_cases4)
  obtain d3 d7 d11 d15 where q4: "quarter_bits (x3, x7, x11, x15) = (d3, d7, d11, d15)"
    by (metis prod_cases4)
  show ?thesis
    using assms quarter_bits_words [OF q1] quarter_bits_words [OF q2] quarter_bits_words [OF q3] quarter_bits_words [OF q4]
    by (simp add: 1 q1 q2 q3 q4 quarter_round_words put4_def)
qed (use assms in simp_all)

lemma diagonals_words:
  assumes "length bs = 16" and "list_all (\<lambda>x. length x = 32) bs"
  shows "map bits_word (diagonals bs) = chacha20_quarter_round (chacha20_quarter_round (chacha20_quarter_round (chacha20_quarter_round (map bits_word bs) 0 5 10 15) 1 6 11 12) 2 7 8 13) 3 4 9 14 \<and>
    length (diagonals bs) = 16 \<and> list_all (\<lambda>x. length x = 32) (diagonals bs)"
proof (cases bs rule: diagonals.cases)
  case (1 x0 x1 x2 x3 x4 x5 x6 x7 x8 x9 x10 x11 x12 x13 x14 x15)
  obtain a0 a5 a10 a15 where q1: "quarter_bits (x0, x5, x10, x15) = (a0, a5, a10, a15)"
    by (metis prod_cases4)
  obtain b1 b6 b11 b12 where q2: "quarter_bits (x1, x6, x11, x12) = (b1, b6, b11, b12)"
    by (metis prod_cases4)
  obtain c2 c7 c8 c13 where q3: "quarter_bits (x2, x7, x8, x13) = (c2, c7, c8, c13)"
    by (metis prod_cases4)
  obtain d3 d4 d9 d14 where q4: "quarter_bits (x3, x4, x9, x14) = (d3, d4, d9, d14)"
    by (metis prod_cases4)
  show ?thesis
    using assms quarter_bits_words [OF q1] quarter_bits_words [OF q2] quarter_bits_words [OF q3] quarter_bits_words [OF q4]
    by (simp add: 1 q1 q2 q3 q4 quarter_round_words put4_def)
qed (use assms in simp_all)

lemma inner_bits_words:
  assumes "length bs = 16" and "list_all (\<lambda>x. length x = 32) bs"
  shows "map bits_word (inner_bits bs) = chacha20_inner_block (map bits_word bs) \<and>
    length (inner_bits bs) = 16 \<and> list_all (\<lambda>x. length x = 32) (inner_bits bs)"
  using columns_words [OF assms] diagonals_words [of "columns bs"]
  by (simp add: inner_bits_def chacha20_inner_block_def)

lemma inner_bits_n:
  assumes "length bs = 16" and "list_all (\<lambda>x. length x = 32) bs"
  shows "map bits_word ((inner_bits ^^ n) bs) = (chacha20_inner_block ^^ n) (map bits_word bs) \<and>
    length ((inner_bits ^^ n) bs) = 16 \<and> list_all (\<lambda>x. length x = 32) ((inner_bits ^^ n) bs)"
  using assms
proof (induction n)
  case (Suc n)
  then show ?case using inner_bits_words [of "(inner_bits ^^ n) bs"] by simp
qed simp

section \<open>The block\<close>

definition bits_bytes :: "bits \<Rightarrow> bytes" where
  "bits_bytes xs = map (\<lambda>i. horner_sum of_bool 2 (take 8 (drop (8 * i) xs))) [0, 1, 2, 3]"

lemma put_bits_word: "length xs = 32 \<Longrightarrow> put_u32_le (bits_word xs) = bits_bytes xs"
proof -
  assume len: "length xs = 32"
  have "ucast (drop_bit (8 * i) (bits_word xs)) = (horner_sum of_bool 2 (take 8 (drop (8 * i) xs)) :: u8)" for i
    by (rule bit_word_eqI) (use len in \<open>auto simp: bit_horner_sum_bit_word_iff bit_drop_bit_eq bit_ucast_iff\<close>)
  from this [of 0] this [of 1] this [of 2] this [of 3] show ?thesis
    by (simp add: put_u32_le_def bits_bytes_def)
qed

definition block_bits :: "bits list \<Rightarrow> bytes" where
  "block_bits bs = concat (map bits_bytes (map2 (add_bits False) ((inner_bits ^^ 10) bs) bs))"

lemma map_put_add:
  "list_all (\<lambda>x. length x = 32) xs \<Longrightarrow> list_all (\<lambda>x. length x = 32) ys \<Longrightarrow>
   map put_u32_le (map2 (+) (map bits_word xs) (map bits_word ys)) = map bits_bytes (map2 (add_bits False) xs ys)"
proof (induction xs arbitrary: ys)
  case (Cons x xs)
  then show ?case by (cases ys) (auto simp: bits_word_add put_bits_word simp flip: bits_word_add)
qed simp

lemma chacha20_block_bits:
  assumes "length st = 16"
  shows "chacha20_block st = block_bits (map word_bits st)"
proof -
  let ?bs = "map word_bits st"
  have ok: "length ?bs = 16" "list_all (\<lambda>x. length x = 32) ?bs" using assms by (simp_all add: list_all_iff)
  have st: "map bits_word ?bs = st" by (simp add: map_idI)
  show ?thesis
    using inner_bits_n [OF ok, of 10] map_put_add [of "(inner_bits ^^ 10) ?bs" ?bs] ok
    unfolding chacha20_block_def block_bits_def Let_def st by simp
qed

end
