(* ===== verification/Self_Test.thy ===== *)
theory Self_Test
  imports Chacha20_Bits
begin

text \<open>
  The self tests of \<^verbatim>\<open>src/mbedtls_extras/chacha20.c\<close>, \<^verbatim>\<open>src/mbedtls_extras/poly1305.c\<close> and
  \<^verbatim>\<open>src/mbedtls_extras/chachapoly.c\<close>, with the test vectors of RFC 8439 they contain, and the proof that the
  modelled code passes all of them.  Key stream blocks are evaluated on bits, the authenticator on natural numbers.
\<close>

section \<open>The test vectors\<close>

text \<open>A row of an array of fixed length, whose missing initialisers are zero.\<close>

definition test_row :: "nat \<Rightarrow> bytes \<Rightarrow> bytes" where
  "test_row n bs = bs @ replicate (n - length bs) 0"

definition chacha20_test_keys :: "bytes list" where
  "chacha20_test_keys =
   [[0x00, 0x00, 0x00, 0x00, 0x00, 0x00, 0x00, 0x00, 0x00, 0x00, 0x00, 0x00, 0x00, 0x00, 0x00, 0x00,
     0x00, 0x00, 0x00, 0x00, 0x00, 0x00, 0x00, 0x00, 0x00, 0x00, 0x00, 0x00, 0x00, 0x00, 0x00, 0x00],
    [0x00, 0x00, 0x00, 0x00, 0x00, 0x00, 0x00, 0x00, 0x00, 0x00, 0x00, 0x00, 0x00, 0x00, 0x00, 0x00,
     0x00, 0x00, 0x00, 0x00, 0x00, 0x00, 0x00, 0x00, 0x00, 0x00, 0x00, 0x00, 0x00, 0x00, 0x00, 0x01]]"

definition chacha20_test_nonces :: "bytes list" where
  "chacha20_test_nonces =
   [[0x00, 0x00, 0x00, 0x00, 0x00, 0x00, 0x00, 0x00, 0x00, 0x00, 0x00, 0x00],
    [0x00, 0x00, 0x00, 0x00, 0x00, 0x00, 0x00, 0x00, 0x00, 0x00, 0x00, 0x02]]"

definition chacha20_test_counters :: "u32 list" where
  "chacha20_test_counters = [0, 1]"

definition chacha20_test_input :: "bytes list" where
  "chacha20_test_input =
   [test_row 375
     [0x00, 0x00, 0x00, 0x00, 0x00, 0x00, 0x00, 0x00, 0x00, 0x00, 0x00, 0x00, 0x00, 0x00, 0x00, 0x00,
      0x00, 0x00, 0x00, 0x00, 0x00, 0x00, 0x00, 0x00, 0x00, 0x00, 0x00, 0x00, 0x00, 0x00, 0x00, 0x00,
      0x00, 0x00, 0x00, 0x00, 0x00, 0x00, 0x00, 0x00, 0x00, 0x00, 0x00, 0x00, 0x00, 0x00, 0x00, 0x00,
      0x00, 0x00, 0x00, 0x00, 0x00, 0x00, 0x00, 0x00, 0x00, 0x00, 0x00, 0x00, 0x00, 0x00, 0x00, 0x00],
    [0x41, 0x6e, 0x79, 0x20, 0x73, 0x75, 0x62, 0x6d, 0x69, 0x73, 0x73, 0x69, 0x6f, 0x6e, 0x20, 0x74,
     0x6f, 0x20, 0x74, 0x68, 0x65, 0x20, 0x49, 0x45, 0x54, 0x46, 0x20, 0x69, 0x6e, 0x74, 0x65, 0x6e,
     0x64, 0x65, 0x64, 0x20, 0x62, 0x79, 0x20, 0x74, 0x68, 0x65, 0x20, 0x43, 0x6f, 0x6e, 0x74, 0x72,
     0x69, 0x62, 0x75, 0x74, 0x6f, 0x72, 0x20, 0x66, 0x6f, 0x72, 0x20, 0x70, 0x75, 0x62, 0x6c, 0x69,
     0x63, 0x61, 0x74, 0x69, 0x6f, 0x6e, 0x20, 0x61, 0x73, 0x20, 0x61, 0x6c, 0x6c, 0x20, 0x6f, 0x72,
     0x20, 0x70, 0x61, 0x72, 0x74, 0x20, 0x6f, 0x66, 0x20, 0x61, 0x6e, 0x20, 0x49, 0x45, 0x54, 0x46,
     0x20, 0x49, 0x6e, 0x74, 0x65, 0x72, 0x6e, 0x65, 0x74, 0x2d, 0x44, 0x72, 0x61, 0x66, 0x74, 0x20,
     0x6f, 0x72, 0x20, 0x52, 0x46, 0x43, 0x20, 0x61, 0x6e, 0x64, 0x20, 0x61, 0x6e, 0x79, 0x20, 0x73,
     0x74, 0x61, 0x74, 0x65, 0x6d, 0x65, 0x6e, 0x74, 0x20, 0x6d, 0x61, 0x64, 0x65, 0x20, 0x77, 0x69,
     0x74, 0x68, 0x69, 0x6e, 0x20, 0x74, 0x68, 0x65, 0x20, 0x63, 0x6f, 0x6e, 0x74, 0x65, 0x78, 0x74,
     0x20, 0x6f, 0x66, 0x20, 0x61, 0x6e, 0x20, 0x49, 0x45, 0x54, 0x46, 0x20, 0x61, 0x63, 0x74, 0x69,
     0x76, 0x69, 0x74, 0x79, 0x20, 0x69, 0x73, 0x20, 0x63, 0x6f, 0x6e, 0x73, 0x69, 0x64, 0x65, 0x72,
     0x65, 0x64, 0x20, 0x61, 0x6e, 0x20, 0x22, 0x49, 0x45, 0x54, 0x46, 0x20, 0x43, 0x6f, 0x6e, 0x74,
     0x72, 0x69, 0x62, 0x75, 0x74, 0x69, 0x6f, 0x6e, 0x22, 0x2e, 0x20, 0x53, 0x75, 0x63, 0x68, 0x20,
     0x73, 0x74, 0x61, 0x74, 0x65, 0x6d, 0x65, 0x6e, 0x74, 0x73, 0x20, 0x69, 0x6e, 0x63, 0x6c, 0x75,
     0x64, 0x65, 0x20, 0x6f, 0x72, 0x61, 0x6c, 0x20, 0x73, 0x74, 0x61, 0x74, 0x65, 0x6d, 0x65, 0x6e,
     0x74, 0x73, 0x20, 0x69, 0x6e, 0x20, 0x49, 0x45, 0x54, 0x46, 0x20, 0x73, 0x65, 0x73, 0x73, 0x69,
     0x6f, 0x6e, 0x73, 0x2c, 0x20, 0x61, 0x73, 0x20, 0x77, 0x65, 0x6c, 0x6c, 0x20, 0x61, 0x73, 0x20,
     0x77, 0x72, 0x69, 0x74, 0x74, 0x65, 0x6e, 0x20, 0x61, 0x6e, 0x64, 0x20, 0x65, 0x6c, 0x65, 0x63,
     0x74, 0x72, 0x6f, 0x6e, 0x69, 0x63, 0x20, 0x63, 0x6f, 0x6d, 0x6d, 0x75, 0x6e, 0x69, 0x63, 0x61,
     0x74, 0x69, 0x6f, 0x6e, 0x73, 0x20, 0x6d, 0x61, 0x64, 0x65, 0x20, 0x61, 0x74, 0x20, 0x61, 0x6e,
     0x79, 0x20, 0x74, 0x69, 0x6d, 0x65, 0x20, 0x6f, 0x72, 0x20, 0x70, 0x6c, 0x61, 0x63, 0x65, 0x2c,
     0x20, 0x77, 0x68, 0x69, 0x63, 0x68, 0x20, 0x61, 0x72, 0x65, 0x20, 0x61, 0x64, 0x64, 0x72, 0x65,
     0x73, 0x73, 0x65, 0x64, 0x20, 0x74, 0x6f]]"

definition chacha20_test_output :: "bytes list" where
  "chacha20_test_output =
   [test_row 375
     [0x76, 0xb8, 0xe0, 0xad, 0xa0, 0xf1, 0x3d, 0x90, 0x40, 0x5d, 0x6a, 0xe5, 0x53, 0x86, 0xbd, 0x28,
      0xbd, 0xd2, 0x19, 0xb8, 0xa0, 0x8d, 0xed, 0x1a, 0xa8, 0x36, 0xef, 0xcc, 0x8b, 0x77, 0x0d, 0xc7,
      0xda, 0x41, 0x59, 0x7c, 0x51, 0x57, 0x48, 0x8d, 0x77, 0x24, 0xe0, 0x3f, 0xb8, 0xd8, 0x4a, 0x37,
      0x6a, 0x43, 0xb8, 0xf4, 0x15, 0x18, 0xa1, 0x1c, 0xc3, 0x87, 0xb6, 0x69, 0xb2, 0xee, 0x65, 0x86],
    [0xa3, 0xfb, 0xf0, 0x7d, 0xf3, 0xfa, 0x2f, 0xde, 0x4f, 0x37, 0x6c, 0xa2, 0x3e, 0x82, 0x73, 0x70,
     0x41, 0x60, 0x5d, 0x9f, 0x4f, 0x4f, 0x57, 0xbd, 0x8c, 0xff, 0x2c, 0x1d, 0x4b, 0x79, 0x55, 0xec,
     0x2a, 0x97, 0x94, 0x8b, 0xd3, 0x72, 0x29, 0x15, 0xc8, 0xf3, 0xd3, 0x37, 0xf7, 0xd3, 0x70, 0x05,
     0x0e, 0x9e, 0x96, 0xd6, 0x47, 0xb7, 0xc3, 0x9f, 0x56, 0xe0, 0x31, 0xca, 0x5e, 0xb6, 0x25, 0x0d,
     0x40, 0x42, 0xe0, 0x27, 0x85, 0xec, 0xec, 0xfa, 0x4b, 0x4b, 0xb5, 0xe8, 0xea, 0xd0, 0x44, 0x0e,
     0x20, 0xb6, 0xe8, 0xdb, 0x09, 0xd8, 0x81, 0xa7, 0xc6, 0x13, 0x2f, 0x42, 0x0e, 0x52, 0x79, 0x50,
     0x42, 0xbd, 0xfa, 0x77, 0x73, 0xd8, 0xa9, 0x05, 0x14, 0x47, 0xb3, 0x29, 0x1c, 0xe1, 0x41, 0x1c,
     0x68, 0x04, 0x65, 0x55, 0x2a, 0xa6, 0xc4, 0x05, 0xb7, 0x76, 0x4d, 0x5e, 0x87, 0xbe, 0xa8, 0x5a,
     0xd0, 0x0f, 0x84, 0x49, 0xed, 0x8f, 0x72, 0xd0, 0xd6, 0x62, 0xab, 0x05, 0x26, 0x91, 0xca, 0x66,
     0x42, 0x4b, 0xc8, 0x6d, 0x2d, 0xf8, 0x0e, 0xa4, 0x1f, 0x43, 0xab, 0xf9, 0x37, 0xd3, 0x25, 0x9d,
     0xc4, 0xb2, 0xd0, 0xdf, 0xb4, 0x8a, 0x6c, 0x91, 0x39, 0xdd, 0xd7, 0xf7, 0x69, 0x66, 0xe9, 0x28,
     0xe6, 0x35, 0x55, 0x3b, 0xa7, 0x6c, 0x5c, 0x87, 0x9d, 0x7b, 0x35, 0xd4, 0x9e, 0xb2, 0xe6, 0x2b,
     0x08, 0x71, 0xcd, 0xac, 0x63, 0x89, 0x39, 0xe2, 0x5e, 0x8a, 0x1e, 0x0e, 0xf9, 0xd5, 0x28, 0x0f,
     0xa8, 0xca, 0x32, 0x8b, 0x35, 0x1c, 0x3c, 0x76, 0x59, 0x89, 0xcb, 0xcf, 0x3d, 0xaa, 0x8b, 0x6c,
     0xcc, 0x3a, 0xaf, 0x9f, 0x39, 0x79, 0xc9, 0x2b, 0x37, 0x20, 0xfc, 0x88, 0xdc, 0x95, 0xed, 0x84,
     0xa1, 0xbe, 0x05, 0x9c, 0x64, 0x99, 0xb9, 0xfd, 0xa2, 0x36, 0xe7, 0xe8, 0x18, 0xb0, 0x4b, 0x0b,
     0xc3, 0x9c, 0x1e, 0x87, 0x6b, 0x19, 0x3b, 0xfe, 0x55, 0x69, 0x75, 0x3f, 0x88, 0x12, 0x8c, 0xc0,
     0x8a, 0xaa, 0x9b, 0x63, 0xd1, 0xa1, 0x6f, 0x80, 0xef, 0x25, 0x54, 0xd7, 0x18, 0x9c, 0x41, 0x1f,
     0x58, 0x69, 0xca, 0x52, 0xc5, 0xb8, 0x3f, 0xa3, 0x6f, 0xf2, 0x16, 0xb9, 0xc1, 0xd3, 0x00, 0x62,
     0xbe, 0xbc, 0xfd, 0x2d, 0xc5, 0xbc, 0xe0, 0x91, 0x19, 0x34, 0xfd, 0xa7, 0x9a, 0x86, 0xf6, 0xe6,
     0x98, 0xce, 0xd7, 0x59, 0xc3, 0xff, 0x9b, 0x64, 0x77, 0x33, 0x8f, 0x3d, 0xa4, 0xf9, 0xcd, 0x85,
     0x14, 0xea, 0x99, 0x82, 0xcc, 0xaf, 0xb3, 0x41, 0xb2, 0x38, 0x4d, 0xd9, 0x02, 0xf3, 0xd1, 0xab,
     0x7a, 0xc6, 0x1d, 0xd2, 0x9c, 0x6f, 0x21, 0xba, 0x5b, 0x86, 0x2f, 0x37, 0x30, 0xe3, 0x7c, 0xfd,
     0xc4, 0xfd, 0x80, 0x6c, 0x22, 0xf2, 0x21]]"

definition chacha20_test_lengths :: "nat list" where
  "chacha20_test_lengths = [64, 375]"

definition poly1305_test_keys :: "bytes list" where
  "poly1305_test_keys =
   [[0x85, 0xd6, 0xbe, 0x78, 0x57, 0x55, 0x6d, 0x33, 0x7f, 0x44, 0x52, 0xfe, 0x42, 0xd5, 0x06, 0xa8,
     0x01, 0x03, 0x80, 0x8a, 0xfb, 0x0d, 0xb2, 0xfd, 0x4a, 0xbf, 0xf6, 0xaf, 0x41, 0x49, 0xf5, 0x1b],
    [0x1c, 0x92, 0x40, 0xa5, 0xeb, 0x55, 0xd3, 0x8a, 0xf3, 0x33, 0x88, 0x86, 0x04, 0xf6, 0xb5, 0xf0,
     0x47, 0x39, 0x17, 0xc1, 0x40, 0x2b, 0x80, 0x09, 0x9d, 0xca, 0x5c, 0xbc, 0x20, 0x70, 0x75, 0xc0]]"

definition poly1305_test_data :: "bytes list" where
  "poly1305_test_data =
   [test_row 127
     [0x43, 0x72, 0x79, 0x70, 0x74, 0x6f, 0x67, 0x72, 0x61, 0x70, 0x68, 0x69, 0x63, 0x20, 0x46, 0x6f,
      0x72, 0x75, 0x6d, 0x20, 0x52, 0x65, 0x73, 0x65, 0x61, 0x72, 0x63, 0x68, 0x20, 0x47, 0x72, 0x6f,
      0x75, 0x70],
    [0x27, 0x54, 0x77, 0x61, 0x73, 0x20, 0x62, 0x72, 0x69, 0x6c, 0x6c, 0x69, 0x67, 0x2c, 0x20, 0x61,
     0x6e, 0x64, 0x20, 0x74, 0x68, 0x65, 0x20, 0x73, 0x6c, 0x69, 0x74, 0x68, 0x79, 0x20, 0x74, 0x6f,
     0x76, 0x65, 0x73, 0x0a, 0x44, 0x69, 0x64, 0x20, 0x67, 0x79, 0x72, 0x65, 0x20, 0x61, 0x6e, 0x64,
     0x20, 0x67, 0x69, 0x6d, 0x62, 0x6c, 0x65, 0x20, 0x69, 0x6e, 0x20, 0x74, 0x68, 0x65, 0x20, 0x77,
     0x61, 0x62, 0x65, 0x3a, 0x0a, 0x41, 0x6c, 0x6c, 0x20, 0x6d, 0x69, 0x6d, 0x73, 0x79, 0x20, 0x77,
     0x65, 0x72, 0x65, 0x20, 0x74, 0x68, 0x65, 0x20, 0x62, 0x6f, 0x72, 0x6f, 0x67, 0x6f, 0x76, 0x65,
     0x73, 0x2c, 0x0a, 0x41, 0x6e, 0x64, 0x20, 0x74, 0x68, 0x65, 0x20, 0x6d, 0x6f, 0x6d, 0x65, 0x20,
     0x72, 0x61, 0x74, 0x68, 0x73, 0x20, 0x6f, 0x75, 0x74, 0x67, 0x72, 0x61, 0x62, 0x65, 0x2e]]"

definition poly1305_test_data_len :: "nat list" where
  "poly1305_test_data_len = [34, 127]"

definition poly1305_test_mac :: "bytes list" where
  "poly1305_test_mac =
   [[0xa8, 0x06, 0x1d, 0xc1, 0x30, 0x51, 0x36, 0xc6, 0xc2, 0x2b, 0x8b, 0xaf, 0x0c, 0x01, 0x27, 0xa9],
    [0x45, 0x41, 0x66, 0x9a, 0x7e, 0xaa, 0xee, 0x61, 0xe7, 0x08, 0xdc, 0x7c, 0xbc, 0xc5, 0xeb, 0x62]]"

definition chachapoly_test_key :: "bytes list" where
  "chachapoly_test_key =
   [[0x80, 0x81, 0x82, 0x83, 0x84, 0x85, 0x86, 0x87, 0x88, 0x89, 0x8a, 0x8b, 0x8c, 0x8d, 0x8e, 0x8f,
     0x90, 0x91, 0x92, 0x93, 0x94, 0x95, 0x96, 0x97, 0x98, 0x99, 0x9a, 0x9b, 0x9c, 0x9d, 0x9e, 0x9f]]"

definition chachapoly_test_nonce :: "bytes list" where
  "chachapoly_test_nonce =
   [[0x07, 0x00, 0x00, 0x00, 0x40, 0x41, 0x42, 0x43, 0x44, 0x45, 0x46, 0x47]]"

definition chachapoly_test_aad :: "bytes list" where
  "chachapoly_test_aad =
   [[0x50, 0x51, 0x52, 0x53, 0xc0, 0xc1, 0xc2, 0xc3, 0xc4, 0xc5, 0xc6, 0xc7]]"

definition chachapoly_test_aad_len :: "nat list" where
  "chachapoly_test_aad_len = [12]"

definition chachapoly_test_input :: "bytes list" where
  "chachapoly_test_input =
   [[0x4c, 0x61, 0x64, 0x69, 0x65, 0x73, 0x20, 0x61, 0x6e, 0x64, 0x20, 0x47, 0x65, 0x6e, 0x74, 0x6c,
     0x65, 0x6d, 0x65, 0x6e, 0x20, 0x6f, 0x66, 0x20, 0x74, 0x68, 0x65, 0x20, 0x63, 0x6c, 0x61, 0x73,
     0x73, 0x20, 0x6f, 0x66, 0x20, 0x27, 0x39, 0x39, 0x3a, 0x20, 0x49, 0x66, 0x20, 0x49, 0x20, 0x63,
     0x6f, 0x75, 0x6c, 0x64, 0x20, 0x6f, 0x66, 0x66, 0x65, 0x72, 0x20, 0x79, 0x6f, 0x75, 0x20, 0x6f,
     0x6e, 0x6c, 0x79, 0x20, 0x6f, 0x6e, 0x65, 0x20, 0x74, 0x69, 0x70, 0x20, 0x66, 0x6f, 0x72, 0x20,
     0x74, 0x68, 0x65, 0x20, 0x66, 0x75, 0x74, 0x75, 0x72, 0x65, 0x2c, 0x20, 0x73, 0x75, 0x6e, 0x73,
     0x63, 0x72, 0x65, 0x65, 0x6e, 0x20, 0x77, 0x6f, 0x75, 0x6c, 0x64, 0x20, 0x62, 0x65, 0x20, 0x69,
     0x74, 0x2e]]"

definition chachapoly_test_output :: "bytes list" where
  "chachapoly_test_output =
   [[0xd3, 0x1a, 0x8d, 0x34, 0x64, 0x8e, 0x60, 0xdb, 0x7b, 0x86, 0xaf, 0xbc, 0x53, 0xef, 0x7e, 0xc2,
     0xa4, 0xad, 0xed, 0x51, 0x29, 0x6e, 0x08, 0xfe, 0xa9, 0xe2, 0xb5, 0xa7, 0x36, 0xee, 0x62, 0xd6,
     0x3d, 0xbe, 0xa4, 0x5e, 0x8c, 0xa9, 0x67, 0x12, 0x82, 0xfa, 0xfb, 0x69, 0xda, 0x92, 0x72, 0x8b,
     0x1a, 0x71, 0xde, 0x0a, 0x9e, 0x06, 0x0b, 0x29, 0x05, 0xd6, 0xa5, 0xb6, 0x7e, 0xcd, 0x3b, 0x36,
     0x92, 0xdd, 0xbd, 0x7f, 0x2d, 0x77, 0x8b, 0x8c, 0x98, 0x03, 0xae, 0xe3, 0x28, 0x09, 0x1b, 0x58,
     0xfa, 0xb3, 0x24, 0xe4, 0xfa, 0xd6, 0x75, 0x94, 0x55, 0x85, 0x80, 0x8b, 0x48, 0x31, 0xd7, 0xbc,
     0x3f, 0xf4, 0xde, 0xf0, 0x8e, 0x4b, 0x7a, 0x9d, 0xe5, 0x76, 0xd2, 0x65, 0x86, 0xce, 0xc6, 0x4b,
     0x61, 0x16]]"

definition chachapoly_test_input_len :: "nat list" where
  "chachapoly_test_input_len = [114]"

definition chachapoly_test_mac :: "bytes list" where
  "chachapoly_test_mac =
   [[0x1a, 0xe1, 0x0b, 0x59, 0x4f, 0x09, 0xe2, 0x6a, 0x7e, 0x90, 0x2e, 0xcb, 0xd0, 0x60, 0x06, 0x91]]"

section \<open>The self tests\<close>

text \<open>\<^verbatim>\<open>ASSERT\<close>: the first condition that does not hold makes the test return -1.  What is printed is left out.\<close>

fun assert_all :: "bool list \<Rightarrow> int" where
  "assert_all [] = 0"
| "assert_all (cond # conds) = (if \<not> cond then -1 else assert_all conds)"

definition mbedtls_chacha20_self_test :: int where
  "mbedtls_chacha20_self_test =
     assert_all (map (\<lambda>i.
       let size = chacha20_test_lengths ! i;
           output = mbedtls_chacha20_crypt (chacha20_test_keys ! i) (chacha20_test_nonces ! i) (chacha20_test_counters ! i)
             (take size (chacha20_test_input ! i))
       in take size output = take size (chacha20_test_output ! i)) [0, 1])"

definition mbedtls_poly1305_self_test :: int where
  "mbedtls_poly1305_self_test =
     assert_all (map (\<lambda>i.
       let mac = mbedtls_poly1305_mac (poly1305_test_keys ! i) (take (poly1305_test_data_len ! i) (poly1305_test_data ! i))
       in take 16 mac = poly1305_test_mac ! i) [0, 1])"

definition mbedtls_chachapoly_self_test :: int where
  "mbedtls_chachapoly_self_test =
     assert_all (concat (map (\<lambda>i.
       let size = chachapoly_test_input_len ! i;
           ctx = mbedtls_chachapoly_setkey mbedtls_chachapoly_init (chachapoly_test_key ! i)
       in case mbedtls_chachapoly_encrypt_and_tag ctx (chachapoly_test_nonce ! i)
                 (take (chachapoly_test_aad_len ! i) (chachapoly_test_aad ! i)) (take size (chachapoly_test_input ! i)) of
            Inl _ \<Rightarrow> [False]
          | Inr (_, output, mac) \<Rightarrow>
              [take size output = take size (chachapoly_test_output ! i), take 16 mac = chachapoly_test_mac ! i]) [0]))"

section \<open>ChaCha20\<close>

text \<open>The key stream from a start, block by block.\<close>

fun stream_bytes :: "nat \<Rightarrow> u32 list \<Rightarrow> bytes" where
  "stream_bytes 0 st = []"
| "stream_bytes (Suc n) st = chacha20_block st @ stream_bytes n (incr_counter st)"

lemma stream_bytes_numeral:
  "stream_bytes (numeral k) st = chacha20_block st @ stream_bytes (pred_numeral k) (incr_counter st)"
  by (simp add: numeral_eq_Suc)

lemma nat_le_numeral: "nat_le (numeral k) v = of_nat v # nat_le (pred_numeral k) (v div 256)"
  by (metis nat_le.simps(2) numeral_eq_Suc)

lemma length_incr_counter [simp]: "length (incr_counter st) = length st"
  by (simp add: incr_counter_def)

lemma length_stream_bytes: "length st = 16 \<Longrightarrow> length (stream_bytes n st) = 64 * n"
  by (induction n arbitrary: st) (simp_all add: length_chacha20_block)

lemma key_stream_bytes: "length st = 16 \<Longrightarrow> key_stream st = stream_bytes n st @- key_stream ((incr_counter ^^ n) st)"
proof (induction n arbitrary: st)
  case (Suc n)
  then show ?case using key_stream_unfold [of st] by (simp add: funpow_swap1)
qed simp

definition start_state :: "bytes \<Rightarrow> bytes \<Rightarrow> u32 \<Rightarrow> u32 list" where
  "start_state key nonce ctr = cc_state (chacha20_keyed key nonce ctr)"

lemma length_start_state [simp]: "length (start_state key nonce ctr) = 16"
  using keyed_invar [of key nonce ctr] by (simp add: start_state_def cc_invar_def)

lemma remaining_start: "remaining (chacha20_keyed key nonce ctr) = key_stream (start_state key nonce ctr)"
  by (simp add: remaining_def start_state_def chacha20_keyed_def mbedtls_chacha20_starts_def CHACHA20_BLOCK_SIZE_BYTES_def)

lemma crypt_blocks:
  assumes "length bs \<le> 64 * n"
  shows "mbedtls_chacha20_crypt key nonce ctr bs = map2 (XOR) bs (stream_bytes n (start_state key nonce ctr))"
  using assms chacha20_update_stream [OF keyed_invar, of key nonce ctr bs]
    xor_stream_shift [of bs "stream_bytes n (start_state key nonce ctr)"] key_stream_bytes [of "start_state key nonce ctr" n]
  by (simp add: mbedtls_chacha20_crypt_def remaining_start length_stream_bytes)

lemmas start_simps = start_state_def chacha20_keyed_def mbedtls_chacha20_starts_def mbedtls_chacha20_setkey_def
  mbedtls_chacha20_init_def get_u32_le_def incr_counter_def CHACHA20_CTR_INDEX_def upt_rec

text \<open>The key stream of the first vector, and the six blocks of the second.\<close>

lemma block_zero:
  "chacha20_block [0x61707865, 0x3320646e, 0x79622d32, 0x6b206574, 0x00000000, 0x00000000, 0x00000000, 0x00000000, 0x00000000, 0x00000000, 0x00000000, 0x00000000, 0x00000000, 0x00000000, 0x00000000, 0x00000000] =
   [0x76, 0xb8, 0xe0, 0xad, 0xa0, 0xf1, 0x3d, 0x90, 0x40, 0x5d, 0x6a, 0xe5, 0x53, 0x86, 0xbd, 0x28,
    0xbd, 0xd2, 0x19, 0xb8, 0xa0, 0x8d, 0xed, 0x1a, 0xa8, 0x36, 0xef, 0xcc, 0x8b, 0x77, 0x0d, 0xc7,
    0xda, 0x41, 0x59, 0x7c, 0x51, 0x57, 0x48, 0x8d, 0x77, 0x24, 0xe0, 0x3f, 0xb8, 0xd8, 0x4a, 0x37,
    0x6a, 0x43, 0xb8, 0xf4, 0x15, 0x18, 0xa1, 0x1c, 0xc3, 0x87, 0xb6, 0x69, 0xb2, 0xee, 0x65, 0x86]"
  by (rule trans [OF chacha20_block_bits]) (simp, code_simp)

lemma block_ietf_1:
  "chacha20_block [0x61707865, 0x3320646e, 0x79622d32, 0x6b206574, 0x00000000, 0x00000000, 0x00000000, 0x00000000, 0x00000000, 0x00000000, 0x00000000, 0x01000000, 0x00000001, 0x00000000, 0x00000000, 0x02000000] =
   [0xe2, 0x95, 0x89, 0x5d, 0x80, 0x8f, 0x4d, 0xb3, 0x26, 0x44, 0x1f, 0xcb, 0x51, 0xec, 0x53, 0x04,
    0x2e, 0x40, 0x29, 0xf7, 0x2a, 0x6f, 0x1e, 0xf8, 0xd8, 0xb9, 0x0c, 0x74, 0x25, 0x0d, 0x30, 0x82,
    0x4e, 0xf2, 0xf0, 0xab, 0xb1, 0x0b, 0x09, 0x61, 0xa0, 0x96, 0xf3, 0x74, 0x98, 0xbd, 0x04, 0x77,
    0x67, 0xfc, 0xe3, 0xa2, 0x28, 0xc5, 0xe3, 0xf9, 0x39, 0x92, 0x11, 0xba, 0x2b, 0xd4, 0x49, 0x64]"
  by (rule trans [OF chacha20_block_bits]) (simp, code_simp)

lemma block_ietf_2:
  "chacha20_block [0x61707865, 0x3320646e, 0x79622d32, 0x6b206574, 0x00000000, 0x00000000, 0x00000000, 0x00000000, 0x00000000, 0x00000000, 0x00000000, 0x01000000, 0x00000002, 0x00000000, 0x00000000, 0x02000000] =
   [0x23, 0x23, 0x94, 0x4e, 0xea, 0x82, 0xcc, 0x9b, 0x38, 0x6b, 0xd4, 0x84, 0x86, 0xf0, 0x2b, 0x7c,
    0x00, 0xc6, 0x89, 0xa9, 0x7d, 0xf8, 0xee, 0xc1, 0xe6, 0x72, 0x41, 0x62, 0x47, 0x17, 0x2d, 0x16,
    0x62, 0xf4, 0x94, 0x03, 0x16, 0xaa, 0xc7, 0x60, 0x60, 0x6a, 0xf7, 0x5b, 0x7d, 0x87, 0x35, 0x3c,
    0x07, 0x76, 0x45, 0x07, 0x6c, 0xe5, 0xe4, 0x64, 0xd9, 0x12, 0x6d, 0x3f, 0xe9, 0xc7, 0x88, 0x29]"
  by (rule trans [OF chacha20_block_bits]) (simp, code_simp)

lemma block_ietf_3:
  "chacha20_block [0x61707865, 0x3320646e, 0x79622d32, 0x6b206574, 0x00000000, 0x00000000, 0x00000000, 0x00000000, 0x00000000, 0x00000000, 0x00000000, 0x01000000, 0x00000003, 0x00000000, 0x00000000, 0x02000000] =
   [0xa4, 0x6e, 0xf0, 0x2c, 0x80, 0xea, 0x1c, 0xa4, 0xf6, 0x0f, 0xca, 0x61, 0x43, 0xb1, 0xbd, 0x0f,
    0x36, 0x23, 0xa1, 0x03, 0x0d, 0x8c, 0x66, 0xc1, 0x3f, 0x20, 0xc4, 0x97, 0x43, 0xb6, 0x5d, 0xe9,
    0xe4, 0xdd, 0xb6, 0xff, 0xd5, 0xe4, 0x4c, 0xd8, 0x7c, 0x89, 0x91, 0xd7, 0x08, 0x05, 0x9d, 0x41,
    0x90, 0x5c, 0x21, 0x42, 0x87, 0x05, 0x2f, 0xa7, 0xfe, 0x14, 0x5b, 0xa7, 0xf7, 0xd6, 0x83, 0x59]"
  by (rule trans [OF chacha20_block_bits]) (simp, code_simp)

lemma block_ietf_4:
  "chacha20_block [0x61707865, 0x3320646e, 0x79622d32, 0x6b206574, 0x00000000, 0x00000000, 0x00000000, 0x00000000, 0x00000000, 0x00000000, 0x00000000, 0x01000000, 0x00000004, 0x00000000, 0x00000000, 0x02000000] =
   [0x6d, 0x15, 0xed, 0xcd, 0x0d, 0xa9, 0x1b, 0xab, 0x1b, 0xde, 0x58, 0x2e, 0xba, 0xba, 0x46, 0x7b,
    0xda, 0xa3, 0x50, 0xfe, 0x41, 0x75, 0x53, 0x18, 0x7b, 0xa7, 0xeb, 0x9c, 0x48, 0xc9, 0xe3, 0x4c,
    0xbf, 0x4e, 0xce, 0xeb, 0x5c, 0x14, 0xac, 0x45, 0x43, 0x53, 0xdc, 0xe1, 0xb2, 0xf6, 0x81, 0xf1,
    0xc5, 0xdb, 0x25, 0xf3, 0x16, 0xf8, 0xd5, 0xdd, 0xd1, 0x42, 0x86, 0x9c, 0x7d, 0xdd, 0x2e, 0x65]"
  by (rule trans [OF chacha20_block_bits]) (simp, code_simp)

lemma block_ietf_5:
  "chacha20_block [0x61707865, 0x3320646e, 0x79622d32, 0x6b206574, 0x00000000, 0x00000000, 0x00000000, 0x00000000, 0x00000000, 0x00000000, 0x00000000, 0x01000000, 0x00000005, 0x00000000, 0x00000000, 0x02000000] =
   [0xb7, 0xef, 0x3e, 0xee, 0x05, 0x39, 0x72, 0xbb, 0x01, 0x2f, 0x55, 0x4c, 0xed, 0x61, 0xff, 0xa9,
    0xe5, 0xc4, 0xe8, 0x4f, 0xf1, 0xc0, 0x1c, 0xa0, 0x98, 0x40, 0x38, 0xbb, 0x38, 0xfd, 0x32, 0x3f,
    0x2f, 0x1b, 0xa3, 0x26, 0xb1, 0xdd, 0x51, 0x83, 0x0e, 0x9c, 0x72, 0x99, 0xa4, 0xbf, 0x65, 0x01,
    0xca, 0xce, 0x92, 0x43, 0xac, 0xdf, 0xc0, 0xf2, 0x76, 0x59, 0x90, 0xd2, 0xf4, 0xef, 0x95, 0x87]"
  by (rule trans [OF chacha20_block_bits]) (simp, code_simp)

lemma block_ietf_6:
  "chacha20_block [0x61707865, 0x3320646e, 0x79622d32, 0x6b206574, 0x00000000, 0x00000000, 0x00000000, 0x00000000, 0x00000000, 0x00000000, 0x00000000, 0x01000000, 0x00000006, 0x00000000, 0x00000000, 0x02000000] =
   [0xec, 0xa7, 0xb8, 0x37, 0xb0, 0xdf, 0xf6, 0x05, 0x13, 0x56, 0xaf, 0x5c, 0xd0, 0xd9, 0xac, 0xeb,
    0x6d, 0xca, 0xed, 0xeb, 0xa1, 0xca, 0x93, 0x2e, 0xc0, 0x18, 0x3d, 0xb5, 0x63, 0x90, 0xb4, 0x87,
    0x5a, 0xb1, 0x75, 0xbb, 0xff, 0x07, 0x01, 0xdb, 0x29, 0xe3, 0x0f, 0x56, 0x54, 0x87, 0x0e, 0x98,
    0xb7, 0x8e, 0xe5, 0x08, 0x02, 0x86, 0x4e, 0x81, 0x2c, 0xe3, 0x54, 0x26, 0xd2, 0xf7, 0x9f, 0x97]"
  by (rule trans [OF chacha20_block_bits]) (simp, code_simp)

lemma start_zero:
  "start_state (chacha20_test_keys ! 0) (chacha20_test_nonces ! 0) 0 = [0x61707865, 0x3320646e, 0x79622d32, 0x6b206574, 0x00000000, 0x00000000, 0x00000000, 0x00000000, 0x00000000, 0x00000000, 0x00000000, 0x00000000, 0x00000000, 0x00000000, 0x00000000, 0x00000000]"
  by (simp add: start_simps chacha20_test_keys_def chacha20_test_nonces_def)

lemma start_ietf:
  "start_state (chacha20_test_keys ! 1) (chacha20_test_nonces ! 1) 1 = [0x61707865, 0x3320646e, 0x79622d32, 0x6b206574, 0x00000000, 0x00000000, 0x00000000, 0x00000000, 0x00000000, 0x00000000, 0x00000000, 0x01000000, 0x00000001, 0x00000000, 0x00000000, 0x02000000]"
  by (simp add: start_simps chacha20_test_keys_def chacha20_test_nonces_def)

lemma stream_zero: "stream_bytes 1 (start_state (chacha20_test_keys ! 0) (chacha20_test_nonces ! 0) 0) = take 64 (chacha20_test_output ! 0)"
  unfolding start_zero by (simp add: block_zero chacha20_test_output_def test_row_def)

lemma crypt_zero:
  "mbedtls_chacha20_crypt (chacha20_test_keys ! 0) (chacha20_test_nonces ! 0) 0 (take 64 (chacha20_test_input ! 0)) =
   take 64 (chacha20_test_output ! 0)"
  by (subst crypt_blocks [of _ 1])
    (simp_all only: stream_zero, simp_all add: chacha20_test_input_def chacha20_test_output_def test_row_def)

lemma stream_ietf:
  "stream_bytes 6 (start_state (chacha20_test_keys ! 1) (chacha20_test_nonces ! 1) 1) =
   [0xe2, 0x95, 0x89, 0x5d, 0x80, 0x8f, 0x4d, 0xb3, 0x26, 0x44, 0x1f, 0xcb, 0x51, 0xec, 0x53, 0x04,
    0x2e, 0x40, 0x29, 0xf7, 0x2a, 0x6f, 0x1e, 0xf8, 0xd8, 0xb9, 0x0c, 0x74, 0x25, 0x0d, 0x30, 0x82,
    0x4e, 0xf2, 0xf0, 0xab, 0xb1, 0x0b, 0x09, 0x61, 0xa0, 0x96, 0xf3, 0x74, 0x98, 0xbd, 0x04, 0x77,
    0x67, 0xfc, 0xe3, 0xa2, 0x28, 0xc5, 0xe3, 0xf9, 0x39, 0x92, 0x11, 0xba, 0x2b, 0xd4, 0x49, 0x64,
    0x23, 0x23, 0x94, 0x4e, 0xea, 0x82, 0xcc, 0x9b, 0x38, 0x6b, 0xd4, 0x84, 0x86, 0xf0, 0x2b, 0x7c,
    0x00, 0xc6, 0x89, 0xa9, 0x7d, 0xf8, 0xee, 0xc1, 0xe6, 0x72, 0x41, 0x62, 0x47, 0x17, 0x2d, 0x16,
    0x62, 0xf4, 0x94, 0x03, 0x16, 0xaa, 0xc7, 0x60, 0x60, 0x6a, 0xf7, 0x5b, 0x7d, 0x87, 0x35, 0x3c,
    0x07, 0x76, 0x45, 0x07, 0x6c, 0xe5, 0xe4, 0x64, 0xd9, 0x12, 0x6d, 0x3f, 0xe9, 0xc7, 0x88, 0x29,
    0xa4, 0x6e, 0xf0, 0x2c, 0x80, 0xea, 0x1c, 0xa4, 0xf6, 0x0f, 0xca, 0x61, 0x43, 0xb1, 0xbd, 0x0f,
    0x36, 0x23, 0xa1, 0x03, 0x0d, 0x8c, 0x66, 0xc1, 0x3f, 0x20, 0xc4, 0x97, 0x43, 0xb6, 0x5d, 0xe9,
    0xe4, 0xdd, 0xb6, 0xff, 0xd5, 0xe4, 0x4c, 0xd8, 0x7c, 0x89, 0x91, 0xd7, 0x08, 0x05, 0x9d, 0x41,
    0x90, 0x5c, 0x21, 0x42, 0x87, 0x05, 0x2f, 0xa7, 0xfe, 0x14, 0x5b, 0xa7, 0xf7, 0xd6, 0x83, 0x59,
    0x6d, 0x15, 0xed, 0xcd, 0x0d, 0xa9, 0x1b, 0xab, 0x1b, 0xde, 0x58, 0x2e, 0xba, 0xba, 0x46, 0x7b,
    0xda, 0xa3, 0x50, 0xfe, 0x41, 0x75, 0x53, 0x18, 0x7b, 0xa7, 0xeb, 0x9c, 0x48, 0xc9, 0xe3, 0x4c,
    0xbf, 0x4e, 0xce, 0xeb, 0x5c, 0x14, 0xac, 0x45, 0x43, 0x53, 0xdc, 0xe1, 0xb2, 0xf6, 0x81, 0xf1,
    0xc5, 0xdb, 0x25, 0xf3, 0x16, 0xf8, 0xd5, 0xdd, 0xd1, 0x42, 0x86, 0x9c, 0x7d, 0xdd, 0x2e, 0x65,
    0xb7, 0xef, 0x3e, 0xee, 0x05, 0x39, 0x72, 0xbb, 0x01, 0x2f, 0x55, 0x4c, 0xed, 0x61, 0xff, 0xa9,
    0xe5, 0xc4, 0xe8, 0x4f, 0xf1, 0xc0, 0x1c, 0xa0, 0x98, 0x40, 0x38, 0xbb, 0x38, 0xfd, 0x32, 0x3f,
    0x2f, 0x1b, 0xa3, 0x26, 0xb1, 0xdd, 0x51, 0x83, 0x0e, 0x9c, 0x72, 0x99, 0xa4, 0xbf, 0x65, 0x01,
    0xca, 0xce, 0x92, 0x43, 0xac, 0xdf, 0xc0, 0xf2, 0x76, 0x59, 0x90, 0xd2, 0xf4, 0xef, 0x95, 0x87,
    0xec, 0xa7, 0xb8, 0x37, 0xb0, 0xdf, 0xf6, 0x05, 0x13, 0x56, 0xaf, 0x5c, 0xd0, 0xd9, 0xac, 0xeb,
    0x6d, 0xca, 0xed, 0xeb, 0xa1, 0xca, 0x93, 0x2e, 0xc0, 0x18, 0x3d, 0xb5, 0x63, 0x90, 0xb4, 0x87,
    0x5a, 0xb1, 0x75, 0xbb, 0xff, 0x07, 0x01, 0xdb, 0x29, 0xe3, 0x0f, 0x56, 0x54, 0x87, 0x0e, 0x98,
    0xb7, 0x8e, 0xe5, 0x08, 0x02, 0x86, 0x4e, 0x81, 0x2c, 0xe3, 0x54, 0x26, 0xd2, 0xf7, 0x9f, 0x97]"
  unfolding start_ietf
  by (simp add: stream_bytes_numeral incr_counter_def CHACHA20_CTR_INDEX_def
      block_ietf_1 block_ietf_2 block_ietf_3 block_ietf_4 block_ietf_5 block_ietf_6)

lemma crypt_ietf:
  "mbedtls_chacha20_crypt (chacha20_test_keys ! 1) (chacha20_test_nonces ! 1) 1 (take 375 (chacha20_test_input ! 1)) =
   take 375 (chacha20_test_output ! 1)"
  by (subst crypt_blocks [of _ 6])
    (simp_all only: stream_ietf, simp_all add: chacha20_test_input_def chacha20_test_output_def test_row_def)

section \<open>Poly1305\<close>

lemma mac_spec: "length key = 32 \<Longrightarrow> mbedtls_poly1305_mac key msg = poly1305_spec key msg"
  using finish_updates [of key "[msg]"] by (simp add: mbedtls_poly1305_mac_def)

text \<open>Reducing by \<open>2 ^ 130 = 5\<close> first.\<close>

definition mod_P1305 :: "nat \<Rightarrow> nat" where
  "mod_P1305 x = (take_bit 130 x + 5 * drop_bit 130 x) mod P1305"

lemma mod_P1305: "x mod P1305 = mod_P1305 x"
proof -
  have "x = take_bit 130 x + 5 * drop_bit 130 x + P1305 * drop_bit 130 x"
    using bits_ident [of 130 x] unfolding push_bit_eq_mult by (simp add: P1305_def)
  then have "x mod P1305 = (take_bit 130 x + 5 * drop_bit 130 x + P1305 * drop_bit 130 x) mod P1305" by simp
  then show ?thesis by (simp add: mod_P1305_def)
qed

lemma poly_eval_fold:
  "msg \<noteq> [] \<Longrightarrow> poly_eval r acc msg = poly_eval r (mod_P1305 ((acc + le_nat (take 16 msg @ [1])) * r)) (drop 16 msg)"
  by (simp add: poly_eval_step mod_P1305)

lemmas poly_simps = poly1305_spec_def poly_eval_fold mod_P1305_def P1305_def clamp_r_def nat_le_numeral

lemma mac_forum: "mbedtls_poly1305_mac (poly1305_test_keys ! 0) (take 34 (poly1305_test_data ! 0)) = poly1305_test_mac ! 0"
  by (subst mac_spec) (simp_all add: poly1305_test_keys_def poly1305_test_data_def poly1305_test_mac_def test_row_def poly_simps)

lemma mac_jabberwocky: "mbedtls_poly1305_mac (poly1305_test_keys ! 1) (take 127 (poly1305_test_data ! 1)) = poly1305_test_mac ! 1"
  by (subst mac_spec) (simp_all add: poly1305_test_keys_def poly1305_test_data_def poly1305_test_mac_def test_row_def poly_simps)

section \<open>ChaCha20-Poly1305\<close>

lemma block_aead_0:
  "chacha20_block [0x61707865, 0x3320646e, 0x79622d32, 0x6b206574, 0x83828180, 0x87868584, 0x8b8a8988, 0x8f8e8d8c, 0x93929190, 0x97969594, 0x9b9a9998, 0x9f9e9d9c, 0x00000000, 0x00000007, 0x43424140, 0x47464544] =
   [0x7b, 0xac, 0x2b, 0x25, 0x2d, 0xb4, 0x47, 0xaf, 0x09, 0xb6, 0x7a, 0x55, 0xa4, 0xe9, 0x55, 0x84,
    0x0a, 0xe1, 0xd6, 0x73, 0x10, 0x75, 0xd9, 0xeb, 0x2a, 0x93, 0x75, 0x78, 0x3e, 0xd5, 0x53, 0xff,
    0xa2, 0x7e, 0xcc, 0xde, 0xad, 0xdb, 0x4d, 0xb4, 0xd1, 0x17, 0x9c, 0xe4, 0xc9, 0x0b, 0x43, 0xd8,
    0xbc, 0xb7, 0x94, 0x8c, 0x4b, 0x4b, 0x7d, 0x8b, 0x7d, 0xf6, 0x27, 0x39, 0x32, 0xa4, 0x69, 0x16]"
  by (rule trans [OF chacha20_block_bits]) (simp, code_simp)

lemma block_aead_1:
  "chacha20_block [0x61707865, 0x3320646e, 0x79622d32, 0x6b206574, 0x83828180, 0x87868584, 0x8b8a8988, 0x8f8e8d8c, 0x93929190, 0x97969594, 0x9b9a9998, 0x9f9e9d9c, 0x00000001, 0x00000007, 0x43424140, 0x47464544] =
   [0x9f, 0x7b, 0xe9, 0x5d, 0x01, 0xfd, 0x40, 0xba, 0x15, 0xe2, 0x8f, 0xfb, 0x36, 0x81, 0x0a, 0xae,
    0xc1, 0xc0, 0x88, 0x3f, 0x09, 0x01, 0x6e, 0xde, 0xdd, 0x8a, 0xd0, 0x87, 0x55, 0x82, 0x03, 0xa5,
    0x4e, 0x9e, 0xcb, 0x38, 0xac, 0x8e, 0x5e, 0x2b, 0xb8, 0xda, 0xb2, 0x0f, 0xfa, 0xdb, 0x52, 0xe8,
    0x75, 0x04, 0xb2, 0x6e, 0xbe, 0x69, 0x6d, 0x4f, 0x60, 0xa4, 0x85, 0xcf, 0x11, 0xb8, 0x1b, 0x59]"
  by (rule trans [OF chacha20_block_bits]) (simp, code_simp)

lemma block_aead_2:
  "chacha20_block [0x61707865, 0x3320646e, 0x79622d32, 0x6b206574, 0x83828180, 0x87868584, 0x8b8a8988, 0x8f8e8d8c, 0x93929190, 0x97969594, 0x9b9a9998, 0x9f9e9d9c, 0x00000002, 0x00000007, 0x43424140, 0x47464544] =
   [0xfc, 0xb1, 0xc4, 0x5f, 0x42, 0x19, 0xee, 0xac, 0xec, 0x6a, 0xde, 0xc3, 0x4e, 0x66, 0x69, 0x78,
    0x8e, 0xdb, 0x41, 0xc4, 0x9c, 0xa3, 0x01, 0xe1, 0x27, 0xe0, 0xac, 0xab, 0x3b, 0x44, 0xb9, 0xcf,
    0x5c, 0x86, 0xbb, 0x95, 0xe0, 0x6b, 0x0d, 0xf2, 0x90, 0x1a, 0xb6, 0x45, 0xe4, 0xab, 0xe6, 0x22,
    0x15, 0x38, 0x0c, 0x03, 0xce, 0x35, 0x6c, 0xd7, 0xa6, 0x76, 0x63, 0xfb, 0xdd, 0xef, 0xff, 0x64]"
  by (rule trans [OF chacha20_block_bits]) (simp, code_simp)

lemma start_aead:
  "start_state (chachapoly_test_key ! 0) (chachapoly_test_nonce ! 0) 0 = [0x61707865, 0x3320646e, 0x79622d32, 0x6b206574, 0x83828180, 0x87868584, 0x8b8a8988, 0x8f8e8d8c, 0x93929190, 0x97969594, 0x9b9a9998, 0x9f9e9d9c, 0x00000000, 0x00000007, 0x43424140, 0x47464544]"
  by (simp add: start_simps chachapoly_test_key_def chachapoly_test_nonce_def)

lemma stake_blocks: "length st = 16 \<Longrightarrow> stake 64 (key_stream st) = chacha20_block st"
  using key_stream_unfold [of st] by (simp add: stake_shift length_chacha20_block)

lemma sdrop_blocks: "length st = 16 \<Longrightarrow> sdrop 64 (key_stream st) = key_stream (incr_counter st)"
  using key_stream_unfold [of st] by (simp add: sdrop_shift length_chacha20_block)

lemma aead_xor_blocks:
  assumes "length bs \<le> 64 * n"
  shows "aead_xor key nonce bs = map2 (XOR) bs (stream_bytes n (incr_counter (start_state key nonce 0)))"
  using assms xor_stream_shift [of bs "stream_bytes n (incr_counter (start_state key nonce 0))"]
    key_stream_bytes [of "incr_counter (start_state key nonce 0)" n]
  by (simp add: aead_xor_def remaining_start sdrop_blocks length_stream_bytes)

lemma aead_stream:
  "stream_bytes 2 (incr_counter (start_state (chachapoly_test_key ! 0) (chachapoly_test_nonce ! 0) 0)) =
   [0x9f, 0x7b, 0xe9, 0x5d, 0x01, 0xfd, 0x40, 0xba, 0x15, 0xe2, 0x8f, 0xfb, 0x36, 0x81, 0x0a, 0xae,
    0xc1, 0xc0, 0x88, 0x3f, 0x09, 0x01, 0x6e, 0xde, 0xdd, 0x8a, 0xd0, 0x87, 0x55, 0x82, 0x03, 0xa5,
    0x4e, 0x9e, 0xcb, 0x38, 0xac, 0x8e, 0x5e, 0x2b, 0xb8, 0xda, 0xb2, 0x0f, 0xfa, 0xdb, 0x52, 0xe8,
    0x75, 0x04, 0xb2, 0x6e, 0xbe, 0x69, 0x6d, 0x4f, 0x60, 0xa4, 0x85, 0xcf, 0x11, 0xb8, 0x1b, 0x59,
    0xfc, 0xb1, 0xc4, 0x5f, 0x42, 0x19, 0xee, 0xac, 0xec, 0x6a, 0xde, 0xc3, 0x4e, 0x66, 0x69, 0x78,
    0x8e, 0xdb, 0x41, 0xc4, 0x9c, 0xa3, 0x01, 0xe1, 0x27, 0xe0, 0xac, 0xab, 0x3b, 0x44, 0xb9, 0xcf,
    0x5c, 0x86, 0xbb, 0x95, 0xe0, 0x6b, 0x0d, 0xf2, 0x90, 0x1a, 0xb6, 0x45, 0xe4, 0xab, 0xe6, 0x22,
    0x15, 0x38, 0x0c, 0x03, 0xce, 0x35, 0x6c, 0xd7, 0xa6, 0x76, 0x63, 0xfb, 0xdd, 0xef, 0xff, 0x64]"
  unfolding start_aead
  by (simp add: stream_bytes_numeral incr_counter_def CHACHA20_CTR_INDEX_def block_aead_1 block_aead_2)

lemma aead_ciphertext:
  "aead_xor (chachapoly_test_key ! 0) (chachapoly_test_nonce ! 0) (take 114 (chachapoly_test_input ! 0)) = chachapoly_test_output ! 0"
  by (subst aead_xor_blocks [of _ 2])
    (simp_all only: aead_stream, simp_all add: chachapoly_test_input_def chachapoly_test_output_def)

lemma replicate_numeral_unfold: "replicate (numeral k) x = x # replicate (pred_numeral k) x"
  by (simp add: numeral_eq_Suc)

lemma aead_message:
  "take 12 (chachapoly_test_aad ! 0) @ pad_zeroes (of_nat (length (take 12 (chachapoly_test_aad ! 0)))) @
   chachapoly_test_output ! 0 @ pad_zeroes (of_nat (length (chachapoly_test_output ! 0))) @
   put_u64_le (of_nat (length (take 12 (chachapoly_test_aad ! 0)))) @ put_u64_le (of_nat (length (chachapoly_test_output ! 0))) =
   [0x50, 0x51, 0x52, 0x53, 0xc0, 0xc1, 0xc2, 0xc3, 0xc4, 0xc5, 0xc6, 0xc7, 0x00, 0x00, 0x00, 0x00,
    0xd3, 0x1a, 0x8d, 0x34, 0x64, 0x8e, 0x60, 0xdb, 0x7b, 0x86, 0xaf, 0xbc, 0x53, 0xef, 0x7e, 0xc2,
    0xa4, 0xad, 0xed, 0x51, 0x29, 0x6e, 0x08, 0xfe, 0xa9, 0xe2, 0xb5, 0xa7, 0x36, 0xee, 0x62, 0xd6,
    0x3d, 0xbe, 0xa4, 0x5e, 0x8c, 0xa9, 0x67, 0x12, 0x82, 0xfa, 0xfb, 0x69, 0xda, 0x92, 0x72, 0x8b,
    0x1a, 0x71, 0xde, 0x0a, 0x9e, 0x06, 0x0b, 0x29, 0x05, 0xd6, 0xa5, 0xb6, 0x7e, 0xcd, 0x3b, 0x36,
    0x92, 0xdd, 0xbd, 0x7f, 0x2d, 0x77, 0x8b, 0x8c, 0x98, 0x03, 0xae, 0xe3, 0x28, 0x09, 0x1b, 0x58,
    0xfa, 0xb3, 0x24, 0xe4, 0xfa, 0xd6, 0x75, 0x94, 0x55, 0x85, 0x80, 0x8b, 0x48, 0x31, 0xd7, 0xbc,
    0x3f, 0xf4, 0xde, 0xf0, 0x8e, 0x4b, 0x7a, 0x9d, 0xe5, 0x76, 0xd2, 0x65, 0x86, 0xce, 0xc6, 0x4b,
    0x61, 0x16, 0x00, 0x00, 0x00, 0x00, 0x00, 0x00, 0x00, 0x00, 0x00, 0x00, 0x00, 0x00, 0x00, 0x00,
    0x0c, 0x00, 0x00, 0x00, 0x00, 0x00, 0x00, 0x00, 0x72, 0x00, 0x00, 0x00, 0x00, 0x00, 0x00, 0x00]"
  by (simp add: chachapoly_test_aad_def chachapoly_test_output_def pad_zeroes_def put_u64_le_def replicate_numeral_unfold)

lemma aead_mac:
  "aead_tag (chachapoly_test_key ! 0) (chachapoly_test_nonce ! 0) (take 12 (chachapoly_test_aad ! 0)) (chachapoly_test_output ! 0) =
   chachapoly_test_mac ! 0"
proof -
  have key: "stake 64 (remaining (chacha20_keyed (chachapoly_test_key ! 0) (chachapoly_test_nonce ! 0) 0)) =
    chacha20_block (start_state (chachapoly_test_key ! 0) (chachapoly_test_nonce ! 0) 0)"
    by (simp add: remaining_start stake_blocks)
  show ?thesis
    unfolding aead_tag_def aead_message key start_aead block_aead_0
    by (simp add: poly_simps chachapoly_test_mac_def)
qed

section \<open>All self tests pass\<close>

text \<open>
  C14: the modelled ChaCha20, Poly1305 and ChaCha20-Poly1305 pass the self tests of the library: on every test vector of
  RFC 8439 that the sources contain they give the expected bytes, so each test returns 0.
\<close>

theorem self_tests_pass:
  "mbedtls_chacha20_self_test = 0 \<and> mbedtls_poly1305_self_test = 0 \<and> mbedtls_chachapoly_self_test = 0"
proof (intro conjI)
  show "mbedtls_chacha20_self_test = 0"
    using crypt_zero crypt_ietf
    by (simp add: mbedtls_chacha20_self_test_def Let_def chacha20_test_lengths_def chacha20_test_counters_def)
  show "mbedtls_poly1305_self_test = 0"
    using mac_forum mac_jabberwocky
    by (simp add: mbedtls_poly1305_self_test_def Let_def poly1305_test_data_len_def) (simp add: poly1305_test_mac_def)
  obtain ctx where "mbedtls_chachapoly_encrypt_and_tag
      (mbedtls_chachapoly_setkey mbedtls_chachapoly_init (chachapoly_test_key ! 0)) (chachapoly_test_nonce ! 0)
      (take 12 (chachapoly_test_aad ! 0)) (take 114 (chachapoly_test_input ! 0)) =
    Inr (ctx, chachapoly_test_output ! 0, chachapoly_test_mac ! 0)"
    using encrypt_keyed aead_ciphertext aead_mac by metis
  then show "mbedtls_chachapoly_self_test = 0"
    by (simp add: mbedtls_chachapoly_self_test_def Let_def chachapoly_test_input_len_def chachapoly_test_aad_len_def)
      (simp add: chachapoly_test_mac_def)
qed

end
