(* ===== verification/Mbedtls_Common.thy ===== *)
theory Mbedtls_Common
  imports Chachapoly
begin

text \<open>
  \<^verbatim>\<open>src/mbedtls_extras/common.h\<close>: the macros that read and write integers of 16, 32 and 64 bits at an offset of a byte array,
  in both byte orders, as they are written there, and the offset of a pointer that may be null.  What is written is read back, nothing else of the array changes, and the
  accesses of the cipher models are these macros.
\<close>

section \<open>The macros\<close>

definition MBEDTLS_BYTE_0 :: "'a::len word \<Rightarrow> u8" where "MBEDTLS_BYTE_0 x = ucast (x AND 0xff)"
definition MBEDTLS_BYTE_1 :: "'a::len word \<Rightarrow> u8" where "MBEDTLS_BYTE_1 x = ucast (drop_bit 8 x AND 0xff)"
definition MBEDTLS_BYTE_2 :: "'a::len word \<Rightarrow> u8" where "MBEDTLS_BYTE_2 x = ucast (drop_bit 16 x AND 0xff)"
definition MBEDTLS_BYTE_3 :: "'a::len word \<Rightarrow> u8" where "MBEDTLS_BYTE_3 x = ucast (drop_bit 24 x AND 0xff)"
definition MBEDTLS_BYTE_4 :: "'a::len word \<Rightarrow> u8" where "MBEDTLS_BYTE_4 x = ucast (drop_bit 32 x AND 0xff)"
definition MBEDTLS_BYTE_5 :: "'a::len word \<Rightarrow> u8" where "MBEDTLS_BYTE_5 x = ucast (drop_bit 40 x AND 0xff)"
definition MBEDTLS_BYTE_6 :: "'a::len word \<Rightarrow> u8" where "MBEDTLS_BYTE_6 x = ucast (drop_bit 48 x AND 0xff)"
definition MBEDTLS_BYTE_7 :: "'a::len word \<Rightarrow> u8" where "MBEDTLS_BYTE_7 x = ucast (drop_bit 56 x AND 0xff)"

definition MBEDTLS_GET_UINT32_BE :: "bytes \<Rightarrow> nat \<Rightarrow> u32" where
  "MBEDTLS_GET_UINT32_BE data offset =
     push_bit 24 (ucast (data ! offset)) OR push_bit 16 (ucast (data ! (offset + 1))) OR
     push_bit 8 (ucast (data ! (offset + 2))) OR ucast (data ! (offset + 3))"

definition MBEDTLS_PUT_UINT32_BE :: "u32 \<Rightarrow> bytes \<Rightarrow> nat \<Rightarrow> bytes" where
  "MBEDTLS_PUT_UINT32_BE n data offset =
     data[offset := MBEDTLS_BYTE_3 n, offset + 1 := MBEDTLS_BYTE_2 n, offset + 2 := MBEDTLS_BYTE_1 n, offset + 3 := MBEDTLS_BYTE_0 n]"

definition MBEDTLS_GET_UINT32_LE :: "bytes \<Rightarrow> nat \<Rightarrow> u32" where
  "MBEDTLS_GET_UINT32_LE data offset =
     ucast (data ! offset) OR push_bit 8 (ucast (data ! (offset + 1))) OR
     push_bit 16 (ucast (data ! (offset + 2))) OR push_bit 24 (ucast (data ! (offset + 3)))"

definition MBEDTLS_PUT_UINT32_LE :: "u32 \<Rightarrow> bytes \<Rightarrow> nat \<Rightarrow> bytes" where
  "MBEDTLS_PUT_UINT32_LE n data offset =
     data[offset := MBEDTLS_BYTE_0 n, offset + 1 := MBEDTLS_BYTE_1 n, offset + 2 := MBEDTLS_BYTE_2 n, offset + 3 := MBEDTLS_BYTE_3 n]"

text \<open>A byte is shifted as an \<^verbatim>\<open>int\<close>: no bit of it is lost.\<close>

definition MBEDTLS_GET_UINT16_LE :: "bytes \<Rightarrow> nat \<Rightarrow> u16" where
  "MBEDTLS_GET_UINT16_LE data offset = ucast (data ! offset) OR push_bit 8 (ucast (data ! (offset + 1)))"

definition MBEDTLS_PUT_UINT16_LE :: "u16 \<Rightarrow> bytes \<Rightarrow> nat \<Rightarrow> bytes" where
  "MBEDTLS_PUT_UINT16_LE n data offset = data[offset := MBEDTLS_BYTE_0 n, offset + 1 := MBEDTLS_BYTE_1 n]"

definition MBEDTLS_GET_UINT16_BE :: "bytes \<Rightarrow> nat \<Rightarrow> u16" where
  "MBEDTLS_GET_UINT16_BE data offset = push_bit 8 (ucast (data ! offset)) OR ucast (data ! (offset + 1))"

definition MBEDTLS_PUT_UINT16_BE :: "u16 \<Rightarrow> bytes \<Rightarrow> nat \<Rightarrow> bytes" where
  "MBEDTLS_PUT_UINT16_BE n data offset = data[offset := MBEDTLS_BYTE_1 n, offset + 1 := MBEDTLS_BYTE_0 n]"

definition MBEDTLS_GET_UINT64_BE :: "bytes \<Rightarrow> nat \<Rightarrow> u64" where
  "MBEDTLS_GET_UINT64_BE data offset =
     push_bit 56 (ucast (data ! offset)) OR push_bit 48 (ucast (data ! (offset + 1))) OR
     push_bit 40 (ucast (data ! (offset + 2))) OR push_bit 32 (ucast (data ! (offset + 3))) OR
     push_bit 24 (ucast (data ! (offset + 4))) OR push_bit 16 (ucast (data ! (offset + 5))) OR
     push_bit 8 (ucast (data ! (offset + 6))) OR ucast (data ! (offset + 7))"

definition MBEDTLS_PUT_UINT64_BE :: "u64 \<Rightarrow> bytes \<Rightarrow> nat \<Rightarrow> bytes" where
  "MBEDTLS_PUT_UINT64_BE n data offset =
     data[offset := MBEDTLS_BYTE_7 n, offset + 1 := MBEDTLS_BYTE_6 n, offset + 2 := MBEDTLS_BYTE_5 n, offset + 3 := MBEDTLS_BYTE_4 n,
          offset + 4 := MBEDTLS_BYTE_3 n, offset + 5 := MBEDTLS_BYTE_2 n, offset + 6 := MBEDTLS_BYTE_1 n, offset + 7 := MBEDTLS_BYTE_0 n]"

definition MBEDTLS_GET_UINT64_LE :: "bytes \<Rightarrow> nat \<Rightarrow> u64" where
  "MBEDTLS_GET_UINT64_LE data offset =
     push_bit 56 (ucast (data ! (offset + 7))) OR push_bit 48 (ucast (data ! (offset + 6))) OR
     push_bit 40 (ucast (data ! (offset + 5))) OR push_bit 32 (ucast (data ! (offset + 4))) OR
     push_bit 24 (ucast (data ! (offset + 3))) OR push_bit 16 (ucast (data ! (offset + 2))) OR
     push_bit 8 (ucast (data ! (offset + 1))) OR ucast (data ! offset)"

definition MBEDTLS_PUT_UINT64_LE :: "u64 \<Rightarrow> bytes \<Rightarrow> nat \<Rightarrow> bytes" where
  "MBEDTLS_PUT_UINT64_LE n data offset =
     data[offset := MBEDTLS_BYTE_0 n, offset + 1 := MBEDTLS_BYTE_1 n, offset + 2 := MBEDTLS_BYTE_2 n, offset + 3 := MBEDTLS_BYTE_3 n,
          offset + 4 := MBEDTLS_BYTE_4 n, offset + 5 := MBEDTLS_BYTE_5 n, offset + 6 := MBEDTLS_BYTE_6 n, offset + 7 := MBEDTLS_BYTE_7 n]"

text \<open>A pointer is \<open>None\<close> when it is null, and else the address it holds.\<close>

definition mbedtls_buffer_offset :: "nat option \<Rightarrow> nat \<Rightarrow> nat option" where
  "mbedtls_buffer_offset p n = (case p of None \<Rightarrow> None | Some a \<Rightarrow> Some (a + n))"

definition mbedtls_buffer_offset_const :: "nat option \<Rightarrow> nat \<Rightarrow> nat option" where
  "mbedtls_buffer_offset_const p n = (case p of None \<Rightarrow> None | Some a \<Rightarrow> Some (a + n))"

lemma buffer_offset_steps:
  "mbedtls_buffer_offset (mbedtls_buffer_offset p n) k = mbedtls_buffer_offset p (n + k)"
  "mbedtls_buffer_offset p n = None \<longleftrightarrow> p = None" "mbedtls_buffer_offset_const p n = mbedtls_buffer_offset p n"
  by (auto simp: mbedtls_buffer_offset_def mbedtls_buffer_offset_const_def split: option.split)

lemmas byte_defs = MBEDTLS_BYTE_0_def MBEDTLS_BYTE_1_def MBEDTLS_BYTE_2_def MBEDTLS_BYTE_3_def
  MBEDTLS_BYTE_4_def MBEDTLS_BYTE_5_def MBEDTLS_BYTE_6_def MBEDTLS_BYTE_7_def

section \<open>Bits of the bytes\<close>

lemma and_byte: "x AND 0xff = take_bit 8 (x :: 'a::len word)"
proof -
  have "(0xff :: 'a word) = mask 8" by (simp add: mask_eq_exp_minus_1)
  then show ?thesis by (simp only: take_bit_eq_mask)
qed

lemma bit_bytes:
  fixes n :: "'a::len word"
  shows "bit (MBEDTLS_BYTE_0 n) i \<longleftrightarrow> i < 8 \<and> bit n i" "bit (MBEDTLS_BYTE_1 n) i \<longleftrightarrow> i < 8 \<and> bit n (8 + i)"
    "bit (MBEDTLS_BYTE_2 n) i \<longleftrightarrow> i < 8 \<and> bit n (16 + i)" "bit (MBEDTLS_BYTE_3 n) i \<longleftrightarrow> i < 8 \<and> bit n (24 + i)"
    "bit (MBEDTLS_BYTE_4 n) i \<longleftrightarrow> i < 8 \<and> bit n (32 + i)" "bit (MBEDTLS_BYTE_5 n) i \<longleftrightarrow> i < 8 \<and> bit n (40 + i)"
    "bit (MBEDTLS_BYTE_6 n) i \<longleftrightarrow> i < 8 \<and> bit n (48 + i)" "bit (MBEDTLS_BYTE_7 n) i \<longleftrightarrow> i < 8 \<and> bit n (56 + i)"
  by (auto simp: byte_defs and_byte bit_simps dest: bit_imp_le_length)

lemma byte_cases:
  assumes "i < (64 :: nat)"
  obtains "i < 8" | "8 \<le> i" "i < 16" | "16 \<le> i" "i < 24" | "24 \<le> i" "i < 32" | "32 \<le> i" "i < 40" | "40 \<le> i" "i < 48"
    | "48 \<le> i" "i < 56" | "56 \<le> i" "i < 64"
  using assms by linarith

lemma words_of_bytes:
  fixes n16 :: u16 and n32 :: u32 and n64 :: u64
  shows "ucast (MBEDTLS_BYTE_0 n16) OR push_bit 8 (ucast (MBEDTLS_BYTE_1 n16)) = n16"
    and "ucast (MBEDTLS_BYTE_0 n32) OR push_bit 8 (ucast (MBEDTLS_BYTE_1 n32)) OR push_bit 16 (ucast (MBEDTLS_BYTE_2 n32)) OR
      push_bit 24 (ucast (MBEDTLS_BYTE_3 n32)) = n32"
    and "push_bit 56 (ucast (MBEDTLS_BYTE_7 n64)) OR push_bit 48 (ucast (MBEDTLS_BYTE_6 n64)) OR push_bit 40 (ucast (MBEDTLS_BYTE_5 n64)) OR
      push_bit 32 (ucast (MBEDTLS_BYTE_4 n64)) OR push_bit 24 (ucast (MBEDTLS_BYTE_3 n64)) OR push_bit 16 (ucast (MBEDTLS_BYTE_2 n64)) OR
      push_bit 8 (ucast (MBEDTLS_BYTE_1 n64)) OR ucast (MBEDTLS_BYTE_0 n64) = n64"
proof -
  show "ucast (MBEDTLS_BYTE_0 n16) OR push_bit 8 (ucast (MBEDTLS_BYTE_1 n16)) = n16"
    by (rule bit_word_eqI) (auto simp: bit_simps bit_bytes)
  show "ucast (MBEDTLS_BYTE_0 n32) OR push_bit 8 (ucast (MBEDTLS_BYTE_1 n32)) OR push_bit 16 (ucast (MBEDTLS_BYTE_2 n32)) OR
      push_bit 24 (ucast (MBEDTLS_BYTE_3 n32)) = n32"
  proof (rule bit_word_eqI)
    fix i assume "i < LENGTH(32)"
    then have "i < 64" "i < 32" by simp_all
    then show "bit (ucast (MBEDTLS_BYTE_0 n32) OR push_bit 8 (ucast (MBEDTLS_BYTE_1 n32)) OR push_bit 16 (ucast (MBEDTLS_BYTE_2 n32)) OR
      push_bit 24 (ucast (MBEDTLS_BYTE_3 n32)) :: u32) i = bit n32 i"
      by (cases i rule: byte_cases) (auto simp: bit_simps bit_bytes)
  qed
  show "push_bit 56 (ucast (MBEDTLS_BYTE_7 n64)) OR push_bit 48 (ucast (MBEDTLS_BYTE_6 n64)) OR push_bit 40 (ucast (MBEDTLS_BYTE_5 n64)) OR
      push_bit 32 (ucast (MBEDTLS_BYTE_4 n64)) OR push_bit 24 (ucast (MBEDTLS_BYTE_3 n64)) OR push_bit 16 (ucast (MBEDTLS_BYTE_2 n64)) OR
      push_bit 8 (ucast (MBEDTLS_BYTE_1 n64)) OR ucast (MBEDTLS_BYTE_0 n64) = n64"
  proof (rule bit_word_eqI)
    fix i assume "i < LENGTH(64)"
    then have "i < 64" by simp
    then show "bit (push_bit 56 (ucast (MBEDTLS_BYTE_7 n64)) OR push_bit 48 (ucast (MBEDTLS_BYTE_6 n64)) OR push_bit 40 (ucast (MBEDTLS_BYTE_5 n64)) OR
      push_bit 32 (ucast (MBEDTLS_BYTE_4 n64)) OR push_bit 24 (ucast (MBEDTLS_BYTE_3 n64)) OR push_bit 16 (ucast (MBEDTLS_BYTE_2 n64)) OR
      push_bit 8 (ucast (MBEDTLS_BYTE_1 n64)) OR ucast (MBEDTLS_BYTE_0 n64) :: u64) i = bit n64 i"
      by (cases i rule: byte_cases) (auto simp: bit_simps bit_bytes)
  qed
qed

section \<open>Reading back\<close>

lemmas put_defs = MBEDTLS_PUT_UINT16_LE_def MBEDTLS_PUT_UINT16_BE_def MBEDTLS_PUT_UINT32_LE_def MBEDTLS_PUT_UINT32_BE_def
  MBEDTLS_PUT_UINT64_LE_def MBEDTLS_PUT_UINT64_BE_def

lemma get_put_16:
  assumes "offset + 2 \<le> length data"
  shows "MBEDTLS_GET_UINT16_LE (MBEDTLS_PUT_UINT16_LE n data offset) offset = n"
    "MBEDTLS_GET_UINT16_BE (MBEDTLS_PUT_UINT16_BE n data offset) offset = n"
  using assms words_of_bytes(1) [of n]
  by (simp_all add: MBEDTLS_GET_UINT16_LE_def MBEDTLS_GET_UINT16_BE_def put_defs or.commute)

lemma get_put_32:
  assumes "offset + 4 \<le> length data"
  shows "MBEDTLS_GET_UINT32_LE (MBEDTLS_PUT_UINT32_LE n data offset) offset = n"
    "MBEDTLS_GET_UINT32_BE (MBEDTLS_PUT_UINT32_BE n data offset) offset = n"
  using assms words_of_bytes(2) [of n]
  by (simp_all add: MBEDTLS_GET_UINT32_LE_def MBEDTLS_GET_UINT32_BE_def put_defs ac_simps)

lemma get_put_64:
  assumes "offset + 8 \<le> length data"
  shows "MBEDTLS_GET_UINT64_LE (MBEDTLS_PUT_UINT64_LE n data offset) offset = n"
    "MBEDTLS_GET_UINT64_BE (MBEDTLS_PUT_UINT64_BE n data offset) offset = n"
  using assms words_of_bytes(3) [of n]
  by (simp_all add: MBEDTLS_GET_UINT64_LE_def MBEDTLS_GET_UINT64_BE_def put_defs)

text \<open>
  Integers survive memory.  At every offset at which the integer fits into the array, for 16, 32 and 64 bits and both byte
  orders, what one of the macros stores its counterpart loads; the array keeps its length, and every byte outside of the integer its value.
\<close>

theorem byte_access:
  assumes "offset + 8 \<le> length data" and "i < offset \<or> offset + 8 \<le> i"
  shows "MBEDTLS_GET_UINT16_LE (MBEDTLS_PUT_UINT16_LE n16 data offset) offset = n16 \<and>
    MBEDTLS_GET_UINT16_BE (MBEDTLS_PUT_UINT16_BE n16 data offset) offset = n16 \<and>
    MBEDTLS_GET_UINT32_LE (MBEDTLS_PUT_UINT32_LE n32 data offset) offset = n32 \<and>
    MBEDTLS_GET_UINT32_BE (MBEDTLS_PUT_UINT32_BE n32 data offset) offset = n32 \<and>
    MBEDTLS_GET_UINT64_LE (MBEDTLS_PUT_UINT64_LE n64 data offset) offset = n64 \<and>
    MBEDTLS_GET_UINT64_BE (MBEDTLS_PUT_UINT64_BE n64 data offset) offset = n64 \<and>
    list_all (\<lambda>put. length put = length data \<and> put ! i = data ! i)
      [MBEDTLS_PUT_UINT16_LE n16 data offset, MBEDTLS_PUT_UINT16_BE n16 data offset, MBEDTLS_PUT_UINT32_LE n32 data offset,
       MBEDTLS_PUT_UINT32_BE n32 data offset, MBEDTLS_PUT_UINT64_LE n64 data offset, MBEDTLS_PUT_UINT64_BE n64 data offset]"
  using assms get_put_16 [of offset data n16] get_put_32 [of offset data n32] get_put_64 [of offset data n64]
  by (simp add: put_defs) (auto simp: nth_list_update)

theorem byte_access_witness:
  "MBEDTLS_GET_UINT32_BE (MBEDTLS_PUT_UINT32_BE 0xDEADBEEF (replicate 12 0) 3) 3 = 0xDEADBEEF \<and>
   MBEDTLS_GET_UINT64_LE (MBEDTLS_PUT_UINT64_LE 0x0123456789ABCDEF (replicate 12 0) 3) 3 = 0x0123456789ABCDEF"
  using byte_access [of 3 "replicate 12 0" 11 0 "0xDEADBEEF" "0x0123456789ABCDEF"] by simp

section \<open>The accesses of the cipher models\<close>

lemma bytes_plain:
  "MBEDTLS_BYTE_0 x = ucast x" "MBEDTLS_BYTE_1 x = ucast (drop_bit 8 x)" "MBEDTLS_BYTE_2 x = ucast (drop_bit 16 x)"
  "MBEDTLS_BYTE_3 x = ucast (drop_bit 24 x)" "MBEDTLS_BYTE_4 x = ucast (drop_bit 32 x)" "MBEDTLS_BYTE_5 x = ucast (drop_bit 40 x)"
  "MBEDTLS_BYTE_6 x = ucast (drop_bit 48 x)" "MBEDTLS_BYTE_7 x = ucast (drop_bit 56 x)"
  by (rule bit_word_eqI; auto simp: bit_bytes bit_simps)+

lemma get_u32_le_macro: "offset + 4 \<le> length data \<Longrightarrow> get_u32_le (drop offset data) = MBEDTLS_GET_UINT32_LE data offset"
  by (simp add: get_u32_le_def MBEDTLS_GET_UINT32_LE_def)

lemma put_u32_le_macro: "MBEDTLS_PUT_UINT32_LE n (pre @ replicate 4 0 @ rest) (length pre) = pre @ put_u32_le n @ rest"
  by (simp add: MBEDTLS_PUT_UINT32_LE_def put_u32_le_def bytes_plain list_update_append numeral_eq_Suc)

lemma put_u64_le_macro: "MBEDTLS_PUT_UINT64_LE n (pre @ replicate 8 0 @ rest) (length pre) = pre @ put_u64_le n @ rest"
  by (simp add: MBEDTLS_PUT_UINT64_LE_def put_u64_le_def bytes_plain list_update_append eval_nat_numeral)

end
