(* ===== verification/Mesh_Interface.thy ===== *)
theory Mesh_Interface
  imports Mesh_Tcp
begin

text \<open>
  \<^verbatim>\<open>src/meshtastic/meshtastic_interface.h\<close>: what the bridge relies on from a transport to the mesh, as a locale, and its two
  implementations: the TCP client and the placeholder of \<^verbatim>\<open>src/meshtastic/meshtastic_http.h\<close>.
\<close>

section \<open>The contract\<close>

text \<open>
  Of the interface: a text is accepted exactly while the transport is connected and its handshake complete, sending does not
  change this, and a transport that is not connected sends nothing and does not change.
\<close>

locale mesh_transport =
  fixes is_conn :: "'s \<Rightarrow> bool" and send :: "'s \<Rightarrow> bytes \<Rightarrow> 's \<times> 'o list \<times> bool"
  assumes accepted: "snd (snd (send s t)) = is_conn s"
    and stays: "is_conn (fst (send s t)) = is_conn s"
    and offline: "\<not> is_conn s \<Longrightarrow> fst (send s t) = s \<and> fst (snd (send s t)) = []"
begin

primrec send_texts :: "'s \<Rightarrow> bytes list \<Rightarrow> 's \<times> 'o list list \<times> bool list" where
  "send_texts s [] = (s, [], [])"
| "send_texts s (t # ts) =
     (let (s, out, ok) = send s t; (s, outs, oks) = send_texts s ts in (s, out # outs, ok # oks))"

text \<open>Of a run of texts either all are accepted or none, and then nothing happens.\<close>

lemma all_or_none: "snd (snd (send_texts s ts)) = replicate (length ts) (is_conn s)"
  by (induction ts arbitrary: s) (simp_all add: split_beta Let_def accepted stays)

lemma none_offline: "\<not> is_conn s \<Longrightarrow> fst (send_texts s ts) = s \<and> concat (fst (snd (send_texts s ts))) = []"
proof (induction ts)
  case (Cons t ts)
  with offline [of s t] show ?case by (simp add: split_beta Let_def)
qed simp

end

section \<open>The TCP client\<close>

interpretation tcp: mesh_transport "\<lambda>c. is_connected c link" "\<lambda>c t. send_text link rnd c t dest chan"
  by unfold_locales (simp_all add: send_text_def is_connected_def Let_def)

section \<open>The HTTP client\<close>

text \<open>A placeholder: it has no state but the callback of the interface, and its operations do nothing.\<close>

record mesh_http =
  http_on_message :: bool

definition http_connect :: "mesh_http \<Rightarrow> mesh_http \<times> bool" where
  "http_connect s = (s, False)"

definition http_disconnect :: "mesh_http \<Rightarrow> mesh_http" where
  "http_disconnect s = s"

definition http_is_connected :: "mesh_http \<Rightarrow> bool" where
  "http_is_connected s = False"

definition http_loop :: "mesh_http \<Rightarrow> mesh_http" where
  "http_loop s = s"

definition http_send_text :: "mesh_http \<Rightarrow> bytes \<Rightarrow> u32 \<Rightarrow> u8 \<Rightarrow> mesh_http \<times> tcp_out list \<times> bool" where
  "http_send_text s t dest chan = (s, [], False)"

text \<open>The default of the interface, which the placeholder keeps.\<close>

definition default_send_node_info :: "mesh_http \<Rightarrow> u32 \<Rightarrow> bytes option \<Rightarrow> bytes option \<Rightarrow> mesh_http \<times> bool" where
  "default_send_node_info s num long_name short_name = (s, False)"

interpretation http: mesh_transport http_is_connected "\<lambda>s t. http_send_text s t dest chan"
  by unfold_locales (simp_all add: http_send_text_def http_is_connected_def)

text \<open>Over the TCP client, from the contract: what is accepted of a run of texts, and what happens without a connection.\<close>

lemma tcp_texts: "snd (snd (tcp.send_texts link rnd dest chan c ts)) = replicate (length ts) (is_connected c link)"
  by (rule tcp.all_or_none)

lemma http_texts: "fst (http.send_texts dest chan s ts) = s \<and> concat (fst (snd (http.send_texts dest chan s ts))) = []"
  by (rule http.none_offline) (simp add: http_is_connected_def)

end
