(* ===== verification/Bitchat_Interface.thy ===== *)
theory Bitchat_Interface
  imports Ble_Invariant
begin

text \<open>
  \<^verbatim>\<open>src/bitchat/bitchat_interface.h\<close>: what the bridge relies on from a transport to the Bitchat mesh, as a locale, and its
  implementation by the BLE transport.
\<close>

section \<open>The contract\<close>

text \<open>
  Of the interface: speaking, as the bridge or as an identity, and announcing do not change whether the transport is active, and one that
  is not active refuses, sends nothing and does not change.  Between \<open>begin\<close> and \<open>end\<close> the transport is active.
\<close>

locale bitchat_transport =
  fixes active :: "'s \<Rightarrow> bool" and say :: "'s \<Rightarrow> bytes \<Rightarrow> 's \<times> 'o list \<times> bool"
    and say_as :: "'s \<Rightarrow> 'k \<Rightarrow> bytes \<Rightarrow> 's \<times> 'o list \<times> bool" and announce :: "'s \<Rightarrow> 'k \<Rightarrow> bytes option \<Rightarrow> 's \<times> 'o list"
    and stop :: "'s \<Rightarrow> 's \<times> 'o list"
  assumes stays: "active (fst (say s t)) = active s" "active (fst (say_as s k t)) = active s" "active (fst (announce s k n)) = active s"
    and refuses: "\<not> active s \<Longrightarrow> say s t = (s, [], False)" "\<not> active s \<Longrightarrow> say_as s k t = (s, [], False)"
      "\<not> active s \<Longrightarrow> announce s k n = (s, [])" "\<not> active s \<Longrightarrow> stop s = (s, [])"
    and stops: "\<not> active (fst (stop s))"
begin

text \<open>A run of utterances, each by the bridge or by an identity.\<close>

primrec speak :: "'s \<Rightarrow> ('k option \<times> bytes) list \<Rightarrow> 's \<times> 'o list \<times> bool list" where
  "speak s [] = (s, [], [])"
| "speak s (x # xs) =
     (let (s, out, ok) = (case fst x of None \<Rightarrow> say s (snd x) | Some k \<Rightarrow> say_as s k (snd x));
          (s, outs, oks) = speak s xs
      in (s, out @ outs, ok # oks))"

lemma speak_stays: "active (fst (speak s xs)) = active s"
proof (induction xs arbitrary: s)
  case (Cons x xs)
  then show ?case by (simp add: split_beta Let_def stays split: option.split)
qed simp

lemma speak_refused: "\<not> active s \<Longrightarrow> speak s xs = (s, [], replicate (length xs) False)"
  by (induction xs) (simp_all add: refuses split: option.split)

text \<open>After the transport has been stopped nothing is said any more, and stopping again has no effect.\<close>

lemma silent_after_stop:
  "fst (snd (speak (fst (stop s)) xs)) = []" "stop (fst (stop s)) = (fst (stop s), [])"
  using speak_refused [OF stops] refuses(4) [OF stops] by simp_all

end

section \<open>The BLE transport\<close>

lemma link_active: "link_step s s' \<Longrightarrow> ble_active s' = ble_active s"
  by (simp add: link_step_def)

interpretation ble_transport: bitchat_transport ble_active "\<lambda>s t. ble_send_text cr env t s" "\<lambda>s kp t. send_text_as cr env t (Some kp) s"
  "\<lambda>s kp name. announce_virtual cr env (Some kp) name s" "ble_end cr env"
proof unfold_locales
  fix s t kp name
  show "ble_active (fst (ble_send_text cr env t s)) = ble_active s" by (rule link_active) (rule link_ble_send_text)
  show "ble_active (fst (send_text_as cr env t (Some kp) s)) = ble_active s" by (rule link_active) (rule link_send_text_as)
  show "ble_active (fst (announce_virtual cr env (Some kp) name s)) = ble_active s" by (rule link_active) (rule link_announce_virtual)
qed (simp_all add: ble_send_text_def send_text_as_def announce_virtual_def ble_end_def split_beta Let_def)

text \<open>Over the BLE transport, from the contract.\<close>

lemma ble_silent_after_end:
  "fst (snd (ble_transport.speak cr env (fst (ble_end cr env s)) xs)) = []" "ble_end cr env (fst (ble_end cr env s)) = (fst (ble_end cr env s), [])"
  by (rule ble_transport.silent_after_stop)+

end
