(* ===== verification/Spec2Isabelle.thy ===== *)
theory Spec2Isabelle
  imports Firmware_Turns Ed25519_Points Self_Test Mbedtls_Common Mesh_Interface Bitchat_Interface
begin

text \<open>
  Verification of the firmware of the Bitchat-Meshtastic bridge.  Paths are relative to \<^verbatim>\<open>src/src/\<close> of the repository.

  \<^bold>\<open>The program.\<close>  A device that joins two radio networks.  On one side a TCP client (\<^verbatim>\<open>meshtastic/\<close>) talks to a Meshtastic
  node in framed protobuf messages; on the other a BLE transport (\<^verbatim>\<open>bitchat/\<close>) is a peer of the Bitchat mesh, with signed
  and padded packets, relaying, fragments and Noise sessions.  Between them the bridge (\<^verbatim>\<open>bridge/\<close>) drops duplicates, speaks the
  messages of a mesh node under an identity derived for the node, sends the messages of Bitchat to the mesh under the name of
  their sender, in chunks when they are long, and keeps names and identities.  \<^verbatim>\<open>main.cpp\<close> starts the network and runs
  the loop; \<^verbatim>\<open>mbedtls_extras/\<close> has the ciphers that the platform lacks.

  \<^bold>\<open>Which theory models what.\<close>
  \<^item> \<open>Bridge_Prelude\<close>: machine words, byte orders, C strings, decimal and hexadecimal printing, the type of results.
  \<^item> \<open>Mesh_Proto\<close>: \<^verbatim>\<open>meshtastic/mesh_proto.h\<close>, the encoders and parsers.
  \<^item> \<open>Mesh_Tcp\<close>: \<^verbatim>\<open>meshtastic/meshtastic_tcp.{h,cpp}\<close>, the receive state machine, handshake, node directory and sending.
  \<^item> \<open>Mesh_Interface\<close>: \<^verbatim>\<open>meshtastic/meshtastic_interface.h\<close> as a contract, and the placeholder \<^verbatim>\<open>meshtastic/meshtastic_http.h\<close>.
  \<^item> \<open>Bridge_Message\<close>, \<open>Bridge_Chunks\<close>, \<open>Bridge_Manager\<close>: \<^verbatim>\<open>bridge/message.h\<close> and \<^verbatim>\<open>bridge/bridge_manager.{h,cpp}\<close>.
  \<^item> \<open>Identity_Mapper\<close>: \<^verbatim>\<open>bridge/identity_mapper.{h,cpp}\<close>; \<open>Virtual_Identity\<close>: \<^verbatim>\<open>bridge/virtual_identity.h\<close>.
  \<^item> \<open>Bitchat_Identity\<close>: \<^verbatim>\<open>bitchat/bitchat_identity.h\<close>; \<open>Ed25519\<close> (all operations), \<open>Ed25519_Scalar\<close>,
    \<open>Ed25519_Field\<close>, \<open>Ed25519_Points\<close> (their correctness): \<^verbatim>\<open>bitchat/ed25519.h\<close>.  \<open>Bitchat_Interface\<close>: \<^verbatim>\<open>bitchat/bitchat_interface.h\<close> as a contract.
  \<^item> \<open>Noise_State\<close>, \<open>Noise_Handshake\<close>: \<^verbatim>\<open>bitchat/noise_state.h\<close> and \<^verbatim>\<open>bitchat/noise_handshake.{h,cpp}\<close>.
  \<^item> \<open>Ble_Packet\<close> (format), \<open>Ble_Fragments\<close>, \<open>Rx_Ring\<close> (receive ring), \<open>Ble_Link\<close> (sessions, sending, relaying) and \<open>Bitchat_Ble\<close>
    (handlers of packets, callbacks of the stack, begin, end and loop): \<^verbatim>\<open>bitchat/bitchat_ble.{h,cpp}\<close>.
  \<^item> \<open>Chacha20\<close>, \<open>Poly1305\<close>, \<open>Chachapoly\<close>, \<open>Hkdf\<close>: the files of these names in \<^verbatim>\<open>mbedtls_extras/\<close>; \<open>Self_Test\<close>: their self tests, with
    \<open>Chacha20_Bits\<close> to evaluate them; \<open>Mbedtls_Common\<close>: the byte macros and pointer offsets of \<^verbatim>\<open>mbedtls_extras/common.h\<close>.
  \<^item> \<open>Time_Util\<close>: \<^verbatim>\<open>utils/time_util.h\<close>.  Constants of \<^verbatim>\<open>config.h\<close> are definitions of their own name in the theory that uses them first.
  \<^item> \<open>Firmware\<close>: \<^verbatim>\<open>main.cpp\<close>, and the device: the three components with their calls and callbacks carried out.  \<open>Firmware_Delivery\<close>: one turn
    of its loop; \<open>Firmware_Turns\<close>: several turns, and two devices.

  \<^bold>\<open>Conventions.\<close>  A class is a record of its fields, and a method a function from the state to the new state, what it emits in order
  (frames, packets, deliveries, calls of a library) and its result.  Integers are words of their width; \<^verbatim>\<open>int\<close> where the code
  relies on its sign is \<open>int\<close>.  A character array is the string it holds.  One call of a handler sees one reading of \<^verbatim>\<open>millis()\<close>;
  free heap, random numbers and the state of the socket are read afresh, as functions of the number of the reading.  An answer of
  a library is an argument: SHA-256, HMAC, SHA-512 and X25519 (record \<open>crypto\<close>), the non-volatile store (\<open>nvs\<close>, \<open>kp_nvs\<close>), the
  printing of floating-point numbers (\<open>float_fmt\<close>), the resolver and the socket, the BLE stack (\<open>ble_env\<close>, \<open>connect_answer\<close>).  A result
  \<open>'a run\<close> is \<open>None\<close> when the code does not return, \<open>Some (Inl _)\<close> when it has undefined behaviour (an access out of bounds), and
  \<open>Some (Inr _)\<close> otherwise.  The two loops that need not end, the field scanner and the emptying of the receive ring, are partial functions,
  with theorems on when they return; there is no fuel.  All other recursion is total.

  \<^bold>\<open>Interfaces.\<close>  \<open>name_cache\<close> (a bounded table of names: the directory of the client and both tables of the identity mapper),
  \<open>recent_cache\<close> (a bounded memory of hashes: the duplicates of the bridge and of the relay), \<open>bounded_fifo\<close> (the receive ring),
  \<open>report_stamp\<close> (the rate limit of reports), \<open>mesh_transport\<close> and \<open>bitchat_transport\<close> (the two sides as the bridge uses them) are
  locales, interpreted by the definitions of the code.

  \<^bold>\<open>What is shown.\<close>
  \<^item> \<open>Firmware_Delivery\<close>: one turn of the main loop carries a text from a frame of the node to a signed packet to every Bitchat peer, and from
    a packet in the receive ring to a frame for the node.  \<open>Firmware_Turns\<close>: a text too long for one frame leaves in its chunks over
    the following turns, all of them; and a text of one mesh reaches another mesh through two bridges.  The sections below state the same of
    the three components one after the other, with their states independent.
  \<^item> \<open>Firmware\<close>: start-up waits at most 26 seconds; the invariant of the device from power-on.  The components have invariants of their own
    over their operations in any order: \<open>tcp_buffers_bounded\<close>, \<open>bridge_state_invariant\<close>, \<open>registry_invariant\<close>, \<open>ble_state_invariant\<close>.
  \<^item> \<open>Bridge_Manager\<close>: what each handler sends on every branch, duplicates, and that the pending chunks are a queue that is emptied in order.
    \<open>Bridge_Chunks\<close>: chunks fit a packet and carry the text.
  \<^item> \<open>Ble_Radio\<close>: texts and private messages from one transport to another, signatures, receipts.  \<open>Ble_Link\<close>: a packet is relayed once.
    \<open>Ble_Fragments\<close>: reassembly in any order.  \<open>Ble_Invariant\<close>: invariant and termination of the loop.
  \<^item> \<open>Mesh_Proto\<close>, \<open>Mesh_Tcp\<close>, \<open>Ble_Packet\<close>: what is encoded is parsed back, framed and delivered once.
  \<^item> Ciphers: Poly1305 with 32-bit limbs is the authenticator of RFC 8439, streaming ChaCha20 the one-shot cipher, HKDF the construction of
    RFC 5869; sealing and opening are inverse; the self tests pass; the two sides of a Noise handshake agree.
  \<^item> Ed25519: limb arithmetic is arithmetic modulo \<open>2 ^ 255 - 19\<close> and stays inside 64 bits; packing is canonical; scalars are reduced modulo the
    group order; adding points is the unified addition law of the twisted Edwards curve, over the type \<open>fp\<close> of field elements; decoding and encoding
    a point are inverse; and every point that signing and verifying compute is on the curve.
  \<^item> Where the code does not do what it means to, a theorem shows what it does: \<open>parse_from_radio_hangs\<close>,
    \<open>parse_from_radio_negative_memcpy\<close>, \<open>parse_node_info_encode_user\<close>, \<open>noise_failed_decrypt_desyncs\<close>, \<open>fragments_refused\<close>,
    \<open>long_message_id_overflows\<close>, \<open>huge_length_overflows\<close>, \<open>unpadded_packet_lost\<close>, \<open>other_identity_silenced\<close>,
    \<open>overlapping_producers_lose_packet\<close>, \<open>signature_scalar\<close>, \<open>chunks_lose_character\<close>, \<open>backoff_overshoots_cap\<close>, \<open>low_heap_evicts_for_nothing\<close>, and below \<open>echo_bridged_back\<close>.

  \<^bold>\<open>Not modelled.\<close>  Printing to the console; the compiler switches of \<^verbatim>\<open>common.h\<close> and \<^verbatim>\<open>noise_state.h\<close>; the allocation of callback objects
  of the BLE stack (their bodies are modelled); the memory behind pointers beyond the lengths of the arrays.  The callbacks of
  the BLE stack are atomic steps, except in \<open>Rx_Ring\<close>, where the load of an index and the store that depends on it are
  separate.  Of \<^verbatim>\<open>config.h\<close>, the port, the name of the store and the constants that no code reads have no definition.  Not shown of Ed25519:
  that the addition is associative and its third coordinate never zero (which needs that \<open>2 ^ 255 - 19\<close> is prime), and that
  the base point decodes; the code does not check the latter.  Theorems on
  signed packets therefore have as a hypothesis that the signature verifies (\<open>verified_by\<close>), where the receiver knows a key; for the signatures
  of this firmware, \<open>signature_scalar\<close> says how they differ from those of RFC 8032.  Nothing is shown on the secrecy of
  keys, which is a matter of the algorithms.
\<close>

section \<open>From the mesh to Bitchat\<close>

text \<open>
  A text of the mesh is on the air in Bitchat.  A text packet of another node, framed as the radio sends it and fed
  byte by byte to the TCP client, makes the client deliver one message; the bridge, which has not heard it before,
  answers with one utterance of exactly this text by the identity derived for the node; and the BLE transport
  sends this utterance as one signed packet of 256 bytes to every active peer.
\<close>

theorem mesh_text_reaches_bitchat:
  assumes client: "rx_state c = WAIT_START1" "config_complete c" "on_message_set c"
    and node: "frm \<noteq> my_node_id c" "frm \<noteq> bridge_node_num c" "frm \<noteq> 0"
    and what: "0 < length t" "length t \<le> 167" "is_cstr t"
    and msg: "m = \<lparr>origin = MESHTASTIC,
      sender = no_sender\<lparr>meshtastic_node_id := frm,
         display_name := (case get_node_name c frm of Some n \<Rightarrow> strncpy 31 n | None \<Rightarrow> snprintf 32 (ascii ''!'' @ hex8 frm))\<rparr>,
      mtext = t, timestamp_ms = now\<rparr>"
    and bridge: "\<not> is_duplicate s now (msg_hash m)" "master_kp s = Some master" "registry_invar cr master (virt_registry s)"
      "\<And>k. VIRT_ID_HEAP_RESERVE_BYTES < heap k" "bitchat_derive_keypair cr master frm = Some kp" "length (fingerprint kp) = 32"
    and ble: "ble_active a" "list_all (\<lambda>p. 256 \<le> peer_mtu env a p) (filter p_active (ble_peers a))"
  shows "\<exists>c' s' st' before a'.
    process_bytes ff fwd now c (wire (send_raw (from_radio_text frm dest pkt_id ch hop t))) = Some (Inr (c', [Deliver m])) \<and>
    on_meshtastic_message cr nv heap now (s, st) m = ((s', st'), before @ [Bc_send_text_as t kp]) \<and>
    send_text_as cr env t (Some kp) a =
      (a', concat (map (\<lambda>p. transmit a p (text_packet cr kp (epoch_ms env a) t)) (filter p_active (ble_peers a))), list_ex p_active (ble_peers a))"
proof -
  have "length t \<le> MESH_DATA_MAX" using what(2) by (simp add: MESH_DATA_MAX_def)
  from framed_text_delivered [OF client node(1,2) what(1) this what(3)]
  obtain c' where "process_bytes ff fwd now c (wire (send_raw (from_radio_text frm dest pkt_id ch hop t))) = Some (Inr (c', [Deliver m]))"
    unfolding msg by blast
  moreover obtain s' st' outs where step: "on_meshtastic_message cr nv heap now (s, st) m = ((s', st'), outs)" by (metis prod.exhaust)
  moreover have "\<exists>before. outs = before @ [Bc_send_text_as t kp]"
    using spoken_message [OF bridge(1,2) _ bridge(3,4) _ step, of kp] node(3) bridge(5) by (auto simp: msg)
  moreover have "\<exists>a'. send_text_as cr env t (Some kp) a =
      (a', concat (map (\<lambda>p. transmit a p (text_packet cr kp (epoch_ms env a) t)) (filter p_active (ble_peers a))), list_ex p_active (ble_peers a))"
    by (rule text_sent [OF bridge(6) what(2) ble])
  ultimately show ?thesis by blast
qed

section \<open>From Bitchat to the mesh\<close>

text \<open>
  A text of Bitchat is on its way to the mesh.  A signed message packet that arrives from a named peer makes the BLE
  transport deliver one message; the bridge, which has not heard it before and knows or has room for its
  sender, answers by sending the text under the sender's name, when it fits one packet; and the TCP client,
  when connected, writes one frame that carries all of it to the radio.
\<close>

theorem bitchat_text_reaches_mesh:
  assumes kp: "length (fingerprint kp) = 32" "list_ex (\<lambda>b. b \<noteq> 0) (take 8 (fingerprint kp))"
    and what: "0 < length t" "length t \<le> 167" "is_cstr t"
    and ble: "ble_on_message b" "find_peer b h = Some i" "entry_packet e = (text_packet cr' kp ts t, h)"
    and body: "body = packet_body kp BITCHAT_PKT_MESSAGE BITCHAT_FLAG_HAS_SIGNATURE ts (tlv_encode BITCHAT_TLV_TEXT t)"
    and ver: "verified_by cr (ble_peers b ! i) (ed25519_sign cr' body (sign_private kp)) body"
    and name: "p_nickname (ble_peers b ! i) = name" "name \<noteq> []" "is_cstr name" "length name \<le> 31" "58 \<notin> set name"
    and msg: "m = \<lparr>origin = BITCHAT,
      sender = \<lparr>meshtastic_node_id = 0, bitchat_fingerprint = take 8 (fingerprint kp) @ replicate 24 0, display_name = name\<rparr>,
      mtext = t, timestamp_ms = env_now env\<rparr>"
    and bridge: "\<not> is_duplicate s now (msg_hash m)" "distinct (map be_fingerprint (ble_names (id_mapper s)))"
      "take 8 (fingerprint kp) \<in> be_fingerprint ` set (ble_names (id_mapper s)) \<or> length (ble_names (id_mapper s)) < MAX_IDENTITY_ENTRIES"
    and tcp: "is_connected c link"
    and full: "full = ascii ''[B] '' @ name @ ascii '': '' @ t"
  shows "\<exists>b' relayed s' st' c'.
    process_incoming cr env b e = Inr (b', Deliver_message m # relayed) \<and>
    on_bitchat_message nv now (s, st) m = ((s', st'), [Mesh_send_text full]) \<and>
    send_text link rnd c full dest chan =
      (c', send_raw (encode_to_radio_packet (encode_mesh_packet_nofrom dest (generate_packet_id (packet_id_counter c) rnd) chan 3
         (encode_data PORTNUM_TEXT_MESSAGE_APP full))), True)"
proof -
  have "shown_name (ble_peers b ! i) sid = name" for sid using name by (simp add: shown_name_def strncpy_def)
  then have "\<exists>b' relayed. process_incoming cr env b e = Inr (b', Deliver_message m # relayed)"
    using text_received [OF kp(1) what(1) _ _ what(3) ble body ver, of env] what(2) by (auto simp: msg)
  moreover obtain s' st' outs where step: "on_bitchat_message nv now (s, st) m = ((s', st'), outs)" by (metis prod.exhaust)
  moreover have fit: "length full \<le> 205" "is_cstr full" using what name by (simp_all add: full ascii_def)
  moreover have "outs = [Mesh_send_text full]"
    using forwarded_message [OF bridge(1) _ _ _ name(2-5) _ _ bridge(2) _ step] bridge(3) kp what fit
    by (auto simp: msg has_bitchat_fingerprint_def MESH_DATA_MAX_def full Let_def)
  moreover have "\<exists>c'. send_text link rnd c full dest chan =
      (c', send_raw (encode_to_radio_packet (encode_mesh_packet_nofrom dest (generate_packet_id (packet_id_counter c) rnd) chan 3
         (encode_data PORTNUM_TEXT_MESSAGE_APP full))), True)"
    using tcp fit by (simp add: send_text_def MESH_DATA_MAX_def Let_def)
  ultimately show ?thesis by blast
qed

section \<open>Echoes\<close>

text \<open>A node that has an identity, and its message as it comes back from a Bitchat peer that relays it.\<close>

definition alice :: virtual_identity where
  "alice = \<lparr>vi_node_id = 7, vi_keypair = zero_keypair\<lparr>fingerprint := replicate 32 9\<rparr>, vi_last_seen_ms = 0, vi_display_name = [65]\<rparr>"

definition echo_of_hello :: bridge_message where
  "echo_of_hello = \<lparr>origin = BITCHAT, sender = no_sender\<lparr>bitchat_fingerprint := replicate 8 9 @ replicate 24 0, display_name := [65]\<rparr>,
                    mtext = [104, 105], timestamp_ms = 100100\<rparr>"


section \<open>Examples\<close>

theorem mesh_text_reaches_bitchat_witness:
  "\<exists>c' kp. process_bytes int_fmt default_forward 100000 ready_tcp
      (wire (send_raw (from_radio_text 7 MESH_BROADCAST 99 0 3 [104, 105]))) = Some (Inr (c', [Deliver
        \<lparr>origin = MESHTASTIC, sender = no_sender\<lparr>meshtastic_node_id := 7, display_name := snprintf 32 (ascii ''!'' @ hex8 7)\<rparr>,
         mtext = [104, 105], timestamp_ms = 100000\<rparr>])) \<and>
    fst (snd (send_text_as sized_crypto quiet_env [104, 105] (Some kp) one_peer)) =
      [Write_peer 9 (text_packet sized_crypto kp (epoch_ms quiet_env one_peer) [104, 105])]"
proof -
  obtain kp where kp: "bitchat_derive_keypair sized_crypto zero_keypair 7 = Some kp" "keypair_wf kp"
    using derive_keypair_result [OF sized_crypto_sizes, of zero_keypair 7] by (auto simp: sized_crypto_def)
  have c: "rx_state ready_tcp = WAIT_START1" "config_complete ready_tcp" "on_message_set ready_tcp" "7 \<noteq> my_node_id ready_tcp"
      "7 \<noteq> bridge_node_num ready_tcp" "get_node_name ready_tcp 7 = None"
    by (simp_all add: ready_tcp_def new_mesh_tcp_def get_node_name_def)
  have a: "ble_active one_peer" "list_all (\<lambda>p. 256 \<le> peer_mtu quiet_env one_peer p) (filter p_active (ble_peers one_peer))"
    by (simp_all add: example_defs)
  have r: "registry_invar sized_crypto zero_keypair (virt_registry (new_bridge (Some zero_keypair)))"
    by (simp add: new_bridge_invars registry_invar_def)
  have f: "concat (map (\<lambda>p. transmit one_peer p d) (filter p_active (ble_peers one_peer))) = [Write_peer 9 d]" for d
    by (simp add: example_defs transmit_def)
  show ?thesis
    using mesh_text_reaches_bitchat [OF c(1-5) _ _ _ _ refl new_bridge_fresh new_bridge_invars(3) r _ kp(1) _ a, of "[104, 105]" "\<lambda>_. 50000" int_fmt default_forward MESH_BROADCAST 99 0 3 cell_nvs "([], 0, [], 0)"]
      kp(2) unfolding f c(6) by (auto intro!: exI [of _ kp] simp: keypair_wf_def VIRT_ID_HEAP_RESERVE_BYTES_def)
qed

theorem bitchat_text_reaches_mesh_witness:
  "\<exists>b' relayed s' st'. process_incoming quiet_crypto quiet_env (listener\<lparr>ble_peers := [(ble_peers one_peer ! 0)\<lparr>p_nickname := [66]\<rparr>]\<rparr>)
      (rx_of (text_packet quiet_crypto (vi_keypair alice) 0 [104, 105]) 9) = Inr (b', Deliver_message
        \<lparr>origin = BITCHAT, sender = \<lparr>meshtastic_node_id = 0, bitchat_fingerprint = replicate 8 9 @ replicate 24 0, display_name = [66]\<rparr>,
         mtext = [104, 105], timestamp_ms = 100000\<rparr> # relayed) \<and>
    on_bitchat_message cell_nvs 100000 (new_bridge None, ([], 0, [], 0))
        \<lparr>origin = BITCHAT, sender = \<lparr>meshtastic_node_id = 0, bitchat_fingerprint = replicate 8 9 @ replicate 24 0, display_name = [66]\<rparr>,
         mtext = [104, 105], timestamp_ms = 100000\<rparr> = ((s', st'), [Mesh_send_text (ascii ''[B] '' @ [66] @ ascii '': '' @ [104, 105])])"
proof -
  let ?b = "listener\<lparr>ble_peers := [(ble_peers one_peer ! 0)\<lparr>p_nickname := [66]\<rparr>]\<rparr>"
  let ?e = "rx_of (text_packet quiet_crypto (vi_keypair alice) 0 [104, 105]) 9"
  have k: "length (fingerprint (vi_keypair alice)) = 32" "list_ex (\<lambda>b. b \<noteq> 0) (take 8 (fingerprint (vi_keypair alice)))"
      "take 8 (fingerprint (vi_keypair alice)) = replicate 8 9"
    by (simp_all add: alice_def list_ex_iff)
  have b: "ble_on_message ?b" "find_peer ?b 9 = Some 0" "entry_packet ?e = (text_packet quiet_crypto (vi_keypair alice) 0 [104, 105], 9)"
      "verified_by quiet_crypto (ble_peers ?b ! 0) x y" "p_nickname (ble_peers ?b ! 0) = [66]" for x y
    by (simp_all add: example_defs entry_packet_def)
  have s: "distinct (map be_fingerprint (ble_names (id_mapper (new_bridge None))))"
      "replicate 8 9 \<in> be_fingerprint ` set (ble_names (id_mapper (new_bridge None))) \<or> length (ble_names (id_mapper (new_bridge None))) < MAX_IDENTITY_ENTRIES"
    by (simp_all add: new_bridge_def new_identity_mapper_def MAX_IDENTITY_ENTRIES_def)
  have c: "is_connected ready_tcp True" by (simp add: is_connected_def ready_tcp_def new_mesh_tcp_def)
  have n: "env_now quiet_env = 100000" by (simp add: quiet_env_def)
  show ?thesis
    using bitchat_text_reaches_mesh [OF k(1,2) _ _ _ b(1-3) refl b(4,5) _ _ _ _ refl new_bridge_fresh s(1) _ c refl, of quiet_env cell_nvs "([], 0, [], 0)" 0 MESH_BROADCAST 0] s(2)
    unfolding k(3) n by auto
qed

end
